(* ===== verification/Prelude.thy ===== *)
theory Prelude
  imports Complex_Main "HOL-Library.Word"
begin

text \<open>
  Shared vocabulary of the development: the exceptions the Python code raises, the result
  type that carries them, and generic facts on lists and powers of two that several
  components use.
\<close>

section \<open>Exceptions and results\<close>

text \<open>
  A Python statement that may raise becomes a value of \<open>exn + 'a\<close>. The constructor is the
  exception class; the string is the constant part of the message (interpolated values are
  left out, no caller inspects them).
\<close>

datatype exn =
    ValueError string
  | TypeError string
  | KeyError string
  | AttributeError string
  | OverflowError string
  | IndexError string
  | StructError string
  | OSError int
  | TimeoutError string

type_synonym 'a result = "exn + 'a"

definition rbind :: "'a result \<Rightarrow> ('a \<Rightarrow> 'b result) \<Rightarrow> 'b result" where
  "rbind m f = (case m of Inl e \<Rightarrow> Inl e | Inr a \<Rightarrow> f a)"

definition ensure :: "bool \<Rightarrow> string \<Rightarrow> 'b result \<Rightarrow> 'b result" where
  "ensure c msg k = (if c then k else Inl (ValueError msg))"

named_theorems result_simps \<open>unfolding the result monad\<close>

lemma rbind_Inr [simp]: "rbind (Inr a) f = f a"
  by (simp add: rbind_def)

lemma rbind_Inl [simp]: "rbind (Inl e) f = Inl e"
  by (simp add: rbind_def)

lemma rbind_eq_Inr [result_simps]:
  "rbind m f = Inr b \<longleftrightarrow> (\<exists>a. m = Inr a \<and> f a = Inr b)"
  by (cases m) auto

lemma ensure_True [simp]: "ensure True msg k = k"
  by (simp add: ensure_def)

lemma ensure_eq_Inr [result_simps]: "ensure c msg k = Inr b \<longleftrightarrow> c \<and> k = Inr b"
  by (simp add: ensure_def)

text \<open>A value the code reads through an attribute, where \<open>None\<close> has none.\<close>

definition attribute :: "'a option \<Rightarrow> 'a result" where
  "attribute x = (case x of None \<Rightarrow> Inl (AttributeError ''NoneType'') | Some a \<Rightarrow> Inr a)"

lemma attribute_simps [simp]: "attribute (Some a) = Inr a"
  "attribute None = Inl (AttributeError ''NoneType'')"
  by (simp_all add: attribute_def)

section \<open>Step machines\<close>

text \<open>
  A program driven by one input per cycle: \<open>machine_run\<close> folds its step over the inputs and
  collects the outputs; an exception ends the run. The laws that \<open>machine\<close> asks of a step
  are an invariant kept on admissible inputs and a final region that is left alone.
\<close>

fun machine_run ::
  "('s \<Rightarrow> 'i \<Rightarrow> ('s \<times> 'o) result) \<Rightarrow> 's \<Rightarrow> 'i list \<Rightarrow> ('s \<times> 'o list) result" where
  "machine_run step s [] = Inr (s, [])"
| "machine_run step s (i # is) =
     rbind (step s i) (\<lambda>(s', out). rbind (machine_run step s' is) (\<lambda>(s'', outs). Inr (s'', out # outs)))"

lemma machine_run_Cons_Inr:
  "machine_run step s (i # is) = Inr (s'', outs) \<longleftrightarrow>
     (\<exists>s' out outs'. step s i = Inr (s', out) \<and> machine_run step s' is = Inr (s'', outs') \<and>
        outs = out # outs')"
  by (auto simp: result_simps split: prod.splits)

lemma machine_run_append:
  assumes "machine_run step s is = Inr (s', outs)"
  shows "machine_run step s (is @ js) =
    rbind (machine_run step s' js) (\<lambda>(s'', outs'). Inr (s'', outs @ outs'))"
  using assms
proof (induction "is" arbitrary: s outs)
  case Nil
  then show ?case by (cases "machine_run step s' js") auto
next
  case (Cons i "is")
  then obtain t out outs1 where "step s i = Inr (t, out)"
    "machine_run step t is = Inr (s', outs1)" "outs = out # outs1"
    by (auto simp: machine_run_Cons_Inr simp del: machine_run.simps)
  with Cons.IH [of t outs1] show ?case
    by (cases "machine_run step s' js") auto
qed

lemma machine_run_length: "machine_run step s is = Inr (s', outs) \<Longrightarrow> length outs = length is"
  by (induction "is" arbitrary: s outs) (auto simp: machine_run_Cons_Inr simp del: machine_run.simps(2))

text \<open>Runs split at their last input, and what the last step saw.\<close>

lemma machine_run_snoc:
  "machine_run step s (is @ [i]) = Inr (s'', outs) \<longleftrightarrow>
     (\<exists>s' outs' out. machine_run step s is = Inr (s', outs') \<and> step s' i = Inr (s'', out) \<and>
        outs = outs' @ [out])"
proof (induction "is" arbitrary: s outs)
  case Nil
  then show ?case by (auto simp: result_simps split: prod.splits)
next
  case (Cons j "is")
  show ?case
    unfolding append_Cons machine_run_Cons_Inr Cons.IH by (metis append_Cons)
qed

locale machine =
  fixes step :: "'s \<Rightarrow> 'i \<Rightarrow> ('s \<times> 'o) result"
    and inv :: "'s \<Rightarrow> bool"
    and admissible :: "'i \<Rightarrow> bool"
    and final :: "'s \<Rightarrow> bool"
    and out_ok :: "'o \<Rightarrow> bool"
    and quiet :: 'o
  assumes step_total: "inv s \<Longrightarrow> admissible i \<Longrightarrow> \<exists>s' out. step s i = Inr (s', out)"
    and step_inv: "inv s \<Longrightarrow> admissible i \<Longrightarrow> step s i = Inr (s', out) \<Longrightarrow> inv s' \<and> out_ok out"
    and final_step: "final s \<Longrightarrow> step s i = Inr (s, quiet)"
begin

text \<open>On admissible inputs a run never raises and ends in the invariant.\<close>

lemma run_total:
  assumes "inv s" "list_all admissible is"
  shows "\<exists>s' outs. machine_run step s is = Inr (s', outs) \<and> inv s' \<and> list_all out_ok outs \<and>
    length outs = length is"
  using assms
proof (induction "is" arbitrary: s)
  case Nil
  then show ?case by simp
next
  case (Cons i "is")
  then obtain s1 out where i: "step s i = Inr (s1, out)"
    using step_total by fastforce
  with Cons.prems have "inv s1" "out_ok out" by (auto dest: step_inv)
  moreover from this Cons obtain s2 outs where "machine_run step s1 is = Inr (s2, outs)" "inv s2"
    "list_all out_ok outs" "length outs = length is"
    by fastforce
  ultimately show ?case using i by auto
qed

lemma final_run:
  assumes "final s"
  shows "machine_run step s is = Inr (s, replicate (length is) quiet)"
  by (induction "is") (simp_all add: final_step [OF assms])

text \<open>Once final, the rest of the inputs changes nothing.\<close>

lemma run_after_final:
  assumes "machine_run step s is = Inr (s', outs)" "final s'"
  shows "machine_run step s (is @ js) = Inr (s', outs @ replicate (length js) quiet)"
  using assms by (simp add: machine_run_append final_run)

end

section \<open>Bytes\<close>

type_synonym byte = "8 word"

section \<open>Lists\<close>

lemma takeWhile_filter_id: "\<forall>x \<in> set xs. P x \<Longrightarrow> filter P xs = xs"
  by (induction xs) auto

lemma find_Some_set: "find P xs = Some x \<Longrightarrow> x \<in> set xs \<and> P x"
  by (induction xs) (auto split: if_splits)

lemma find_unique:
  assumes "x \<in> set xs" "P x" "\<And>y. y \<in> set xs \<Longrightarrow> P y \<Longrightarrow> y = x"
  shows "find P xs = Some x"
proof (cases "find P xs")
  case None
  with assms(1,2) show ?thesis by (simp add: find_None_iff)
next
  case (Some y)
  then have y: "y \<in> set xs \<and> P y" by (rule find_Some_set)
  then have "y = x" by (intro assms(3)) simp_all
  with Some show ?thesis by simp
qed

lemma sum_list_snoc: "sum_list (xs @ [x]) = sum_list xs + (x :: 'a :: comm_monoid_add)"
  by simp

section \<open>Powers of two\<close>

lemma powi_two_pos [simp]: "(0 :: real) < 2 powi e"
  by simp

lemma powi_two_mono: "e \<le> f \<Longrightarrow> (2 :: real) powi e \<le> 2 powi f"
  by (rule power_int_increasing) auto

lemma powi_two_strict: "e < f \<Longrightarrow> (2 :: real) powi e < 2 powi f"
  by (rule power_int_strict_increasing) auto

lemma powi_two_add: "(2 :: real) powi (e + f) = 2 powi e * 2 powi f"
  by (simp add: power_int_add)

lemma powi_two_diff: "(2 :: real) powi (e - f) = 2 powi e / 2 powi f"
  by (simp add: power_int_diff)

lemma powi_two_nat: "0 \<le> e \<Longrightarrow> (2 :: real) powi e = 2 ^ nat e"
  by (simp add: power_int_def)

lemma powi_two_split: "f \<le> e \<Longrightarrow> (2 :: real) powi e = 2 ^ nat (e - f) * 2 powi f"
  using powi_two_add [of "e - f" f] by (simp add: powi_two_nat)

end
