(* ===== verification/Binary64_Facts.thy ===== *)
theory Binary64_Facts
  imports Binary64
begin

text \<open>
  Facts on the binary64 model: the order of the encoding is the order of the values, and
  every rounded operation is \<^emph>\<open>faithful\<close>: it never crosses a representable number. The
  component theories use only the interface at the end (\<open>f_add_bdd\<close>, \<open>f_mul_bdd\<close>,
  \<open>f_lt_iff\<close> and their kin), never the bit patterns.
\<close>

lemmas f_field_defs = f_neg_def f_expo_def f_frac_def f_finite_def f_isnan_def f_isinf_def
  f_iszero_def f_sig_def f_ulp_def

text \<open>\<open>bitlen\<close> on numerals, digit by digit.\<close>

lemma bitlen_numeral:
  "bitlen 0 = 0" "bitlen (Suc 0) = 1" "bitlen (numeral num.One) = 1"
  "bitlen (numeral (num.Bit0 k)) = 1 + bitlen (numeral k)"
  "bitlen (numeral (num.Bit1 k)) = 1 + bitlen (numeral k)"
proof -
  have half: "(numeral (num.Bit1 k) :: nat) div 2 = numeral k"
    using numeral_div_numeral [of "num.Bit1 k" "num.Bit0 num.One"] by simp
  show "bitlen 0 = 0" "bitlen (Suc 0) = 1" "bitlen (numeral num.One) = 1"
    by (simp_all add: bitlen.simps)
  show "bitlen (numeral (num.Bit0 k)) = 1 + bitlen (numeral k)"
    by (subst bitlen.simps) simp
  show "bitlen (numeral (num.Bit1 k)) = 1 + bitlen (numeral k)"
    by (subst bitlen.simps) (simp add: half)
qed

text \<open>The fields of a literal bit pattern, with the powers of two already multiplied out.\<close>

lemma uint_numeral64:
  assumes "numeral k < (18446744073709551616 :: int)"
  shows "uint (numeral k :: 64 word) = numeral k"
proof -
  have "uint (numeral k :: 64 word) = numeral k mod 18446744073709551616"
    by (simp add: take_bit_eq_mod)
  also have "\<dots> = numeral k"
    by (rule mod_pos_pos_trivial [OF _ assms]) simp
  finally show ?thesis .
qed

lemma f_neg_eval: "f_neg x \<longleftrightarrow> 9223372036854775808 \<le> uint x" by (simp add: f_neg_def)

lemma f_expo_eval: "f_expo x = nat (uint x div 4503599627370496 mod 2048)" by (simp add: f_expo_def)

lemma f_frac_eval: "f_frac x = nat (uint x mod 4503599627370496)" by (simp add: f_frac_def)

lemma f_class_eval: "f_isnan x \<longleftrightarrow> (if f_expo x = 2047 then f_frac x \<noteq> 0 else False)"
  "f_isinf x \<longleftrightarrow> (if f_expo x = 2047 then f_frac x = 0 else False)"
  "f_iszero x \<longleftrightarrow> (if f_expo x = 0 then f_frac x = 0 else False)"
  by (simp_all add: f_isnan_def f_isinf_def f_iszero_def)

text \<open>
  The operations with every field read once, in nested \<open>let\<close>s: the rules \<open>simp\<close> evaluates
  literals with (\<open>cong: let_weak_cong\<close> keeps a bound value shared until it is a literal).
\<close>

lemma f_mul_eval: "f_mul x y =
  (let s = f_neg x; t = f_neg y; e = f_expo x; g = f_expo y; f = f_frac x; h = f_frac y
   in if e = 2047 \<and> f \<noteq> 0 \<or> g = 2047 \<and> h \<noteq> 0 then f_nan
      else if e = 2047 \<or> g = 2047 then
        (if e = 0 \<and> f = 0 \<or> g = 0 \<and> h = 0 then f_nan else f_inf (s \<noteq> t))
      else f_round (s \<noteq> t)
        ((if e = 0 then f else 4503599627370496 + f) * (if g = 0 then h else 4503599627370496 + h)) 1
        ((if e = 0 then -1074 else int e - 1075) + (if g = 0 then -1074 else int g - 1075)))"
  unfolding f_mul_def f_isnan_def f_isinf_def f_iszero_def f_sig_def f_ulp_def Let_def
  by (cases "f_expo x = 2047"; cases "f_expo y = 2047"; cases "f_expo x = 0"; cases "f_expo y = 0";
      cases "f_frac x = 0"; cases "f_frac y = 0"; simp)

definition sig_of :: "nat \<Rightarrow> nat \<Rightarrow> nat" where
  "sig_of e f = (if e = 0 then f else 4503599627370496 + f)"

definition ulp_of :: "nat \<Rightarrow> int" where
  "ulp_of e = (if e = 0 then -1074 else int e - 1075)"

lemma sig_ulp_of: "f_sig x = sig_of (f_expo x) (f_frac x)" "f_ulp x = ulp_of (f_expo x)"
  by (simp_all add: f_sig_def sig_of_def f_ulp_def ulp_of_def)

lemma f_add_eval: "f_add x y =
  (let s = f_neg x; t = f_neg y; e = f_expo x; g = f_expo y; f = f_frac x; h = f_frac y
   in if e = 2047 \<or> g = 2047 then
        (if e = 2047 \<and> f \<noteq> 0 \<or> g = 2047 \<and> h \<noteq> 0 then f_nan
         else if e = 2047 then (if g = 2047 \<and> s \<noteq> t then f_nan else x) else y)
      else if e = 0 \<and> f = 0 then (if g = 0 \<and> h = 0 then f_zero (s \<and> t) else y)
      else if g = 0 \<and> h = 0 then x
      else let p = ulp_of e; q = ulp_of g; k = min p q;
               a = (if s then -1 else 1) * int (sig_of e f) * 2 ^ nat (p - k) +
                   (if t then -1 else 1) * int (sig_of g h) * 2 ^ nat (q - k)
           in if a = 0 then f_zero (s \<and> t) else f_round (a < 0) (nat \<bar>a\<bar>) 1 k)"
  unfolding f_add_def f_scaled_def f_isnan_def f_isinf_def f_iszero_def sig_ulp_of Let_def
  by (cases "f_expo x = 2047"; cases "f_expo y = 2047"; cases "f_frac x = 0"; cases "f_frac y = 0";
      simp only: simp_thms if_True if_False)

lemma f_cmp_eval:
  "f_lt x y = (let u = uint x; v = uint y
     in \<not> f_isnan x \<and> \<not> f_isnan y \<and>
        (if 9223372036854775808 \<le> u then 9223372036854775808 - u else u) <
        (if 9223372036854775808 \<le> v then 9223372036854775808 - v else v))"
  by (simp add: f_lt_def f_key_def f_neg_eval Let_def)

lemmas f_eval = f_lit_def f_round_def flog2_def bitlen_numeral pow2_le_quot_def rne_def Let_def
  f_pack_def f_zero_def f_inf_def f_nan_def f_div_def f_mul_eval f_add_eval f_sub_def
  f_negate_def f_abs_def f_cmp_eval f_le_def f_eq_def f_key_def f_of_int_def
  f_finite_def f_sig_def f_ulp_def uint_numeral64 f_neg_eval f_expo_eval f_frac_eval f_class_eval
  sig_of_def ulp_of_def

section \<open>Magnitudes\<close>

definition f_mag :: "f64 \<Rightarrow> int" where
  "f_mag x = uint x mod 2 ^ 63"

definition mval :: "f64 \<Rightarrow> real" where
  "mval x = real (f_sig x) * 2 powi f_ulp x"

lemma uint_f64_bounds: "0 \<le> uint (x :: f64)" "uint (x :: f64) < 2 ^ 64"
  using uint_range_size [of x] by (simp_all add: word_size)

lemma uint_split: "uint x = (if f_neg x then 2 ^ 63 else 0) + f_mag x"
proof -
  have "uint x div 2 ^ 63 = (if f_neg x then 1 else 0)"
    using uint_f64_bounds [of x] unfolding f_neg_def by auto
  moreover have "uint x = uint x div 2 ^ 63 * 2 ^ 63 + uint x mod 2 ^ 63"
    by simp
  ultimately show ?thesis by (auto simp: f_mag_def)
qed

lemma f_mag_bounds: "0 \<le> f_mag x" "f_mag x < 2 ^ 63"
  by (simp_all add: f_mag_def)

lemma f_key_mag: "f_key x = (if f_neg x then - f_mag x else f_mag x)"
  by (simp add: f_key_def uint_split [of x])

lemma f_expo_mag: "int (f_expo x) = f_mag x div 2 ^ 52"
proof -
  have "uint x div 2 ^ 52 mod 2 ^ 11 = uint x mod 2 ^ 63 div 2 ^ 52"
    using zmod_zmult2_eq [of "2 ^ 11" "uint x" "2 ^ 52"] by simp
  moreover have "0 \<le> f_mag x div 2 ^ 52"
    using f_mag_bounds [of x] by simp
  ultimately show ?thesis by (simp add: f_expo_def f_mag_def)
qed

lemma f_frac_mag: "int (f_frac x) = f_mag x mod 2 ^ 52"
proof -
  have "uint x mod 2 ^ 63 mod 2 ^ 52 = uint x mod 2 ^ 52"
    by (rule mod_mod_cancel) simp
  then show ?thesis by (simp add: f_frac_def f_mag_def)
qed

lemma f_mag_fields: "f_mag x = int (f_expo x) * 2 ^ 52 + int (f_frac x)"
  by (simp add: f_expo_mag f_frac_mag)

lemma f_frac_bound: "f_frac x < 2 ^ 52"
proof -
  have "int (f_frac x) < 2 ^ 52" by (simp add: f_frac_mag)
  then show ?thesis by simp
qed

lemma f_expo_bound: "f_expo x < 2048"
proof -
  have "int (f_expo x) < 2048" using f_mag_bounds [of x] by (simp add: f_expo_mag)
  then show ?thesis by simp
qed

lemma f_sig_bound: "f_sig x < 2 ^ 53"
  using f_frac_bound [of x] by (simp add: f_sig_def)

lemma f_sig_normal: "f_ulp x \<noteq> -1074 \<Longrightarrow> 2 ^ 52 \<le> f_sig x"
  by (simp add: f_sig_def f_ulp_def split: if_splits)

lemma f_ulp_ge: "-1074 \<le> f_ulp x"
  by (simp add: f_ulp_def)

lemma f_ulp_le: "f_finite x \<Longrightarrow> f_ulp x \<le> 971"
  using f_expo_bound [of x] by (auto simp: f_ulp_def f_finite_def)

lemma mval_nonneg [simp]: "0 \<le> mval x"
  by (simp add: mval_def)

lemma fval_mval: "fval x = (if f_neg x then - mval x else mval x)"
  by (simp add: fval_def mval_def)

lemma abs_fval [simp]: "\<bar>fval x\<bar> = mval x"
  by (simp add: fval_mval)

lemma mval_mag_eq:
  assumes "f_mag x = f_mag y"
  shows "mval x = mval y"
proof -
  have "int (f_expo x) = int (f_expo y)" "int (f_frac x) = int (f_frac y)"
    using assms by (simp_all add: f_expo_mag f_frac_mag)
  then show ?thesis by (simp add: mval_def f_sig_def f_ulp_def)
qed

lemma f_ulp_expo_less:
  assumes "f_expo x < f_expo y"
  shows "mval x < mval y"
proof -
  have le: "f_ulp x + 53 \<le> f_ulp y + 52 \<or> (f_expo x = 0 \<and> f_ulp x = f_ulp y)"
    using assms by (auto simp: f_ulp_def)
  have sy: "2 ^ 52 \<le> f_sig y" using assms by (simp add: f_sig_def)
  show ?thesis
  proof (cases "f_expo x = 0 \<and> f_ulp x = f_ulp y")
    case True
    then have "f_sig x < f_sig y"
      using f_frac_bound [of x] sy by (simp add: f_sig_def)
    with True show ?thesis by (simp add: mval_def)
  next
    case False
    with le have "f_ulp x + 53 \<le> f_ulp y + 52" by simp
    then have "(2 :: real) powi (f_ulp x + 53) \<le> 2 powi (f_ulp y + 52)"
      by (rule powi_two_mono)
    moreover have "mval x < 2 ^ 53 * 2 powi f_ulp x"
      using f_sig_bound [of x] unfolding mval_def
      by (intro mult_strict_right_mono) (auto simp flip: of_nat_power)
    moreover have "2 ^ 52 * 2 powi f_ulp y \<le> mval y"
      using sy unfolding mval_def by (intro mult_right_mono) (auto simp flip: of_nat_power)
    ultimately show ?thesis by (simp add: powi_two_add powi_two_nat)
  qed
qed

lemma mval_less:
  assumes "f_mag x < f_mag y"
  shows "mval x < mval y"
proof (cases "f_expo x = f_expo y")
  case True
  with assms have "f_frac x < f_frac y" by (simp add: f_mag_fields)
  with True show ?thesis by (simp add: mval_def f_sig_def f_ulp_def)
next
  case False
  have "f_expo x \<le> f_expo y"
  proof -
    have "f_mag x div 2 ^ 52 \<le> f_mag y div 2 ^ 52"
      using assms by (intro zdiv_mono1) auto
    then show ?thesis using f_expo_mag [of x] f_expo_mag [of y] by simp
  qed
  with False have "f_expo x < f_expo y" by simp
  then show ?thesis by (rule f_ulp_expo_less)
qed

lemma mval_less_iff: "mval x < mval y \<longleftrightarrow> f_mag x < f_mag y"
  using mval_less [of x y] mval_less [of y x] mval_mag_eq [of x y]
  by (cases "f_mag x" "f_mag y" rule: linorder_cases) auto

lemma mval_le_iff: "mval x \<le> mval y \<longleftrightarrow> f_mag x \<le> f_mag y"
  using mval_less_iff [of y x] by linarith

lemma mval_zero: "mval x = 0 \<longleftrightarrow> f_mag x = 0"
proof -
  have "mval (0 :: f64) = 0" and "f_mag 0 = 0"
    by (simp_all add: mval_def f_mag_def f_sig_def f_expo_def f_frac_def)
  then show ?thesis
    using mval_le_iff [of x 0] f_mag_bounds [of x] by (auto intro: antisym)
qed

section \<open>Comparison\<close>

lemma f_key_less_iff: "f_key x < f_key y \<longleftrightarrow> fval x < fval y"
  using f_mag_bounds [of x] f_mag_bounds [of y] mval_nonneg [of x] mval_nonneg [of y]
    mval_zero [of x] mval_zero [of y] mval_less_iff [of x y] mval_less_iff [of y x]
  unfolding f_key_mag fval_mval by (auto simp del: mval_nonneg)

lemma f_key_le_iff: "f_key x \<le> f_key y \<longleftrightarrow> fval x \<le> fval y"
  using f_key_less_iff [of y x] by linarith

lemma f_key_eq_iff: "f_key x = f_key y \<longleftrightarrow> fval x = fval y"
  using f_key_less_iff [of y x] f_key_less_iff [of x y] by linarith

lemma f_finite_not_nan: "f_finite x \<Longrightarrow> \<not> f_isnan x" "f_finite x \<Longrightarrow> \<not> f_isinf x"
  by (simp_all add: f_finite_def f_isnan_def f_isinf_def)

lemma f_lt_iff: "f_finite x \<Longrightarrow> f_finite y \<Longrightarrow> f_lt x y \<longleftrightarrow> fval x < fval y"
  by (simp add: f_lt_def f_finite_not_nan f_key_less_iff)

lemma f_le_iff: "f_finite x \<Longrightarrow> f_finite y \<Longrightarrow> f_le x y \<longleftrightarrow> fval x \<le> fval y"
  by (simp add: f_le_def f_finite_not_nan f_key_le_iff)

lemma f_eq_iff: "f_finite x \<Longrightarrow> f_finite y \<Longrightarrow> f_eq x y \<longleftrightarrow> fval x = fval y"
  by (simp add: f_eq_def f_finite_not_nan f_key_eq_iff)

section \<open>Rounding to an integer and the binary logarithm\<close>

lemma rne_le:
  assumes "0 < d" "n \<le> N * d"
  shows "rne n d \<le> N"
proof (cases "n div d = N")
  case True
  with assms have "n mod d = 0"
    using div_mult_mod_eq [of n d] by auto
  with True show ?thesis using assms(1) by (simp add: rne_def)
next
  case False
  have "n div d \<le> N * d div d" using assms(2) by (rule div_le_mono)
  with assms(1) False have "n div d + 1 \<le> N" by simp
  then show ?thesis by (simp add: rne_def Let_def)
qed

lemma rne_ge:
  assumes "0 < d" "N * d \<le> n"
  shows "N \<le> rne n d"
proof -
  have "N * d div d \<le> n div d" using assms(2) by (rule div_le_mono)
  with assms(1) show ?thesis by (simp add: rne_def Let_def)
qed

lemma rne_le_real: "0 < d \<Longrightarrow> real n / real d \<le> real N \<Longrightarrow> rne n d \<le> N"
  by (rule rne_le) (simp_all add: divide_le_eq flip: of_nat_mult)

lemma rne_ge_real: "0 < d \<Longrightarrow> real N \<le> real n / real d \<Longrightarrow> N \<le> rne n d"
  by (rule rne_ge) (simp_all add: le_divide_eq flip: of_nat_mult)

lemma bitlen_bounds:
  "0 < n \<Longrightarrow> 2 powi (bitlen n - 1) \<le> real n \<and> real n < 2 powi bitlen n \<and> 1 \<le> bitlen n"
proof (induction n rule: bitlen.induct)
  case (1 n)
  show ?case
  proof (cases "n = 1")
    case True
    then show ?thesis by (simp add: bitlen.simps)
  next
    case False
    with 1 have half: "0 < n div 2" and n: "bitlen n = 1 + bitlen (n div 2)"
      by (auto simp: bitlen.simps [of n])
    with 1 have ih: "2 powi (bitlen (n div 2) - 1) \<le> real (n div 2)"
      "real (n div 2) < 2 powi bitlen (n div 2)" "1 \<le> bitlen (n div 2)" by auto
    define p where "p = nat (bitlen (n div 2))"
    have p: "bitlen (n div 2) = int p" "1 \<le> p" using ih(3) by (simp_all add: p_def)
    have "n div 2 < 2 ^ p" and "2 ^ (p - 1) \<le> n div 2"
      using ih(1,2) p by (simp_all add: powi_two_nat nat_diff_distrib flip: of_nat_power)
    moreover have "2 * (2 :: nat) ^ (p - 1) = 2 ^ p" using p(2) by (cases p) auto
    ultimately have "n < 2 * 2 ^ p" and "2 ^ p \<le> n" by linarith+
    then have "real n < real (2 * 2 ^ p)" and "real (2 ^ p) \<le> real n"
      by (simp_all only: of_nat_less_iff of_nat_le_iff)
    then show ?thesis by (simp add: n p powi_two_nat nat_add_distrib)
  qed
qed

lemma pow2_le_quot_iff:
  assumes "0 < d"
  shows "pow2_le_quot k n d \<longleftrightarrow> 2 powi k \<le> real n / real d"
proof (cases "0 \<le> k")
  case True
  with assms have "2 powi k \<le> real n / real d \<longleftrightarrow> real (d * 2 ^ nat k) \<le> real n"
    by (simp add: powi_two_nat le_divide_eq mult.commute)
  with True show ?thesis by (simp only: pow2_le_quot_def of_nat_le_iff if_True)
next
  case False
  have "(2 :: real) powi k = 1 / 2 ^ nat (- k)"
    using False by (simp add: power_int_def field_simps)
  with assms have "2 powi k \<le> real n / real d \<longleftrightarrow> real d \<le> real (n * 2 ^ nat (- k))"
    by (simp add: le_divide_eq divide_le_eq)
  with False show ?thesis by (simp only: pow2_le_quot_def of_nat_le_iff if_False)
qed

lemma flog2_bounds:
  assumes "0 < n" "0 < d"
  shows "2 powi flog2 n d \<le> real n / real d" "real n / real d < 2 powi (flog2 n d + 1)"
proof -
  define k where "k = bitlen n - bitlen d"
  have n: "2 powi (bitlen n - 1) \<le> real n" "real n < 2 powi bitlen n"
    and d: "2 powi (bitlen d - 1) \<le> real d" "real d < 2 powi bitlen d"
    using bitlen_bounds [OF assms(1)] bitlen_bounds [OF assms(2)] by auto
  have "2 powi (k - 1) * real d \<le> 2 powi (k - 1) * 2 powi bitlen d"
    using d by (intro mult_left_mono) auto
  also have "\<dots> = (2 :: real) powi (bitlen n - 1)" by (simp add: k_def flip: powi_two_add)
  finally have lo: "2 powi (k - 1) \<le> real n / real d"
    using n assms by (simp add: le_divide_eq)
  have "(2 :: real) powi bitlen n = 2 powi (k + 1) * 2 powi (bitlen d - 1)"
    by (simp add: k_def flip: powi_two_add)
  also have "\<dots> \<le> 2 powi (k + 1) * real d"
    using d by (intro mult_left_mono) auto
  finally have hi: "real n / real d < 2 powi (k + 1)"
    using n assms by (simp add: divide_less_eq)
  show "2 powi flog2 n d \<le> real n / real d"
    using lo assms(2) by (simp add: flog2_def Let_def pow2_le_quot_iff flip: k_def)
  show "real n / real d < 2 powi (flog2 n d + 1)"
    using hi assms(2) by (simp add: flog2_def Let_def pow2_le_quot_iff flip: k_def)
qed

section \<open>Packing\<close>

text \<open>Significand and exponent of a canonical finite float.\<close>

definition canonical :: "nat \<Rightarrow> int \<Rightarrow> bool" where
  "canonical m e \<longleftrightarrow> m < 2 ^ 53 \<and> -1074 \<le> e \<and> (2 ^ 52 \<le> m \<or> e = -1074)"

lemma uint_word64: "0 \<le> u \<Longrightarrow> u < 2 ^ 64 \<Longrightarrow> uint (word_of_int u :: 64 word) = u"
  by (simp add: uint_word_of_int)

lemma f_pack_mag_neg:
  assumes "uint x = (if s then 2 ^ 63 else 0) + b" "0 \<le> b" "b < 2 ^ 63"
  shows "f_neg x = s" "f_mag x = b"
  using assms by (auto simp: f_neg_def f_mag_def)

lemma f_fields_of_mag:
  assumes "f_mag x = int E * 2 ^ 52 + int F" "F < 2 ^ 52"
  shows "f_expo x = E" "f_frac x = F"
proof -
  have "int (f_expo x) = int E" unfolding f_expo_mag assms(1) using assms(2) by simp
  then show "f_expo x = E" by simp
  have "int (f_frac x) = int F" unfolding f_frac_mag assms(1) using assms(2) by simp
  then show "f_frac x = F" by simp
qed

lemma f_pack_finite:
  assumes "canonical m e" "e \<le> 971"
  shows "f_neg (f_pack s m e) = s" "f_finite (f_pack s m e)"
    "mval (f_pack s m e) = real m * 2 powi e"
proof -
  define E where "E = (if m < 2 ^ 52 then 0 else nat (e + 1075))"
  define F where "F = (if m < 2 ^ 52 then m else m - 2 ^ 52)"
  have E: "E < 2047" using assms by (auto simp: E_def canonical_def)
  have F: "F < 2 ^ 52" using assms by (auto simp: F_def canonical_def)
  have bits: "int E * 2 ^ 52 + int F < 2 ^ 63"
    using E F by simp
  have "uint (f_pack s m e) = (if s then 2 ^ 63 else 0) + (int E * 2 ^ 52 + int F)"
    using assms bits unfolding f_pack_def
    by (subst uint_word64) (auto simp: E_def F_def canonical_def)
  note magneg = f_pack_mag_neg [OF this _ bits]
  show "f_neg (f_pack s m e) = s" by (rule magneg) simp
  have "f_mag (f_pack s m e) = int E * 2 ^ 52 + int F" by (rule magneg) simp
  note fields = f_fields_of_mag [OF this F]
  show "f_finite (f_pack s m e)" using E by (simp add: f_finite_def fields)
  show "mval (f_pack s m e) = real m * 2 powi e"
    using assms by (auto simp: mval_def f_sig_def f_ulp_def fields E_def F_def canonical_def)
qed

lemma f_pack_overflow:
  assumes "2 ^ 52 \<le> m" "971 < e"
  shows "f_pack s m e = f_inf s"
  using assms by (simp add: f_pack_def f_inf_def)

lemma f_inf_facts: "f_neg (f_inf s) = s" "\<not> f_finite (f_inf s)" "\<not> f_isnan (f_inf s)"
  by (simp_all add: f_inf_def f_field_defs)

lemma f_zero_facts [simp]: "f_neg (f_zero s) = s" "f_finite (f_zero s)" "mval (f_zero s) = 0"
  "fval (f_zero s) = 0"
  by (simp_all add: f_zero_def f_field_defs mval_def fval_def)

section \<open>Rounding\<close>

text \<open>
  The rounded value is a canonical pair that never crosses a representable one: whatever
  \<open>M * 2 powi E\<close> bounds the exact value bounds the rounded one.
\<close>

definition faithful :: "real \<Rightarrow> nat \<Rightarrow> int \<Rightarrow> bool" where
  "faithful v m t \<longleftrightarrow>
     (\<forall>M E. M < 2 ^ 53 \<longrightarrow> -1074 \<le> E \<longrightarrow>
        (v \<le> real M * 2 powi E \<longrightarrow> real m * 2 powi t \<le> real M * 2 powi E) \<and>
        (real M * 2 powi E \<le> v \<longrightarrow> real M * 2 powi E \<le> real m * 2 powi t))"

lemma faithful_le: "faithful v m t \<Longrightarrow> v \<le> mval c \<Longrightarrow> real m * 2 powi t \<le> mval c"
  unfolding faithful_def mval_def using f_sig_bound [of c] f_ulp_ge [of c] by blast

lemma faithful_ge: "faithful v m t \<Longrightarrow> mval c \<le> v \<Longrightarrow> mval c \<le> real m * 2 powi t"
  unfolding faithful_def mval_def using f_sig_bound [of c] f_ulp_ge [of c] by blast

lemma below_ulp:
  assumes "M < 2 ^ 53" "E < t"
  shows "real M * 2 powi E < 2 ^ 52 * 2 powi t"
proof -
  have "real M * 2 powi E < 2 ^ 53 * 2 powi E"
    using assms(1) by (intro mult_strict_right_mono) (auto simp flip: of_nat_power)
  also have "\<dots> = 2 ^ 52 * 2 powi (E + 1)" by (simp add: powi_two_add)
  also have "\<dots> \<le> 2 ^ 52 * 2 powi t"
    using assms(2) by (intro mult_left_mono powi_two_mono) auto
  finally show ?thesis .
qed

lemma f_round_spec:
  fixes n d :: nat and e :: int
  assumes "0 < n" "0 < d"
  shows "\<exists>m t. f_round s n d e = f_pack s m t \<and> canonical m t \<and>
    faithful (real n / real d * 2 powi e) m t"
proof -
  define v where "v = real n / real d * 2 powi e"
  define t where "t = max (flog2 n d + e - 52) (-1074)"
  define num where "num = (if t \<le> e then n * 2 ^ nat (e - t) else n)"
  define den where "den = (if t \<le> e then d else d * 2 ^ nat (t - e))"
  define q where "q = rne num den"
  have den: "0 < den" using assms(2) by (simp add: den_def)
  have quot: "real num / real den * 2 powi t = v"
  proof (cases "t \<le> e")
    case True
    then show ?thesis
      using powi_two_split [of t e] by (simp add: num_def den_def v_def)
  next
    case False
    then have "(2 :: real) powi t = 2 ^ nat (t - e) * 2 powi e"
      by (intro powi_two_split) simp
    with False show ?thesis using assms(2) by (simp add: num_def den_def v_def)
  qed
  have lo: "2 powi (flog2 n d + e) \<le> v"
    unfolding v_def powi_two_add by (intro mult_right_mono flog2_bounds assms) simp
  have "v < 2 powi (flog2 n d + 1) * 2 powi e"
    unfolding v_def by (intro mult_strict_right_mono flog2_bounds assms) simp
  then have hi: "v < 2 powi (flog2 n d + e + 1)"
    by (simp add: add.commute add.left_commute flip: powi_two_add)
  have t52: "2 powi (t + 52) \<le> v" if "t \<noteq> -1074"
    using that lo by (simp add: t_def max_def split: if_splits)
  have q52: "2 ^ 52 \<le> q" if t: "t \<noteq> -1074"
  proof -
    have "2 powi 52 * 2 powi t \<le> real num / real den * 2 powi t"
      using t52 [OF t] unfolding quot by (simp add: powi_two_add mult.commute)
    then have "real (2 ^ 52) \<le> real num / real den"
      unfolding mult_le_cancel_right_pos [OF powi_two_pos] by simp
    then show ?thesis unfolding q_def by (rule rne_ge_real [OF den])
  qed
  have upper: "real q * 2 powi t \<le> real M * 2 powi E"
    if M: "M < 2 ^ 53" "-1074 \<le> E" "v \<le> real M * 2 powi E" for M E
  proof (cases "t \<le> E")
    case True
    have ME: "real M * 2 powi E = real (M * 2 ^ nat (E - t)) * 2 powi t"
      using powi_two_split [OF True] by simp
    with M(3) have "real num / real den \<le> real (M * 2 ^ nat (E - t))"
      unfolding quot [symmetric] by (simp only: ME mult_le_cancel_right_pos powi_two_pos)
    then have "q \<le> M * 2 ^ nat (E - t)" unfolding q_def by (rule rne_le_real [OF den])
    then show ?thesis
      unfolding ME by (intro mult_right_mono) (simp_all only: of_nat_le_iff powi_two_pos less_imp_le)
  next
    case False
    then have "2 powi (t + 52) \<le> v" using M(2) by (intro t52) simp
    moreover have "real M * 2 powi E < 2 powi (t + 52)"
      using below_ulp [OF M(1), of E t] False by (simp add: powi_two_add mult.commute)
    ultimately show ?thesis using M(3) by simp
  qed
  have lower: "real M * 2 powi E \<le> real q * 2 powi t"
    if M: "M < 2 ^ 53" "-1074 \<le> E" "real M * 2 powi E \<le> v" for M E
  proof (cases "t \<le> E")
    case True
    have ME: "real M * 2 powi E = real (M * 2 ^ nat (E - t)) * 2 powi t"
      using powi_two_split [OF True] by simp
    with M(3) have "real (M * 2 ^ nat (E - t)) \<le> real num / real den"
      unfolding quot [symmetric] by (simp only: ME mult_le_cancel_right_pos powi_two_pos)
    then have "M * 2 ^ nat (E - t) \<le> q" unfolding q_def by (rule rne_ge_real [OF den])
    then show ?thesis
      unfolding ME by (intro mult_right_mono) (simp_all only: of_nat_le_iff powi_two_pos less_imp_le)
  next
    case False
    with M(2) have "2 ^ 52 \<le> q" by (intro q52) simp
    then have "2 ^ 52 * 2 powi t \<le> real q * 2 powi t"
      by (intro mult_right_mono) (auto simp flip: of_nat_power)
    with below_ulp [OF M(1), of E t] False show ?thesis by linarith
  qed
  have "v \<le> real (2 ^ 52) * 2 powi (t + 1)"
  proof -
    have "(2 :: real) powi (flog2 n d + e + 1) \<le> 2 powi (52 + (t + 1))"
      by (intro powi_two_mono) (simp add: t_def)
    also have "\<dots> = real (2 ^ 52) * 2 powi (t + 1)"
      unfolding powi_two_add [of 52] by simp
    finally show ?thesis using hi by simp
  qed
  then have "real q * 2 powi t \<le> real (2 ^ 52) * 2 powi (t + 1)"
    by (intro upper) (simp_all add: t_def)
  then have q53: "q \<le> 2 ^ 53"
    by (simp add: powi_two_add)
  have t1074: "-1074 \<le> t" by (simp add: t_def)
  have round: "f_round s n d e = (if q = 2 ^ 53 then f_pack s (2 ^ 52) (t + 1) else f_pack s q t)"
    using assms(1) by (simp add: f_round_def Let_def t_def num_def den_def q_def)
  have faith: "faithful v q t" unfolding faithful_def using upper lower by blast
  show ?thesis
  proof (cases "q = 2 ^ 53")
    case True
    have "real (2 ^ 52) * 2 powi (t + 1) = real q * 2 powi t"
      by (simp add: True powi_two_add)
    with faith have "faithful v (2 ^ 52) (t + 1)" by (simp only: faithful_def)
    moreover have "canonical (2 ^ 52) (t + 1)" using t1074 by (simp add: canonical_def)
    ultimately show ?thesis unfolding v_def round using True by (intro exI conjI) auto
  next
    case False
    with q53 have "canonical q t" using t1074 q52 by (auto simp: canonical_def)
    with False faith show ?thesis unfolding v_def round by (intro exI conjI) auto
  qed
qed

lemma f_round_sign: "0 < d \<Longrightarrow> f_neg (f_round s n d e) = s"
proof (cases "n = 0")
  case False
  assume "0 < d"
  with False obtain m t where "f_round s n d e = f_pack s m t" and c: "canonical m t"
    using f_round_spec [of n d s e] by blast
  moreover have "f_neg (f_pack s m t) = s"
    using c f_pack_finite(1) [of m t s] f_pack_overflow [of m t s]
    by (cases "t \<le> 971") (auto simp: canonical_def f_inf_facts)
  ultimately show ?thesis by simp
qed (simp add: f_round_def)

lemma f_round_not_nan: "0 < d \<Longrightarrow> \<not> f_isnan (f_round s n d e)"
proof (cases "n = 0")
  case False
  assume "0 < d"
  with False obtain m t where "f_round s n d e = f_pack s m t" and c: "canonical m t"
    using f_round_spec [of n d s e] by blast
  moreover have "\<not> f_isnan (f_pack s m t)"
    using c f_pack_finite(2) [of m t s] f_pack_overflow [of m t s]
    by (cases "t \<le> 971") (auto simp: canonical_def f_inf_facts f_finite_not_nan)
  ultimately show ?thesis by simp
qed (simp add: f_round_def f_finite_not_nan)

text \<open>A finite float above the exact value bounds the rounded one, which is then finite.\<close>

lemma f_round_le:
  assumes "0 < d" "f_finite c" "real n / real d * 2 powi e \<le> mval c"
  shows "f_finite (f_round s n d e) \<and> mval (f_round s n d e) \<le> mval c"
proof (cases "n = 0")
  case False
  with assms(1) obtain m t where r: "f_round s n d e = f_pack s m t" and c: "canonical m t"
    and faith: "faithful (real n / real d * 2 powi e) m t"
    using f_round_spec [of n d s e] by blast
  have bound: "real m * 2 powi t \<le> mval c"
    using faith assms(3) by (rule faithful_le)
  have "t \<le> 971"
  proof (rule ccontr)
    assume "\<not> t \<le> 971"
    then have "2 ^ 52 \<le> m" "972 \<le> t" using c by (auto simp: canonical_def)
    then have "2 ^ 52 * 2 powi 972 \<le> real m * (2 :: real) powi t"
      by (intro mult_mono powi_two_mono) (auto simp flip: of_nat_power)
    moreover have "mval c < 2 ^ 53 * 2 powi 971"
      unfolding mval_def using f_sig_bound [of c] powi_two_mono [OF f_ulp_le [OF assms(2)]]
      by (intro mult_less_le_imp_less) (auto simp flip: of_nat_power)
    moreover have "(2 :: real) ^ 52 * 2 powi 972 = 2 ^ 53 * 2 powi 971"
      using powi_two_add [of 1 971] by simp
    ultimately show False using bound by linarith
  qed
  with c bound show ?thesis by (simp add: r f_pack_finite)
qed (simp add: f_round_def)

lemma f_round_ge:
  assumes "0 < d" "f_finite (f_round s n d e)" "mval c \<le> real n / real d * 2 powi e"
  shows "mval c \<le> mval (f_round s n d e)"
proof (cases "n = 0")
  case False
  with assms(1) obtain m t where r: "f_round s n d e = f_pack s m t" and c: "canonical m t"
    and faith: "faithful (real n / real d * 2 powi e) m t"
    using f_round_spec [of n d s e] by blast
  have "mval c \<le> real m * 2 powi t"
    using faith assms(3) by (rule faithful_ge)
  moreover have "t \<le> 971"
    using assms(2) c f_pack_overflow [of m t s] f_inf_facts(2) [of s]
    by (cases "t \<le> 971") (auto simp: r canonical_def)
  ultimately show ?thesis using c by (simp add: r f_pack_finite)
next
  case True
  with assms(3) mval_nonneg [of c] show ?thesis by (simp add: f_round_def)
qed

section \<open>The interface: bounded operations\<close>

text \<open>
  For finite operands whose exact result is bounded by a representable number, an operation
  is finite and its result lies on the same side of every representable bound as the exact
  result does.
\<close>

definition rounds_to :: "real \<Rightarrow> f64 \<Rightarrow> bool" where
  "rounds_to v r \<longleftrightarrow> f_finite r \<and>
     (\<forall>c. f_finite c \<longrightarrow> (v \<le> fval c \<longrightarrow> fval r \<le> fval c) \<and> (fval c \<le> v \<longrightarrow> fval c \<le> fval r))"

lemma rounds_to_finite: "rounds_to v r \<Longrightarrow> f_finite r"
  by (simp add: rounds_to_def)

lemma rounds_to_le: "rounds_to v r \<Longrightarrow> f_finite c \<Longrightarrow> v \<le> fval c \<Longrightarrow> fval r \<le> fval c"
  by (simp add: rounds_to_def)

lemma rounds_to_ge: "rounds_to v r \<Longrightarrow> f_finite c \<Longrightarrow> fval c \<le> v \<Longrightarrow> fval c \<le> fval r"
  by (simp add: rounds_to_def)

lemma rounds_to_exact: "rounds_to (fval c) r \<Longrightarrow> f_finite c \<Longrightarrow> fval r = fval c"
  by (meson rounds_to_le rounds_to_ge order_refl antisym)

lemma f_round_rounds_to:
  assumes "0 < d" "f_finite b" "real n / real d * 2 powi e \<le> mval b"
  shows "rounds_to ((if s then -1 else 1) * (real n / real d * 2 powi e)) (f_round s n d e)"
proof -
  define v where "v = real n / real d * 2 powi e"
  define r where "r = f_round s n d e"
  have fin: "f_finite r" and v: "0 \<le> v" and neg: "f_neg r = s"
    using f_round_le [OF assms] f_round_sign [OF assms(1)] by (simp_all add: r_def v_def)
  have le: "v \<le> mval c \<Longrightarrow> mval r \<le> mval c" if "f_finite c" for c
    using f_round_le [OF assms(1) that] by (simp add: r_def v_def)
  have ge: "mval c \<le> v \<Longrightarrow> mval c \<le> mval r" for c
    using f_round_ge [OF assms(1)] fin by (simp add: r_def v_def)
  have zero: "mval c \<le> - v \<Longrightarrow> mval r = 0 \<and> mval c = 0" for c
    using le [of "f_zero False"] v mval_nonneg [of c] mval_nonneg [of r]
    by (auto simp del: mval_nonneg)
  have "((if s then -1 else 1) * v \<le> fval c \<longrightarrow> fval r \<le> fval c) \<and>
        (fval c \<le> (if s then -1 else 1) * v \<longrightarrow> fval c \<le> fval r)" if c: "f_finite c" for c
  proof (cases s)
    case True
    then show ?thesis
      using le [OF c] ge [of c] zero [of c] neg v mval_nonneg [of c] mval_nonneg [of r]
      by (cases "f_neg c") (auto simp: fval_mval simp del: mval_nonneg)
  next
    case False
    then show ?thesis
      using le [OF c] ge [of c] zero [of c] neg v mval_nonneg [of c] mval_nonneg [of r]
      by (cases "f_neg c") (auto simp: fval_mval simp del: mval_nonneg)
  qed
  with fin show ?thesis by (simp add: rounds_to_def v_def r_def)
qed

lemma f_finite_cases: "f_finite x \<Longrightarrow> \<not> f_isnan x \<and> \<not> f_isinf x"
  by (simp add: f_finite_not_nan)

lemma f_mul_rounds_to:
  assumes "f_finite x" "f_finite y" "f_finite b" "\<bar>fval x * fval y\<bar> \<le> mval b"
  shows "rounds_to (fval x * fval y) (f_mul x y)"
proof -
  have v: "real (f_sig x * f_sig y) / real 1 * 2 powi (f_ulp x + f_ulp y) = mval x * mval y"
    by (simp add: mval_def powi_two_add)
  have "mval x * mval y \<le> mval b" using assms(4) by (simp add: abs_mult)
  then have "rounds_to ((if f_neg x \<noteq> f_neg y then -1 else 1) * (mval x * mval y))
      (f_round (f_neg x \<noteq> f_neg y) (f_sig x * f_sig y) 1 (f_ulp x + f_ulp y))"
    unfolding v [symmetric] by (intro f_round_rounds_to [OF _ assms(3)]) simp_all
  moreover have "fval x * fval y = (if f_neg x \<noteq> f_neg y then -1 else 1) * (mval x * mval y)"
    by (simp add: fval_mval)
  ultimately show ?thesis
    using assms(1,2) by (simp add: f_mul_def Let_def f_finite_not_nan)
qed

lemma f_div_rounds_to:
  assumes "f_finite x" "f_finite y" "fval y \<noteq> 0" "f_finite b" "\<bar>fval x / fval y\<bar> \<le> mval b"
  shows "rounds_to (fval x / fval y) (f_div x y)"
proof -
  have "0 < f_sig y" using assms(3) by (cases "f_sig y") (auto simp: fval_def)
  then have y: "0 < f_sig y" .
  have v: "real (f_sig x) / real (f_sig y) * 2 powi (f_ulp x - f_ulp y) = mval x / mval y"
    by (simp add: mval_def powi_two_diff)
  have "mval x / mval y \<le> mval b" using assms(5) by simp
  then have "rounds_to ((if f_neg x \<noteq> f_neg y then -1 else 1) * (mval x / mval y))
      (f_round (f_neg x \<noteq> f_neg y) (f_sig x) (f_sig y) (f_ulp x - f_ulp y))"
    unfolding v [symmetric] by (intro f_round_rounds_to [OF y assms(4)])
  moreover have "fval x / fval y = (if f_neg x \<noteq> f_neg y then -1 else 1) * (mval x / mval y)"
    by (simp add: fval_mval)
  ultimately show ?thesis
    using assms(1,2) by (simp add: f_div_def Let_def f_finite_not_nan)
qed

lemma f_scaled_val:
  assumes "e \<le> f_ulp x"
  shows "real_of_int (f_scaled x e) * 2 powi e = fval x"
  using powi_two_split [OF assms] by (simp add: f_scaled_def fval_def)

lemma f_iszero_val: "f_iszero x \<Longrightarrow> fval x = 0"
  by (simp add: f_iszero_def fval_def f_sig_def)

lemma rounds_to_refl: "f_finite x \<Longrightarrow> rounds_to (fval x) x"
  by (simp add: rounds_to_def)

lemma f_add_rounds_to:
  assumes "f_finite x" "f_finite y" "f_finite b" "\<bar>fval x + fval y\<bar> \<le> mval b"
  shows "rounds_to (fval x + fval y) (f_add x y)"
proof -
  define e where "e = min (f_ulp x) (f_ulp y)"
  define a where "a = f_scaled x e + f_scaled y e"
  have v: "real_of_int a * 2 powi e = fval x + fval y"
    using f_scaled_val [of e x] f_scaled_val [of e y] by (simp add: a_def e_def distrib_right)
  show ?thesis
  proof (cases "f_iszero x \<or> f_iszero y")
    case True
    then show ?thesis
      using assms(1,2) f_iszero_val [of x] f_iszero_val [of y] rounds_to_refl [of x] rounds_to_refl [of y]
      by (auto simp: f_add_def f_finite_not_nan rounds_to_def)
  next
    case nonzero: False
    then have r: "f_add x y = (if a = 0 then f_zero (f_neg x \<and> f_neg y)
        else f_round (a < 0) (nat \<bar>a\<bar>) 1 e)"
      using assms(1,2) by (simp add: f_add_def Let_def f_finite_not_nan a_def e_def)
    show ?thesis
    proof (cases "a = 0")
      case True
      with v have "fval x + fval y = 0" by simp
      with True show ?thesis by (simp add: r rounds_to_def)
    next
      case False
      have abs: "real (nat \<bar>a\<bar>) / real 1 * 2 powi e = \<bar>fval x + fval y\<bar>"
        unfolding v [symmetric] by (simp add: abs_mult)
      have bound: "real (nat \<bar>a\<bar>) / real 1 * 2 powi e \<le> mval b"
        unfolding abs by (rule assms(4))
      have "rounds_to ((if a < 0 then -1 else 1) * \<bar>fval x + fval y\<bar>) (f_round (a < 0) (nat \<bar>a\<bar>) 1 e)"
        using f_round_rounds_to [OF _ assms(3) bound, of "a < 0"] unfolding abs by simp
      moreover have "(if a < 0 then -1 else 1) * \<bar>fval x + fval y\<bar> = fval x + fval y"
        unfolding v [symmetric] by (simp add: abs_mult)
      ultimately show ?thesis using False by (simp add: r)
    qed
  qed
qed

lemma f_negate_facts:
  "f_neg (f_negate x) \<longleftrightarrow> \<not> f_neg x" "f_mag (f_negate x) = f_mag x"
proof -
  have "uint (f_negate x) = (if f_neg x then 0 else 2 ^ 63) + f_mag x"
    using f_mag_bounds [of x]
    by (auto simp: f_negate_def uint_word_ariths uint_split [of x])
  moreover have "(if f_neg x then 0 else 2 ^ 63) = (if \<not> f_neg x then 2 ^ 63 else (0 :: int))"
    by simp
  ultimately have u: "uint (f_negate x) = (if \<not> f_neg x then 2 ^ 63 else 0) + f_mag x"
    by simp
  show "f_neg (f_negate x) \<longleftrightarrow> \<not> f_neg x" "f_mag (f_negate x) = f_mag x"
    using f_pack_mag_neg [OF u f_mag_bounds] by auto
qed

lemma f_finite_mag: "f_finite x \<longleftrightarrow> f_mag x div 2 ^ 52 \<noteq> 2047"
proof -
  have "f_expo x = 2047 \<longleftrightarrow> int (f_expo x) = 2047" by simp
  then show ?thesis unfolding f_finite_def f_expo_mag by simp
qed

lemma f_isnan_mag:
  assumes "f_mag x = f_mag y"
  shows "f_isnan x \<longleftrightarrow> f_isnan y"
proof -
  have "int (f_expo x) = int (f_expo y)" "int (f_frac x) = int (f_frac y)"
    by (simp_all only: f_expo_mag f_frac_mag assms)
  then show ?thesis by (simp add: f_isnan_def)
qed

lemma f_negate_finite [simp]: "f_finite (f_negate x) = f_finite x"
  by (simp add: f_finite_mag f_negate_facts)

lemma f_negate_val [simp]: "fval (f_negate x) = - fval x"
  using mval_mag_eq [of "f_negate x" x] by (simp add: fval_mval f_negate_facts)

lemma f_abs_finite [simp]: "f_finite (f_abs x) = f_finite x"
  by (simp add: f_abs_def)

lemma f_abs_val [simp]: "fval (f_abs x) = \<bar>fval x\<bar>"
  by (simp add: f_abs_def fval_mval f_negate_facts mval_mag_eq [of "f_negate x" x])

lemma f_isnan_negate [simp]: "f_isnan (f_negate x) = f_isnan x"
  by (rule f_isnan_mag) (simp add: f_negate_facts)

lemma f_isnan_abs [simp]: "f_isnan (f_abs x) = f_isnan x"
  by (simp add: f_abs_def)

lemma f_sub_rounds_to:
  assumes "f_finite x" "f_finite y" "f_finite b" "\<bar>fval x - fval y\<bar> \<le> mval b"
  shows "rounds_to (fval x - fval y) (f_sub x y)"
  using f_add_rounds_to [of x "f_negate y" b] assms by (simp add: f_sub_def)

text \<open>A bound is a non-negative finite float; \<open>bdd b x\<close> says \<open>x\<close> lies in \<open>[-b, b]\<close>.\<close>

definition bdd :: "f64 \<Rightarrow> f64 \<Rightarrow> bool" where
  "bdd b x \<longleftrightarrow> f_finite x \<and> mval x \<le> mval b"

lemma bddD: "bdd b x \<Longrightarrow> f_finite x" "bdd b x \<Longrightarrow> \<bar>fval x\<bar> \<le> mval b"
  by (simp_all add: bdd_def)

lemma bdd_range: "bdd b x \<Longrightarrow> - mval b \<le> fval x" "bdd b x \<Longrightarrow> fval x \<le> mval b"
  using mval_nonneg [of x] mval_nonneg [of b]
  by (auto simp: bdd_def fval_mval simp del: mval_nonneg)

lemma rounds_to_bdd:
  assumes "rounds_to v r" "f_finite b" "\<bar>v\<bar> \<le> mval b"
  shows "bdd b r"
proof -
  have "fval r \<le> mval b"
    using assms rounds_to_le [OF assms(1), of "f_abs b"] by simp
  moreover have "- mval b \<le> fval r"
    using assms rounds_to_ge [OF assms(1), of "f_negate (f_abs b)"] by simp
  ultimately show ?thesis
    using rounds_to_finite [OF assms(1)] by (simp add: bdd_def fval_mval split: if_splits)
qed

lemma f_add_bdd:
  assumes "bdd a x" "bdd b y" "f_finite c" "mval a + mval b \<le> mval c"
  shows "bdd c (f_add x y)" "rounds_to (fval x + fval y) (f_add x y)"
proof -
  have "\<bar>fval x + fval y\<bar> \<le> mval c"
    using bddD(2) [OF assms(1)] bddD(2) [OF assms(2)] assms(4)
      abs_triangle_ineq [of "fval x" "fval y"] by linarith
  then show "rounds_to (fval x + fval y) (f_add x y)" "bdd c (f_add x y)"
    using assms(1-3) by (auto intro: f_add_rounds_to rounds_to_bdd bddD)
qed

lemma f_sub_bdd:
  assumes "bdd a x" "bdd b y" "f_finite c" "mval a + mval b \<le> mval c"
  shows "bdd c (f_sub x y)" "rounds_to (fval x - fval y) (f_sub x y)"
proof -
  have "\<bar>fval x - fval y\<bar> \<le> mval c"
    using bddD(2) [OF assms(1)] bddD(2) [OF assms(2)] assms(4)
      abs_triangle_ineq4 [of "fval x" "fval y"] by linarith
  then show "rounds_to (fval x - fval y) (f_sub x y)" "bdd c (f_sub x y)"
    using assms(1-3) by (auto intro: f_sub_rounds_to rounds_to_bdd bddD)
qed

lemma f_mul_bdd:
  assumes "bdd a x" "bdd b y" "f_finite c" "mval a * mval b \<le> mval c"
  shows "bdd c (f_mul x y)" "rounds_to (fval x * fval y) (f_mul x y)"
proof -
  have "\<bar>fval x * fval y\<bar> \<le> mval a * mval b"
    using assms(1,2) unfolding bdd_def abs_mult by (intro mult_mono) auto
  with assms(4) have "\<bar>fval x * fval y\<bar> \<le> mval c" by linarith
  then show "rounds_to (fval x * fval y) (f_mul x y)" "bdd c (f_mul x y)"
    using assms(1-3) by (auto intro: f_mul_rounds_to rounds_to_bdd bddD)
qed

section \<open>Representable numbers and damped steps\<close>

lemma rep_exists:
  assumes "M < 2 ^ 53" "-1074 \<le> E" "E \<le> 971"
  shows "\<exists>c. f_finite c \<and> fval c = real M * 2 powi E"
proof (cases "M = 0")
  case True
  then show ?thesis by (intro exI [of _ "f_zero False"]) simp
next
  case False
  then obtain m t where r: "f_round False M 1 E = f_pack False m t" and c: "canonical m t"
    and faith: "faithful (real M * 2 powi E) m t"
    using f_round_spec [of M 1 False E] by auto
  from faith assms(1,2) have eq: "real m * 2 powi t = real M * 2 powi E"
    unfolding faithful_def by (blast intro: antisym)
  have "t \<le> 971"
  proof (rule ccontr)
    assume t: "\<not> t \<le> 971"
    then have "2 ^ 52 \<le> m" using c by (auto simp: canonical_def)
    then have "2 ^ 52 * 2 powi t \<le> real m * 2 powi t"
      by (intro mult_right_mono) (auto simp flip: of_nat_power)
    moreover have "real M * 2 powi E < 2 ^ 52 * 2 powi t"
      using assms t by (intro below_ulp) simp_all
    ultimately show False using eq by linarith
  qed
  with c eq show ?thesis
    by (intro exI [of _ "f_pack False m t"]) (simp add: f_pack_finite fval_mval)
qed

lemma rounds_to_negate: "rounds_to v r \<Longrightarrow> rounds_to (- v) (f_negate r)"
proof -
  assume r: "rounds_to v r"
  have "(- v \<le> fval c \<longrightarrow> - fval r \<le> fval c) \<and> (fval c \<le> - v \<longrightarrow> fval c \<le> - fval r)"
    if "f_finite c" for c
    using that rounds_to_le [OF r, of "f_negate c"] rounds_to_ge [OF r, of "f_negate c"] by auto
  with r show ?thesis by (simp add: rounds_to_def)
qed

lemma rounds_to_zero: "rounds_to 0 r \<Longrightarrow> fval r = 0"
  using rounds_to_exact [of "f_zero False" r] by simp

lemma fval_units: "\<exists>k. fval x = real_of_int k * 2 powi (-1074)"
proof -
  have "fval x = real_of_int ((if f_neg x then -1 else 1) * int (f_sig x) * 2 ^ nat (f_ulp x + 1074)) * 2 powi (-1074)"
    using powi_two_split [OF f_ulp_ge [of x]] by (simp add: fval_def)
  then show ?thesis by blast
qed

text \<open>Strictly between \<open>x / 2\<close> and \<open>x\<close> there is a representable number, the smallest float apart.\<close>

lemma half_rep:
  assumes "f_finite x" "2 powi (-1074) < fval x"
  shows "\<exists>c. f_finite c \<and> fval x / 2 \<le> fval c \<and> fval c < fval x"
proof -
  have "\<not> f_neg x"
  proof
    assume "f_neg x"
    then have "fval x \<le> 0" by (simp add: fval_mval)
    with assms(2) powi_two_pos [of "-1074"] show False by linarith
  qed
  then have x: "fval x = real (f_sig x) * 2 powi f_ulp x"
    by (simp add: fval_def)
  show ?thesis
  proof (cases "f_ulp x = -1074")
    case True
    then have "1 < f_sig x" using assms(2) by (simp add: x)
    then have lt: "real ((f_sig x + 1) div 2) < real (f_sig x)" by simp
    have ge: "real (f_sig x) / 2 \<le> real ((f_sig x + 1) div 2)" by linarith
    have "(f_sig x + 1) div 2 < 2 ^ 53" using f_sig_bound [of x] by simp
    then obtain c where c: "f_finite c" "fval c = real ((f_sig x + 1) div 2) * 2 powi f_ulp x"
      using rep_exists [OF _ f_ulp_ge f_ulp_le [OF assms(1)]] by blast
    have "real (f_sig x) / 2 * 2 powi f_ulp x \<le> fval c"
      unfolding c(2) using ge by (intro mult_right_mono) simp_all
    moreover have "fval c < fval x"
      unfolding c(2) x using lt by (intro mult_strict_right_mono) simp_all
    ultimately show ?thesis using c(1) by (intro exI [of _ c]) (simp add: x)
  next
    case False
    with f_ulp_ge [of x] obtain c where "f_finite c" "fval c = real (f_sig x) * 2 powi (f_ulp x - 1)"
      using rep_exists [of "f_sig x" "f_ulp x - 1"] f_sig_bound [of x] f_ulp_le [OF assms(1)] by auto
    moreover have "real (f_sig x) * 2 powi (f_ulp x - 1) = fval x / 2"
      by (simp add: x powi_two_diff)
    moreover have "fval x / 2 < fval x" using assms(2) powi_two_pos [of "-1074"] by linarith
    ultimately show ?thesis by (intro exI [of _ c]) auto
  qed
qed

text \<open>
  A damped rounded step \<open>y = b * x\<close> with \<open>0 < b \<le> 1/2\<close> along a rounded difference \<open>x\<close> of the
  exact difference \<open>w\<close> never overshoots \<open>w\<close>: rounding cannot turn the filter unstable.
\<close>

lemma damped_nonneg:
  assumes "rounds_to w x" "rounds_to (b * fval x) y" "0 < b" "b \<le> 1 / 2" "0 \<le> w"
    and units: "w = real_of_int k * 2 powi (-1074)"
  shows "0 \<le> fval y" "fval y \<le> w"
proof -
  note fin = rounds_to_finite [OF assms(1)] rounds_to_finite [OF assms(2)]
  have x0: "0 \<le> fval x" using rounds_to_ge [OF assms(1), of "f_zero False"] assms(5) by simp
  then have bx: "0 \<le> b * fval x" "b * fval x \<le> fval x / 2"
    using assms(3,4) mult_right_mono [OF assms(4) x0] by simp_all
  show y0: "0 \<le> fval y" using rounds_to_ge [OF assms(2), of "f_zero False"] bx by simp
  have yx: "fval y \<le> fval x" using rounds_to_le [OF assms(2) fin(1)] bx x0 by simp
  show "fval y \<le> w"
  proof (rule ccontr)
    assume "\<not> fval y \<le> w"
    then have "w < fval y" by simp
    then have "fval x \<le> fval y" using rounds_to_le [OF assms(1) fin(2)] by simp
    with yx have xy: "fval x = fval y" by simp
    show False
    proof (cases "2 powi (-1074) < fval x")
      case True
      with fin(1) obtain c where "f_finite c" "fval x / 2 \<le> fval c" "fval c < fval x"
        using half_rep by blast
      moreover from this have "b * fval x \<le> fval c" using bx by linarith
      ultimately have "fval y \<le> fval c" by (intro rounds_to_le [OF assms(2)])
      with \<open>fval c < fval x\<close> xy show False by simp
    next
      case False
      with \<open>w < fval y\<close> xy have "real_of_int k * 2 powi (-1074) < 1 * (2 :: real) powi (-1074)"
        by (simp add: units)
      then have "real_of_int k < 1" unfolding mult_less_cancel_right_pos [OF powi_two_pos] .
      moreover have "0 \<le> real_of_int k"
        using assms(5) unfolding units by (simp add: zero_le_mult_iff)
      ultimately have "k = 0" by simp
      then have "w = 0" by (simp add: units)
      with assms(1) have "fval x = 0" by (simp add: rounds_to_zero)
      with xy \<open>w < fval y\<close> \<open>w = 0\<close> show False by simp
    qed
  qed
qed

lemma damped_step:
  assumes "rounds_to w x" "rounds_to (b * fval x) y" "0 < b" "b \<le> 1 / 2"
    and units: "w = real_of_int k * 2 powi (-1074)"
  shows "0 \<le> w \<Longrightarrow> 0 \<le> fval y \<and> fval y \<le> w" "w \<le> 0 \<Longrightarrow> w \<le> fval y \<and> fval y \<le> 0"
proof -
  show "0 \<le> w \<Longrightarrow> 0 \<le> fval y \<and> fval y \<le> w"
    using damped_nonneg [OF assms(1-4) _ units] by simp
  assume "w \<le> 0"
  have "rounds_to (b * fval (f_negate x)) (f_negate y)"
    using rounds_to_negate [OF assms(2)] by simp
  then show "w \<le> fval y \<and> fval y \<le> 0"
    using damped_nonneg [OF rounds_to_negate [OF assms(1)] _ assms(3,4), of "f_negate y" "- k"]
      \<open>w \<le> 0\<close> by (simp add: units)
qed

end
