(* ===== verification/Plant.thy ===== *)
theory Plant
  imports Binary64_Facts
begin

text \<open>
  The simulated vehicle: \<open>sim/types.py\<close>, \<open>sim/fixmath.py\<close>, \<open>sim/actuator.py\<close>,
  \<open>sim/sensor.py\<close>, \<open>sim/environment.py\<close> and \<open>sim/plant.py\<close>, bit for bit on binary64.
\<close>

section \<open>Data (sim/types.py)\<close>

record truth_state =
  truth_theta :: f64
  truth_omega :: f64

record observation =
  obs_tick :: int
  obs_theta :: f64
  obs_omega :: f64
  obs_valid :: bool

record actuator_state =
  applied :: f64

record environment =
  k_a :: f64

record disturbance =
  tau_d :: f64

section \<open>The sine polynomial (sim/fixmath.py)\<close>

definition psin_C1 :: f64 where
  "psin_C1 = f_div (f_negate (f_lit 1 1)) (f_lit 6 1)"

definition psin_C2 :: f64 where
  "psin_C2 = f_div (f_lit 1 1) (f_lit 120 1)"

definition psin_C3 :: f64 where
  "psin_C3 = f_div (f_negate (f_lit 1 1)) (f_lit 5040 1)"

definition psin :: "f64 \<Rightarrow> f64" where
  "psin x =
     (let x2 = f_mul x x
      in f_mul x (f_add (f_lit 1 1)
           (f_mul x2 (f_add psin_C1 (f_mul x2 (f_add psin_C2 (f_mul x2 psin_C3)))))))"

section \<open>Actuator (sim/actuator.py)\<close>

definition DELTA_MAX :: f64 where
  "DELTA_MAX = f_lit 12 100"

definition actuator_initial :: actuator_state where
  "actuator_initial = \<lparr>applied = f_zero False\<rparr>"

definition actuator_step :: "actuator_state \<Rightarrow> f64 option \<Rightarrow> actuator_state" where
  "actuator_step state arriving =
     (case arriving of
        None \<Rightarrow> state
      | Some a \<Rightarrow>
          (let a1 = (if f_lt DELTA_MAX a then DELTA_MAX else a);
               a2 = (if f_lt a1 (f_negate DELTA_MAX) then f_negate DELTA_MAX else a1)
           in \<lparr>applied = a2\<rparr>))"

section \<open>Sensor and environment (sim/sensor.py, sim/environment.py)\<close>

definition observe :: "int \<Rightarrow> truth_state \<Rightarrow> observation" where
  "observe tick truth =
     \<lparr>obs_tick = tick, obs_theta = truth_theta truth, obs_omega = truth_omega truth, obs_valid = True\<rparr>"

definition environment_fixed :: environment where
  "environment_fixed = \<lparr>k_a = f_lit 9 1\<rparr>"

section \<open>Plant (sim/plant.py)\<close>

definition FL :: f64 where
  "FL = f_lit 27 1"

definition J_inertia :: f64 where
  "J_inertia = f_lit 36 100"

definition plant_step ::
  "truth_state \<Rightarrow> actuator_state \<Rightarrow> environment \<Rightarrow> disturbance \<Rightarrow> f64 \<Rightarrow> truth_state" where
  "plant_step truth act env dstb dt =
     (let tau = f_add (f_sub (f_mul (k_a env) (truth_theta truth))
                             (f_mul FL (psin (applied act))))
                      (tau_d dstb);
          omega_next = f_add (truth_omega truth) (f_mul (f_div tau J_inertia) dt);
          theta_next = f_add (truth_theta truth) (f_mul omega_next dt)
      in \<lparr>truth_theta = theta_next, truth_omega = omega_next\<rparr>)"

section \<open>Constants as bit patterns\<close>

lemma DELTA_MAX_bits: "DELTA_MAX = 0x3fbeb851eb851eb8"
  by (simp add: DELTA_MAX_def f_eval)

lemma psin_bits: "psin_C1 = 0xbfc5555555555555" "psin_C2 = 0x3f81111111111111"
  "psin_C3 = 0xbf2a01a01a01a01a"
  by (simp_all add: psin_C1_def psin_C2_def psin_C3_def f_eval)

lemma FL_bits: "FL = 0x403b000000000000" and J_bits: "J_inertia = 0x3fd70a3d70a3d70a"
  by (simp_all add: FL_def J_inertia_def f_eval)

lemma f_lit_bits: "f_lit 1 1 = 0x3ff0000000000000" "f_lit 9 1 = 0x4022000000000000"
  by (simp_all add: f_eval)

lemmas plant_bits = DELTA_MAX_bits psin_bits FL_bits J_bits f_lit_bits

lemma DELTA_MAX_finite [simp]: "f_finite DELTA_MAX" "\<not> f_neg DELTA_MAX" "\<not> f_isnan DELTA_MAX"
  by (simp_all add: DELTA_MAX_bits f_field_defs)

lemma DELTA_MAX_pos: "0 < mval DELTA_MAX" "fval DELTA_MAX = mval DELTA_MAX"
  by (simp_all add: fval_mval) (simp add: mval_def DELTA_MAX_bits f_field_defs)

section \<open>Actuator properties\<close>

lemma actuator_hold [simp]: "actuator_step state None = state"
  by (simp add: actuator_step_def)

text \<open>Whatever finite or infinite command arrives, the applied angle is in the stops.\<close>

lemma clamp_bdd:
  assumes "\<not> f_isnan a"
  shows "bdd DELTA_MAX (applied (actuator_step state (Some a)))"
proof -
  have in_stops: "bdd DELTA_MAX a" if "\<not> f_lt DELTA_MAX a" "\<not> f_lt a (f_negate DELTA_MAX)"
  proof -
    have key: "f_key a \<le> f_key DELTA_MAX" "f_key (f_negate DELTA_MAX) \<le> f_key a"
      using that assms by (simp_all add: f_lt_def not_less)
    then have val: "fval a \<le> mval DELTA_MAX" "- mval DELTA_MAX \<le> fval a"
      using DELTA_MAX_pos(2) by (simp_all add: f_key_le_iff)
    then have m: "mval a \<le> mval DELTA_MAX" by (simp add: fval_mval split: if_splits)
    then have "f_mag a div 2 ^ 52 \<le> f_mag DELTA_MAX div 2 ^ 52"
      by (intro zdiv_mono1) (simp_all add: mval_le_iff)
    then have "f_finite a" by (simp add: f_finite_mag f_mag_def DELTA_MAX_bits)
    with m show ?thesis by (simp add: bdd_def)
  qed
  have stops: "bdd DELTA_MAX DELTA_MAX" "bdd DELTA_MAX (f_negate DELTA_MAX)"
    "\<not> f_lt DELTA_MAX (f_negate DELTA_MAX)"
    using DELTA_MAX_pos mval_mag_eq [of "f_negate DELTA_MAX" DELTA_MAX]
    by (simp_all add: bdd_def f_lt_iff f_negate_facts)
  show ?thesis
    using in_stops stops by (simp add: actuator_step_def Let_def)
qed

lemma actuator_initial_bdd: "bdd DELTA_MAX (applied actuator_initial)"
  using DELTA_MAX_pos by (simp add: actuator_initial_def bdd_def)

lemma actuator_step_bdd:
  assumes "bdd DELTA_MAX (applied state)" "\<And>a. arriving = Some a \<Longrightarrow> \<not> f_isnan a"
  shows "bdd DELTA_MAX (applied (actuator_step state arriving))"
  using assms clamp_bdd by (cases arriving) simp_all

text \<open>An angle already in the stops is applied unchanged, bit for bit.\<close>

lemma clamp_id:
  assumes "bdd DELTA_MAX a"
  shows "actuator_step state (Some a) = \<lparr>applied = a\<rparr>"
proof -
  have "fval a \<le> fval DELTA_MAX" "fval (f_negate DELTA_MAX) \<le> fval a"
    using bdd_range [OF assms] DELTA_MAX_pos(2) by simp_all
  with bddD(1) [OF assms] show ?thesis
    by (simp add: actuator_step_def f_lt_iff not_less)
qed

end
