(* ===== verification/Control.thy ===== *)
theory Control
  imports Plant
begin

text \<open>
  The fixed PID arithmetic of \<open>sim/control_ref.py\<close>, bit for bit, and its known-answer corpus
  from \<open>sim/gen_pid_corpus.py\<close>. The lemmas give the controller's envelope: which states and
  observations keep every intermediate value finite, and what the next state satisfies.
\<close>

section \<open>Constants and state (sim/control_ref.py)\<close>

definition KP :: f64 where "KP = f_lit 3277 1000"
definition KI :: f64 where "KI = f_lit 768 100"
definition KD :: f64 where "KD = f_lit 309 1000"
definition DT :: f64 where "DT = f_div (f_lit 1 1) (f_lit 500 1)"
definition KI_DT :: f64 where "KI_DT = f_mul KI DT"
definition BETA_D :: f64 where "BETA_D = f_div (f_lit 1 1) (f_lit 3 1)"
definition CTL_DELTA_MAX :: f64 where "CTL_DELTA_MAX = f_lit 12 100"
definition I_MAX :: f64 where "I_MAX = CTL_DELTA_MAX"
definition THETA_SP :: f64 where "THETA_SP = f_zero False"
definition NEG_DELTA_MAX :: f64 where "NEG_DELTA_MAX = f_negate CTL_DELTA_MAX"
definition NEG_I_MAX :: f64 where "NEG_I_MAX = f_negate I_MAX"

record control_state =
  i_state :: f64
  d_prev :: f64
  last_delta :: f64

definition control_initial :: control_state where
  "control_initial = \<lparr>i_state = f_zero False, d_prev = f_zero False, last_delta = f_zero False\<rparr>"

definition control_step :: "control_state \<Rightarrow> observation \<Rightarrow> f64 \<times> control_state" where
  "control_step state ob =
     (let e = f_sub (obs_theta ob) THETA_SP;
          d = f_add (d_prev state) (f_mul BETA_D (f_sub (obs_omega ob) (d_prev state)));
          i_unclamped = f_add (i_state state) (f_mul KI_DT e);
          i_hi = (if f_lt I_MAX i_unclamped then I_MAX else i_unclamped);
          i_cand = (if f_lt i_hi NEG_I_MAX then NEG_I_MAX else i_hi);
          u = f_add (f_add (f_mul KP e) i_cand) (f_mul KD d);
          sat_hi = f_lt CTL_DELTA_MAX u;
          sat_lo = f_lt u NEG_DELTA_MAX;
          delta = (if sat_hi then CTL_DELTA_MAX else if sat_lo then NEG_DELTA_MAX else u);
          hold = (sat_hi \<and> f_lt (f_zero False) e) \<or> (sat_lo \<and> f_lt e (f_zero False));
          i_next = (if hold then i_state state else i_cand)
      in (delta, \<lparr>i_state = i_next, d_prev = d, last_delta = delta\<rparr>))"

section \<open>The known-answer corpus (sim/gen_pid_corpus.py)\<close>

text \<open>The frozen constants, as the corpus lists them.\<close>

definition corpus_constants :: "(f64 \<times> f64) list" where
  "corpus_constants =
     [(KP, 0x400a374bc6a7ef9e), (KI, 0x401eb851eb851eb8), (KD, 0x3fd3c6a7ef9db22d),
      (DT, 0x3f60624dd2f1a9fc), (KI_DT, 0x3f8f75104d551d69), (BETA_D, 0x3fd5555555555555),
      (CTL_DELTA_MAX, 0x3fbeb851eb851eb8), (I_MAX, 0x3fbeb851eb851eb8), (THETA_SP, 0)]"

text \<open>A vector: state (integrator, filter, last command), observation, expected command and state.\<close>

type_synonym pid_expected = "f64 \<times> f64 \<times> f64 \<times> f64"
type_synonym pid_vector = "(f64 \<times> f64 \<times> f64) \<times> (f64 \<times> f64) \<times> pid_expected"

definition pid_vectors :: "pid_vector list" where
  "pid_vectors =
     [((0, 0, 0), (0, 0), (0, 0, 0, 0)),
      ((0xbf2f75104d551d69, 0, 0x3fb0000000000000), (0x3f90000000000000, 0), (0x3faa374bc6a7ef9e, 0, 0, 0x3faa374bc6a7ef9e)),
      ((0, 0x3fd0000000000000, 0x3fb0000000000000), (0x3f80000000000000, 0xbfc0000000000000), (0x3fb079042d8c2a45, 0x3f1f75104d551d69, 0x3fc0000000000000, 0x3fb079042d8c2a45)),
      ((0xbfa0000000000000, 0x3fb0000000000000, 0x3fb0000000000000), (0xbfb0000000000000, 0xbfe0000000000000), (0xbfbeb851eb851eb8, 0xbfa0000000000000, 0xbfc0000000000000, 0xbfbeb851eb851eb8)),
      ((0x3fbeb851eb851eb8, 0, 0x3fbeb851eb851eb8), (0xbf90000000000000, 0x3ff8000000000000), (0x3fbeb851eb851eb8, 0x3fbea897635e7429, 0x3fe0000000000000, 0x3fbeb851eb851eb8)),
      ((0x3fbeb851eb851eb8, 0xbfc8000000000000, 0x3fa0000000000000), (0x3f90000000000000, 0xbfc8000000000000), (0x3fbcfef9db22d0e6, 0x3fbeb851eb851eb8, 0xbfc8000000000000, 0x3fbcfef9db22d0e6)),
      ((0xbfbeb851eb851eb8, 0x3fc8000000000000, 0xbfa0000000000000), (0xbf90000000000000, 0x3fc8000000000000), (0xbfbcfef9db22d0e6, 0xbfbeb851eb851eb8, 0x3fc8000000000000, 0xbfbcfef9db22d0e6)),
      ((0x3fb18cf1800a7c59, 0, 0), (0x3f90000000000000, 0), (0x3fbeb851eb851eb7, 0x3fb19cac083126e8, 0, 0x3fbeb851eb851eb7)),
      ((0x3fb18cf1800a7c5a, 0, 0), (0x3f90000000000000, 0), (0x3fbeb851eb851eb8, 0x3fb19cac083126e9, 0, 0x3fbeb851eb851eb8)),
      ((0x3fb18cf1800a7c5b, 0, 0), (0x3f90000000000000, 0), (0x3fbeb851eb851eb8, 0x3fb18cf1800a7c5b, 0, 0x3fbeb851eb851eb8)),
      ((0xbfb18cf1800a7c5a, 0, 0), (0xbf90000000000000, 0), (0xbfbeb851eb851eb8, 0xbfb19cac083126e9, 0, 0xbfbeb851eb851eb8)),
      ((0x8000000000000000, 0x8000000000000000, 0xbfb0000000000000), (0x8000000000000000, 0x8000000000000000), (0, 0x8000000000000000, 0, 0))]"

definition pid_traces :: "((f64 \<times> f64 \<times> f64) \<times> ((f64 \<times> f64) \<times> pid_expected) list) list" where
  "pid_traces =
     [((0, 0, 0),
       [((0x3f90000000000000, 0), (0x3faa56c0d6f544bb, 0x3f2f75104d551d69, 0, 0x3faa56c0d6f544bb)),
        ((0x3f90000000000000, 0), (0x3faa7635e74299d9, 0x3f3f75104d551d69, 0, 0x3faa7635e74299d9)),
        ((0x3f90000000000000, 0), (0x3faa95aaf78feef6, 0x3f4797cc39ffd60f, 0, 0x3faa95aaf78feef6))]),
      ((0, 0, 0),
       [((0, 0x3fd8000000000000), (0x3fa3c6a7ef9db22d, 0, 0x3fc0000000000000, 0x3fa3c6a7ef9db22d)),
        ((0, 0), (0x3f9a5e353f7ced92, 0, 0x3fb5555555555556, 0x3f9a5e353f7ced92)),
        ((0, 0), (0x3f9194237fa89e62, 0, 0x3fac71c71c71c71e, 0x3f9194237fa89e62))]),
      ((0x3fa0000000000000, 0xbfb0000000000000, 0xbfb0000000000000),
       [((0x3fb0000000000000, 0x3fe0000000000000), (0x3fbeb851eb851eb8, 0x3fa0000000000000, 0x3fc0000000000000, 0x3fbeb851eb851eb8)),
        ((0x3fb0000000000000, 0), (0x3fbeb851eb851eb8, 0x3fa0000000000000, 0x3fb5555555555556, 0x3fbeb851eb851eb8)),
        ((0xbf90000000000000, 0), (0xbf68caf1720f58a8, 0x3f9fc115df6555c5, 0x3fac71c71c71c71e, 0xbf68caf1720f58a8)),
        ((0xbf90000000000000, 0), (0xbf8268a848299436, 0x3f9f822bbecaab8a, 0x3fa2f684bda12f6a, 0xbf8268a848299436))])]"

text \<open>Replaying a vector, and a trace from its initial state.\<close>

definition mk_control :: "f64 \<times> f64 \<times> f64 \<Rightarrow> control_state" where
  "mk_control s = (case s of (i, d, l) \<Rightarrow> \<lparr>i_state = i, d_prev = d, last_delta = l\<rparr>)"

definition mk_obs :: "f64 \<times> f64 \<Rightarrow> observation" where
  "mk_obs o' = \<lparr>obs_tick = 0, obs_theta = fst o', obs_omega = snd o', obs_valid = True\<rparr>"

definition vector_ok :: "pid_vector \<Rightarrow> bool" where
  "vector_ok v =
     (case v of (s, ob, (u, i, d, l)) \<Rightarrow>
        control_step (mk_control s) (mk_obs ob) = (u, mk_control (i, d, l)))"

fun trace_ok :: "control_state \<Rightarrow> ((f64 \<times> f64) \<times> pid_expected) list \<Rightarrow> bool" where
  "trace_ok st [] = True"
| "trace_ok st ((ob, (u, i, d, l)) # rest) =
     (control_step st (mk_obs ob) = (u, mk_control (i, d, l)) \<and> trace_ok (mk_control (i, d, l)) rest)"

lemma control_const_bits:
  "KP = 0x400a374bc6a7ef9e" "KI = 0x401eb851eb851eb8" "KD = 0x3fd3c6a7ef9db22d"
  "DT = 0x3f60624dd2f1a9fc" "BETA_D = 0x3fd5555555555555"
  "CTL_DELTA_MAX = 0x3fbeb851eb851eb8" "I_MAX = 0x3fbeb851eb851eb8" "THETA_SP = 0"
  "NEG_DELTA_MAX = 0xbfbeb851eb851eb8" "NEG_I_MAX = 0xbfbeb851eb851eb8"
  by (simp_all add: KP_def KI_def KD_def DT_def BETA_D_def CTL_DELTA_MAX_def I_MAX_def
      THETA_SP_def NEG_DELTA_MAX_def NEG_I_MAX_def f_eval)

lemma KI_DT_bits: "KI_DT = 0x3f8f75104d551d69"
  by (simp add: KI_DT_def control_const_bits f_eval)

lemmas control_bits = control_const_bits KI_DT_bits

lemma list_all_code: "list_all P [] \<longleftrightarrow> True" "list_all P (x # xs) \<longleftrightarrow> P x \<and> list_all P xs"
  by simp_all

lemma corpus_constants_ok: "list_all (\<lambda>(c, b). c = b) corpus_constants"
  by (simp add: corpus_constants_def control_bits)

text \<open>The controller reproduces, bit for bit, every single-step vector of the known-answer corpus:
  clamps, anti-windup, signed zeros and one-ulp neighbours of the saturation threshold.\<close>

lemma pid_vectors_ok: "list_all vector_ok pid_vectors"
  unfolding pid_vectors_def list_all_code vector_ok_def prod.case mk_control_def mk_obs_def
    control_step_def
  by (intro conjI TrueI; simp add: control_bits f_eval cong: let_weak_cong)

text \<open>Along the multi-step traces of the corpus the controller state and command agree bit for bit.\<close>

theorem pid_traces_ok: "list_all (\<lambda>(s, steps). trace_ok (mk_control s) steps) pid_traces"
  unfolding pid_traces_def list_all_code mk_control_def mk_obs_def control_step_def prod.case trace_ok.simps
  by (simp add: control_bits f_eval cong: let_weak_cong)

section \<open>The controller's envelope\<close>

text \<open>\<open>2 powi 1000\<close>: any signal inside it leaves every intermediate value finite.\<close>

definition SIGNAL_MAX :: f64 where
  "SIGNAL_MAX = 0x7e70000000000000"

definition HUGE :: f64 where
  "HUGE = 0x7fe0000000000000"

definition HUGE4 :: f64 where
  "HUGE4 = 0x7e90000000000000"

definition HUGE8 :: f64 where
  "HUGE8 = 0x7ea0000000000000"

definition control_inv :: "control_state \<Rightarrow> bool" where
  "control_inv st \<longleftrightarrow> bdd I_MAX (i_state st) \<and> bdd SIGNAL_MAX (d_prev st) \<and>
     bdd CTL_DELTA_MAX (last_delta st)"

definition obs_ok :: "observation \<Rightarrow> bool" where
  "obs_ok ob \<longleftrightarrow> bdd SIGNAL_MAX (obs_theta ob) \<and> bdd SIGNAL_MAX (obs_omega ob)"

lemma same_limits: "I_MAX = DELTA_MAX" "CTL_DELTA_MAX = DELTA_MAX"
  "NEG_I_MAX = f_negate DELTA_MAX" "NEG_DELTA_MAX = f_negate DELTA_MAX"
  by (simp_all add: I_MAX_def CTL_DELTA_MAX_def DELTA_MAX_def NEG_I_MAX_def NEG_DELTA_MAX_def)

lemma huge_finite [simp]: "f_finite SIGNAL_MAX" "f_finite HUGE" "f_finite HUGE4" "f_finite HUGE8"
  by (simp_all add: SIGNAL_MAX_def HUGE_def HUGE4_def HUGE8_def f_field_defs)

lemma signal_val: "mval SIGNAL_MAX = 2 ^ 1000" and huge_val: "mval HUGE = 2 ^ 23 * mval SIGNAL_MAX"
  and huge48_val: "mval HUGE4 = 4 * mval SIGNAL_MAX" "mval HUGE8 = 8 * mval SIGNAL_MAX"
  by (simp_all add: SIGNAL_MAX_def HUGE_def HUGE4_def HUGE8_def mval_def f_field_defs power_int_def)

lemma signal_big: "1 \<le> mval SIGNAL_MAX" "mval HUGE = 8388608 * mval SIGNAL_MAX"
  by (simp add: signal_val) (simp add: huge_val)

lemma gain_finite [simp]: "f_finite KP" "f_finite KD" "f_finite KI_DT" "f_finite BETA_D"
  by (simp_all add: control_bits f_field_defs)

lemma gain_vals: "mval KP \<le> 4" "mval KD \<le> 1" "mval KI_DT \<le> 1" "mval BETA_D \<le> 1"
  "0 < fval BETA_D" "fval BETA_D \<le> 1 / 2"
  by (simp_all add: control_bits mval_def fval_def f_field_defs power_int_def power_one_over
      divide_le_eq)

lemma DELTA_MAX_le_1: "mval DELTA_MAX \<le> 1"
  by (simp add: plant_bits mval_def f_field_defs power_int_def power_one_over divide_le_eq)

lemma bdd_weaken: "bdd b x \<Longrightarrow> mval b \<le> mval c \<Longrightarrow> bdd c x"
  by (simp add: bdd_def)

lemma bdd_self: "f_finite b \<Longrightarrow> bdd b b"
  by (simp add: bdd_def)

text \<open>The two-sided clamp of the controller is the actuator's clamp.\<close>

lemma clamp2_bdd:
  assumes "\<not> f_isnan a"
  shows "bdd DELTA_MAX (let hi = (if f_lt DELTA_MAX a then DELTA_MAX else a)
     in if f_lt hi (f_negate DELTA_MAX) then f_negate DELTA_MAX else hi)"
  using clamp_bdd [OF assms] by (simp add: actuator_step_def Let_def)

lemma clamp3_bdd:
  assumes "\<not> f_isnan a"
  shows "bdd DELTA_MAX (if f_lt DELTA_MAX a then DELTA_MAX
     else if f_lt a (f_negate DELTA_MAX) then f_negate DELTA_MAX else a)"
proof -
  have "\<not> f_lt DELTA_MAX (f_negate DELTA_MAX)"
    using DELTA_MAX_pos by (simp add: f_lt_iff)
  then show ?thesis
    using clamp2_bdd [OF assms] by (simp add: Let_def split: if_splits)
qed

lemma bdd_not_nan: "bdd b x \<Longrightarrow> \<not> f_isnan x"
  by (simp add: bdd_def f_finite_not_nan)

lemma THETA_SP_bdd: "bdd (f_zero False) THETA_SP"
  by (simp add: THETA_SP_def bdd_def)

text \<open>A gain of at most \<open>g\<close> times a signal.\<close>

lemma gain_bdd:
  assumes "f_finite k" "mval k \<le> g" "bdd b x" "f_finite c" "g * mval b \<le> mval c"
  shows "bdd c (f_mul k x)" "rounds_to (fval k * fval x) (f_mul k x)"
proof -
  have "mval k * mval b \<le> g * mval b" using assms(2) by (intro mult_right_mono) simp_all
  with assms(5) have "mval k * mval b \<le> mval c" by linarith
  then show "bdd c (f_mul k x)" "rounds_to (fval k * fval x) (f_mul k x)"
    using f_mul_bdd [OF bdd_self [OF assms(1)] assms(3,4)] by auto
qed

text \<open>The derivative filter stays between its old value and the new measurement.\<close>

lemma filter_bdd:
  assumes "bdd SIGNAL_MAX d" "bdd SIGNAL_MAX w"
  shows "bdd SIGNAL_MAX (f_add d (f_mul BETA_D (f_sub w d)))"
proof -
  define x where "x = f_sub w d"
  define y where "y = f_mul BETA_D x"
  have x: "bdd HUGE x" "rounds_to (fval w - fval d) x"
    unfolding x_def using signal_big by (intro f_sub_bdd [OF assms(2,1), of HUGE]; simp)+
  have y: "rounds_to (fval BETA_D * fval x) y"
    unfolding y_def by (rule gain_bdd(2) [OF _ gain_vals(4) x(1), of HUGE]) simp_all
  obtain kw kd where "fval w = real_of_int kw * 2 powi (-1074)" "fval d = real_of_int kd * 2 powi (-1074)"
    using fval_units by blast
  then have units: "fval w - fval d = real_of_int (kw - kd) * 2 powi (-1074)"
    by (simp add: left_diff_distrib)
  have "0 \<le> fval w - fval d \<or> fval w - fval d \<le> 0" by linarith
  then have between: "min (fval d) (fval w) \<le> fval d + fval y \<and> fval d + fval y \<le> max (fval d) (fval w)"
    using damped_step [OF x(2) y gain_vals(5,6) units] by auto
  have "\<bar>fval d + fval y\<bar> \<le> mval SIGNAL_MAX"
    using between bdd_range [OF assms(1)] bdd_range [OF assms(2)] by auto
  then show ?thesis
    using rounds_to_finite [OF y] bddD(1) [OF assms(1)] huge_finite(1)
    unfolding y_def x_def by (blast intro: rounds_to_bdd f_add_rounds_to)
qed

lemma control_step_inv:
  assumes "control_inv st" "obs_ok ob"
  shows "control_inv (snd (control_step st ob))"
    and "bdd CTL_DELTA_MAX (fst (control_step st ob))"
proof -
  define e where "e = f_sub (obs_theta ob) THETA_SP"
  define d where "d = f_add (d_prev st) (f_mul BETA_D (f_sub (obs_omega ob) (d_prev st)))"
  define iu where "iu = f_add (i_state st) (f_mul KI_DT e)"
  define ic where "ic = (let hi = (if f_lt DELTA_MAX iu then DELTA_MAX else iu)
    in if f_lt hi (f_negate DELTA_MAX) then f_negate DELTA_MAX else hi)"
  define u where "u = f_add (f_add (f_mul KP e) ic) (f_mul KD d)"
  define delta where "delta = (if f_lt DELTA_MAX u then DELTA_MAX
     else if f_lt u (f_negate DELTA_MAX) then f_negate DELTA_MAX else u)"
  have st: "bdd DELTA_MAX (i_state st)" "bdd SIGNAL_MAX (d_prev st)"
    and ob: "bdd SIGNAL_MAX (obs_theta ob)" "bdd SIGNAL_MAX (obs_omega ob)"
    using assms by (simp_all add: control_inv_def obs_ok_def same_limits)
  have e: "bdd SIGNAL_MAX e"
    unfolding e_def by (rule f_sub_bdd(1) [OF ob(1) THETA_SP_bdd]) simp_all
  have d: "bdd SIGNAL_MAX d"
    unfolding d_def by (rule filter_bdd [OF st(2) ob(2)])
  have kie: "bdd SIGNAL_MAX (f_mul KI_DT e)"
    by (rule gain_bdd(1) [OF _ gain_vals(3) e]) simp_all
  have iu: "bdd HUGE iu"
    unfolding iu_def using DELTA_MAX_le_1 signal_big
    by (intro f_add_bdd(1) [OF st(1) kie]) simp_all
  have ic: "bdd DELTA_MAX ic"
    unfolding ic_def by (intro clamp2_bdd bdd_not_nan [OF iu])
  have kp: "bdd HUGE4 (f_mul KP e)"
    by (rule gain_bdd(1) [OF _ gain_vals(1) e]) (simp_all add: huge48_val)
  have sum1: "bdd HUGE8 (f_add (f_mul KP e) ic)"
    using DELTA_MAX_le_1 signal_big
    by (intro f_add_bdd(1) [OF kp ic]) (simp_all add: huge48_val)
  have kd: "bdd SIGNAL_MAX (f_mul KD d)"
    by (rule gain_bdd(1) [OF _ gain_vals(2) d]) simp_all
  have u: "bdd HUGE u"
    unfolding u_def using signal_big by (intro f_add_bdd(1) [OF sum1 kd]) (simp_all add: huge48_val)
  have delta: "bdd DELTA_MAX delta"
    unfolding delta_def by (intro clamp3_bdd bdd_not_nan [OF u])
  have step: "control_step st ob = (delta, \<lparr>i_state =
      (if (f_lt DELTA_MAX u \<and> f_lt (f_zero False) e) \<or> (f_lt u (f_negate DELTA_MAX) \<and> f_lt e (f_zero False))
       then i_state st else ic), d_prev = d, last_delta = delta\<rparr>)"
    by (simp add: control_step_def Let_def same_limits e_def d_def iu_def ic_def u_def delta_def)
  show "control_inv (snd (control_step st ob))"
    using st d delta ic by (simp add: step control_inv_def same_limits)
  show "bdd CTL_DELTA_MAX (fst (control_step st ob))"
    using delta by (simp add: step same_limits)
qed

text \<open>C39. From a state in the controller's envelope, on any finite observation up to \<open>2 powi 1000\<close>,
  no intermediate value overflows: the next state is in the envelope and the command within
  \<open>CTL_DELTA_MAX\<close>.\<close>

theorem control_step_envelope:
  "control_inv st \<Longrightarrow> obs_ok ob \<Longrightarrow>
     control_inv (snd (control_step st ob)) \<and> bdd CTL_DELTA_MAX (fst (control_step st ob))"
  by (simp add: control_step_inv)

theorem control_step_envelope_witness:
  "control_inv (snd (control_step control_initial
      \<lparr>obs_tick = 0, obs_theta = 0x3fd0000000000000, obs_omega = 0xc000000000000000, obs_valid = True\<rparr>))"
proof -
  have "control_inv control_initial"
    by (simp add: control_inv_def control_initial_def bdd_def)
  moreover have "obs_ok \<lparr>obs_tick = 0, obs_theta = 0x3fd0000000000000, obs_omega = 0xc000000000000000,
      obs_valid = True\<rparr>"
    by (simp add: obs_ok_def bdd_def SIGNAL_MAX_def mval_def f_field_defs power_int_def
        power_one_over divide_le_eq)
  ultimately show ?thesis using control_step_envelope by blast
qed

end
