(* ===== verification/Episode.thy ===== *)
theory Episode
  imports Control "HOL-Library.Multiset"
begin

text \<open>
  The logical episode policy of \<open>sim/episode.py\<close>: the flight mode machine, the settle
  counter, the termination priority, the command queue of one with its acknowledgements, and
  the staleness ladder of the controller. The lemmas give its invariant, its mode transitions
  and what it answers to every command.
\<close>

section \<open>Data\<close>

datatype mode = INIT | ARMED | FLYING | TERMINATED

fun mode_value :: "mode \<Rightarrow> nat" where
  "mode_value INIT = 0"
| "mode_value ARMED = 1"
| "mode_value FLYING = 2"
| "mode_value TERMINATED = 3"

text \<open>\<open>Mode\<close> is an \<open>IntEnum\<close>: its order is the order of the values.\<close>

lemma mode_value_inj: "mode_value a = mode_value b \<Longrightarrow> a = b"
  by (cases a; cases b) simp_all

instantiation mode :: linorder
begin

definition less_eq_mode :: "mode \<Rightarrow> mode \<Rightarrow> bool" where
  "less_eq_mode a b \<longleftrightarrow> mode_value a \<le> mode_value b"

definition less_mode :: "mode \<Rightarrow> mode \<Rightarrow> bool" where
  "less_mode a b \<longleftrightarrow> mode_value a < mode_value b"

instance
  by standard (auto simp: less_eq_mode_def less_mode_def intro: mode_value_inj)

end

datatype reason =
    NONE
  | STABILIZED
  | DIVERGED
  | GROUND_ABORT
  | SENSOR_LOST
  | PEER_LOST
  | SIGNAL
  | NOT_SETTLED
  | INTERNAL

fun reason_value :: "reason \<Rightarrow> nat" where
  "reason_value NONE = 0"
| "reason_value STABILIZED = 1"
| "reason_value DIVERGED = 2"
| "reason_value GROUND_ABORT = 3"
| "reason_value SENSOR_LOST = 4"
| "reason_value PEER_LOST = 5"
| "reason_value SIGNAL = 6"
| "reason_value NOT_SETTLED = 7"
| "reason_value INTERNAL = 8"

text \<open>Opcodes and simulator reasons arrive as integers and are compared with the enum's values.\<close>

definition OP_ARM :: int where "OP_ARM = 1"
definition OP_LAUNCH :: int where "OP_LAUNCH = 2"
definition OP_ABORT :: int where "OP_ABORT = 3"

lemmas opcode_defs = OP_ARM_def OP_LAUNCH_def OP_ABORT_def

datatype ack_status =
    QUEUED
  | APPLIED
  | APPLIED_LATE
  | DUPLICATE
  | REJECTED_PENDING
  | REJECTED_STATE
  | REJECTED_IDENTITY
  | REJECTED_OPCODE
  | REJECTED_STALE
  | PREEMPTED
  | REJECTED_OVERFLOW

fun ack_status_value :: "ack_status \<Rightarrow> nat" where
  "ack_status_value QUEUED = 0"
| "ack_status_value APPLIED = 1"
| "ack_status_value APPLIED_LATE = 2"
| "ack_status_value DUPLICATE = 3"
| "ack_status_value REJECTED_PENDING = 4"
| "ack_status_value REJECTED_STATE = 5"
| "ack_status_value REJECTED_IDENTITY = 6"
| "ack_status_value REJECTED_OPCODE = 7"
| "ack_status_value REJECTED_STALE = 8"
| "ack_status_value PREEMPTED = 9"
| "ack_status_value REJECTED_OVERFLOW = 10"

definition SIM_NONE :: int where "SIM_NONE = 0"
definition SIM_HORIZON :: int where "SIM_HORIZON = 1"
definition SIM_LOC_ANGLE :: int where "SIM_LOC_ANGLE = 2"
definition SIM_LOC_NONFINITE :: int where "SIM_LOC_NONFINITE = 3"
definition SIM_VEHICLE_TERMINAL :: int where "SIM_VEHICLE_TERMINAL = 4"
definition SIM_PEER_LOST :: int where "SIM_PEER_LOST = 6"

lemmas sim_reason_defs = SIM_NONE_def SIM_HORIZON_def SIM_LOC_ANGLE_def SIM_LOC_NONFINITE_def
  SIM_VEHICLE_TERMINAL_def SIM_PEER_LOST_def

record command =
  cmd_seq :: int
  opcode :: int
  effective_tick :: int

record ack =
  ack_seq :: int
  ack_status :: ack_status
  ack_applied_tick :: int
  ack_state :: mode
  ack_reason :: reason

record terminal_result =
  term_reason :: reason
  term_tick :: int

record episode_state =
  ep_mode :: mode
  ep_pid :: control_state
  settle_count :: int
  pending :: "command option"
  last_accepted :: "command option"
  terminal :: "terminal_result option"
  auto_arm :: bool

record episode_input =
  in_tick :: int
  in_held :: "observation option"
  in_fresh :: bool
  in_staleness :: int
  in_command :: "command option"
  in_horizon :: bool
  in_sim_reason :: "int option"
  in_stop_reason :: "reason option"

record episode_output =
  out_state :: episode_state
  out_delta :: f64
  out_acks :: "ack list"

section \<open>The step (sim/episode.py)\<close>

definition episode_initial :: "bool \<Rightarrow> episode_state" where
  "episode_initial arm =
     \<lparr>ep_mode = INIT, ep_pid = control_initial, settle_count = 0, pending = None,
      last_accepted = None, terminal = None, auto_arm = arm\<rparr>"

definition ep_prefix :: "command \<Rightarrow> command option \<Rightarrow> ack_status option" where
  "ep_prefix cmd prev =
     (if opcode cmd \<notin> {OP_ARM, OP_LAUNCH, OP_ABORT} then Some REJECTED_OPCODE
      else case prev of
        None \<Rightarrow> None
      | Some l \<Rightarrow>
          if cmd_seq cmd = cmd_seq l then
            (if opcode cmd = opcode l \<and> effective_tick cmd = effective_tick l then Some DUPLICATE
             else Some REJECTED_IDENTITY)
          else
            (let gap = (cmd_seq cmd - cmd_seq l) mod 2 ^ 32
             in if \<not> (1 \<le> gap \<and> gap < 0x80000000) then Some REJECTED_STALE else None))"

definition ep_apply :: "mode \<Rightarrow> command \<Rightarrow> int \<Rightarrow> mode \<times> terminal_result option \<times> ack" where
  "ep_apply m cmd tick =
     (let status = (if effective_tick cmd = tick then APPLIED else APPLIED_LATE);
          done = (\<lambda>m' tm r. (m', tm, \<lparr>ack_seq = cmd_seq cmd, ack_status = status,
                    ack_applied_tick = tick, ack_state = m', ack_reason = r\<rparr>))
      in if opcode cmd = OP_ARM \<and> m = INIT then done ARMED None NONE
         else if opcode cmd = OP_LAUNCH \<and> m = ARMED then done FLYING None NONE
         else if opcode cmd = OP_ABORT \<and> m \<in> {ARMED, FLYING} then
           done TERMINATED (Some \<lparr>term_reason = GROUND_ABORT, term_tick = tick\<rparr>) GROUND_ABORT
         else (m, None, \<lparr>ack_seq = cmd_seq cmd, ack_status = REJECTED_STATE,
                 ack_applied_tick = 0, ack_state = m, ack_reason = NONE\<rparr>))"

definition SETTLE_BAND :: f64 where "SETTLE_BAND = f_lit 2 100"
definition LOC_ANGLE :: f64 where "LOC_ANGLE = f_lit 30 100"

text \<open>Lines 145 to 151: the settle counter.\<close>

definition calm :: "observation \<Rightarrow> bool" where
  "calm ob \<longleftrightarrow> f_le (f_abs (obs_theta ob)) SETTLE_BAND \<and> f_le (f_abs (obs_omega ob)) SETTLE_BAND"

definition settle_next :: "int \<Rightarrow> observation option \<Rightarrow> int" where
  "settle_next cnt held =
     (case held of
        None \<Rightarrow> 0
      | Some ob \<Rightarrow> if calm ob then min (cnt + 1) 1000 else 0)"

text \<open>
  Lines 153 to 167: the first reason to terminate, in priority order. Reading the angle of an
  absent observation raises.
\<close>

definition terminal_reason :: "episode_input \<Rightarrow> int \<Rightarrow> reason result" where
  "terminal_reason inp cnt =
     (if in_sim_reason inp \<noteq> None \<and>
         in_sim_reason inp \<notin> Some ` {SIM_HORIZON, SIM_LOC_ANGLE, SIM_LOC_NONFINITE}
      then Inr INTERNAL
      else case in_stop_reason inp of
        Some r \<Rightarrow> Inr r
      | None \<Rightarrow>
          if in_sim_reason inp \<in> Some ` {SIM_LOC_ANGLE, SIM_LOC_NONFINITE} then Inr DIVERGED
          else rbind (if in_fresh inp then
                        rbind (attribute (in_held inp)) (\<lambda>ob. Inr (f_lt LOC_ANGLE (f_abs (obs_theta ob))))
                      else Inr False)
            (\<lambda>out. if out then Inr DIVERGED
                   else if 21 \<le> in_staleness inp then Inr SENSOR_LOST
                   else if in_horizon inp \<or> in_sim_reason inp = Some SIM_HORIZON then
                     Inr (if cnt = 1000 then STABILIZED else NOT_SETTLED)
                   else Inr NONE))"

definition ack_list :: "ack option \<Rightarrow> ack option \<Rightarrow> ack list" where
  "ack_list arrival queued =
     (case arrival of None \<Rightarrow> [] | Some a \<Rightarrow> [a]) @ (case queued of None \<Rightarrow> [] | Some a \<Rightarrow> [a])"

text \<open>Lines 173 to 184: the cycle that terminates.\<close>

definition terminate_step :: "episode_state \<Rightarrow> episode_input \<Rightarrow> int \<Rightarrow> reason \<Rightarrow> episode_output" where
  "terminate_step state inp cnt r =
     (let arrival_ack = map_option (\<lambda>cmd.
            \<lparr>ack_seq = cmd_seq cmd,
             ack_status = (case ep_prefix cmd (last_accepted state) of
                None \<Rightarrow> REJECTED_STATE | Some st \<Rightarrow> st),
             ack_applied_tick = 0, ack_state = TERMINATED, ack_reason = r\<rparr>) (in_command inp);
          pending_ack = map_option (\<lambda>cmd.
            \<lparr>ack_seq = cmd_seq cmd, ack_status = REJECTED_STATE,
             ack_applied_tick = 0, ack_state = TERMINATED, ack_reason = r\<rparr>) (pending state)
      in \<lparr>out_state = \<lparr>ep_mode = TERMINATED, ep_pid = ep_pid state, settle_count = cnt,
            pending = None, last_accepted = last_accepted state,
            terminal = Some \<lparr>term_reason = r, term_tick = in_tick inp\<rparr>,
            auto_arm = auto_arm state\<rparr>,
          out_delta = f_zero False, out_acks = ack_list arrival_ack pending_ack\<rparr>)"

text \<open>Lines 186 to 205: the command that arrives this cycle.\<close>

record command_state =
  cs_mode :: mode
  cs_terminal :: "terminal_result option"
  cs_pending :: "command option"
  cs_last :: "command option"
  cs_arrival :: "ack option"
  cs_queued :: "ack option"

definition plain_ack :: "command \<Rightarrow> ack_status \<Rightarrow> mode \<Rightarrow> ack" where
  "plain_ack cmd status m =
     \<lparr>ack_seq = cmd_seq cmd, ack_status = status, ack_applied_tick = 0, ack_state = m, ack_reason = NONE\<rparr>"

definition arrive_step :: "episode_state \<Rightarrow> episode_input \<Rightarrow> command_state" where
  "arrive_step state inp =
     (let m = ep_mode state;
          s0 = \<lparr>cs_mode = m, cs_terminal = None, cs_pending = pending state,
                cs_last = last_accepted state, cs_arrival = None, cs_queued = None\<rparr>
      in case in_command inp of
        None \<Rightarrow> s0
      | Some cmd \<Rightarrow>
          (let status0 = ep_prefix cmd (last_accepted state);
               (status, s1) =
                 (case (status0, pending state) of
                    (None, Some p) \<Rightarrow>
                      if opcode cmd = OP_ABORT \<and> opcode p \<noteq> OP_ABORT then
                        (None, s0\<lparr>cs_queued := Some (plain_ack p PREEMPTED m), cs_pending := None\<rparr>)
                      else (Some REJECTED_PENDING, s0)
                  | _ \<Rightarrow> (status0, s0))
           in case status of
                Some st \<Rightarrow> s1\<lparr>cs_arrival := Some (plain_ack cmd st m)\<rparr>
              | None \<Rightarrow>
                  if in_tick inp < effective_tick cmd then
                    s1\<lparr>cs_last := Some cmd, cs_pending := Some cmd,
                       cs_arrival := Some (plain_ack cmd QUEUED m)\<rparr>
                  else
                    (case ep_apply m cmd (in_tick inp) of
                       (m', tm, a) \<Rightarrow>
                         s1\<lparr>cs_last := Some cmd, cs_mode := m', cs_terminal := tm,
                            cs_arrival := Some a\<rparr>)))"

text \<open>Lines 207 to 210: the queued command that is due.\<close>

definition due_step :: "episode_input \<Rightarrow> command_state \<Rightarrow> command_state" where
  "due_step inp s =
     (case cs_pending s of
        None \<Rightarrow> s
      | Some p \<Rightarrow>
          if effective_tick p \<le> in_tick inp then
            (case ep_apply (cs_mode s) p (in_tick inp) of
               (m', tm, a) \<Rightarrow>
                 s\<lparr>cs_pending := None, cs_mode := m', cs_terminal := tm, cs_queued := Some a\<rparr>)
          else s)"

text \<open>Lines 214 to 229: automatic arming and the controller with its staleness ladder.\<close>

definition arm_step :: "bool \<Rightarrow> bool \<Rightarrow> mode \<Rightarrow> mode" where
  "arm_step arm fresh m =
     (if arm \<and> fresh then
        (let m1 = (if m = INIT then ARMED else m) in if m1 = ARMED then FLYING else m1)
      else m)"

definition control_ladder ::
  "control_state \<Rightarrow> episode_input \<Rightarrow> mode \<Rightarrow> (f64 \<times> control_state) result" where
  "control_ladder pid inp m =
     (if m = FLYING then
        (if in_fresh inp then rbind (attribute (in_held inp)) (\<lambda>ob. Inr (control_step pid ob))
         else if in_staleness inp \<le> 8 then Inr (last_delta pid, pid)
         else Inr (f_zero False, pid))
      else Inr (f_zero False, pid))"

definition advance_step :: "episode_state \<Rightarrow> episode_input \<Rightarrow> int \<Rightarrow> episode_output result" where
  "advance_step state inp cnt =
     (let s = due_step inp (arrive_step state inp);
          m = (if cs_terminal s = None then arm_step (auto_arm state) (in_fresh inp) (cs_mode s)
               else cs_mode s)
      in rbind (if cs_terminal s = None then control_ladder (ep_pid state) inp m
                else Inr (f_zero False, ep_pid state))
           (\<lambda>(delta, pid). Inr
              \<lparr>out_state = \<lparr>ep_mode = m, ep_pid = pid, settle_count = cnt,
                 pending = cs_pending s, last_accepted = cs_last s, terminal = cs_terminal s,
                 auto_arm = auto_arm state\<rparr>,
               out_delta = delta, out_acks = ack_list (cs_arrival s) (cs_queued s)\<rparr>))"

definition episode_step :: "episode_state \<Rightarrow> episode_input \<Rightarrow> episode_output result" where
  "episode_step state inp =
     (if ep_mode state = TERMINATED then
        Inr \<lparr>out_state = state, out_delta = f_zero False, out_acks = []\<rparr>
      else
        (let cnt = settle_next (settle_count state) (in_held inp)
         in rbind (terminal_reason inp cnt)
              (\<lambda>r. if r \<noteq> NONE then Inr (terminate_step state inp cnt r)
                   else advance_step state inp cnt)))"

section \<open>The invariant\<close>

definition episode_wf :: "episode_state \<Rightarrow> bool" where
  "episode_wf st \<longleftrightarrow>
     (ep_mode st = TERMINATED \<longleftrightarrow> terminal st \<noteq> None) \<and>
     0 \<le> settle_count st \<and> settle_count st \<le> 1000 \<and>
     (\<forall>p. pending st = Some p \<longrightarrow> last_accepted st = Some p \<and> ep_mode st \<noteq> TERMINATED)"

definition episode_inv :: "episode_state \<Rightarrow> bool" where
  "episode_inv st \<longleftrightarrow> episode_wf st \<and> control_inv (ep_pid st)"

lemma episode_inv_wf: "episode_inv st \<Longrightarrow> episode_wf st"
  by (simp add: episode_inv_def)

text \<open>
  What the callers guarantee of an input: a fresh observation is present, with values the
  controller's arithmetic can hold, and \<open>fresh\<close> excludes staleness.
\<close>

definition input_ok :: "episode_input \<Rightarrow> bool" where
  "input_ok inp \<longleftrightarrow>
     (in_fresh inp \<longrightarrow> (case in_held inp of None \<Rightarrow> False | Some ob \<Rightarrow> obs_ok ob))"

lemma input_ok_fresh:
  assumes "input_ok inp" "in_fresh inp"
  obtains ob where "in_held inp = Some ob" "obs_ok ob"
  using assms by (auto simp: input_ok_def split: option.splits)

lemma control_initial_inv: "control_inv control_initial"
  by (simp add: control_inv_def control_initial_def bdd_def)

lemma episode_initial_inv: "episode_inv (episode_initial arm)"
  by (simp add: episode_inv_def episode_wf_def episode_initial_def control_initial_inv)

lemma settle_next_range:
  assumes "0 \<le> n" "n \<le> 1000"
  shows "0 \<le> settle_next n held" "settle_next n held \<le> 1000"
  using assms by (auto simp: settle_next_def split: option.splits)

section \<open>The command phase\<close>

lemma ep_apply_facts:
  assumes "ep_apply m cmd t = (m', tm, a)" "m \<noteq> TERMINATED"
  shows "m \<le> m'" "m' = TERMINATED \<longleftrightarrow> tm \<noteq> None"
    "tm \<noteq> None \<Longrightarrow> tm = Some \<lparr>term_reason = GROUND_ABORT, term_tick = t\<rparr> \<and> opcode cmd = OP_ABORT"
    "ack_seq a = cmd_seq cmd" "ack_status a \<in> {APPLIED, APPLIED_LATE, REJECTED_STATE}"
    "ack_status a = REJECTED_STATE \<longleftrightarrow> m' = m"
    "opcode cmd = OP_ABORT \<Longrightarrow> m \<noteq> INIT \<Longrightarrow> m' = TERMINATED"
  using assms by (cases m; auto simp: ep_apply_def Let_def less_eq_mode_def opcode_defs split: if_splits)+

definition cmd_phase :: "episode_state \<Rightarrow> episode_input \<Rightarrow> command_state" where
  "cmd_phase st inp = due_step inp (arrive_step st inp)"

text \<open>
  The three ways an arriving command is dealt with, in the order the code tests them.
\<close>

lemma arrive_cases:
  obtains (none) "in_command inp = None"
      "arrive_step st inp = \<lparr>cs_mode = ep_mode st, cs_terminal = None, cs_pending = pending st,
         cs_last = last_accepted st, cs_arrival = None, cs_queued = None\<rparr>"
  | (rejected) cmd status where "in_command inp = Some cmd" "status \<notin> {QUEUED, APPLIED, APPLIED_LATE}"
      "arrive_step st inp = \<lparr>cs_mode = ep_mode st, cs_terminal = None, cs_pending = pending st,
         cs_last = last_accepted st, cs_arrival = Some (plain_ack cmd status (ep_mode st)),
         cs_queued = None\<rparr>"
  | (accepted) cmd where "in_command inp = Some cmd" "ep_prefix cmd (last_accepted st) = None"
      "pending st = None \<or> (\<exists>p. pending st = Some p \<and> opcode p \<noteq> OP_ABORT \<and> opcode cmd = OP_ABORT)"
      "arrive_step st inp =
        (let q = map_option (\<lambda>p. plain_ack p PREEMPTED (ep_mode st)) (pending st)
         in if in_tick inp < effective_tick cmd then
              \<lparr>cs_mode = ep_mode st, cs_terminal = None, cs_pending = Some cmd, cs_last = Some cmd,
               cs_arrival = Some (plain_ack cmd QUEUED (ep_mode st)), cs_queued = q\<rparr>
            else (case ep_apply (ep_mode st) cmd (in_tick inp) of
               (m', tm, a) \<Rightarrow> \<lparr>cs_mode = m', cs_terminal = tm, cs_pending = None,
                  cs_last = Some cmd, cs_arrival = Some a, cs_queued = q\<rparr>))"
proof (cases "in_command inp")
  case None
  then show thesis by (intro none) (simp_all add: arrive_step_def Let_def)
next
  case (Some cmd)
  show thesis
  proof (cases "ep_prefix cmd (last_accepted st)")
    case None
    show thesis
    proof (cases "pending st = None \<or>
        (\<exists>p. pending st = Some p \<and> opcode p \<noteq> OP_ABORT \<and> opcode cmd = OP_ABORT)")
      case True
      then show thesis
        using Some None
        by (intro accepted [of cmd]) (auto simp: arrive_step_def Let_def split: prod.splits)
    next
      case False
      then show thesis
        using Some None
        by (intro rejected [of cmd REJECTED_PENDING]) (auto simp: arrive_step_def Let_def)
    qed
  next
    case (Some status)
    then have "status \<notin> {QUEUED, APPLIED, APPLIED_LATE}"
      by (auto simp: ep_prefix_def Let_def split: if_splits option.splits)
    with Some \<open>in_command inp = Some cmd\<close> show thesis
      by (intro rejected [of cmd status]) (auto simp: arrive_step_def Let_def)
  qed
qed

text \<open>Sequence numbers of the acknowledgements that end a command's life.\<close>

definition final_acks :: "ack list \<Rightarrow> int multiset" where
  "final_acks acks = mset (map ack_seq (filter (\<lambda>a. ack_status a \<noteq> QUEUED) acks))"

definition opt_seq :: "command option \<Rightarrow> int multiset" where
  "opt_seq c = (case c of None \<Rightarrow> {#} | Some cmd \<Rightarrow> {#cmd_seq cmd#})"

lemma opt_seq_simps [simp]: "opt_seq None = {#}" "opt_seq (Some c) = {#cmd_seq c#}"
  by (simp_all add: opt_seq_def)

definition phase_ok :: "episode_state \<Rightarrow> episode_input \<Rightarrow> command_state \<Rightarrow> bool" where
  "phase_ok st inp s \<longleftrightarrow>
     ep_mode st \<le> cs_mode s \<and> (cs_mode s = TERMINATED \<longleftrightarrow> cs_terminal s \<noteq> None) \<and>
     (cs_terminal s \<noteq> None \<longrightarrow>
        cs_terminal s = Some \<lparr>term_reason = GROUND_ABORT, term_tick = in_tick inp\<rparr>) \<and>
     (\<forall>p. cs_pending s = Some p \<longrightarrow> cs_last s = Some p \<and> cs_terminal s = None \<and>
        in_tick inp < effective_tick p) \<and>
     final_acks (ack_list (cs_arrival s) (cs_queued s)) + opt_seq (cs_pending s)
       = opt_seq (pending st) + opt_seq (in_command inp)"

lemma ack_list_simps [simp]: "ack_list None None = []" "ack_list (Some a) None = [a]"
  "ack_list None (Some b) = [b]" "ack_list (Some a) (Some b) = [a, b]"
  by (simp_all add: ack_list_def)

lemma plain_ack_simps [simp]: "ack_seq (plain_ack c st m) = cmd_seq c"
  "ack_status (plain_ack c st m) = st" "ack_state (plain_ack c st m) = m"
  by (simp_all add: plain_ack_def)

lemma phase_ok_due:
  assumes st: "episode_wf st" "ep_mode st \<noteq> TERMINATED"
    and a: "arrive_step st inp = \<lparr>cs_mode = ep_mode st, cs_terminal = None, cs_pending = pending st,
         cs_last = last_accepted st, cs_arrival = arr, cs_queued = None\<rparr>"
    and acks: "final_acks (ack_list arr None) = opt_seq (in_command inp)"
  shows "phase_ok st inp (cmd_phase st inp)"
proof (cases "\<exists>p. pending st = Some p \<and> effective_tick p \<le> in_tick inp")
  case False
  then have "cmd_phase st inp = arrive_step st inp"
    by (auto simp: cmd_phase_def due_step_def a split: option.splits)
  then show ?thesis
    using st False acks
    by (auto simp: phase_ok_def a episode_wf_def)
next
  case True
  then obtain p where p: "pending st = Some p" "effective_tick p \<le> in_tick inp" by blast
  obtain m' tm b where ap: "ep_apply (ep_mode st) p (in_tick inp) = (m', tm, b)"
    by (metis prod_cases3)
  have "cmd_phase st inp = \<lparr>cs_mode = m', cs_terminal = tm, cs_pending = None,
      cs_last = last_accepted st, cs_arrival = arr, cs_queued = Some b\<rparr>"
    by (simp add: cmd_phase_def due_step_def a p ap)
  moreover have "final_acks (ack_list arr (Some b)) = final_acks (ack_list arr None) + {#cmd_seq p#}"
    using ep_apply_facts(4,5) [OF ap st(2)] by (cases arr) (auto simp: final_acks_def)
  ultimately show ?thesis
    using ep_apply_facts [OF ap st(2)] p acks by (auto simp: phase_ok_def)
qed

lemma cmd_phase_ok:
  assumes st: "episode_wf st" "ep_mode st \<noteq> TERMINATED"
  shows "phase_ok st inp (cmd_phase st inp)"
proof (cases rule: arrive_cases [of inp st])
  case none
  then show ?thesis by (intro phase_ok_due [OF st, of inp None]) (simp_all add: final_acks_def)
next
  case (rejected cmd status)
  then show ?thesis by (intro phase_ok_due [OF st, of inp "Some (plain_ack cmd status (ep_mode st))"])
      (auto simp: final_acks_def)
next
  case (accepted cmd)
  show ?thesis
  proof (cases "in_tick inp < effective_tick cmd")
    case True
    with accepted st show ?thesis
      by (cases "pending st") (auto simp: cmd_phase_def due_step_def phase_ok_def final_acks_def Let_def)
  next
    case False
    obtain m' tm b where ap: "ep_apply (ep_mode st) cmd (in_tick inp) = (m', tm, b)"
      by (metis prod_cases3)
    from accepted False ap ep_apply_facts [OF ap st(2)] show ?thesis
      by (cases "pending st") (auto simp: cmd_phase_def due_step_def phase_ok_def final_acks_def Let_def)
  qed
qed

section \<open>One step\<close>

text \<open>\<open>fresh\<close> with a held observation is all that the policy needs to return.\<close>

definition held_ok :: "episode_input \<Rightarrow> bool" where
  "held_ok inp \<longleftrightarrow> (in_fresh inp \<longrightarrow> (case in_held inp of None \<Rightarrow> False | Some ob \<Rightarrow> True))"

lemma input_held_ok: "input_ok inp \<Longrightarrow> held_ok inp"
  by (auto simp: input_ok_def held_ok_def split: option.splits)

lemma terminal_reason_total: "held_ok inp \<Longrightarrow> \<exists>r. terminal_reason inp cnt = Inr r"
  by (auto simp: terminal_reason_def held_ok_def split: option.splits)

lemma episode_step_cases:
  assumes "episode_step st inp = Inr out" "ep_mode st \<noteq> TERMINATED"
  obtains (terminate) r where "r \<noteq> NONE"
      "terminal_reason inp (settle_next (settle_count st) (in_held inp)) = Inr r"
      "out = terminate_step st inp (settle_next (settle_count st) (in_held inp)) r"
  | (advance) "terminal_reason inp (settle_next (settle_count st) (in_held inp)) = Inr NONE"
      "advance_step st inp (settle_next (settle_count st) (in_held inp)) = Inr out"
  using assms by (auto simp: episode_step_def Let_def result_simps split: if_splits)

lemma arm_step_mono: "m \<le> arm_step arm fresh m" "arm_step arm fresh m = TERMINATED \<longleftrightarrow> m = TERMINATED"
  by (cases m; simp add: arm_step_def less_eq_mode_def)+

lemma CTL_DELTA_MAX_nonneg: "bdd CTL_DELTA_MAX (f_zero s)"
  by (simp add: bdd_def)

lemma control_ladder_inv:
  assumes "control_ladder pid inp m = Inr (delta, pid')" "control_inv pid" "input_ok inp"
  shows "control_inv pid'" "bdd CTL_DELTA_MAX delta"
proof -
  have fresh: "control_inv pid' \<and> bdd CTL_DELTA_MAX delta"
    if "control_step pid ob = (delta, pid')" "obs_ok ob" for ob
    using control_step_inv [OF assms(2) that(2)] that(1) by simp
  have held: "bdd CTL_DELTA_MAX (last_delta pid)"
    using assms(2) by (simp add: control_inv_def)
  show "control_inv pid'" "bdd CTL_DELTA_MAX delta"
    using assms fresh held CTL_DELTA_MAX_nonneg
    by (auto simp: control_ladder_def result_simps input_ok_def split: if_splits option.splits)
qed

text \<open>What the fields of an advancing step are.\<close>

lemma advance_step_fields:
  assumes "advance_step st inp cnt = Inr out"
  defines "s \<equiv> cmd_phase st inp"
  defines "m \<equiv> (if cs_terminal s = None then arm_step (auto_arm st) (in_fresh inp) (cs_mode s) else cs_mode s)"
  shows "ep_mode (out_state out) = m" "settle_count (out_state out) = cnt"
    "pending (out_state out) = cs_pending s" "last_accepted (out_state out) = cs_last s"
    "terminal (out_state out) = cs_terminal s" "auto_arm (out_state out) = auto_arm st"
    "out_acks out = ack_list (cs_arrival s) (cs_queued s)"
    "(if cs_terminal s = None then control_ladder (ep_pid st) inp m else Inr (f_zero False, ep_pid st))
       = Inr (out_delta out, ep_pid (out_state out))"
  using assms by (auto simp: advance_step_def Let_def result_simps cmd_phase_def split: prod.splits)

lemma advance_step_total:
  assumes "held_ok inp"
  shows "\<exists>out. advance_step st inp cnt = Inr out"
proof -
  have "\<exists>x. control_ladder pid inp m = Inr x" for pid m
    using assms by (auto simp: control_ladder_def held_ok_def split: option.splits)
  then show ?thesis
    by (auto simp: advance_step_def Let_def result_simps split: prod.splits)
qed

lemma episode_step_returns:
  assumes "held_ok inp"
  shows "\<exists>out. episode_step st inp = Inr out"
proof -
  obtain r where "terminal_reason inp (settle_next (settle_count st) (in_held inp)) = Inr r"
    using terminal_reason_total [OF assms] by blast
  then show ?thesis
    using advance_step_total [OF assms] by (cases "r = NONE") (simp_all add: episode_step_def Let_def)
qed

lemma episode_step_total: "input_ok inp \<Longrightarrow> \<exists>out. episode_step st inp = Inr out"
  by (intro episode_step_returns input_held_ok)

lemma terminate_step_fields:
  "ep_mode (out_state (terminate_step st inp cnt r)) = TERMINATED"
  "ep_pid (out_state (terminate_step st inp cnt r)) = ep_pid st"
  "settle_count (out_state (terminate_step st inp cnt r)) = cnt"
  "pending (out_state (terminate_step st inp cnt r)) = None"
  "last_accepted (out_state (terminate_step st inp cnt r)) = last_accepted st"
  "terminal (out_state (terminate_step st inp cnt r)) = Some \<lparr>term_reason = r, term_tick = in_tick inp\<rparr>"
  "auto_arm (out_state (terminate_step st inp cnt r)) = auto_arm st"
  "out_delta (terminate_step st inp cnt r) = f_zero False"
  by (simp_all add: terminate_step_def)

lemma ep_prefix_not_queued: "ep_prefix cmd prev \<noteq> Some QUEUED"
  by (auto simp: ep_prefix_def Let_def split: option.splits)

lemma terminate_step_acks:
  "final_acks (out_acks (terminate_step st inp cnt r)) = opt_seq (pending st) + opt_seq (in_command inp)"
  using ep_prefix_not_queued
  by (cases "in_command inp"; cases "pending st")
     (auto simp: terminate_step_def final_acks_def split: option.splits)

lemmas step_fields = terminate_step_fields advance_step_fields

lemma episode_step_wf:
  assumes "episode_step st inp = Inr out" "episode_wf st"
  shows "episode_wf (out_state out)"
proof (cases "ep_mode st = TERMINATED")
  case True
  with assms show ?thesis by (auto simp: episode_step_def)
next
  case False
  have range: "0 \<le> settle_next (settle_count st) (in_held inp)"
    "settle_next (settle_count st) (in_held inp) \<le> 1000"
    using assms(2) settle_next_range unfolding episode_wf_def by blast+
  from assms(1) False show ?thesis
  proof (cases rule: episode_step_cases)
    case (terminate r)
    with range show ?thesis by (simp add: episode_wf_def terminate_step_fields)
  next
    case advance
    have ok: "phase_ok st inp (cmd_phase st inp)" by (rule cmd_phase_ok [OF assms(2) False])
    then show ?thesis
      using range
      by (auto simp: episode_wf_def advance_step_fields [OF advance(2)] phase_ok_def arm_step_mono
          split: if_splits)
  qed
qed

text \<open>The controller's part of the invariant needs the observation only in a cycle that goes on.\<close>

lemma episode_step_control:
  assumes "episode_step st inp = Inr out" "control_inv (ep_pid st)"
    and ok: "terminal_reason inp (settle_next (settle_count st) (in_held inp)) = Inr NONE \<Longrightarrow> input_ok inp"
  shows "control_inv (ep_pid (out_state out)) \<and> bdd CTL_DELTA_MAX (out_delta out)"
proof (cases "ep_mode st = TERMINATED")
  case True
  with assms show ?thesis by (auto simp: episode_step_def CTL_DELTA_MAX_nonneg)
next
  case False
  with assms(1) show ?thesis
  proof (cases rule: episode_step_cases)
    case (terminate r)
    with assms(2) show ?thesis by (simp add: terminate_step_fields CTL_DELTA_MAX_nonneg)
  next
    case advance
    then show ?thesis
      using advance_step_fields(8) [OF advance(2)] control_ladder_inv [OF _ assms(2) ok] assms(2)
        CTL_DELTA_MAX_nonneg
      by (auto split: if_splits) (metis CTL_DELTA_MAX_nonneg)
  qed
qed

lemma episode_step_inv:
  assumes "episode_step st inp = Inr out" "episode_inv st" "input_ok inp"
  shows "episode_inv (out_state out)" "bdd CTL_DELTA_MAX (out_delta out)"
  using assms episode_step_wf episode_step_control unfolding episode_inv_def by blast+

section \<open>The episode as a step machine\<close>

definition episode_cycle ::
  "episode_state \<Rightarrow> episode_input \<Rightarrow> (episode_state \<times> f64 \<times> ack list) result" where
  "episode_cycle st inp =
     rbind (episode_step st inp) (\<lambda>out. Inr (out_state out, out_delta out, out_acks out))"

lemma episode_cycle_Inr:
  "episode_cycle st inp = Inr (st', delta, acks) \<longleftrightarrow>
     (\<exists>out. episode_step st inp = Inr out \<and> st' = out_state out \<and> delta = out_delta out \<and>
        acks = out_acks out)"
  by (auto simp: episode_cycle_def result_simps)

definition is_terminated :: "episode_state \<Rightarrow> bool" where
  "is_terminated st \<longleftrightarrow> ep_mode st = TERMINATED"

definition delta_ok :: "f64 \<times> ack list \<Rightarrow> bool" where
  "delta_ok x \<longleftrightarrow> bdd CTL_DELTA_MAX (fst x)"

interpretation ep: machine episode_cycle episode_inv input_ok is_terminated delta_ok "(f_zero False, [])"
proof
  fix st inp assume "episode_inv st" "input_ok inp"
  then show "\<exists>s' out. episode_cycle st inp = Inr (s', out)"
    using episode_step_total [of inp st] by (auto simp: episode_cycle_def)
next
  fix st inp st' out assume "episode_inv st" "input_ok inp" "episode_cycle st inp = Inr (st', out)"
  then show "episode_inv st' \<and> delta_ok out"
    by (cases out) (auto simp: episode_cycle_Inr delta_ok_def intro: episode_step_inv)
next
  fix st inp assume "is_terminated st"
  then show "episode_cycle st inp = Inr (st, f_zero False, [])"
    by (simp add: episode_cycle_def is_terminated_def episode_step_def)
qed

section \<open>Mode transitions\<close>

text \<open>\<open>auto\<close>: the state arms itself and the cycle has a fresh observation.\<close>

inductive mode_step :: "bool \<Rightarrow> mode \<Rightarrow> mode \<Rightarrow> bool" for auto where
  stay: "mode_step auto m m"
| arm: "mode_step auto INIT ARMED"
| launch: "mode_step auto ARMED FLYING"
| auto_launch: "auto \<Longrightarrow> mode_step auto INIT FLYING"
| stop: "mode_step auto m TERMINATED"

inductive_simps mode_step_simps [simp]:
  "mode_step auto INIT m" "mode_step auto ARMED m" "mode_step auto FLYING m"
  "mode_step auto TERMINATED m" "mode_step auto m TERMINATED"

inductive_cases mode_stepE: "mode_step auto m m'"

lemma mode_step_mono: "mode_step auto m m' \<Longrightarrow> m \<le> m'"
  by (cases m; cases m') (auto simp: less_eq_mode_def)

lemma ep_apply_mode_step:
  "ep_apply m cmd t = (m', tm, a) \<Longrightarrow> mode_step auto m m'"
  by (cases m) (auto simp: ep_apply_def Let_def split: if_splits)

lemma cmd_phase_mode: "mode_step auto (ep_mode st) (cs_mode (cmd_phase st inp))"
proof (cases rule: arrive_cases [of inp st])
  case none
  then show ?thesis
    by (auto simp: cmd_phase_def due_step_def intro: stay ep_apply_mode_step
        split: option.splits prod.splits)
next
  case rejected
  then show ?thesis
    by (auto simp: cmd_phase_def due_step_def intro: stay ep_apply_mode_step
        split: option.splits prod.splits)
next
  case accepted
  then show ?thesis
    by (auto simp: cmd_phase_def due_step_def Let_def intro: stay ep_apply_mode_step
        split: option.splits prod.splits)
qed

lemma arm_step_mode:
  "mode_step auto m m1 \<Longrightarrow> mode_step (auto \<or> (arm \<and> fresh)) m (arm_step arm fresh m1)"
  by (cases m; cases m1) (auto simp: arm_step_def)

lemma episode_mode_step:
  assumes "episode_step st inp = Inr out"
  shows "mode_step (auto_arm st \<and> in_fresh inp) (ep_mode st) (ep_mode (out_state out))"
proof (cases "ep_mode st = TERMINATED")
  case True
  with assms show ?thesis by (auto simp: episode_step_def)
next
  case False
  with assms show ?thesis
  proof (cases rule: episode_step_cases)
    case (terminate r)
    then show ?thesis by (simp add: terminate_step_fields)
  next
    case advance
    then show ?thesis
      using cmd_phase_mode [of "auto_arm st \<and> in_fresh inp" st inp]
        arm_step_mode [OF cmd_phase_mode [of False st inp], of "auto_arm st" "in_fresh inp"]
      by (simp add: advance_step_fields(1))
  qed
qed

section \<open>Runs\<close>

lemma episode_cycle_live:
  assumes "episode_cycle st inp = Inr (st', x)" "ep_mode st' \<noteq> TERMINATED"
  shows "ep_mode st \<noteq> TERMINATED"
  using assms by (auto simp: episode_cycle_def episode_step_def)

lemma episode_cycle_settle:
  assumes "episode_cycle st inp = Inr (st', x)" "ep_mode st \<noteq> TERMINATED"
  shows "settle_count st' = settle_next (settle_count st) (in_held inp)"
  using assms
  by (cases x) (auto simp: episode_cycle_Inr terminate_step_fields advance_step_fields
      elim!: episode_step_cases)

definition calm_input :: "episode_input \<Rightarrow> bool" where
  "calm_input inp = (case in_held inp of None \<Rightarrow> False | Some ob \<Rightarrow> calm ob)"

lemma settle_next_calm:
  "settle_next n (in_held inp) = (if calm_input inp then min (n + 1) 1000 else 0)"
  by (simp add: settle_next_def calm_input_def split: option.splits)

lemma run_live_settle:
  assumes "machine_run episode_cycle (episode_initial arm) is = Inr (st, outs)"
    "ep_mode st \<noteq> TERMINATED"
  shows "settle_count st = min 1000 (int (length (takeWhile calm_input (rev is))))"
  using assms
proof (induction "is" arbitrary: st outs rule: rev_induct)
  case Nil
  then show ?case by (auto simp: episode_initial_def)
next
  case (snoc i "is")
  then obtain s1 outs1 out where run: "machine_run episode_cycle (episode_initial arm) is = Inr (s1, outs1)"
    and i: "episode_cycle s1 i = Inr (st, out)"
    by (auto simp: machine_run_snoc)
  have live: "ep_mode s1 \<noteq> TERMINATED" by (rule episode_cycle_live [OF i snoc.prems(2)])
  show ?case
    using snoc.IH [OF run live] episode_cycle_settle [OF i live] by (auto simp: settle_next_calm)
qed


text \<open>Every sequence number that entered is answered once, the queued one excepted.\<close>

lemma episode_step_acks:
  assumes "episode_step st inp = Inr out" "episode_wf st" "ep_mode st \<noteq> TERMINATED"
  shows "final_acks (out_acks out) + opt_seq (pending (out_state out)) =
    opt_seq (pending st) + opt_seq (in_command inp)"
  using assms(1,3)
proof (cases rule: episode_step_cases)
  case (terminate r)
  then show ?thesis by (simp add: terminate_step_fields terminate_step_acks)
next
  case advance
  then show ?thesis
    using cmd_phase_ok [OF assms(2,3), of inp] by (simp add: advance_step_fields phase_ok_def)
qed

definition run_acks :: "(f64 \<times> ack list) list \<Rightarrow> int multiset" where
  "run_acks outs = sum_list (map (\<lambda>x. final_acks (snd x)) outs)"

definition run_commands :: "episode_input list \<Rightarrow> int multiset" where
  "run_commands is = sum_list (map (\<lambda>i. opt_seq (in_command i)) is)"

lemma run_acks_snoc: "run_acks (outs @ [x]) = run_acks outs + final_acks (snd x)"
  "run_commands (is @ [i]) = run_commands is + opt_seq (in_command i)"
  by (simp_all add: run_acks_def run_commands_def)

lemma run_acks_live:
  assumes "machine_run episode_cycle (episode_initial arm) is = Inr (st, outs)"
    "list_all input_ok is" "ep_mode st \<noteq> TERMINATED"
  shows "run_acks outs + opt_seq (pending st) = run_commands is"
  using assms
proof (induction "is" arbitrary: st outs rule: rev_induct)
  case Nil
  then show ?case by (auto simp: episode_initial_def run_acks_def run_commands_def)
next
  case (snoc i "is")
  then obtain s1 outs1 out where run: "machine_run episode_cycle (episode_initial arm) is = Inr (s1, outs1)"
    and i: "episode_cycle s1 i = Inr (st, out)" and outs: "outs = outs1 @ [out]"
    by (auto simp: machine_run_snoc)
  have live: "ep_mode s1 \<noteq> TERMINATED" by (rule episode_cycle_live [OF i snoc.prems(3)])
  have inv: "episode_wf s1"
    using ep.run_total [OF episode_initial_inv, of "is" arm] snoc.prems(2) run
    by (simp add: episode_inv_wf)
  obtain o1 where "episode_step s1 i = Inr o1" "st = out_state o1" "snd out = out_acks o1"
    using i by (cases out) (auto simp: episode_cycle_Inr)
  then show ?case
    using snoc.IH [OF run _ live] snoc.prems(2) episode_step_acks [OF _ inv live, of i o1]
    by (simp add: outs run_acks_snoc ac_simps)
qed

section \<open>Rejected commands leave no trace\<close>

lemma cmd_phase_rejected:
  assumes "in_command inp = Some cmd" "ep_prefix cmd (last_accepted st) = Some status"
  shows "cmd_phase st inp =
    (cmd_phase st (inp\<lparr>in_command := None\<rparr>))\<lparr>cs_arrival := Some (plain_ack cmd status (ep_mode st))\<rparr>"
  using assms
  by (auto simp: cmd_phase_def arrive_step_def due_step_def Let_def split: option.splits prod.splits)

lemma cmd_phase_no_arrival:
  "in_command inp = None \<Longrightarrow> cs_arrival (cmd_phase st inp) = None"
  by (auto simp: cmd_phase_def arrive_step_def due_step_def Let_def split: option.splits prod.splits)

lemma in_command_update:
  "in_tick (inp\<lparr>in_command := c\<rparr>) = in_tick inp" "in_held (inp\<lparr>in_command := c\<rparr>) = in_held inp"
  "in_fresh (inp\<lparr>in_command := c\<rparr>) = in_fresh inp"
  "in_staleness (inp\<lparr>in_command := c\<rparr>) = in_staleness inp"
  "in_horizon (inp\<lparr>in_command := c\<rparr>) = in_horizon inp"
  "in_sim_reason (inp\<lparr>in_command := c\<rparr>) = in_sim_reason inp"
  "in_stop_reason (inp\<lparr>in_command := c\<rparr>) = in_stop_reason inp"
  "in_command (inp\<lparr>in_command := c\<rparr>) = c"
  by simp_all

lemma terminal_reason_command:
  "terminal_reason (inp\<lparr>in_command := c\<rparr>) cnt = terminal_reason inp cnt"
  unfolding terminal_reason_def in_command_update ..

lemma control_ladder_command:
  "control_ladder pid (inp\<lparr>in_command := c\<rparr>) m = control_ladder pid inp m"
  unfolding control_ladder_def in_command_update ..


lemma episode_step_rejected:
  assumes "in_command inp = Some cmd" "ep_prefix cmd (last_accepted st) = Some status"
    and "ep_mode st \<noteq> TERMINATED"
    and out: "episode_step st inp = Inr out"
    and quiet: "episode_step st (inp\<lparr>in_command := None\<rparr>) = Inr out0"
  shows "out_state out = out_state out0" "out_delta out = out_delta out0"
    "\<exists>a. out_acks out = a # out_acks out0 \<and> ack_seq a = cmd_seq cmd \<and> ack_status a = status"
proof -
  let ?inp0 = "inp\<lparr>in_command := None\<rparr>"
  let ?cnt = "settle_next (settle_count st) (in_held inp)"
  have "out_state out = out_state out0 \<and> out_delta out = out_delta out0 \<and>
    (\<exists>a. out_acks out = a # out_acks out0 \<and> ack_seq a = cmd_seq cmd \<and> ack_status a = status)"
    using out assms(3)
  proof (cases rule: episode_step_cases)
    case (terminate r)
    then have "out0 = terminate_step st ?inp0 ?cnt r"
      using quiet assms(3)
      by (simp add: episode_step_def terminal_reason_command in_command_update)
    then show ?thesis
      using terminate assms(1,2)
      by (simp add: terminate_step_def in_command_update ack_list_def)
  next
    case advance
    then have adv0: "advance_step st ?inp0 ?cnt = Inr out0"
      using quiet assms(3)
      by (simp add: episode_step_def terminal_reason_command in_command_update)
    note phase = cmd_phase_rejected [OF assms(1,2)]
    have s: "cs_mode (cmd_phase st inp) = cs_mode (cmd_phase st ?inp0)"
      "cs_terminal (cmd_phase st inp) = cs_terminal (cmd_phase st ?inp0)"
      "cs_pending (cmd_phase st inp) = cs_pending (cmd_phase st ?inp0)"
      "cs_last (cmd_phase st inp) = cs_last (cmd_phase st ?inp0)"
      "cs_queued (cmd_phase st inp) = cs_queued (cmd_phase st ?inp0)"
      "cs_arrival (cmd_phase st inp) = Some (plain_ack cmd status (ep_mode st))"
      "cs_arrival (cmd_phase st ?inp0) = None"
      using cmd_phase_no_arrival [of ?inp0 st] by (simp_all add: phase in_command_update)
    note f = advance_step_fields [OF advance(2)] and f0 = advance_step_fields [OF adv0]
    have "out_delta out = out_delta out0 \<and> ep_pid (out_state out) = ep_pid (out_state out0)"
      using f(8) f0(8) by (simp add: s in_command_update control_ladder_command split: if_splits)
    then show ?thesis
      using f(1-7) f0(1-7) by (simp add: s in_command_update ack_list_def)
  qed
  then show "out_state out = out_state out0" "out_delta out = out_delta out0"
    "\<exists>a. out_acks out = a # out_acks out0 \<and> ack_seq a = cmd_seq cmd \<and> ack_status a = status"
    by auto
qed

section \<open>What terminates a cycle\<close>

text \<open>The termination causes in their order of priority, as the policy states them.\<close>

definition cause_table :: "episode_input \<Rightarrow> int \<Rightarrow> (bool \<times> reason) list" where
  "cause_table inp cnt =
     (let sim = in_sim_reason inp;
          horizon = in_horizon inp \<or> sim = Some SIM_HORIZON
      in [(sim \<notin> {None, Some SIM_HORIZON, Some SIM_LOC_ANGLE, Some SIM_LOC_NONFINITE}, INTERNAL),
          (in_stop_reason inp \<noteq> None, the (in_stop_reason inp)),
          (sim \<in> {Some SIM_LOC_ANGLE, Some SIM_LOC_NONFINITE}, DIVERGED),
          (in_fresh inp \<and> f_lt LOC_ANGLE (f_abs (obs_theta (the (in_held inp)))), DIVERGED),
          (21 \<le> in_staleness inp, SENSOR_LOST),
          (horizon \<and> cnt = 1000, STABILIZED),
          (horizon, NOT_SETTLED)])"

lemma terminal_reason_table:
  assumes "held_ok inp"
  shows "terminal_reason inp cnt = Inr (case find fst (cause_table inp cnt) of
    None \<Rightarrow> NONE | Some (c, r) \<Rightarrow> r)"
proof (cases "in_fresh inp")
  case True
  then obtain ob where "in_held inp = Some ob"
    using assms by (auto simp: held_ok_def split: option.splits)
  with True show ?thesis
    by (cases "in_sim_reason inp"; cases "in_stop_reason inp")
      (simp_all add: terminal_reason_def cause_table_def Let_def)
next
  case False
  then show ?thesis
    by (cases "in_sim_reason inp"; cases "in_stop_reason inp")
      (simp_all add: terminal_reason_def cause_table_def Let_def)
qed

lemma terminal_reason_stabilized:
  assumes "terminal_reason inp cnt = Inr STABILIZED" "in_stop_reason inp \<noteq> Some STABILIZED"
  shows "cnt = 1000"
  using assms by (auto simp: terminal_reason_def result_simps split: if_splits option.splits)

lemma phase_terminal:
  assumes "episode_wf st" "ep_mode st \<noteq> TERMINATED" "advance_step st inp cnt = Inr out"
    "terminal (out_state out) \<noteq> None"
  shows "terminal (out_state out) = Some \<lparr>term_reason = GROUND_ABORT, term_tick = in_tick inp\<rparr>"
  using cmd_phase_ok [OF assms(1,2), of inp] assms(4)
  by (simp add: advance_step_fields [OF assms(3)] phase_ok_def)

lemma takeWhile_last_block:
  assumes "n \<le> length (takeWhile P (rev xs))"
  shows "\<exists>pre blk. xs = pre @ blk \<and> length blk = n \<and> list_all P blk"
proof (intro exI conjI)
  have n: "n \<le> length (rev xs)" using assms length_takeWhile_le le_trans by blast
  show "xs = rev (drop n (rev xs)) @ rev (take n (rev xs))"
    by (simp flip: rev_append)
  show "length (rev (take n (rev xs))) = n" using n by simp
  have "take n (rev xs) = take n (takeWhile P (rev xs))"
    using assms by (metis append_take_drop_id takeWhile_dropWhile_id take_append diff_is_0_eq
        take0 append_Nil2)
  then have "set (take n (rev xs)) \<subseteq> set (takeWhile P (rev xs))"
    by (metis set_take_subset)
  then show "list_all P (rev (take n (rev xs)))"
    using set_takeWhileD by (fastforce simp: list_all_iff)
qed

lemma run_stabilized:
  assumes "machine_run episode_cycle (episode_initial arm) is = Inr (st, outs)"
    "terminal st = Some \<lparr>term_reason = STABILIZED, term_tick = t\<rparr>" "list_all input_ok is"
    "list_all (\<lambda>i. in_stop_reason i \<noteq> Some STABILIZED) is"
  shows "\<exists>pre blk post. is = pre @ blk @ post \<and> length blk = 1000 \<and> list_all calm_input blk \<and>
    in_tick (last blk) = t"
  using assms
proof (induction "is" arbitrary: st outs rule: rev_induct)
  case Nil
  then show ?case by (auto simp: episode_initial_def)
next
  case (snoc i "is")
  then obtain s1 outs1 out where run: "machine_run episode_cycle (episode_initial arm) is = Inr (s1, outs1)"
    and i: "episode_cycle s1 i = Inr (st, out)"
    by (auto simp: machine_run_snoc)
  have inv: "episode_wf s1"
    using ep.run_total [OF episode_initial_inv, of "is" arm] snoc.prems(3) run
    by (simp add: episode_inv_wf)
  show ?case
  proof (cases "ep_mode s1 = TERMINATED")
    case True
    then have "st = s1" using i by (auto simp: episode_cycle_def episode_step_def)
    with snoc.IH [OF run] snoc.prems show ?thesis by fastforce
  next
    case live: False
    obtain o1 where o1: "episode_step s1 i = Inr o1" "st = out_state o1"
      using i by (cases out) (auto simp: episode_cycle_Inr)
    let ?cnt = "settle_next (settle_count s1) (in_held i)"
    obtain r where r: "terminal_reason i ?cnt = Inr r" "o1 = terminate_step s1 i ?cnt r"
      using o1(1) live
    proof (cases rule: episode_step_cases)
      case (terminate r)
      then show thesis by (intro that)
    next
      case advance
      then show thesis using phase_terminal [OF inv live advance(2)] snoc.prems(2) o1(2) by simp
    qed
    then have "r = STABILIZED" and t: "in_tick i = t"
      using snoc.prems(2) o1(2) by (simp_all add: terminate_step_fields)
    with r(1) snoc.prems(4) have "?cnt = 1000" by (intro terminal_reason_stabilized [of i]) simp_all
    then have "1000 \<le> length (takeWhile calm_input (rev (is @ [i])))"
      using run_live_settle [OF run live] by (auto simp: settle_next_calm split: if_splits)
    then obtain pre blk where blk: "is @ [i] = pre @ blk" "length blk = 1000" "list_all calm_input blk"
      using takeWhile_last_block by blast
    then have "last blk = i" by (metis last_appendR last_snoc list.size(3) zero_neq_numeral)
    then show ?thesis using blk t by (metis append_Nil2)
  qed
qed

section \<open>Properties\<close>

text \<open>C18. On admissible inputs an episode never raises: every run returns, one output per cycle,
  in a state that satisfies the invariant, and every command it issues is inside the stops.\<close>

theorem episode_run_total:
  "list_all input_ok is \<Longrightarrow>
     \<exists>st outs. machine_run episode_cycle (episode_initial arm) is = Inr (st, outs) \<and>
       episode_inv st \<and> list_all (\<lambda>x. bdd CTL_DELTA_MAX (fst x)) outs \<and> length outs = length is"
  using ep.run_total [OF episode_initial_inv, of "is" arm] by (simp add: delta_ok_def [abs_def])

text \<open>An idle cycle: a calm observation is held but nothing is fresh.\<close>

definition idle_input :: "int \<Rightarrow> episode_input" where
  "idle_input t =
     \<lparr>in_tick = t, in_held = Some \<lparr>obs_tick = 0, obs_theta = 0, obs_omega = 0, obs_valid = True\<rparr>,
      in_fresh = False, in_staleness = 0, in_command = None, in_horizon = False,
      in_sim_reason = None, in_stop_reason = None\<rparr>"

definition fresh_input :: "int \<Rightarrow> episode_input" where
  "fresh_input t = (idle_input t)\<lparr>in_fresh := True\<rparr>"

definition abort_input :: "int \<Rightarrow> int \<Rightarrow> episode_input" where
  "abort_input t q = (idle_input t)\<lparr>in_command := Some \<lparr>cmd_seq = q, opcode = 3, effective_tick = t\<rparr>\<rparr>"

lemmas input_defs = idle_input_def fresh_input_def abort_input_def

lemma zero_bdd [simp]: "bdd b 0" "calm \<lparr>obs_tick = t, obs_theta = 0, obs_omega = 0, obs_valid = v\<rparr>"
  by (simp_all add: bdd_def mval_def f_field_defs calm_def SETTLE_BAND_def f_eval)

lemma input_ok_examples [simp]: "input_ok (idle_input t)" "input_ok (fresh_input t)"
  "input_ok (abort_input t q)"
  by (simp_all add: input_ok_def input_defs obs_ok_def)

lemma fresh_control: "control_step control_initial \<lparr>obs_tick = t, obs_theta = 0, obs_omega = 0, obs_valid = True\<rparr>
    = (0, control_initial)"
  unfolding control_step_def control_initial_def
  by (simp add: control_bits f_eval cong: let_weak_cong)

lemma LOC_ANGLE_zero: "\<not> f_lt LOC_ANGLE (f_abs 0)"
  by (simp add: LOC_ANGLE_def f_eval)

theorem episode_run_total_witness:
  "\<exists>st outs. machine_run episode_cycle (episode_initial True) [fresh_input 0, idle_input 1] = Inr (st, outs) \<and>
       episode_inv st \<and> list_all (\<lambda>x. bdd CTL_DELTA_MAX (fst x)) outs \<and> length outs = 2"
  using episode_run_total [of "[fresh_input 0, idle_input 1]" True]
  by (simp add: numeral_2_eq_2 del: machine_run.simps)

lemmas episode_eval = episode_cycle_def episode_step_def episode_initial_def settle_next_def
  terminal_reason_def advance_step_def arrive_step_def due_step_def arm_step_def control_ladder_def
  ep_prefix_def ep_apply_def plain_ack_def opcode_defs sim_reason_defs terminate_step_def Let_def
  is_terminated_def

text \<open>\<open>TERMINATED\<close> is absorbing: whatever arrives after the cycle that terminated, the state
  stays as it was, the commanded angle is zero and nothing is acknowledged.\<close>

theorem episode_terminated_absorbing:
  "machine_run episode_cycle st is = Inr (st', outs) \<Longrightarrow> ep_mode st' = TERMINATED \<Longrightarrow>
     machine_run episode_cycle st (is @ js) = Inr (st', outs @ replicate (length js) (f_zero False, []))"
  by (rule ep.run_after_final) (simp_all add: is_terminated_def)

lemma abort_run: "\<exists>st outs. machine_run episode_cycle (episode_initial True) [fresh_input 0, abort_input 1 7] = Inr (st, outs) \<and>
    ep_mode st = TERMINATED"
  by (simp add: episode_eval input_defs LOC_ANGLE_zero fresh_control)

theorem episode_terminated_absorbing_witness:
  "\<exists>st outs. ep_mode st = TERMINATED \<and>
     machine_run episode_cycle (episode_initial True)
       ([fresh_input 0, abort_input 1 7] @ [fresh_input 2, abort_input 3 8]) =
     Inr (st, outs @ replicate 2 (f_zero False, []))"
proof -
  obtain st outs where run: "machine_run episode_cycle (episode_initial True)
      [fresh_input 0, abort_input 1 7] = Inr (st, outs)" "ep_mode st = TERMINATED"
    using abort_run by blast
  then show ?thesis
    using episode_terminated_absorbing [OF run, of "[fresh_input 2, abort_input 3 8]"]
    by (intro exI [of _ st] exI [of _ outs]) (simp add: numeral_2_eq_2 del: machine_run.simps)
qed

text \<open>C19. No command is lost and none is answered twice: as long as the episode lives, the
  commands received are exactly those finally acknowledged plus the one still queued.\<close>

theorem episode_commands_answered_once:
  "machine_run episode_cycle (episode_initial arm) is = Inr (st, outs) \<Longrightarrow>
     list_all input_ok is \<Longrightarrow> ep_mode st \<noteq> TERMINATED \<Longrightarrow>
     run_acks outs + opt_seq (pending st) = run_commands is"
  by (rule run_acks_live)

lemma early_abort_run:
  "machine_run episode_cycle (episode_initial False) [abort_input 0 7] =
     Inr ((episode_initial False)\<lparr>settle_count := 1, last_accepted := Some \<lparr>cmd_seq = 7, opcode = 3, effective_tick = 0\<rparr>\<rparr>,
       [(0, [\<lparr>ack_seq = 7, ack_status = REJECTED_STATE, ack_applied_tick = 0, ack_state = INIT, ack_reason = NONE\<rparr>])])"
  by (simp add: episode_eval input_defs f_zero_def ack_list_def)

theorem episode_commands_answered_once_witness:
  "run_acks [(0, [\<lparr>ack_seq = 7, ack_status = REJECTED_STATE, ack_applied_tick = 0, ack_state = INIT, ack_reason = NONE\<rparr>])]
     = run_commands [abort_input 0 7] \<and> run_commands [abort_input 0 7] = {#7#}"
  using episode_commands_answered_once [OF early_abort_run]
  by (simp add: episode_initial_def run_commands_def input_defs input_ok_def)

text \<open>C17. The cycle that terminates does so for the first cause of the priority table that holds,
  at its own tick; a cycle without a cause ends only on an executed ABORT.\<close>

theorem episode_termination_cause:
  assumes "episode_step st inp = Inr out" "episode_wf st" "held_ok inp" "ep_mode st \<noteq> TERMINATED"
    and "in_stop_reason inp \<noteq> Some NONE"
  shows "case find fst (cause_table inp (settle_count (out_state out))) of
      Some (c, r) \<Rightarrow> terminal (out_state out) = Some \<lparr>term_reason = r, term_tick = in_tick inp\<rparr>
    | None \<Rightarrow> terminal (out_state out) \<in> {None, Some \<lparr>term_reason = GROUND_ABORT, term_tick = in_tick inp\<rparr>}"
  using assms(1,4)
proof (cases rule: episode_step_cases)
  case (terminate r)
  then show ?thesis
    using terminal_reason_table [OF assms(3)] by (auto simp: terminate_step_fields split: option.splits)
next
  case advance
  have "r \<noteq> NONE" if "find fst (cause_table inp cnt) = Some (c, r)" for c r cnt
    using find_Some_set [OF that] assms(5) by (auto simp: cause_table_def Let_def)
  then have "find fst (cause_table inp (settle_count (out_state out))) = None"
    using terminal_reason_table [OF assms(3)] advance
    by (auto simp: advance_step_fields split: option.splits)
  then show ?thesis
    using phase_terminal [OF assms(2,4) advance(2)]
    by (cases "terminal (out_state out)") auto
qed

definition late_input :: "int \<Rightarrow> episode_input" where
  "late_input t = (idle_input t)\<lparr>in_staleness := 21, in_horizon := True\<rparr>"

theorem episode_termination_cause_witness:
  "\<exists>out. episode_step (episode_initial True) (late_input 30) = Inr out \<and>
     terminal (out_state out) = Some \<lparr>term_reason = SENSOR_LOST, term_tick = 30\<rparr>"
proof -
  have "\<exists>out. episode_step (episode_initial True) (late_input 30) = Inr out"
    by (rule episode_step_total) (simp add: late_input_def input_defs input_ok_def)
  then obtain out where out: "episode_step (episode_initial True) (late_input 30) = Inr out" by blast
  show ?thesis
    using episode_termination_cause [OF out episode_inv_wf [OF episode_initial_inv]] out
    by (simp add: late_input_def input_defs held_ok_def episode_initial_def cause_table_def
        sim_reason_defs)
qed

text \<open>C36. The commanded angle of a cycle: zero unless the vehicle flies; the controller's output on
  a fresh observation; the last output while the link is at most 8 ticks old; zero beyond. The
  controller's state advances in the fresh flying cycles only.\<close>

theorem episode_control_ladder:
  assumes "episode_step st inp = Inr out" "ep_mode st \<noteq> TERMINATED" "episode_wf st"
  shows "(out_delta out, ep_pid (out_state out)) =
    (if ep_mode (out_state out) \<noteq> FLYING then (f_zero False, ep_pid st)
     else if in_fresh inp then control_step (ep_pid st) (the (in_held inp))
     else if in_staleness inp \<le> 8 then (last_delta (ep_pid st), ep_pid st)
     else (f_zero False, ep_pid st))"
  using assms(1,2)
proof (cases rule: episode_step_cases)
  case (terminate r)
  then show ?thesis by (simp add: terminate_step_fields)
next
  case advance
  note f = advance_step_fields [OF advance(2)]
  have "cs_mode (cmd_phase st inp) = TERMINATED \<longleftrightarrow> cs_terminal (cmd_phase st inp) \<noteq> None"
    using cmd_phase_ok [OF assms(3,2)] by (simp add: phase_ok_def)
  then show ?thesis
    using f(1,8) by (cases "in_held inp") (auto simp: control_ladder_def split: if_splits)
qed

theorem episode_control_ladder_witness:
  "\<exists>out. episode_step (episode_initial True) (fresh_input 0) = Inr out \<and> ep_mode (out_state out) = FLYING \<and>
     (out_delta out, ep_pid (out_state out)) = (0, control_initial)"
proof -
  have "\<exists>out. episode_step (episode_initial True) (fresh_input 0) = Inr out \<and> ep_mode (out_state out) = FLYING"
    by (simp add: episode_eval input_defs LOC_ANGLE_zero fresh_control)
  then obtain out where out: "episode_step (episode_initial True) (fresh_input 0) = Inr out"
    "ep_mode (out_state out) = FLYING" by blast
  show ?thesis
    using episode_control_ladder [OF out(1) _ episode_inv_wf [OF episode_initial_inv]] out
    by (simp add: episode_initial_def input_defs fresh_control)
qed

text \<open>C1. An episode that reports \<open>STABILIZED\<close> was calm for the 1000 cycles that end at the tick
  it reports, unless a caller supplied that reason itself.\<close>

theorem episode_stabilized_settled:
  "machine_run episode_cycle (episode_initial arm) is = Inr (st, outs) \<Longrightarrow>
     terminal st = Some \<lparr>term_reason = STABILIZED, term_tick = t\<rparr> \<Longrightarrow>
     list_all input_ok is \<Longrightarrow> list_all (\<lambda>i. in_stop_reason i \<noteq> Some STABILIZED) is \<Longrightarrow>
     \<exists>pre blk post. is = pre @ blk @ post \<and> length blk = 1000 \<and> list_all calm_input blk \<and>
       in_tick (last blk) = t"
  by (rule run_stabilized)

lemma replicate_Suc_snoc: "replicate (Suc n) x = replicate n x @ [x]"
  by (simp add: replicate_append_same)

lemma idle_run:
  "machine_run episode_cycle (episode_initial False) (replicate n (idle_input 0)) =
     Inr ((episode_initial False)\<lparr>settle_count := min 1000 (int n)\<rparr>, replicate n (f_zero False, []))"
proof (induction n)
  case 0
  then show ?case by (simp add: episode_initial_def)
next
  case (Suc n)
  have "episode_cycle ((episode_initial False)\<lparr>settle_count := min 1000 (int n)\<rparr>) (idle_input 0) =
    Inr ((episode_initial False)\<lparr>settle_count := min 1000 (int (Suc n))\<rparr>, f_zero False, [])"
    by (simp add: episode_eval input_defs ack_list_def)
  then show ?case
    using Suc.IH by (simp only: replicate_Suc_snoc machine_run_snoc) blast
qed

definition horizon_input :: "int \<Rightarrow> episode_input" where
  "horizon_input t = (idle_input t)\<lparr>in_horizon := True\<rparr>"

theorem episode_stabilized_settled_witness:
  "\<exists>pre blk post. replicate 999 (idle_input 0) @ [horizon_input 999] = pre @ blk @ post \<and>
     length blk = 1000 \<and> list_all calm_input blk \<and> in_tick (last blk) = 999"
proof -
  have "machine_run episode_cycle (episode_initial False) (replicate 999 (idle_input 0) @ [horizon_input 999]) =
    Inr ((episode_initial False)\<lparr>ep_mode := TERMINATED, settle_count := 1000,
      terminal := Some \<lparr>term_reason = STABILIZED, term_tick = 999\<rparr>\<rparr>,
      replicate 999 (f_zero False, []) @ [(f_zero False, [])])"
    unfolding machine_run_snoc idle_run
    by (simp add: episode_eval horizon_input_def input_defs)
  then show ?thesis
    by (rule episode_stabilized_settled)
      (simp_all add: list_all_iff horizon_input_def input_defs input_ok_def)
qed

text \<open>A command the prefix test refuses (unknown opcode, duplicate, reused sequence number,
  stale) changes nothing but the acknowledgements: state and commanded angle are those of the
  same cycle without it, and its answer comes first.\<close>

theorem episode_rejected_command_inert:
  assumes "in_command inp = Some cmd" "ep_prefix cmd (last_accepted st) = Some status"
    "ep_mode st \<noteq> TERMINATED" "episode_step st inp = Inr out" "input_ok inp"
  shows "\<exists>out0 a. episode_step st (inp\<lparr>in_command := None\<rparr>) = Inr out0 \<and>
    out_state out = out_state out0 \<and> out_delta out = out_delta out0 \<and>
    out_acks out = a # out_acks out0 \<and> ack_seq a = cmd_seq cmd \<and> ack_status a = status"
proof -
  obtain out0 where out0: "episode_step st (inp\<lparr>in_command := None\<rparr>) = Inr out0"
    using episode_step_total [of "inp\<lparr>in_command := None\<rparr>" st] assms(5) by (auto simp: input_ok_def)
  show ?thesis
    using episode_step_rejected [OF assms(1-4) out0] out0 by blast
qed

theorem episode_rejected_command_inert_witness:
  "\<exists>out0 (a :: ack). episode_step ((episode_initial False)\<lparr>last_accepted := Some \<lparr>cmd_seq = 7, opcode = 3, effective_tick = 0\<rparr>\<rparr>)
      ((abort_input 0 7)\<lparr>in_command := None\<rparr>) = Inr out0 \<and> ack_seq a = 7 \<and> ack_status a = DUPLICATE"
proof -
  let ?st = "(episode_initial False)\<lparr>last_accepted := Some \<lparr>cmd_seq = 7, opcode = 3, effective_tick = 0\<rparr>\<rparr>"
  obtain out where out: "episode_step ?st (abort_input 0 7) = Inr out"
    using episode_step_total [of "abort_input 0 7" ?st] by auto
  have c: "in_command (abort_input 0 7) = Some \<lparr>cmd_seq = 7, opcode = 3, effective_tick = 0\<rparr>"
    by (simp add: input_defs)
  have p: "ep_prefix \<lparr>cmd_seq = 7, opcode = 3, effective_tick = 0\<rparr> (last_accepted ?st) = Some DUPLICATE"
    by (simp add: ep_prefix_def opcode_defs)
  have m: "ep_mode ?st \<noteq> TERMINATED" by (simp add: episode_initial_def)
  show ?thesis
    using episode_rejected_command_inert [OF c p m out input_ok_examples(3), unfolded command.simps]
    by blast
qed

text \<open>C37. In one cycle the mode stays, arms, launches or terminates; it goes from \<open>INIT\<close> to
  \<open>FLYING\<close> at once only when the episode arms itself on a fresh observation, and it never goes back.\<close>

theorem episode_mode_transitions:
  assumes "episode_step st inp = Inr out"
  shows "mode_step (auto_arm st \<and> in_fresh inp) (ep_mode st) (ep_mode (out_state out)) \<and>
    ep_mode st \<le> ep_mode (out_state out)"
  using episode_mode_step [OF assms] mode_step_mono by blast

theorem episode_mode_transitions_witness:
  "\<exists>out. episode_step (episode_initial False) (abort_input 0 7) = Inr out \<and>
     mode_step False INIT (ep_mode (out_state out))"
proof -
  obtain out where out: "episode_step (episode_initial False) (abort_input 0 7) = Inr out"
    using episode_step_total [of "abort_input 0 7" "episode_initial False"] by auto
  show ?thesis
    using episode_mode_transitions [OF out] out by (auto simp: episode_initial_def input_defs)
qed

end
