(* ===== verification/Rng.thy ===== *)
theory Rng
  imports Binary64_Facts
begin

text \<open>
  The splitmix64 streams of \<open>sim/rng.py\<close> and the loss draw of \<open>sim/link.py\<close>. A 64-bit state is
  a \<open>64 word\<close>, so the source's \<open>& MASK\<close> is the word's wrap-around. The lemmas show that the
  mixing function is a bijection, that a stream does not repeat within its full period, that a
  drawn double is the exact dyadic fraction in \<open>[0, 1)\<close>, and what a loss draw decides.
\<close>

unbundle bit_operations_syntax

section \<open>The generator (sim/rng.py)\<close>

type_synonym u64 = "64 word"

definition GOLDEN :: u64 where "GOLDEN = 0x9E3779B97F4A7C15"
definition MIX1 :: u64 where "MIX1 = 0xBF58476D1CE4E5B9"
definition MIX2 :: u64 where "MIX2 = 0x94D049BB133111EB"
definition TWO_M53 :: f64 where "TWO_M53 = f_div (f_lit 1 1) (f_lit 9007199254740992 1)"

definition STREAMS :: "string list" where
  "STREAMS = [''link.loss.up'', ''link.loss.down'', ''sensor.noise'', ''actuator.fault'',
     ''environment.disturbance'', ''parameter.sampling'', ''scenario'']"

definition mix :: "u64 \<Rightarrow> u64" where
  "mix value =
     (let v1 = (value XOR drop_bit 30 value) * MIX1;
          v2 = (v1 XOR drop_bit 27 v1) * MIX2
      in v2 XOR drop_bit 31 v2)"

fun index_of :: "'a \<Rightarrow> 'a list \<Rightarrow> nat option" where
  "index_of x [] = None"
| "index_of x (y # ys) = (if x = y then Some 0 else map_option Suc (index_of x ys))"

definition stream_state :: "int \<Rightarrow> string \<Rightarrow> u64 result" where
  "stream_state master name =
     (case index_of name STREAMS of
        None \<Rightarrow> Inl (ValueError ''tuple.index(x): x not in tuple'')
      | Some i \<Rightarrow> Inr (mix (word_of_int master + (of_nat i + 1) * GOLDEN)))"

record splitmix =
  sm_state :: u64

definition splitmix_init :: "u64 \<Rightarrow> splitmix" where
  "splitmix_init state = \<lparr>sm_state = state\<rparr>"

definition next_u64 :: "splitmix \<Rightarrow> u64 \<times> splitmix" where
  "next_u64 g = (let s = sm_state g + GOLDEN in (mix s, g\<lparr>sm_state := s\<rparr>))"

definition next_double :: "splitmix \<Rightarrow> f64 \<times> splitmix" where
  "next_double g =
     (let (x, g') = next_u64 g
      in (f_mul (f_round False (unat (drop_bit 11 x)) 1 0) TWO_M53, g'))"

section \<open>The loss draw (sim/link.py)\<close>

definition draw_drop :: "splitmix \<Rightarrow> f64 \<Rightarrow> (bool \<times> splitmix) result" where
  "draw_drop stream p =
     ensure (f_le (f_zero False) p \<and> f_le p (f_lit 1 1))
       ''probability must be a finite number in [0, 1]''
       (let (u, stream') = next_double stream in Inr (f_lt u p, stream'))"

section \<open>The mixing function is a bijection\<close>

lemma xorshift_inj:
  assumes "0 < k" "x XOR drop_bit k x = y XOR drop_bit k (y :: 64 word)"
  shows "x = y"
proof -
  have step: "bit x n = bit y n" if "bit x (n + k) = bit y (n + k)" "n < 64" for n
  proof -
    have "bit (x XOR drop_bit k x) n = bit (y XOR drop_bit k y) n" using assms(2) by simp
    then show ?thesis using that by (simp add: bit_xor_iff bit_drop_bit_eq add.commute) blast
  qed
  have "bit x n = bit y n" for n
  proof (induction "64 - n" arbitrary: n rule: less_induct)
    case less
    show ?case
    proof (cases "n < 64")
      case True
      with assms(1) have "64 - (n + k) < 64 - n" by simp
      then show ?thesis using less step True by blast
    next
      case False
      then show ?thesis by (auto dest: bit_imp_le_length)
    qed
  qed
  then show ?thesis by (simp add: bit_eq_iff)
qed

lemma mult_inj:
  assumes "c * d = (1 :: 'a :: len word)" "x * c = y * c"
  shows "x = y"
  using assms by (metis mult.assoc mult.right_neutral)

lemma mix_mult_inverse: "MIX1 * 0x96de1b173f119089 = 1" "MIX2 * 0x319642b2d24d8ec3 = 1"
  by (simp_all add: MIX1_def MIX2_def)

lemma mix_inj: "mix x = mix y \<Longrightarrow> x = y"
  unfolding mix_def Let_def
  by (drule xorshift_inj [rotated], simp, drule mult_inj [OF mix_mult_inverse(2)],
      drule xorshift_inj [rotated], simp, drule mult_inj [OF mix_mult_inverse(1)],
      drule xorshift_inj [rotated], simp, assumption)

lemma GOLDEN_inverse: "GOLDEN * 0xf1de83e19937733d = 1"
  by (simp add: GOLDEN_def)

lemma golden_inj:
  assumes "of_nat i * GOLDEN = of_nat j * GOLDEN" "i < 2 ^ 64" "j < 2 ^ 64"
  shows "i = j"
proof -
  have "(of_nat i :: u64) = of_nat j" by (rule mult_inj [OF GOLDEN_inverse assms(1)])
  then show ?thesis using assms(2,3) by (simp add: word_of_nat_eq_iff take_bit_nat_eq_self)
qed

section \<open>Streams\<close>

text \<open>An owner of a stream draws from it with any probabilities; only the count matters.\<close>

fun draw_run :: "('s \<Rightarrow> 'p \<Rightarrow> ('b \<times> 's) result) \<Rightarrow> 's \<Rightarrow> 'p list \<Rightarrow> ('b list \<times> 's) result" where
  "draw_run draw s [] = Inr ([], s)"
| "draw_run draw s (p # ps) =
     rbind (draw s p) (\<lambda>(b, s'). rbind (draw_run draw s' ps) (\<lambda>(bs, s''). Inr (b # bs, s'')))"

locale draw_source =
  fixes draw :: "'s \<Rightarrow> 'p \<Rightarrow> ('b \<times> 's) result"
    and valid :: "'p \<Rightarrow> bool"
    and advance :: "'s \<Rightarrow> 's"
  assumes draw_valid: "valid p \<Longrightarrow> \<exists>b. draw s p = Inr (b, advance s)"
    and draw_invalid: "\<not> valid p \<Longrightarrow> \<exists>e. draw s p = Inl e"
begin

lemma draw_advance: "draw s p = Inr (b, s') \<Longrightarrow> valid p \<and> s' = advance s"
  using draw_valid [of p s] draw_invalid [of p s] by (cases "valid p") auto

lemma draw_run_state:
  "draw_run draw s ps = Inr (bs, s') \<Longrightarrow> s' = (advance ^^ length ps) s \<and> length bs = length ps"
proof (induction ps arbitrary: s bs)
  case Nil
  then show ?case by auto
next
  case (Cons p ps)
  then obtain b s1 bs1 where "draw s p = Inr (b, s1)" "draw_run draw s1 ps = Inr (bs1, s')" "bs = b # bs1"
    by (auto simp: result_simps)
  with Cons.IH draw_advance show ?case by (fastforce simp flip: funpow_swap1)
qed

lemma draw_run_total: "list_all valid ps \<Longrightarrow> \<exists>bs s'. draw_run draw s ps = Inr (bs, s')"
proof (induction ps arbitrary: s)
  case Nil
  then show ?case by simp
next
  case (Cons p ps)
  then obtain b where "draw s p = Inr (b, advance s)" using draw_valid [of p s] by auto
  moreover obtain bs s' where "draw_run draw (advance s) ps = Inr (bs, s')"
    using Cons.IH [of "advance s"] Cons.prems by auto
  ultimately show ?case by simp
qed

end

definition splitmix_advance :: "splitmix \<Rightarrow> splitmix" where
  "splitmix_advance g = g\<lparr>sm_state := sm_state g + GOLDEN\<rparr>"

definition probability :: "f64 \<Rightarrow> bool" where
  "probability p \<longleftrightarrow> f_le (f_zero False) p \<and> f_le p (f_lit 1 1)"

interpretation splitmix: draw_source draw_drop probability splitmix_advance
  by unfold_locales
    (auto simp: draw_drop_def ensure_def probability_def next_double_def next_u64_def
      splitmix_advance_def Let_def)

lemma splitmix_advance_funpow:
  "(splitmix_advance ^^ n) g = g\<lparr>sm_state := sm_state g + of_nat n * GOLDEN\<rparr>"
  by (induction n) (simp_all add: splitmix_advance_def algebra_simps)

section \<open>Doubles\<close>

lemma TWO_M53_bits: "TWO_M53 = 0x3ca0000000000000"
  by (simp add: TWO_M53_def f_eval cong: let_weak_cong)

lemma TWO_M53_val: "f_finite TWO_M53" "fval TWO_M53 = 2 powi (-53)"
  by (simp_all add: TWO_M53_bits fval_def f_field_defs power_int_def power_one_over)

lemma f_of_nat_val:
  assumes "n < 2 ^ 53"
  shows "f_finite (f_round False n 1 0)" "fval (f_round False n 1 0) = real n"
proof -
  obtain c where c: "f_finite c" "fval c = real n * 2 powi 0"
    using rep_exists [of n 0] assms by auto
  have "\<bar>fval c\<bar> = real n" using c by simp
  then have "rounds_to (1 * (real n / real 1 * 2 powi 0)) (f_round False n 1 0)"
    using f_round_rounds_to [of 1 c n 0 False] c(1) by (simp del: abs_fval add: abs_fval [symmetric])
  then have r: "rounds_to (fval c) (f_round False n 1 0)" by (simp add: c(2))
  then show "f_finite (f_round False n 1 0)" by (rule rounds_to_finite)
  show "fval (f_round False n 1 0) = real n" using rounds_to_exact [OF r c(1)] c(2) by simp
qed

lemma unat_drop11: "unat (drop_bit 11 x :: u64) < 2 ^ 53"
proof -
  have "unat (drop_bit 11 x) = unat x div 2 ^ 11"
    using unat_drop_bit_eq [of 11 x] by (simp only: drop_bit_eq_div [where 'a = nat])
  moreover have "unat x < 2 ^ 64" using unsigned_less [of x] by simp
  ultimately show ?thesis by simp
qed

lemma next_double_val:
  defines "n g \<equiv> unat (drop_bit 11 (mix (sm_state g + GOLDEN)))"
  shows "f_finite (fst (next_double g))" "fval (fst (next_double g)) = real (n g) / 2 ^ 53"
proof -
  let ?a = "f_round False (n g) 1 0"
  have n: "n g < 2 ^ 53" unfolding n_def by (rule unat_drop11)
  obtain c where c: "f_finite c" "fval c = real (n g) * 2 powi (-53)"
    using rep_exists [of "n g" "-53"] n by auto
  have val: "fval ?a * fval TWO_M53 = fval c"
    by (simp only: f_of_nat_val(2) [OF n] TWO_M53_val c(2))
  have r: "rounds_to (fval c) (f_mul ?a TWO_M53)"
    using f_mul_rounds_to [OF f_of_nat_val(1) [OF n] TWO_M53_val(1) c(1)] val by simp
  have d: "fst (next_double g) = f_mul ?a TWO_M53"
    by (simp add: next_double_def next_u64_def n_def Let_def)
  show "f_finite (fst (next_double g))" using r by (simp add: d rounds_to_finite)
  show "fval (fst (next_double g)) = real (n g) / 2 ^ 53"
    unfolding d rounds_to_exact [OF r c(1)] c(2) by (simp add: power_int_def divide_simps)
qed

lemma next_double_range: "0 \<le> fval (fst (next_double g))" "fval (fst (next_double g)) < 1"
proof -
  define n where "n = unat (drop_bit 11 (mix (sm_state g + GOLDEN)))"
  have "fval (fst (next_double g)) = real n / 2 ^ 53" "real n < 2 ^ 53"
    using next_double_val(2) [of g] unat_drop11 by (simp_all only: n_def of_nat_less_numeral_power_cancel_iff)
  then show "0 \<le> fval (fst (next_double g))" "fval (fst (next_double g)) < 1"
    by simp_all
qed

lemma draw_drop_Inr:
  "draw_drop g p = Inr (b, g') \<longleftrightarrow>
     probability p \<and> b = f_lt (fst (next_double g)) p \<and> g' = splitmix_advance g"
  by (auto simp: draw_drop_def ensure_def probability_def next_double_def next_u64_def
      splitmix_advance_def Let_def)

lemma f_lit_one: "f_lit 1 1 = 0x3ff0000000000000" "f_lit (Suc 0) (Suc 0) = 0x3ff0000000000000"
  by (simp_all add: f_eval)

lemma one_val: "f_finite (f_lit 1 1)" "fval (f_lit 1 1) = 1"
  by (simp_all add: f_lit_one fval_def f_field_defs power_int_def power_one_over)

lemma probability_val: "probability p \<longleftrightarrow> f_finite p \<and> 0 \<le> fval p \<and> fval p \<le> 1"
proof -
  have "f_finite p" if "f_le (f_zero False) p" "f_le p (f_lit 1 1)"
  proof (rule ccontr)
    assume nf: "\<not> f_finite p"
    have "f_key p \<le> f_key (f_lit 1 1)" "\<not> f_isnan p" "f_key (f_zero False) \<le> f_key p"
      using that by (simp_all add: f_le_def)
    moreover have "f_key (f_lit 1 1) = 0x3ff0000000000000" "f_key (f_zero False) = 0"
      by (simp_all add: f_lit_one f_key_def f_zero_def f_neg_def)
    ultimately have "f_mag p div 2 ^ 52 \<le> 0x3ff0000000000000 div 2 ^ 52"
      using f_mag_bounds [of p] by (intro zdiv_mono1) (auto simp: f_key_mag split: if_splits)
    with nf show False by (simp add: f_finite_mag)
  qed
  then show ?thesis
    using one_val by (auto simp: probability_def f_le_iff)
qed

section \<open>Properties\<close>

text \<open>A stream has full period: among any \<open>2 ^ 64\<close> consecutive draws no 64-bit output repeats.\<close>

theorem rng_full_period:
  "i < 2 ^ 64 \<Longrightarrow> j < 2 ^ 64 \<Longrightarrow>
     fst (next_u64 ((splitmix_advance ^^ i) g)) = fst (next_u64 ((splitmix_advance ^^ j) g)) \<Longrightarrow> i = j"
  using golden_inj [of i j]
  by (auto simp: next_u64_def Let_def splitmix_advance_funpow dest!: mix_inj)

theorem rng_full_period_witness:
  "fst (next_u64 ((splitmix_advance ^^ 3) \<lparr>sm_state = 7\<rparr>)) \<noteq>
   fst (next_u64 ((splitmix_advance ^^ 5) \<lparr>sm_state = 7\<rparr>))"
  using rng_full_period [of 3 5 "\<lparr>sm_state = 7\<rparr>"] by auto

lemma index_of_set: "index_of x xs = Some i \<Longrightarrow> i < length xs \<and> xs ! i = x"
  by (induction xs arbitrary: i) (auto split: if_splits)

lemma index_of_in: "x \<in> set xs \<Longrightarrow> \<exists>i. index_of x xs = Some i"
  by (induction xs) auto

lemma stream_state_distinct:
  assumes "stream_state master a = Inr s" "stream_state master b = Inr s"
  shows "a = b"
proof -
  obtain i j where ij: "index_of a STREAMS = Some i" "index_of b STREAMS = Some j"
    "mix (word_of_int master + (of_nat i + 1) * GOLDEN) = mix (word_of_int master + (of_nat j + 1) * GOLDEN)"
    using assms by (auto simp: stream_state_def split: option.splits)
  then have "of_nat i * GOLDEN = of_nat j * GOLDEN" by (auto dest!: mix_inj simp: distrib_right)
  moreover have "i < 7" "j < 7" "STREAMS ! i = a" "STREAMS ! j = b"
    using index_of_set [OF ij(1)] index_of_set [OF ij(2)] by (simp_all add: STREAMS_def)
  ultimately show ?thesis using golden_inj [of i j] by simp
qed

text \<open>Every named stream of a master seed exists, no other does, and two names never share a
  start state.\<close>

lemma rng_streams_separate:
  "(name \<in> set STREAMS \<longleftrightarrow> (\<exists>s. stream_state master name = Inr s)) \<and>
   \<not> (a \<noteq> b \<and> stream_state master a = Inr s \<and> stream_state master b = Inr s)"
proof -
  have "name \<in> set STREAMS \<longleftrightarrow> (\<exists>s. stream_state master name = Inr s)"
    using index_of_in [of name STREAMS] index_of_set [of name STREAMS]
    by (auto simp: stream_state_def split: option.splits)
  with stream_state_distinct show ?thesis by blast
qed

text \<open>A drawn double is exactly the top 53 bits over \<open>2 ^ 53\<close>: finite, at least 0 and below 1.\<close>

theorem rng_double_exact:
  "f_finite (fst (next_double g)) \<and>
   fval (fst (next_double g)) = real (unat (drop_bit 11 (fst (next_u64 g)))) / 2 ^ 53 \<and>
   0 \<le> fval (fst (next_double g)) \<and> fval (fst (next_double g)) < 1"
  using next_double_val [of g] next_double_range [of g] by (simp add: next_u64_def Let_def)

text \<open>A loss draw
  consumes one state, never drops at probability 0, always drops at probability 1, and what is
  dropped at some probability is dropped at every higher one.\<close>

theorem draw_drop_monotone:
  assumes "draw_drop g p = Inr (b, g')" "draw_drop g q = Inr (c, g'')"
  shows "g' = splitmix_advance g \<and> g'' = g' \<and> (fval p = 0 \<longrightarrow> \<not> b) \<and> (fval p = 1 \<longrightarrow> b) \<and>
    (fval p \<le> fval q \<longrightarrow> b \<longrightarrow> c)"
  using assms next_double_val(1) [of g] next_double_range [of g]
  by (auto simp: draw_drop_Inr probability_val f_lt_iff)

theorem draw_drop_monotone_witness:
  "\<exists>b c. draw_drop \<lparr>sm_state = 1\<rparr> 0x3fd3333333333333 = Inr (b, splitmix_advance \<lparr>sm_state = 1\<rparr>) \<and>
     draw_drop \<lparr>sm_state = 1\<rparr> 0x3ff0000000000000 = Inr (c, splitmix_advance \<lparr>sm_state = 1\<rparr>) \<and> (b \<longrightarrow> c)"
proof -
  have ok: "probability 0x3fd3333333333333" "probability 0x3ff0000000000000"
    by (simp_all add: probability_val fval_def f_field_defs power_int_def power_one_over)
  obtain b c where d: "draw_drop \<lparr>sm_state = 1\<rparr> 0x3fd3333333333333 = Inr (b, splitmix_advance \<lparr>sm_state = 1\<rparr>)"
    "draw_drop \<lparr>sm_state = 1\<rparr> 0x3ff0000000000000 = Inr (c, splitmix_advance \<lparr>sm_state = 1\<rparr>)"
    using ok by (simp add: draw_drop_Inr)
  have "fval 0x3fd3333333333333 \<le> fval 0x3ff0000000000000"
    by (simp add: fval_def f_field_defs power_int_def power_one_over)
  then show ?thesis using draw_drop_monotone [OF d] d by blast
qed

text \<open>A loss draw succeeds exactly for the finite probabilities in \<open>[0, 1]\<close>.\<close>

lemma draw_drop_error:
  "(\<exists>b g'. draw_drop g p = Inr (b, g')) \<longleftrightarrow> f_finite p \<and> 0 \<le> fval p \<and> fval p \<le> 1"
  by (auto simp: draw_drop_Inr probability_val)

end
