(* ===== verification/Scenario.thy ===== *)
theory Scenario
  imports Plant Rng
begin

text \<open>
  Scenario files (\<open>sim/scenario.py\<close>): the loader with all its checks, and the three queries a
  run makes at every tick. The input of the loader is the syntax tree of the JSON text, objects
  still as lists of pairs. The lemmas show that a loaded scenario is well formed, that every
  well-formed scenario can be written and loaded back, and what the queries answer.
\<close>

section \<open>JSON values\<close>

datatype json =
    JNull
  | JBool bool
  | JInt int
  | JFloat f64
  | JString string
  | JList "json list"
  | JObject "(string \<times> json) list"

section \<open>Checked reads (sim/scenario.py)\<close>

definition SCENARIO_KEYS :: "string list" where
  "SCENARIO_KEYS = [''ticks'', ''theta0'', ''omega0'', ''gusts'', ''loss_up'', ''loss_down'',
     ''loss_start_tick'', ''blackout_up'', ''blackout_down'', ''commands'', ''auto_arm'']"

fun unique_object :: "(string \<times> 'v) list \<Rightarrow> (string \<times> 'v) list \<Rightarrow> (string \<times> 'v) list result" where
  "unique_object acc [] = Inr acc"
| "unique_object acc ((k, v) # pairs) =
     ensure (k \<notin> fst ` set acc) ''duplicate JSON key'' (unique_object (acc @ [(k, v)]) pairs)"

text \<open>\<open>json.load\<close> calls the hook on every object, innermost first.\<close>

fun json_hook :: "json \<Rightarrow> json result"
  and json_hook_list :: "json list \<Rightarrow> json list result"
  and json_hook_pairs :: "(string \<times> json) list \<Rightarrow> (string \<times> json) list result" where
  "json_hook (JList xs) = rbind (json_hook_list xs) (\<lambda>ys. Inr (JList ys))"
| "json_hook (JObject ps) =
     rbind (json_hook_pairs ps) (\<lambda>qs. rbind (unique_object [] qs) (\<lambda>d. Inr (JObject d)))"
| "json_hook JNull = Inr JNull"
| "json_hook (JBool b) = Inr (JBool b)"
| "json_hook (JInt n) = Inr (JInt n)"
| "json_hook (JFloat x) = Inr (JFloat x)"
| "json_hook (JString s) = Inr (JString s)"
| "json_hook_list [] = Inr []"
| "json_hook_list (x # xs) = rbind (json_hook x) (\<lambda>y. rbind (json_hook_list xs) (\<lambda>ys. Inr (y # ys)))"
| "json_hook_pairs [] = Inr []"
| "json_hook_pairs ((k, x) # ps) =
     rbind (json_hook x) (\<lambda>y. rbind (json_hook_pairs ps) (\<lambda>qs. Inr ((k, y) # qs)))"

definition get_integer :: "json \<Rightarrow> int result" where
  "get_integer value = (case value of JInt n \<Rightarrow> Inr n | _ \<Rightarrow> Inl (ValueError ''must be an integer''))"

definition get_number :: "json \<Rightarrow> f64 result" where
  "get_number value =
     (case value of
        JInt n \<Rightarrow>
          (case f_of_int n of
             None \<Rightarrow> Inl (ValueError ''must be a finite binary64 number'')
           | Some x \<Rightarrow> ensure (f_finite x) ''must be a finite number'' (Inr x))
      | JFloat x \<Rightarrow> ensure (f_finite x) ''must be a finite number'' (Inr x)
      | _ \<Rightarrow> Inl (ValueError ''must be a finite number''))"

definition get_probability :: "json \<Rightarrow> f64 result" where
  "get_probability value =
     rbind (get_number value)
       (\<lambda>x. ensure (f_le (f_zero False) x \<and> f_le x (f_lit 1 1)) ''must be in [0, 1]'' (Inr x))"

definition get_interval :: "json \<Rightarrow> int \<Rightarrow> (int \<times> int) result" where
  "get_interval value ticks =
     (case value of
        JList [a, b] \<Rightarrow>
          rbind (get_integer a) (\<lambda>start. rbind (get_integer b) (\<lambda>fin.
            ensure (0 \<le> start \<and> start < fin \<and> fin \<le> ticks)
              ''must satisfy 0 <= start < end <= ticks'' (Inr (start, fin))))
      | _ \<Rightarrow> Inl (ValueError ''must be a two-element interval''))"

definition check_tick :: "int \<Rightarrow> int \<Rightarrow> unit result" where
  "check_tick tick ticks =
     ensure (0 \<le> tick \<and> tick < ticks) ''tick must satisfy 0 <= tick < scenario.ticks'' (Inr ())"

section \<open>The loader (sim/scenario.py load)\<close>

type_synonym gust = "int \<times> int \<times> f64"
type_synonym request = "int \<times> string"

record scenario =
  sc_id :: string
  sc_ticks :: int
  sc_initial :: truth_state
  sc_gusts :: "gust list"
  sc_loss_up :: f64
  sc_loss_down :: f64
  sc_loss_start :: int
  sc_blackout_up :: "(int \<times> int) option"
  sc_blackout_down :: "(int \<times> int) option"
  sc_commands :: "request list"
  sc_auto_arm :: bool

fun load_gusts :: "int \<Rightarrow> int \<Rightarrow> json list \<Rightarrow> gust list result" where
  "load_gusts ticks prev [] = Inr []"
| "load_gusts ticks prev (g # gs) =
     (case g of
        JList [a, b, c] \<Rightarrow>
          rbind (get_interval (JList [a, b]) ticks) (\<lambda>(start, fin).
            ensure (\<not> start < prev) ''gusts must be ordered and nonoverlapping''
              (rbind (get_number c) (\<lambda>alpha.
                 rbind (load_gusts ticks fin gs) (\<lambda>rest. Inr ((start, fin, alpha) # rest)))))
      | _ \<Rightarrow> Inl (ValueError ''gust must contain start, end and angle''))"

definition load_blackout :: "int \<Rightarrow> json \<Rightarrow> (int \<times> int) option result" where
  "load_blackout ticks value =
     (if value = JNull then Inr None else rbind (get_interval value ticks) (\<lambda>i. Inr (Some i)))"

definition load_command :: "int \<Rightarrow> int \<Rightarrow> json \<Rightarrow> request result" where
  "load_command ticks prev cmd =
     (case cmd of
        JObject d \<Rightarrow>
          ensure (fst ` set d = {''tick'', ''opcode''}) ''command must contain exactly tick and opcode''
            (rbind (get_integer (the (map_of d ''tick''))) (\<lambda>tick.
              rbind (check_tick tick ticks) (\<lambda>_.
                ensure (\<not> tick \<le> prev) ''command request ticks must be strictly increasing''
                  (case map_of d ''opcode'' of
                     Some (JString op) \<Rightarrow>
                       ensure (op \<in> {''ARM'', ''LAUNCH'', ''ABORT''})
                         ''command opcode must be ARM, LAUNCH or ABORT'' (Inr (tick, op))
                   | _ \<Rightarrow> Inl (ValueError ''command opcode must be ARM, LAUNCH or ABORT'')))))
      | _ \<Rightarrow> Inl (ValueError ''command must contain exactly tick and opcode''))"

fun load_commands :: "int \<Rightarrow> int \<Rightarrow> json list \<Rightarrow> request list result" where
  "load_commands ticks prev [] = Inr []"
| "load_commands ticks prev (c # cs) =
     rbind (load_command ticks prev c) (\<lambda>(tick, op).
       rbind (load_commands ticks tick cs) (\<lambda>rest. Inr ((tick, op) # rest)))"

definition as_list :: "string \<Rightarrow> json \<Rightarrow> json list result" where
  "as_list msg value = (case value of JList xs \<Rightarrow> Inr xs | _ \<Rightarrow> Inl (ValueError msg))"

definition load_fields :: "string \<Rightarrow> (string \<Rightarrow> json) \<Rightarrow> scenario result" where
  "load_fields stem data =
     rbind (get_integer (data ''ticks'')) (\<lambda>ticks.
     ensure (\<not> ticks \<le> 0) ''ticks must be positive''
     (rbind (get_integer (data ''loss_start_tick'')) (\<lambda>loss_start.
     ensure (0 \<le> loss_start \<and> loss_start \<le> ticks) ''loss_start_tick must be in [0, ticks]''
     (case data ''auto_arm'' of
        JBool arm \<Rightarrow>
          rbind (as_list ''gusts must be a list'' (data ''gusts'')) (\<lambda>gs.
          rbind (load_gusts ticks 0 gs) (\<lambda>gusts.
          rbind (load_blackout ticks (data ''blackout_up'')) (\<lambda>up.
          rbind (load_blackout ticks (data ''blackout_down'')) (\<lambda>down.
          rbind (as_list ''commands must be a list'' (data ''commands'')) (\<lambda>cs.
          rbind (load_commands ticks (-1) cs) (\<lambda>commands.
          rbind (get_number (data ''theta0'')) (\<lambda>theta0.
          rbind (get_number (data ''omega0'')) (\<lambda>omega0.
          rbind (get_probability (data ''loss_up'')) (\<lambda>loss_up.
          rbind (get_probability (data ''loss_down'')) (\<lambda>loss_down.
            Inr \<lparr>sc_id = stem, sc_ticks = ticks,
                 sc_initial = \<lparr>truth_theta = theta0, truth_omega = omega0\<rparr>,
                 sc_gusts = gusts, sc_loss_up = loss_up, sc_loss_down = loss_down,
                 sc_loss_start = loss_start, sc_blackout_up = up, sc_blackout_down = down,
                 sc_commands = commands, sc_auto_arm = arm\<rparr>))))))))))
      | _ \<Rightarrow> Inl (ValueError ''auto_arm must be boolean'')))))"

definition scenario_load :: "string \<Rightarrow> json \<Rightarrow> scenario result" where
  "scenario_load stem tree =
     rbind (json_hook tree) (\<lambda>data.
       case data of
         JObject d \<Rightarrow>
           ensure (fst ` set d = set SCENARIO_KEYS) ''scenario keys''
             (load_fields stem (\<lambda>k. the (map_of d k)))
       | _ \<Rightarrow> Inl (ValueError ''scenario must be a JSON object''))"

section \<open>Queries (sim/scenario.py)\<close>

definition gust_covers :: "gust \<Rightarrow> int \<Rightarrow> bool" where
  "gust_covers g tick = (case g of (start, fin, alpha) \<Rightarrow> start \<le> tick \<and> tick < fin)"

definition disturbance_at :: "scenario \<Rightarrow> int \<Rightarrow> environment \<Rightarrow> disturbance result" where
  "disturbance_at sc tick env =
     rbind (check_tick tick (sc_ticks sc)) (\<lambda>_.
       case find (\<lambda>g. gust_covers g tick) (sc_gusts sc) of
         Some (start, fin, alpha) \<Rightarrow> Inr \<lparr>tau_d = f_mul (k_a env) alpha\<rparr>
       | None \<Rightarrow> Inr \<lparr>tau_d = f_zero False\<rparr>)"

definition command_at :: "scenario \<Rightarrow> int \<Rightarrow> string option result" where
  "command_at sc tick =
     rbind (check_tick tick (sc_ticks sc)) (\<lambda>_.
       Inr (map_option snd (find (\<lambda>r. tick = fst r) (sc_commands sc))))"

definition forced_drop_at :: "scenario \<Rightarrow> int \<Rightarrow> string \<Rightarrow> bool option result" where
  "forced_drop_at sc tick direction =
     rbind (check_tick tick (sc_ticks sc)) (\<lambda>_.
       ensure (direction \<in> {''up'', ''down''}) ''direction must be up or down''
         (let blackout = (if direction = ''up'' then sc_blackout_up sc else sc_blackout_down sc)
          in if (case blackout of None \<Rightarrow> False | Some (a, b) \<Rightarrow> a \<le> tick \<and> tick < b) then Inr (Some True)
             else if tick < sc_loss_start sc then Inr (Some False)
             else Inr None))"

section \<open>Well-formed scenarios\<close>

fun gusts_wf :: "int \<Rightarrow> int \<Rightarrow> gust list \<Rightarrow> bool" where
  "gusts_wf ticks prev [] \<longleftrightarrow> True"
| "gusts_wf ticks prev ((start, fin, alpha) # gs) \<longleftrightarrow>
     prev \<le> start \<and> 0 \<le> start \<and> start < fin \<and> fin \<le> ticks \<and> f_finite alpha \<and> gusts_wf ticks fin gs"

fun requests_wf :: "int \<Rightarrow> int \<Rightarrow> request list \<Rightarrow> bool" where
  "requests_wf ticks prev [] \<longleftrightarrow> True"
| "requests_wf ticks prev ((tick, op) # rs) \<longleftrightarrow>
     prev < tick \<and> 0 \<le> tick \<and> tick < ticks \<and> op \<in> {''ARM'', ''LAUNCH'', ''ABORT''} \<and>
     requests_wf ticks tick rs"

definition interval_wf :: "int \<Rightarrow> (int \<times> int) option \<Rightarrow> bool" where
  "interval_wf ticks i =
     (case i of None \<Rightarrow> True | Some (a, b) \<Rightarrow> 0 \<le> a \<and> a < b \<and> b \<le> ticks)"

definition scenario_wf :: "scenario \<Rightarrow> bool" where
  "scenario_wf sc \<longleftrightarrow>
     0 < sc_ticks sc \<and> 0 \<le> sc_loss_start sc \<and> sc_loss_start sc \<le> sc_ticks sc \<and>
     f_finite (truth_theta (sc_initial sc)) \<and> f_finite (truth_omega (sc_initial sc)) \<and>
     gusts_wf (sc_ticks sc) 0 (sc_gusts sc) \<and> requests_wf (sc_ticks sc) (-1) (sc_commands sc) \<and>
     interval_wf (sc_ticks sc) (sc_blackout_up sc) \<and> interval_wf (sc_ticks sc) (sc_blackout_down sc) \<and>
     probability (sc_loss_up sc) \<and> probability (sc_loss_down sc)"

section \<open>The loader's checks\<close>

lemma unique_object_Inr:
  "distinct (map fst acc) \<Longrightarrow>
     unique_object acc ps = Inr d \<longleftrightarrow> distinct (map fst (acc @ ps)) \<and> d = acc @ ps"
proof (induction ps arbitrary: acc)
  case Nil
  then show ?case by auto
next
  case (Cons p ps)
  obtain k v where p: "p = (k, v)" by (cases p)
  show ?case
  proof (cases "k \<in> fst ` set acc")
    case True
    then show ?thesis by (auto simp: p ensure_def)
  next
    case False
    then have "distinct (map fst (acc @ [(k, v)]))" using Cons.prems by auto
    then show ?thesis using Cons.IH [of "acc @ [(k, v)]"] False by (auto simp: p ensure_def)
  qed
qed

text \<open>No object of the tree, at any depth, repeats a key.\<close>

fun json_distinct :: "json \<Rightarrow> bool"
  and json_distinct_list :: "json list \<Rightarrow> bool"
  and json_distinct_pairs :: "(string \<times> json) list \<Rightarrow> bool" where
  "json_distinct (JList xs) \<longleftrightarrow> json_distinct_list xs"
| "json_distinct (JObject ps) \<longleftrightarrow> json_distinct_pairs ps \<and> distinct (map fst ps)"
| "json_distinct JNull \<longleftrightarrow> True"
| "json_distinct (JBool b) \<longleftrightarrow> True"
| "json_distinct (JInt n) \<longleftrightarrow> True"
| "json_distinct (JFloat x) \<longleftrightarrow> True"
| "json_distinct (JString s) \<longleftrightarrow> True"
| "json_distinct_list [] \<longleftrightarrow> True"
| "json_distinct_list (x # xs) \<longleftrightarrow> json_distinct x \<and> json_distinct_list xs"
| "json_distinct_pairs [] \<longleftrightarrow> True"
| "json_distinct_pairs ((k, x) # ps) \<longleftrightarrow> json_distinct x \<and> json_distinct_pairs ps"

text \<open>The hook is the identity on trees without repeated keys and raises on the others.\<close>

lemma json_hook_Inr:
  "json_hook t = Inr t' \<longleftrightarrow> json_distinct t \<and> t' = t"
  "json_hook_list ts = Inr ts' \<longleftrightarrow> json_distinct_list ts \<and> ts' = ts"
  "json_hook_pairs ps = Inr ps' \<longleftrightarrow> json_distinct_pairs ps \<and> ps' = ps"
proof (induction t and ts and ps arbitrary: t' and ts' and ps'
    rule: json_hook_json_hook_list_json_hook_pairs.induct)
  case (2 ps)
  then show ?case by (auto simp: rbind_eq_Inr unique_object_Inr)
qed (auto simp: rbind_eq_Inr)

lemma json_hook_distinct [simp]: "json_distinct t \<Longrightarrow> json_hook t = Inr t"
  by (simp add: json_hook_Inr)

lemma get_integer_Inr [result_simps]: "get_integer j = Inr n \<longleftrightarrow> j = JInt n"
  by (auto simp: get_integer_def split: json.splits)

lemma get_number_finite: "get_number j = Inr x \<Longrightarrow> f_finite x"
  by (auto simp: get_number_def ensure_def split: json.splits option.splits if_splits)

lemma get_probability_ok: "get_probability j = Inr x \<Longrightarrow> probability x"
  by (auto simp: get_probability_def probability_def rbind_eq_Inr ensure_eq_Inr)

lemma get_interval_Inr:
  "get_interval j ticks = Inr i \<longleftrightarrow>
     (\<exists>a b. j = JList [JInt a, JInt b] \<and> i = (a, b) \<and> 0 \<le> a \<and> a < b \<and> b \<le> ticks)"
  by (auto simp: get_interval_def result_simps split: json.splits list.splits)

lemma check_tick_Inr: "check_tick t ticks = Inr u \<longleftrightarrow> 0 \<le> t \<and> t < ticks"
  by (simp add: check_tick_def ensure_eq_Inr)

lemma load_gusts_wf: "load_gusts ticks prev js = Inr gs \<Longrightarrow> gusts_wf ticks prev gs"
proof (induction js arbitrary: prev gs)
  case Nil
  then show ?case by auto
next
  case (Cons j js)
  then show ?case
    by (auto simp: rbind_eq_Inr ensure_eq_Inr get_interval_Inr not_less
        dest: get_number_finite split: json.splits list.splits)
qed

lemma load_command_Inr:
  "load_command ticks prev j = Inr (t, op) \<Longrightarrow>
     prev < t \<and> 0 \<le> t \<and> t < ticks \<and> op \<in> {''ARM'', ''LAUNCH'', ''ABORT''}"
proof (cases j)
  case (JObject d)
  assume "load_command ticks prev j = Inr (t, op)"
  from this [unfolded load_command_def JObject json.case rbind_eq_Inr ensure_eq_Inr check_tick_Inr]
  show ?thesis
    by (cases "map_of d ''opcode''"; cases "the (map_of d ''opcode'')")
      (elim conjE exE, simp add: ensure_eq_Inr not_le)+
qed (simp_all add: load_command_def)

lemma load_commands_wf: "load_commands ticks prev js = Inr cs \<Longrightarrow> requests_wf ticks prev cs"
proof (induction js arbitrary: prev cs)
  case (Cons j js)
  then obtain t op rest where "load_command ticks prev j = Inr (t, op)"
    "load_commands ticks t js = Inr rest" "cs = (t, op) # rest"
    by (auto simp: rbind_eq_Inr split: prod.splits)
  then show ?case using Cons.IH load_command_Inr by simp
qed auto

lemma load_blackout_wf: "load_blackout ticks j = Inr i \<Longrightarrow> interval_wf ticks i"
  by (auto simp: load_blackout_def interval_wf_def rbind_eq_Inr get_interval_Inr split: if_splits)

lemma load_fields_wf:
  assumes "load_fields stem data = Inr sc"
  shows "scenario_wf sc \<and> sc_id sc = stem"
proof -
  obtain arm where arm: "data ''auto_arm'' = JBool arm"
  proof (cases "data ''auto_arm''")
    case (JBool b)
    then show thesis by (rule that)
  qed (use assms in \<open>simp_all add: load_fields_def rbind_eq_Inr ensure_eq_Inr\<close>)
  from assms [unfolded load_fields_def arm json.case rbind_eq_Inr ensure_eq_Inr]
  obtain ticks loss_start gs gusts up down cs commands theta0 omega0 lu ld where
    r: "0 < ticks" "0 \<le> loss_start" "loss_start \<le> ticks"
      "load_gusts ticks 0 gs = Inr gusts" "load_commands ticks (-1) cs = Inr commands"
      "load_blackout ticks (data ''blackout_up'') = Inr up"
      "load_blackout ticks (data ''blackout_down'') = Inr down"
      "get_number (data ''theta0'') = Inr theta0" "get_number (data ''omega0'') = Inr omega0"
      "get_probability (data ''loss_up'') = Inr lu" "get_probability (data ''loss_down'') = Inr ld"
    and sc: "sc = \<lparr>sc_id = stem, sc_ticks = ticks,
       sc_initial = \<lparr>truth_theta = theta0, truth_omega = omega0\<rparr>, sc_gusts = gusts,
       sc_loss_up = lu, sc_loss_down = ld, sc_loss_start = loss_start, sc_blackout_up = up,
       sc_blackout_down = down, sc_commands = commands, sc_auto_arm = arm\<rparr>"
    by (elim exE conjE) (simp only: sum.inject not_le)
  note wf = load_gusts_wf [OF r(4)] load_commands_wf [OF r(5)] load_blackout_wf [OF r(6)]
    load_blackout_wf [OF r(7)] get_number_finite [OF r(8)] get_number_finite [OF r(9)]
    get_probability_ok [OF r(10)] get_probability_ok [OF r(11)]
  show ?thesis unfolding sc scenario_wf_def by (simp add: wf r(1-3))
qed

section \<open>Writing a scenario\<close>

definition gust_json :: "gust \<Rightarrow> json" where
  "gust_json g = (case g of (a, b, x) \<Rightarrow> JList [JInt a, JInt b, JFloat x])"

definition request_json :: "request \<Rightarrow> json" where
  "request_json r = JObject [(''tick'', JInt (fst r)), (''opcode'', JString (snd r))]"

definition interval_json :: "(int \<times> int) option \<Rightarrow> json" where
  "interval_json i = (case i of None \<Rightarrow> JNull | Some (a, b) \<Rightarrow> JList [JInt a, JInt b])"

definition scenario_json :: "scenario \<Rightarrow> json" where
  "scenario_json sc = JObject
     [(''ticks'', JInt (sc_ticks sc)),
      (''theta0'', JFloat (truth_theta (sc_initial sc))),
      (''omega0'', JFloat (truth_omega (sc_initial sc))),
      (''gusts'', JList (map gust_json (sc_gusts sc))),
      (''loss_up'', JFloat (sc_loss_up sc)), (''loss_down'', JFloat (sc_loss_down sc)),
      (''loss_start_tick'', JInt (sc_loss_start sc)),
      (''blackout_up'', interval_json (sc_blackout_up sc)),
      (''blackout_down'', interval_json (sc_blackout_down sc)),
      (''commands'', JList (map request_json (sc_commands sc))),
      (''auto_arm'', JBool (sc_auto_arm sc))]"

lemma load_gusts_json: "gusts_wf ticks prev gs \<Longrightarrow> load_gusts ticks prev (map gust_json gs) = Inr gs"
proof (induction gs arbitrary: prev)
  case (Cons g gs)
  obtain a b x where g: "g = (a, b, x)" by (cases g)
  have "get_interval (JList [JInt a, JInt b]) ticks = Inr (a, b)"
    using Cons.prems by (simp add: g get_interval_Inr)
  then show ?case
    using Cons by (simp add: g gust_json_def get_number_def)
qed simp

lemma load_commands_json:
  "requests_wf ticks prev cs \<Longrightarrow> load_commands ticks prev (map request_json cs) = Inr cs"
proof (induction cs arbitrary: prev)
  case (Cons c cs)
  obtain t op where c: "c = (t, op)" by (cases c)
  have "check_tick t ticks = Inr ()" using Cons.prems by (simp add: c check_tick_Inr)
  then have "load_command ticks prev (request_json c) = Inr (t, op)"
    using Cons.prems by (auto simp: c request_json_def load_command_def get_integer_def ensure_def)
  then show ?case using Cons by (simp add: c)
qed simp

lemma load_blackout_json: "interval_wf ticks i \<Longrightarrow> load_blackout ticks (interval_json i) = Inr i"
  by (auto simp: interval_wf_def interval_json_def load_blackout_def get_interval_def get_integer_def
      split: option.splits)

lemma json_distinct_gusts: "json_distinct_list (map gust_json gs)"
  by (induction gs) (auto simp: gust_json_def split: prod.splits)

lemma json_distinct_requests: "json_distinct_list (map request_json cs)"
  by (induction cs) (auto simp: request_json_def)

lemma json_distinct_scenario: "json_distinct (scenario_json sc)"
  by (auto simp: scenario_json_def interval_json_def json_distinct_gusts json_distinct_requests
      split: option.splits)

lemma scenario_load_object:
  assumes "json_distinct (JObject d)" "fst ` set d = set SCENARIO_KEYS"
  shows "scenario_load stem (JObject d) = load_fields stem (\<lambda>k. the (map_of d k))"
  using assms by (simp add: scenario_load_def del: json_hook.simps json_distinct.simps)

lemma get_probability_json: "probability x \<Longrightarrow> get_probability (JFloat x) = Inr x"
  using probability_val [of x] unfolding probability_def
  by (simp add: get_probability_def get_number_def ensure_def del: One_nat_def)

lemma scenario_load_json:
  assumes "scenario_wf sc"
  shows "scenario_load (sc_id sc) (scenario_json sc) = Inr sc"
proof -
  have fields: "load_fields (sc_id sc) (\<lambda>k. the (map_of d k)) = Inr sc" if "scenario_json sc = JObject d" for d
    using that assms unfolding scenario_json_def
    by (auto simp: load_fields_def get_integer_def get_number_def as_list_def scenario_wf_def
        load_gusts_json load_commands_json load_blackout_json get_probability_json)
  have keys: "fst ` set d = set SCENARIO_KEYS" if "scenario_json sc = JObject d" for d
    using that unfolding scenario_json_def SCENARIO_KEYS_def by auto
  obtain d where d: "scenario_json sc = JObject d" by (simp add: scenario_json_def)
  show ?thesis
    using scenario_load_object [of d] json_distinct_scenario [of sc] keys [OF d] fields [OF d]
    by (simp add: d)
qed

section \<open>Queries\<close>

text \<open>
  A timetable: entries in an order under which no tick is covered twice. Whatever entry covers a
  tick is the one the code's linear search finds.
\<close>

locale timetable =
  fixes covers :: "'e \<Rightarrow> int \<Rightarrow> bool" and before :: "'e \<Rightarrow> 'e \<Rightarrow> bool"
  assumes before_excludes: "before a b \<Longrightarrow> covers a t \<Longrightarrow> \<not> covers b t"
begin

lemma find_covering:
  assumes "sorted_wrt before es" "e \<in> set es" "covers e t"
  shows "find (\<lambda>x. covers x t) es = Some e"
  using assms
proof (induction es)
  case (Cons x xs)
  then show ?case using before_excludes [of x e t] by auto
qed simp

lemma find_none: "(\<And>e. e \<in> set es \<Longrightarrow> \<not> covers e t) \<Longrightarrow> find (\<lambda>x. covers x t) es = None"
  by (simp add: find_None_iff)

end

definition gust_before :: "gust \<Rightarrow> gust \<Rightarrow> bool" where
  "gust_before g h \<longleftrightarrow> fst (snd g) \<le> fst h"

definition request_before :: "request \<Rightarrow> request \<Rightarrow> bool" where
  "request_before a b \<longleftrightarrow> fst a < fst b"

interpretation gusts: timetable gust_covers gust_before
  by unfold_locales (auto simp: gust_covers_def gust_before_def split: prod.splits)

interpretation requests: timetable "\<lambda>r tick. tick = fst r" request_before
  by unfold_locales (auto simp: request_before_def)

lemma gusts_wf_sorted:
  "gusts_wf ticks prev gs \<Longrightarrow> sorted_wrt gust_before gs \<and> (\<forall>g \<in> set gs. prev \<le> fst g)"
proof (induction gs arbitrary: prev)
  case (Cons g gs)
  obtain a b x where "g = (a, b, x)" by (cases g)
  with Cons.IH [of b] Cons.prems show ?case by (auto simp: gust_before_def)
qed simp

lemma requests_wf_sorted:
  "requests_wf ticks prev rs \<Longrightarrow>
     sorted_wrt request_before rs \<and> (\<forall>r \<in> set rs. prev < fst r \<and> 0 \<le> fst r \<and> fst r < ticks)"
proof (induction rs arbitrary: prev)
  case (Cons r rs)
  obtain t op where "r = (t, op)" by (cases r)
  with Cons.IH [of t] Cons.prems show ?case by (auto simp: request_before_def)
qed simp

lemma check_tick_ok: "0 \<le> t \<Longrightarrow> t < ticks \<Longrightarrow> check_tick t ticks = Inr ()"
  by (simp add: check_tick_Inr)

section \<open>Properties\<close>

text \<open>C28. Whatever file is loaded, the scenario is well formed: positive horizon, ordered disjoint
  gusts of finite angle inside it, strictly increasing requests of known opcodes, nonempty
  blackout intervals inside the horizon, finite initial state and loss probabilities in \<open>[0, 1]\<close>;
  and no object of the file repeated a key.\<close>

theorem scenario_load_wf:
  assumes "scenario_load stem tree = Inr sc"
  shows "scenario_wf sc \<and> sc_id sc = stem \<and> json_distinct tree"
  using assms load_fields_wf
  by (auto simp: scenario_load_def rbind_eq_Inr ensure_eq_Inr json_hook_Inr split: json.splits)

definition example_scenario :: scenario where
  "example_scenario =
     \<lparr>sc_id = ''S2'', sc_ticks = 10, sc_initial = \<lparr>truth_theta = 0, truth_omega = 0\<rparr>,
      sc_gusts = [(2, 4, 0), (4, 5, 0)], sc_loss_up = 0, sc_loss_down = 0, sc_loss_start = 3,
      sc_blackout_up = Some (1, 2), sc_blackout_down = None,
      sc_commands = [(0, ''ARM''), (7, ''LAUNCH'')], sc_auto_arm = False\<rparr>"

lemma example_scenario_wf: "scenario_wf example_scenario"
  by (simp add: scenario_wf_def example_scenario_def interval_wf_def probability_val
      f_field_defs fval_def)

text \<open>C27. The loader accepts everything well formed: a well-formed scenario written as JSON loads
  back as itself.\<close>

theorem scenario_roundtrip:
  "scenario_wf sc \<Longrightarrow> scenario_load (sc_id sc) (scenario_json sc) = Inr sc"
  by (rule scenario_load_json)

theorem scenario_roundtrip_witness:
  "scenario_load ''S2'' (scenario_json example_scenario) = Inr example_scenario"
  using scenario_roundtrip [OF example_scenario_wf] by (simp add: example_scenario_def)

theorem scenario_load_wf_witness:
  "scenario_wf example_scenario \<and> json_distinct (scenario_json example_scenario)"
  using scenario_load_wf [OF scenario_load_json [OF example_scenario_wf]] by blast

text \<open>In a loaded scenario the gust that covers a tick is unique and is the one applied, its
  angle scaled by the aerodynamic gain; without one the torque is zero; out of the horizon the
  query raises.\<close>

theorem disturbance_at_gust:
  assumes "scenario_wf sc"
  shows "(\<forall>a b x. (a, b, x) \<in> set (sc_gusts sc) \<longrightarrow> a \<le> t \<longrightarrow> t < b \<longrightarrow>
      disturbance_at sc t env = Inr \<lparr>tau_d = f_mul (k_a env) x\<rparr>) \<and>
    (0 \<le> t \<and> t < sc_ticks sc \<and> (\<forall>g \<in> set (sc_gusts sc). \<not> gust_covers g t) \<longrightarrow>
      disturbance_at sc t env = Inr \<lparr>tau_d = f_zero False\<rparr>) \<and>
    (\<not> (0 \<le> t \<and> t < sc_ticks sc) \<longrightarrow> (\<exists>e. disturbance_at sc t env = Inl e))"
proof -
  have wf: "gusts_wf (sc_ticks sc) 0 (sc_gusts sc)" using assms by (simp add: scenario_wf_def)
  have range: "gusts_wf ticks prev gs \<Longrightarrow> (a, b, x) \<in> set gs \<Longrightarrow> 0 \<le> a \<and> b \<le> ticks" for ticks prev gs a b x
    by (induction ticks prev gs rule: gusts_wf.induct) auto
  have hit: "disturbance_at sc t env = Inr \<lparr>tau_d = f_mul (k_a env) x\<rparr>"
    if "(a, b, x) \<in> set (sc_gusts sc)" "a \<le> t" "t < b" for a b x
    using gusts.find_covering [of "sc_gusts sc" "(a, b, x)" t] gusts_wf_sorted [OF wf]
      range [OF wf that(1)] that
    by (simp add: disturbance_at_def check_tick_ok gust_covers_def)
  have miss: "disturbance_at sc t env = Inr \<lparr>tau_d = f_zero False\<rparr>"
    if "0 \<le> t" "t < sc_ticks sc" "\<forall>g \<in> set (sc_gusts sc). \<not> gust_covers g t"
    using gusts.find_none [of "sc_gusts sc" t] that by (simp add: disturbance_at_def check_tick_ok)
  have "\<exists>e. disturbance_at sc t env = Inl e" if "\<not> (0 \<le> t \<and> t < sc_ticks sc)"
    using that by (auto simp: disturbance_at_def check_tick_def ensure_def)
  with hit miss show ?thesis by blast
qed

theorem disturbance_at_gust_witness:
  "disturbance_at example_scenario 4 environment_fixed = Inr \<lparr>tau_d = f_mul (k_a environment_fixed) 0\<rparr>"
proof -
  have "(4, 5, 0) \<in> set (sc_gusts example_scenario)" by (simp add: example_scenario_def)
  then show ?thesis
    using disturbance_at_gust [OF example_scenario_wf, of 4 environment_fixed] by auto
qed

text \<open>Every request of a loaded scenario is issued at its tick and nothing else ever is.\<close>

lemma command_at_request:
  assumes "scenario_wf sc"
  shows "command_at sc t = Inr (Some op) \<longleftrightarrow> (t, op) \<in> set (sc_commands sc)"
proof -
  have wf: "requests_wf (sc_ticks sc) (-1) (sc_commands sc)" using assms by (simp add: scenario_wf_def)
  note sorted = requests_wf_sorted [OF wf]
  show ?thesis
  proof
    assume "command_at sc t = Inr (Some op)"
    then show "(t, op) \<in> set (sc_commands sc)"
      by (auto simp: command_at_def rbind_eq_Inr dest: find_Some_set)
  next
    assume r: "(t, op) \<in> set (sc_commands sc)"
    have "0 \<le> t" "t < sc_ticks sc" using sorted r by auto
    then show "command_at sc t = Inr (Some op)"
      using requests.find_covering [OF conjunct1 [OF sorted] r, of t]
      by (simp add: command_at_def check_tick_ok)
  qed
qed

theorem command_at_request_witness: "command_at example_scenario 7 = Inr (Some ''LAUNCH'')"
  using command_at_request [OF example_scenario_wf, of 7 "''LAUNCH''"] by (simp add: example_scenario_def)

text \<open>Inside the horizon a blackout forces the drop, outside it no packet is dropped before
  \<open>loss_start_tick\<close>, and from then on the draw decides; any other direction raises.\<close>

theorem forced_drop_at_decides:
  "0 \<le> t \<Longrightarrow> t < sc_ticks sc \<Longrightarrow>
     forced_drop_at sc t direction =
       (if direction \<notin> {''up'', ''down''} then Inl (ValueError ''direction must be up or down'')
        else if \<exists>a b. (if direction = ''up'' then sc_blackout_up sc else sc_blackout_down sc) = Some (a, b) \<and> a \<le> t \<and> t < b
          then Inr (Some True)
        else if t < sc_loss_start sc then Inr (Some False) else Inr None)"
  by (auto simp: forced_drop_at_def check_tick_ok ensure_def Let_def split: option.splits)

theorem forced_drop_at_decides_witness: "forced_drop_at example_scenario 1 ''up'' = Inr (Some True)"
  using forced_drop_at_decides [of 1 example_scenario "''up''"] by (simp add: example_scenario_def)

end
