(* ===== verification/Headless.thy ===== *)
theory Headless
  imports Episode Scenario
begin

text \<open>
  The tick-indexed reference run (\<open>sim/run_headless.py\<close>): loss draws, scenario queries, sensor,
  episode, delay line, actuator and plant, in the order the code calls them, and the acceptance
  clauses of \<open>sim/trace.py\<close>. The lemmas show that a run returns, what its rows are, who owns the
  random streams, and that the vehicle stays in its envelope.
\<close>

section \<open>Rows and traces (sim/trace.py)\<close>

record row =
  row_tick :: int
  row_truth :: truth_state
  row_observation :: observation
  row_held :: "observation option"
  row_fresh :: bool
  row_staleness :: int
  row_command :: "command option"
  row_episode :: episode_output
  row_arriving :: "f64 option"
  row_actuator :: actuator_state
  row_up_drop :: bool
  row_down_drop :: bool

record stream_result =
  sr_name :: string
  sr_start :: u64
  sr_final :: u64
  sr_draws :: nat

record trace =
  tr_ticks :: int
  tr_seed :: int
  tr_delay :: int
  tr_rows :: "row list"
  tr_rng :: "stream_result list"
  tr_sim_reason :: "int option"

section \<open>The run (sim/run_headless.py)\<close>

definition push_pop :: "'a list \<Rightarrow> 'a \<Rightarrow> 'a \<times> 'a list" where
  "push_pop values arriving = (hd (values @ [arriving]), tl (values @ [arriving]))"

record hl_state =
  hl_up :: splitmix
  hl_down :: splitmix
  hl_delay :: "f64 option list"
  hl_truth :: truth_state
  hl_act :: actuator_state
  hl_ep :: episode_state
  hl_held :: "observation option"
  hl_pending :: "int option"
  hl_seq :: int

definition opcode_of :: "string \<Rightarrow> int result" where
  "opcode_of name =
     (if name = ''ARM'' then Inr OP_ARM else if name = ''LAUNCH'' then Inr OP_LAUNCH
      else if name = ''ABORT'' then Inr OP_ABORT else Inl (KeyError name))"

text \<open>Lines 44 to 49: one draw per direction, whatever the scenario forces.\<close>

definition hl_drops :: "scenario \<Rightarrow> int \<Rightarrow> hl_state \<Rightarrow> (bool \<times> bool \<times> splitmix \<times> splitmix) result" where
  "hl_drops sc tick s =
     rbind (draw_drop (hl_up s) (sc_loss_up sc)) (\<lambda>(raw_up, up).
     rbind (draw_drop (hl_down s) (sc_loss_down sc)) (\<lambda>(raw_down, down).
     rbind (forced_drop_at sc tick ''up'') (\<lambda>override_up.
     rbind (forced_drop_at sc tick ''down'') (\<lambda>override_down.
       Inr (case override_up of None \<Rightarrow> raw_up | Some b \<Rightarrow> b,
            case override_down of None \<Rightarrow> raw_down | Some b \<Rightarrow> b, up, down)))))"

text \<open>Lines 51 to 58: what the vehicle sees.\<close>

definition hl_observe :: "int \<Rightarrow> truth_state \<Rightarrow> bool \<Rightarrow> observation" where
  "hl_observe tick truth up_drop =
     (if up_drop then \<lparr>obs_tick = tick, obs_theta = f_zero False, obs_omega = f_zero False, obs_valid = False\<rparr>
      else observe tick truth)"

definition obs_fresh :: "observation \<Rightarrow> bool" where
  "obs_fresh ob \<longleftrightarrow> obs_valid ob \<and> f_finite (obs_theta ob) \<and> f_finite (obs_omega ob)"

definition hl_age :: "int \<Rightarrow> observation option \<Rightarrow> int" where
  "hl_age tick held =
     min (case held of Some h \<Rightarrow> tick - obs_tick h | None \<Rightarrow> tick + 1) 0xffffffff"

text \<open>Lines 59 to 63: the scenario's request becomes a command for 50 ticks later.\<close>

definition hl_command :: "scenario \<Rightarrow> int \<Rightarrow> int \<Rightarrow> (command option \<times> int) result" where
  "hl_command sc tick seq =
     rbind (command_at sc tick) (\<lambda>op.
       case op of
         None \<Rightarrow> Inr (None, seq)
       | Some name \<Rightarrow>
           (let seq' = (seq + 1) mod 2 ^ 32
            in rbind (opcode_of name)
                 (\<lambda>v. Inr (Some \<lparr>cmd_seq = seq', opcode = v, effective_tick = tick + 50\<rparr>, seq'))))"

text \<open>Lines 80 to 83: what the new truth means for the next tick.\<close>

definition hl_loc :: "truth_state \<Rightarrow> int option" where
  "hl_loc truth =
     (if \<not> f_finite (truth_theta truth) \<or> \<not> f_finite (truth_omega truth) then Some SIM_LOC_NONFINITE
      else if f_lt LOC_ANGLE (f_abs (truth_theta truth)) then Some SIM_LOC_ANGLE
      else None)"

text \<open>Lines 51 to 68: the episode's input.\<close>

definition hl_input :: "scenario \<Rightarrow> int \<Rightarrow> hl_state \<Rightarrow> bool \<Rightarrow> command option \<Rightarrow> episode_input" where
  "hl_input sc tick s up_drop cmd =
     (let ob = hl_observe tick (hl_truth s) up_drop;
          fresh = obs_fresh ob;
          held = (if fresh then Some ob else hl_held s)
      in \<lparr>in_tick = tick, in_held = held, in_fresh = fresh, in_staleness = hl_age tick held,
          in_command = cmd, in_horizon = False,
          in_sim_reason = (if hl_pending s = None \<and> tick = sc_ticks sc - 1 then Some SIM_HORIZON
            else hl_pending s),
          in_stop_reason = None\<rparr>)"

text \<open>Lines 69 to 78: downlink, actuator, the row, and whether the loop is left.\<close>

definition hl_row :: "hl_state \<Rightarrow> episode_input \<Rightarrow> episode_output \<Rightarrow> bool \<Rightarrow> bool \<Rightarrow> row" where
  "hl_row s inp out up_drop down_drop =
     (let arriving = fst (push_pop (hl_delay s) (if down_drop then None else Some (out_delta out)))
      in \<lparr>row_tick = in_tick inp, row_truth = hl_truth s,
          row_observation = hl_observe (in_tick inp) (hl_truth s) up_drop, row_held = in_held inp,
          row_fresh = in_fresh inp, row_staleness = in_staleness inp, row_command = in_command inp,
          row_episode = out, row_arriving = arriving, row_actuator = actuator_step (hl_act s) arriving,
          row_up_drop = up_drop, row_down_drop = down_drop\<rparr>)"

definition hl_stop :: "episode_input \<Rightarrow> episode_output \<Rightarrow> int option" where
  "hl_stop inp out =
     (if in_sim_reason inp \<noteq> None then in_sim_reason inp
      else if terminal (out_state out) \<noteq> None then Some SIM_VEHICLE_TERMINAL else None)"

text \<open>Lines 79 to 83, when the loop goes on: the plant and what its new truth means.\<close>

definition hl_next ::
  "hl_state \<Rightarrow> row \<Rightarrow> splitmix \<Rightarrow> splitmix \<Rightarrow> disturbance \<Rightarrow> int \<Rightarrow> int option \<Rightarrow> hl_state" where
  "hl_next s r up down dstb seq stop =
     (let delay = snd (push_pop (hl_delay s)
            (if row_down_drop r then None else Some (out_delta (row_episode r))));
          truth = (if stop = None then plant_step (hl_truth s) (row_actuator r) environment_fixed dstb DT
                   else hl_truth s);
          loc = (if stop = None then hl_loc truth else None)
      in \<lparr>hl_up = up, hl_down = down, hl_delay = delay, hl_truth = truth, hl_act = row_actuator r,
          hl_ep = out_state (row_episode r), hl_held = row_held r,
          hl_pending = (if loc = None then hl_pending s else loc), hl_seq = seq\<rparr>)"

text \<open>One iteration of the loop: the row, the reason to leave the loop if any, the next state.\<close>

definition headless_tick :: "scenario \<Rightarrow> int \<Rightarrow> hl_state \<Rightarrow> (row \<times> int option \<times> hl_state) result" where
  "headless_tick sc tick s =
     rbind (hl_drops sc tick s) (\<lambda>(up_drop, down_drop, up, down).
     rbind (disturbance_at sc tick environment_fixed) (\<lambda>dstb.
     rbind (hl_command sc tick (hl_seq s)) (\<lambda>(cmd, seq).
     let inp = hl_input sc tick s up_drop cmd
     in rbind (episode_step (hl_ep s) inp) (\<lambda>out.
     let r = hl_row s inp out up_drop down_drop;
         stop = hl_stop inp out
     in Inr (r, stop, hl_next s r up down dstb seq stop)))))"

text \<open>The \<open>for\<close> loop with its two \<open>break\<close>s.\<close>

fun headless_loop :: "scenario \<Rightarrow> int list \<Rightarrow> hl_state \<Rightarrow> (row list \<times> int option \<times> hl_state) result" where
  "headless_loop sc [] s = Inr ([], None, s)"
| "headless_loop sc (tick # ticks) s =
     rbind (headless_tick sc tick s) (\<lambda>(r, stop, s').
       if stop \<noteq> None then Inr ([r], stop, s')
       else rbind (headless_loop sc ticks s') (\<lambda>(rs, stop', s''). Inr (r # rs, stop', s'')))"

definition headless_initial :: "scenario \<Rightarrow> u64 \<Rightarrow> u64 \<Rightarrow> int \<Rightarrow> hl_state" where
  "headless_initial sc up down delay =
     \<lparr>hl_up = splitmix_init up, hl_down = splitmix_init down, hl_delay = replicate (nat delay) None,
      hl_truth = sc_initial sc, hl_act = actuator_initial, hl_ep = episode_initial (sc_auto_arm sc),
      hl_held = None, hl_pending = None, hl_seq = 0\<rparr>"

definition run_headless :: "scenario \<Rightarrow> int \<Rightarrow> int \<Rightarrow> trace result" where
  "run_headless sc seed delay =
     ensure (0 \<le> seed \<and> seed < 0x10000000000000000) ''seed must be a u64 integer''
     (ensure (delay \<in> {0, 1}) ''delay_ticks must be 0 or 1''
     (ensure (0 < sc_ticks sc) ''scenario must have a positive tick count''
     (rbind (stream_state seed ''link.loss.up'') (\<lambda>up.
      rbind (stream_state seed ''link.loss.down'') (\<lambda>down.
      rbind (headless_loop sc (map int [0..<nat (sc_ticks sc)]) (headless_initial sc up down delay))
        (\<lambda>(rows, stop, s).
           Inr \<lparr>tr_ticks = sc_ticks sc, tr_seed = seed, tr_delay = delay, tr_rows = rows,
                tr_rng = [\<lparr>sr_name = ''link.loss.up'', sr_start = up, sr_final = sm_state (hl_up s),
                           sr_draws = length rows\<rparr>,
                          \<lparr>sr_name = ''link.loss.down'', sr_start = down,
                           sr_final = sm_state (hl_down s), sr_draws = length rows\<rparr>],
                tr_sim_reason = stop\<rparr>))))))"

section \<open>Acceptance (sim/trace.py)\<close>

record evidence_row =
  ev_tick :: int
  ev_theta :: f64
  ev_omega :: f64
  ev_delta :: f64
  ev_i_state :: f64
  ev_d_prev :: f64

record acceptance =
  acc_termination :: bool
  acc_peak :: bool
  acc_settled :: bool
  acc_cadence :: bool
  acc_finiteness :: bool

definition acc_passed :: "acceptance \<Rightarrow> bool" where
  "acc_passed a \<longleftrightarrow> acc_termination a \<and> acc_peak a \<and> acc_settled a \<and> acc_cadence a \<and> acc_finiteness a"

definition PEAK :: f64 where "PEAK = f_lit 15 100"

definition last_rows :: "nat \<Rightarrow> 'a list \<Rightarrow> 'a list" where
  "last_rows n xs = drop (length xs - n) xs"

definition evaluate_rows ::
  "evidence_row list \<Rightarrow> int \<Rightarrow> int option \<Rightarrow> mode option \<Rightarrow> terminal_result option \<Rightarrow> acceptance" where
  "evaluate_rows rows ticks sim_reason vehicle_state term_res =
     \<lparr>acc_termination = rows \<noteq> [] \<and> sim_reason = Some SIM_HORIZON \<and>
        ev_tick (last rows) = ticks - 1 \<and> vehicle_state = Some TERMINATED \<and>
        (case term_res of None \<Rightarrow> False
         | Some t \<Rightarrow> term_reason t = STABILIZED \<and> term_tick t = ticks - 1),
      acc_peak = rows \<noteq> [] \<and> list_all (\<lambda>r. f_le (f_abs (ev_theta r)) PEAK) rows,
      acc_settled = (let window = last_rows 1000 rows
        in 1000 \<le> ticks \<and> length window = 1000 \<and>
           list_all (\<lambda>(i, r). ev_tick r = ticks - 1000 + int i \<and>
               f_le (f_abs (ev_theta r)) SETTLE_BAND \<and> f_le (f_abs (ev_omega r)) SETTLE_BAND)
             (enumerate 0 window)),
      acc_cadence = 0 < ticks \<and> int (length rows) = ticks \<and>
        list_all (\<lambda>(i, r). ev_tick r = int i) (enumerate 0 rows),
      acc_finiteness = rows \<noteq> [] \<and>
        list_all (\<lambda>r. list_all f_finite [ev_theta r, ev_omega r, ev_delta r, ev_i_state r, ev_d_prev r]) rows\<rparr>"

definition evidence_of :: "row \<Rightarrow> evidence_row" where
  "evidence_of r =
     \<lparr>ev_tick = row_tick r, ev_theta = truth_theta (row_truth r), ev_omega = truth_omega (row_truth r),
      ev_delta = out_delta (row_episode r), ev_i_state = i_state (ep_pid (out_state (row_episode r))),
      ev_d_prev = d_prev (ep_pid (out_state (row_episode r)))\<rparr>"

definition evaluate :: "trace \<Rightarrow> acceptance" where
  "evaluate tr =
     (let st = (if tr_rows tr = [] then None else Some (out_state (row_episode (last (tr_rows tr)))))
      in evaluate_rows (map evidence_of (tr_rows tr)) (tr_ticks tr) (tr_sim_reason tr)
           (map_option ep_mode st) (case st of None \<Rightarrow> None | Some e \<Rightarrow> terminal e))"

section \<open>One tick\<close>

text \<open>Everything a tick computes, field by field.\<close>

lemma headless_tickE:
  assumes "headless_tick sc tick s = Inr (r, stop, s')"
  obtains u d up down dstb cmd seq out where
    "hl_drops sc tick s = Inr (u, d, up, down)"
    "disturbance_at sc tick environment_fixed = Inr dstb"
    "hl_command sc tick (hl_seq s) = Inr (cmd, seq)"
    "episode_step (hl_ep s) (hl_input sc tick s u cmd) = Inr out"
    "r = hl_row s (hl_input sc tick s u cmd) out u d"
    "stop = hl_stop (hl_input sc tick s u cmd) out"
    "s' = hl_next s r up down dstb seq stop"
  using assms by (auto simp: headless_tick_def rbind_eq_Inr Let_def split: prod.splits)

lemma hl_drops_streams:
  "hl_drops sc tick s = Inr (u, d, up, down) \<Longrightarrow>
     up = splitmix_advance (hl_up s) \<and> down = splitmix_advance (hl_down s)"
  by (auto simp: hl_drops_def rbind_eq_Inr draw_drop_Inr)

lemma hl_row_simps [simp]:
  "row_tick (hl_row s inp out u d) = in_tick inp" "row_truth (hl_row s inp out u d) = hl_truth s"
  "row_observation (hl_row s inp out u d) = hl_observe (in_tick inp) (hl_truth s) u"
  "row_held (hl_row s inp out u d) = in_held inp" "row_fresh (hl_row s inp out u d) = in_fresh inp"
  "row_staleness (hl_row s inp out u d) = in_staleness inp"
  "row_command (hl_row s inp out u d) = in_command inp" "row_episode (hl_row s inp out u d) = out"
  "row_arriving (hl_row s inp out u d) =
     fst (push_pop (hl_delay s) (if d then None else Some (out_delta out)))"
  "row_actuator (hl_row s inp out u d) =
     actuator_step (hl_act s) (fst (push_pop (hl_delay s) (if d then None else Some (out_delta out))))"
  "row_up_drop (hl_row s inp out u d) = u" "row_down_drop (hl_row s inp out u d) = d"
  by (simp_all add: hl_row_def Let_def)

lemma hl_next_simps [simp]:
  "hl_up (hl_next s r up down dstb seq stop) = up" "hl_down (hl_next s r up down dstb seq stop) = down"
  "hl_delay (hl_next s r up down dstb seq stop) =
     snd (push_pop (hl_delay s) (if row_down_drop r then None else Some (out_delta (row_episode r))))"
  "hl_act (hl_next s r up down dstb seq stop) = row_actuator r"
  "hl_ep (hl_next s r up down dstb seq stop) = out_state (row_episode r)"
  "hl_held (hl_next s r up down dstb seq stop) = row_held r"
  "hl_seq (hl_next s r up down dstb seq stop) = seq"
  "hl_truth (hl_next s r up down dstb seq None) =
     plant_step (hl_truth s) (row_actuator r) environment_fixed dstb DT"
  by (simp_all add: hl_next_def Let_def)

lemma hl_input_simps [simp]:
  "in_tick (hl_input sc tick s u cmd) = tick" "in_command (hl_input sc tick s u cmd) = cmd"
  "in_horizon (hl_input sc tick s u cmd) = False" "in_stop_reason (hl_input sc tick s u cmd) = None"
  "in_fresh (hl_input sc tick s u cmd) = obs_fresh (hl_observe tick (hl_truth s) u)"
  "in_held (hl_input sc tick s u cmd) =
     (if obs_fresh (hl_observe tick (hl_truth s) u) then Some (hl_observe tick (hl_truth s) u) else hl_held s)"
  "in_staleness (hl_input sc tick s u cmd) = hl_age tick (in_held (hl_input sc tick s u cmd))"
  "in_sim_reason (hl_input sc tick s u cmd) =
     (if hl_pending s = None \<and> tick = sc_ticks sc - 1 then Some SIM_HORIZON else hl_pending s)"
  by (simp_all add: hl_input_def Let_def)

lemma opcode_of_ok: "op \<in> {''ARM'', ''LAUNCH'', ''ABORT''} \<Longrightarrow> \<exists>v. opcode_of op = Inr v"
  by (auto simp: opcode_of_def)

lemma requests_wf_opcode:
  "requests_wf ticks prev rs \<Longrightarrow> (t, op) \<in> set rs \<Longrightarrow> op \<in> {''ARM'', ''LAUNCH'', ''ABORT''}"
  by (induction ticks prev rs rule: requests_wf.induct) auto

lemma hl_command_total:
  assumes "scenario_wf sc" "0 \<le> tick" "tick < sc_ticks sc"
  shows "\<exists>c q. hl_command sc tick seq = Inr (c, q)"
proof -
  have wf: "requests_wf (sc_ticks sc) (-1) (sc_commands sc)" using assms(1) by (simp add: scenario_wf_def)
  define hit where "hit = find (\<lambda>r. tick = fst r) (sc_commands sc)"
  have at: "command_at sc tick = Inr (map_option snd hit)"
    using assms(2,3) by (simp add: command_at_def check_tick_ok hit_def)
  show ?thesis
  proof (cases hit)
    case None
    then show ?thesis by (simp add: hl_command_def at)
  next
    case (Some r)
    then have "(fst r, snd r) \<in> set (sc_commands sc)"
      using find_Some_set unfolding hit_def by fastforce
    then have "snd r \<in> {''ARM'', ''LAUNCH'', ''ABORT''}"
      by (rule requests_wf_opcode [OF wf])
    then obtain v where "opcode_of (snd r) = Inr v" using opcode_of_ok by blast
    then show ?thesis by (simp add: hl_command_def at Some Let_def)
  qed
qed

lemma hl_drops_total:
  assumes "scenario_wf sc" "0 \<le> tick" "tick < sc_ticks sc"
  shows "\<exists>u d gu gd. hl_drops sc tick s = Inr (u, d, gu, gd)"
proof -
  have p: "probability (sc_loss_up sc)" "probability (sc_loss_down sc)"
    using assms(1) by (simp_all add: scenario_wf_def)
  obtain a where "draw_drop (hl_up s) (sc_loss_up sc) = Inr (a, splitmix_advance (hl_up s))"
    using splitmix.draw_valid [OF p(1)] by metis
  moreover obtain b where "draw_drop (hl_down s) (sc_loss_down sc) = Inr (b, splitmix_advance (hl_down s))"
    using splitmix.draw_valid [OF p(2)] by metis
  moreover have "\<exists>o'. forced_drop_at sc tick dir = Inr o'" if "dir \<in> {''up'', ''down''}" for dir
    using that assms(2,3) unfolding forced_drop_at_def check_tick_ok [OF assms(2,3)] Let_def
    by (simp add: ensure_def)
  then obtain o1 o2 where "forced_drop_at sc tick ''up'' = Inr o1" "forced_drop_at sc tick ''down'' = Inr o2"
    by (meson insertCI)
  ultimately show ?thesis by (simp add: hl_drops_def)
qed

lemma headless_tick_total:
  assumes "scenario_wf sc" "0 \<le> tick" "tick < sc_ticks sc"
  shows "\<exists>r stop s'. headless_tick sc tick s = Inr (r, stop, s')"
proof -
  obtain u d gu gd where drops: "hl_drops sc tick s = Inr (u, d, gu, gd)"
    using hl_drops_total [OF assms] by blast
  obtain dstb where dstb: "disturbance_at sc tick environment_fixed = Inr dstb"
    using assms(2,3) by (fastforce simp: disturbance_at_def check_tick_ok split: option.splits)
  obtain c q where cmd: "hl_command sc tick (hl_seq s) = Inr (c, q)"
    using hl_command_total [OF assms] by blast
  obtain out where "episode_step (hl_ep s) (hl_input sc tick s u c) = Inr out"
    using episode_step_returns [of "hl_input sc tick s u c" "hl_ep s"] by (auto simp: held_ok_def)
  then show ?thesis
    by (simp add: headless_tick_def drops dstb cmd Let_def)
qed

section \<open>The loop\<close>

lemma headless_loop_Cons:
  "headless_loop sc (t # ts) s = Inr (rows, stop, s'') \<longleftrightarrow>
     (\<exists>r stop1 s1. headless_tick sc t s = Inr (r, stop1, s1) \<and>
        (if stop1 \<noteq> None then rows = [r] \<and> stop = stop1 \<and> s'' = s1
         else \<exists>rs. headless_loop sc ts s1 = Inr (rs, stop, s'') \<and> rows = r # rs))"
  by (auto simp: rbind_eq_Inr split: prod.splits if_splits)

lemma headless_loop_total:
  assumes "scenario_wf sc" "\<forall>t \<in> set ts. 0 \<le> t \<and> t < sc_ticks sc"
  shows "\<exists>rows stop s'. headless_loop sc ts s = Inr (rows, stop, s')"
  using assms(2)
proof (induction ts arbitrary: s)
  case Nil
  then show ?case by simp
next
  case (Cons t ts)
  obtain r stop s1 where t: "headless_tick sc t s = Inr (r, stop, s1)"
    using headless_tick_total [OF assms(1)] Cons.prems by fastforce
  obtain rows stop' s' where "headless_loop sc ts s1 = Inr (rows, stop', s')"
    using Cons.IH Cons.prems by fastforce
  with t show ?case by simp
qed

lemma headless_loop_rows:
  assumes "headless_loop sc ts s = Inr (rows, stop, s')"
  shows "map row_tick rows = take (length rows) ts \<and> (stop = None \<longrightarrow> length rows = length ts) \<and>
    (ts \<noteq> [] \<longrightarrow> rows \<noteq> []) \<and>
    hl_up s' = (splitmix_advance ^^ length rows) (hl_up s) \<and>
    hl_down s' = (splitmix_advance ^^ length rows) (hl_down s)"
  using assms
proof (induction ts arbitrary: s rows)
  case Nil
  then show ?case by simp
next
  case (Cons t ts)
  then obtain r stop1 s1 where t: "headless_tick sc t s = Inr (r, stop1, s1)"
    and rest: "if stop1 \<noteq> None then rows = [r] \<and> stop = stop1 \<and> s' = s1
      else \<exists>rs. headless_loop sc ts s1 = Inr (rs, stop, s') \<and> rows = r # rs"
    by (auto simp only: headless_loop_Cons)
  have d: "row_tick r = t" "hl_up s1 = splitmix_advance (hl_up s)" "hl_down s1 = splitmix_advance (hl_down s)"
    using t by (auto elim!: headless_tickE dest: hl_drops_streams)
  show ?case
  proof (cases stop1)
    case None
    then obtain rs where rs: "headless_loop sc ts s1 = Inr (rs, stop, s')" "rows = r # rs"
      using rest by auto
    show ?thesis using Cons.IH [OF rs(1)] rs(2) d by (simp add: funpow_swap1)
  next
    case (Some x)
    with rest d show ?thesis by simp
  qed
qed

section \<open>The policy invariant of the loop\<close>

text \<open>Before tick \<open>t\<close> of a loop that has not been left.\<close>

definition hl_live :: "int \<Rightarrow> hl_state \<Rightarrow> bool" where
  "hl_live t s \<longleftrightarrow>
     episode_wf (hl_ep s) \<and> ep_mode (hl_ep s) \<noteq> TERMINATED \<and>
     hl_pending s = (if t = 0 then None else hl_loc (hl_truth s)) \<and>
     (\<forall>h. hl_held s = Some h \<longrightarrow> 0 \<le> obs_tick h \<and> obs_tick h < t \<and> obs_fresh h)"

lemma hl_loc_values: "hl_loc truth \<in> {None, Some SIM_LOC_ANGLE, Some SIM_LOC_NONFINITE}"
  by (simp add: hl_loc_def)

lemma terminal_reason_sim:
  assumes "in_sim_reason inp \<noteq> None" "in_stop_reason inp = None"
  shows "terminal_reason inp cnt \<noteq> Inr NONE"
  using assms by (auto simp: terminal_reason_def rbind_eq_Inr split: if_splits)

lemma episode_step_alive:
  assumes "episode_step st inp = Inr out" "ep_mode st \<noteq> TERMINATED" "in_sim_reason inp \<noteq> None"
    "in_stop_reason inp = None"
  shows "ep_mode (out_state out) = TERMINATED"
  using assms(1,2)
  by (cases rule: episode_step_cases) (use terminal_reason_sim [OF assms(3,4)] in \<open>auto simp: terminate_step_fields\<close>)

text \<open>The loop is left at the tick at which the episode terminates, and only there.\<close>

lemma hl_stop_terminated:
  assumes "episode_step st inp = Inr out" "episode_wf st" "ep_mode st \<noteq> TERMINATED"
    "in_stop_reason inp = None"
  shows "hl_stop inp out \<noteq> None \<longleftrightarrow> ep_mode (out_state out) = TERMINATED"
  using episode_step_wf [OF assms(1,2)] episode_step_alive [OF assms(1,3)] assms(4)
  by (auto simp: hl_stop_def episode_wf_def)

lemma hl_live_step:
  assumes t: "headless_tick sc t s = Inr (r, stop, s')" and live: "hl_live t s" and "0 \<le> t"
  shows "stop \<noteq> None \<longleftrightarrow> ep_mode (out_state (row_episode r)) = TERMINATED"
    "stop = None \<Longrightarrow> hl_live (t + 1) s'"
    "episode_wf (out_state (row_episode r))"
    "stop \<in> {None, Some SIM_HORIZON, Some SIM_LOC_ANGLE, Some SIM_LOC_NONFINITE, Some SIM_VEHICLE_TERMINAL}"
proof -
  obtain u d up down dstb cmd seq out where
    step: "episode_step (hl_ep s) (hl_input sc t s u cmd) = Inr out"
    and r: "r = hl_row s (hl_input sc t s u cmd) out u d"
    and stop: "stop = hl_stop (hl_input sc t s u cmd) out"
    and s': "s' = hl_next s r up down dstb seq stop"
    using t by (elim headless_tickE)
  have wf: "episode_wf (hl_ep s)" "ep_mode (hl_ep s) \<noteq> TERMINATED" using live by (simp_all add: hl_live_def)
  have iff: "stop \<noteq> None \<longleftrightarrow> ep_mode (out_state out) = TERMINATED"
    using hl_stop_terminated [OF step wf] by (simp add: stop)
  then show "stop \<noteq> None \<longleftrightarrow> ep_mode (out_state (row_episode r)) = TERMINATED" by (simp add: r)
  show wf': "episode_wf (out_state (row_episode r))" using episode_step_wf [OF step wf(1)] by (simp add: r)
  show "stop \<in> {None, Some SIM_HORIZON, Some SIM_LOC_ANGLE, Some SIM_LOC_NONFINITE, Some SIM_VEHICLE_TERMINAL}"
    using hl_loc_values [of "hl_truth s"] live by (auto simp: stop hl_stop_def hl_live_def)
  assume none: "stop = None"
  have pend: "hl_pending s = None" using none by (auto simp: stop hl_stop_def split: if_splits)
  have held: "0 \<le> obs_tick h \<and> obs_tick h < t + 1 \<and> obs_fresh h" if "row_held r = Some h" for h
    using that live \<open>0 \<le> t\<close> unfolding hl_live_def
    by (auto simp: r hl_observe_def observe_def split: if_splits)
  have "hl_ep s' = out_state (row_episode r)" "hl_held s' = row_held r" by (simp_all add: s')
  moreover have "hl_pending s' = hl_loc (hl_truth s')"
    using pend by (simp add: s' none hl_next_def Let_def)
  moreover have "ep_mode (out_state (row_episode r)) \<noteq> TERMINATED" using iff none by (simp add: r)
  ultimately show "hl_live (t + 1) s'"
    using wf' held \<open>0 \<le> t\<close> by (simp add: hl_live_def)
qed

lemma hl_live_initial: "hl_live 0 (headless_initial sc up down delay)"
  by (auto simp: hl_live_def headless_initial_def episode_initial_def episode_wf_def)

text \<open>The tick list of a run, from \<open>t\<close> on.\<close>

definition ticks_from :: "int \<Rightarrow> nat \<Rightarrow> int list" where
  "ticks_from t n = map (\<lambda>i. t + int i) [0..<n]"

lemma ticks_from_simps: "ticks_from t 0 = []" "ticks_from t (Suc n) = t # ticks_from (t + 1) n"
  by (simp_all add: ticks_from_def upt_conv_Cons map_Suc_upt [symmetric] del: upt_Suc)

text \<open>The induction every loop property uses: \<open>P\<close> of every row, \<open>Q\<close> of the rows the loop survives.\<close>

lemma headless_loop_rule:
  assumes step: "\<And>t s r stop s'. headless_tick sc t s = Inr (r, stop, s') \<Longrightarrow> I t s \<Longrightarrow> 0 \<le> t \<Longrightarrow> t < N \<Longrightarrow>
      P r \<and> (stop = None \<longrightarrow> Q r \<and> I (t + 1) s') \<and> (stop \<noteq> None \<longrightarrow> L r stop)"
    and loop: "headless_loop sc (ticks_from t n) s = Inr (rows, stop, s')" "I t s" "0 \<le> t" "t + int n \<le> N"
  shows "list_all P rows \<and> list_all Q (butlast rows) \<and>
    (stop = None \<longrightarrow> list_all Q rows \<and> I (t + int n) s') \<and>
    (stop \<noteq> None \<longrightarrow> rows \<noteq> [] \<and> L (last rows) stop)"
  using loop
proof (induction n arbitrary: t s rows)
  case 0
  then show ?case by (auto simp: ticks_from_simps)
next
  case (Suc n)
  then obtain r stop1 s1 where t: "headless_tick sc t s = Inr (r, stop1, s1)"
    and rest: "if stop1 \<noteq> None then rows = [r] \<and> stop = stop1 \<and> s' = s1
      else \<exists>rs. headless_loop sc (ticks_from (t + 1) n) s1 = Inr (rs, stop, s') \<and> rows = r # rs"
    by (auto simp only: headless_loop_Cons ticks_from_simps)
  have "t < N" using Suc.prems(4) by simp
  note r = step [OF t Suc.prems(2,3) this]
  show ?case
  proof (cases "stop1 = None")
    case True
    then obtain rs where rs: "headless_loop sc (ticks_from (t + 1) n) s1 = Inr (rs, stop, s')" "rows = r # rs"
      using rest by auto
    have I: "I (t + 1) s1" "0 \<le> t + 1" "t + 1 + int n \<le> N" using r True Suc.prems(3,4) by simp_all
    show ?thesis using Suc.IH [OF rs(1) I] r True rs(2) by (auto simp: ac_simps)
  next
    case False
    with rest r show ?thesis by auto
  qed
qed

definition row_live :: "row \<Rightarrow> bool" where
  "row_live r \<longleftrightarrow> ep_mode (out_state (row_episode r)) \<noteq> TERMINATED"

definition row_final :: "row \<Rightarrow> int option \<Rightarrow> bool" where
  "row_final r stop \<longleftrightarrow> ep_mode (out_state (row_episode r)) = TERMINATED \<and>
     terminal (out_state (row_episode r)) \<noteq> None \<and>
     stop \<in> Some ` {SIM_HORIZON, SIM_LOC_ANGLE, SIM_LOC_NONFINITE, SIM_VEHICLE_TERMINAL}"

lemma headless_loop_live:
  assumes "headless_loop sc (ticks_from t n) s = Inr (rows, stop, s')" "hl_live t s" "0 \<le> t"
  shows "list_all row_live (butlast rows) \<and> (stop \<noteq> None \<longrightarrow> rows \<noteq> [] \<and> row_final (last rows) stop)"
proof -
  have step: "True \<and> (stop = None \<longrightarrow> row_live r \<and> hl_live (t + 1) s') \<and> (stop \<noteq> None \<longrightarrow> row_final r stop)"
    if "headless_tick sc t s = Inr (r, stop, s')" "hl_live t s" "0 \<le> t" for t s r stop s'
    using hl_live_step [OF that] by (auto simp: row_live_def row_final_def episode_wf_def)
  show ?thesis
    using headless_loop_rule [where I = hl_live and P = "\<lambda>r. True" and Q = row_live and L = row_final and N = "t + int n", OF step assms order_refl]
    by auto
qed

text \<open>The last tick of the horizon always leaves the loop.\<close>

lemma headless_loop_stops:
  assumes "headless_loop sc (ticks_from t n) s = Inr (rows, stop, s')" "hl_live t s" "0 \<le> t"
    "t + int n = sc_ticks sc" "0 < n"
  shows "stop \<noteq> None"
  using assms
proof (induction n arbitrary: t s rows)
  case (Suc n)
  then obtain r stop1 s1 where t: "headless_tick sc t s = Inr (r, stop1, s1)"
    and rest: "if stop1 \<noteq> None then rows = [r] \<and> stop = stop1 \<and> s' = s1
      else \<exists>rs. headless_loop sc (ticks_from (t + 1) n) s1 = Inr (rs, stop, s') \<and> rows = r # rs"
    by (auto simp only: headless_loop_Cons ticks_from_simps)
  show ?case
  proof (cases "stop1 = None \<and> 0 < n")
    case True
    then obtain rs where rs: "headless_loop sc (ticks_from (t + 1) n) s1 = Inr (rs, stop, s')"
      using rest by auto
    have "stop1 = None" using True by simp
    then show ?thesis
      using Suc.IH [OF rs hl_live_step(2) [OF t Suc.prems(2,3)]] Suc.prems(3,4) True by simp
  next
    case False
    show ?thesis
    proof (cases n)
      case 0
      then have "t = sc_ticks sc - 1" using Suc.prems(4) by simp
      with t have "stop1 \<noteq> None" by (auto simp: hl_stop_def elim!: headless_tickE)
      with rest show ?thesis by auto
    next
      case (Suc m)
      with False rest show ?thesis by auto
    qed
  qed
qed simp

lemma stream_state_loss:
  "\<exists>a. stream_state seed ''link.loss.up'' = Inr a" "\<exists>a. stream_state seed ''link.loss.down'' = Inr a"
  by (simp_all add: stream_state_def STREAMS_def)

lemma run_headless_unfold:
  assumes "run_headless sc seed delay = Inr tr"
  obtains up down s where
    "stream_state seed ''link.loss.up'' = Inr up" "stream_state seed ''link.loss.down'' = Inr down"
    "0 < sc_ticks sc" "delay \<in> {0, 1}"
    "headless_loop sc (ticks_from 0 (nat (sc_ticks sc))) (headless_initial sc up down delay) =
       Inr (tr_rows tr, tr_sim_reason tr, s)"
    "tr_ticks tr = sc_ticks sc" "tr_seed tr = seed" "tr_delay tr = delay"
    "tr_rng tr =
      [\<lparr>sr_name = ''link.loss.up'', sr_start = up, sr_final = sm_state (hl_up s), sr_draws = length (tr_rows tr)\<rparr>,
       \<lparr>sr_name = ''link.loss.down'', sr_start = down, sr_final = sm_state (hl_down s), sr_draws = length (tr_rows tr)\<rparr>]"
proof -
  have ticks: "map int [0..<n] = ticks_from 0 n" for n by (simp add: ticks_from_def)
  show thesis
    using assms unfolding run_headless_def ticks ensure_eq_Inr rbind_eq_Inr
    by (elim conjE exE) (auto intro!: that)
qed

section \<open>The envelope\<close>

text \<open>\<open>2 powi 900\<close>: any initial state inside it keeps the controller's inputs in its domain.\<close>

definition WIDE :: f64 where "WIDE = 0x7830000000000000"

lemma wide_val: "mval WIDE = 2 ^ 900"
  by (simp add: WIDE_def mval_def f_field_defs power_int_def)

lemma rounds_to_abs_ge:
  assumes "rounds_to v r" "f_finite c" "mval c \<le> \<bar>v\<bar>"
  shows "mval c \<le> mval r"
proof (cases "0 \<le> v")
  case True
  then have "fval (f_abs c) \<le> v" using assms(3) by simp
  then have "fval (f_abs c) \<le> fval r" using assms(2) rounds_to_ge [OF assms(1), of "f_abs c"] by simp
  then have "mval c \<le> fval r" by simp
  also have "\<dots> \<le> mval r" using abs_ge_self [of "fval r"] by simp
  finally show ?thesis .
next
  case False
  then have "v \<le> fval (f_negate (f_abs c))" using assms(3) by simp
  then have "fval r \<le> fval (f_negate (f_abs c))"
    using assms(2) rounds_to_le [OF assms(1), of "f_negate (f_abs c)"] by simp
  then have "mval c \<le> - fval r" by simp
  also have "\<dots> \<le> mval r" using abs_ge_minus_self [of "fval r"] by simp
  finally show ?thesis .
qed

lemma mval_bound: "f_finite x \<Longrightarrow> mval x \<le> 2 ^ 1024"
proof -
  assume "f_finite x"
  have "mval x \<le> 2 ^ 53 * 2 powi 971"
    unfolding mval_def using f_sig_bound [of x] powi_two_mono [OF f_ulp_le [OF \<open>f_finite x\<close>]]
    by (intro mult_mono) (auto simp flip: of_nat_power)
  also have "\<dots> = 2 ^ 1024"
    by (simp add: powi_two_nat flip: power_add)
  finally show ?thesis .
qed

lemma LOC_ANGLE_bits: "LOC_ANGLE = 0x3fd3333333333333"
  by (simp add: LOC_ANGLE_def f_eval)

lemma LOC_ANGLE_val: "f_finite LOC_ANGLE" "0 \<le> fval LOC_ANGLE" "fval LOC_ANGLE < 1"
  by (simp_all add: LOC_ANGLE_bits fval_def f_field_defs power_int_def power_one_over)

lemma DT_val: "f_finite DT" "1 / 512 \<le> mval DT" "mval DT \<le> 1 / 256"
  by (simp_all add: control_bits mval_def f_field_defs power_int_def power_one_over)

lemma loc_bdd: "f_finite x \<Longrightarrow> \<not> f_lt LOC_ANGLE (f_abs x) \<Longrightarrow> mval x < 1"
  using LOC_ANGLE_val by (simp add: f_lt_iff)

lemma rep_mval: "E \<le> 971 \<Longrightarrow> -1074 \<le> E \<Longrightarrow> \<exists>c. f_finite c \<and> mval c = 2 powi E"
  using rep_exists [of 1 E] by (auto simp del: abs_fval simp flip: abs_fval)

lemma omega_bound:
  assumes th: "bdd WIDE \<theta>" and w: "f_finite \<omega>" and th': "f_finite (f_add \<theta> (f_mul \<omega> DT))"
    and loc: "\<not> f_lt LOC_ANGLE (f_abs (f_add \<theta> (f_mul \<omega> DT)))"
  shows "bdd SIGNAL_MAX \<omega>"
proof (rule ccontr)
  assume "\<not> bdd SIGNAL_MAX \<omega>"
  then have big: "2 ^ 1000 \<le> mval \<omega>" using w by (simp add: bdd_def signal_val)
  note wide = wide_val
  have one: "f_finite (f_lit 1 1)" "mval (f_lit 1 1) = 1"
    by (simp_all add: f_lit_one mval_def f_field_defs power_int_def power_one_over)
  define m where "m = f_mul \<omega> DT"
  define H :: f64 where "H = 0x7F70000000000000"
  have H: "f_finite H" "mval H = 2 ^ 1016"
    by (simp_all add: H_def mval_def f_field_defs power_int_def)
  define L :: f64 where "L = 0x7DE0000000000000"
  have L: "f_finite L" "mval L = 2 ^ 991"
    by (simp_all add: L_def mval_def f_field_defs power_int_def)
  have "mval \<omega> * mval DT \<le> 2 ^ 1024 * (1 / 256)"
    using mval_bound [OF w] DT_val(3) by (intro mult_mono) simp_all
  then have "mval \<omega> * mval DT \<le> mval H" by (simp add: H)
  note m = f_mul_bdd [OF bdd_self [OF w] bdd_self [OF DT_val(1)] H(1) this, folded m_def]
  have "2 ^ 1000 * (1 / 512) \<le> mval \<omega> * mval DT"
    using big DT_val(2) by (intro mult_mono) simp_all
  then have "mval L \<le> \<bar>fval \<omega> * fval DT\<bar>" by (simp add: L abs_mult)
  then have m_ge: "2 ^ 991 \<le> mval m" using rounds_to_abs_ge [OF m(2) L(1)] by (simp add: L)
  have "mval WIDE + mval H \<le> mval HUGE" by (simp add: wide H signal_val huge_val)
  note sum = f_add_bdd(2) [OF th m(1) huge_finite(2) this]
  have "mval (f_lit 1 1) \<le> \<bar>fval \<theta> + fval m\<bar>"
  proof -
    have "mval \<theta> \<le> 2 ^ 900" using th by (simp add: bdd_def wide)
    moreover have "mval m - mval \<theta> \<le> \<bar>fval \<theta> + fval m\<bar>"
      using abs_triangle_ineq2 [of "fval m" "- fval \<theta>"] by (simp add: add.commute)
    moreover have "(1 :: real) \<le> 2 ^ 991 - 2 ^ 900" by simp
    ultimately show ?thesis using m_ge one(2) by linarith
  qed
  then have "1 \<le> mval (f_add \<theta> m)" using rounds_to_abs_ge [OF sum one(1)] one(2) by simp
  moreover have "mval (f_add \<theta> m) < 1" using loc_bdd [OF th' loc] by (simp add: m_def)
  ultimately show False by simp
qed

definition hl_safe :: "int \<Rightarrow> hl_state \<Rightarrow> bool" where
  "hl_safe t s \<longleftrightarrow>
     hl_live t s \<and> control_inv (ep_pid (hl_ep s)) \<and> bdd DELTA_MAX (applied (hl_act s)) \<and>
     (\<forall>x. Some x \<in> set (hl_delay s) \<longrightarrow> bdd DELTA_MAX x) \<and>
     (hl_pending s = None \<longrightarrow> bdd WIDE (truth_theta (hl_truth s)) \<and> bdd SIGNAL_MAX (truth_omega (hl_truth s)))"

definition row_safe :: "row \<Rightarrow> bool" where
  "row_safe r \<longleftrightarrow>
     bdd CTL_DELTA_MAX (out_delta (row_episode r)) \<and> bdd DELTA_MAX (applied (row_actuator r)) \<and>
     control_inv (ep_pid (out_state (row_episode r)))"

lemma push_pop_set: "push_pop q x = (y, q') \<Longrightarrow> y \<in> insert x (set q) \<and> set q' \<subseteq> insert x (set q)"
  by (cases q) (auto simp: push_pop_def)

lemma bdd_wide_signal: "bdd WIDE x \<Longrightarrow> bdd SIGNAL_MAX x"
  using bdd_weaken [of WIDE x SIGNAL_MAX] by (simp add: wide_val signal_val)

lemma hl_loc_None: "hl_loc truth = None \<longleftrightarrow>
  f_finite (truth_theta truth) \<and> f_finite (truth_omega truth) \<and> \<not> f_lt LOC_ANGLE (f_abs (truth_theta truth))"
  by (auto simp: hl_loc_def)

lemma plant_step_bdd:
  assumes "bdd WIDE (truth_theta truth)" "hl_loc (plant_step truth act env dstb DT) = None"
  shows "bdd WIDE (truth_theta (plant_step truth act env dstb DT)) \<and>
    bdd SIGNAL_MAX (truth_omega (plant_step truth act env dstb DT))"
proof -
  let ?n = "plant_step truth act env dstb DT"
  have n: "truth_theta ?n = f_add (truth_theta truth) (f_mul (truth_omega ?n) DT)"
    by (simp add: plant_step_def Let_def)
  have "bdd SIGNAL_MAX (truth_omega ?n)"
    using omega_bound [OF assms(1), of "truth_omega ?n"] assms(2) by (simp add: hl_loc_None flip: n)
  moreover have "mval (truth_theta ?n) < 1" using assms(2) loc_bdd by (simp add: hl_loc_None)
  moreover have "1 \<le> mval WIDE" by (simp add: wide_val)
  ultimately show ?thesis using assms(2) by (simp add: bdd_def hl_loc_None)
qed

lemma hl_safe_step:
  assumes t: "headless_tick sc t s = Inr (r, stop, s')" and safe: "hl_safe t s" and "0 \<le> t"
  shows "row_safe r" "stop = None \<Longrightarrow> hl_safe (t + 1) s'"
proof -
  obtain u d up down dstb cmd seq out where
    step: "episode_step (hl_ep s) (hl_input sc t s u cmd) = Inr out"
    and r: "r = hl_row s (hl_input sc t s u cmd) out u d"
    and stop: "stop = hl_stop (hl_input sc t s u cmd) out"
    and s': "s' = hl_next s r up down dstb seq stop"
    using t by (elim headless_tickE)
  let ?inp = "hl_input sc t s u cmd"
  have live: "hl_live t s" and act: "bdd DELTA_MAX (applied (hl_act s))"
    and pid: "control_inv (ep_pid (hl_ep s))" using safe by (simp_all add: hl_safe_def)
  have "input_ok ?inp" if "terminal_reason ?inp cnt = Inr NONE" for cnt
  proof -
    have "in_sim_reason ?inp = None" using terminal_reason_sim [of ?inp cnt] that by fastforce
    then have "hl_pending s = None" by (simp split: if_splits)
    then have "bdd WIDE (truth_theta (hl_truth s))" "bdd SIGNAL_MAX (truth_omega (hl_truth s))"
      using safe by (simp_all add: hl_safe_def)
    then show ?thesis
      by (auto simp: input_ok_def hl_observe_def observe_def obs_ok_def obs_fresh_def bdd_wide_signal)
  qed
  then have ctl: "control_inv (ep_pid (out_state out)) \<and> bdd CTL_DELTA_MAX (out_delta out)"
    by (rule episode_step_control [OF step pid])
  define x where "x = (if d then None else Some (out_delta out))"
  obtain arr q where pp: "push_pop (hl_delay s) x = (arr, q)" by fastforce
  have xs: "bdd DELTA_MAX y" if "Some y \<in> insert x (set (hl_delay s))" for y
    using that safe ctl by (auto simp: hl_safe_def x_def same_limits split: if_splits)
  have "row_actuator r = actuator_step (hl_act s) arr" using pp by (simp add: r x_def)
  moreover have "\<not> f_isnan a" if "arr = Some a" for a
    using push_pop_set [OF pp] xs [of a] that bdd_not_nan by blast
  ultimately have actr: "bdd DELTA_MAX (applied (row_actuator r))"
    using actuator_step_bdd [OF act] by simp
  show "row_safe r" using ctl actr by (simp add: row_safe_def r)
  assume none: "stop = None"
  have "hl_pending s = None" using none by (auto simp: stop hl_stop_def split: if_splits)
  then have truth: "hl_pending s' = None \<longrightarrow> bdd WIDE (truth_theta (hl_truth s')) \<and>
      bdd SIGNAL_MAX (truth_omega (hl_truth s'))"
    using safe plant_step_bdd
    by (auto simp: s' none hl_next_def Let_def hl_safe_def split: if_splits)
  have "hl_delay s' = q" "hl_act s' = row_actuator r" "hl_ep s' = out_state out"
    using pp by (cases d; simp add: s' r x_def)+
  then show "hl_safe (t + 1) s'"
    using hl_live_step(2) [OF t live \<open>0 \<le> t\<close> none] ctl actr truth push_pop_set [OF pp] xs
    by (auto simp: hl_safe_def)
qed

lemma headless_loop_safe:
  assumes "headless_loop sc (ticks_from t n) s = Inr (rows, stop, s')" "hl_safe t s" "0 \<le> t"
  shows "list_all row_safe rows"
  using headless_loop_rule [where P = row_safe and Q = "\<lambda>r. True" and I = hl_safe and L = "\<lambda>r st. True"
      and N = "t + int n", OF _ assms order_refl] hl_safe_step by blast

section \<open>What the vehicle sees\<close>

text \<open>
  What a single row says of its observation, and what no row but the last may exceed: the age the
  policy allows and the angle limit. The sample held and its exact age depend on the rows before.
\<close>

definition row_sees :: "row \<Rightarrow> bool" where
  "row_sees r \<longleftrightarrow>
     (row_fresh r \<longleftrightarrow> row_staleness r = 0) \<and>
     0 \<le> row_staleness r \<and> row_staleness r \<le> row_tick r + 1 \<and>
     (row_fresh r \<longrightarrow> \<not> row_up_drop r \<and> row_held r = Some (observe (row_tick r) (row_truth r))) \<and>
     (row_up_drop r \<longrightarrow> \<not> row_fresh r)"

definition row_admitted :: "row \<Rightarrow> bool" where
  "row_admitted r \<longleftrightarrow> row_staleness r \<le> 20 \<and> (0 < row_tick r \<longrightarrow> hl_loc (row_truth r) = None)"

lemma hl_sees_step:
  assumes t: "headless_tick sc t s = Inr (r, stop, s')" and live: "hl_live t s" and "0 \<le> t"
  shows "row_sees r" "stop = None \<Longrightarrow> row_admitted r"
proof -
  obtain u d up down dstb cmd seq out where
    step: "episode_step (hl_ep s) (hl_input sc t s u cmd) = Inr out"
    and r: "r = hl_row s (hl_input sc t s u cmd) out u d"
    and stop: "stop = hl_stop (hl_input sc t s u cmd) out"
    using t by (elim headless_tickE)
  let ?inp = "hl_input sc t s u cmd"
  have held: "0 \<le> obs_tick h \<and> obs_tick h < t" if "hl_held s = Some h" for h
    using live that by (simp add: hl_live_def)
  have fresh: "obs_fresh (hl_observe t (hl_truth s) u) \<Longrightarrow> \<not> u" "hl_observe t (hl_truth s) False = observe t (hl_truth s)"
    by (auto simp: obs_fresh_def hl_observe_def)
  have tick: "obs_tick (hl_observe t truth b) = t" for truth b
    by (simp add: hl_observe_def observe_def)
  show "row_sees r"
    using held fresh \<open>0 \<le> t\<close> tick [of "hl_truth s" u]
    by (cases "hl_held s") (auto simp: row_sees_def r hl_age_def)
  assume none: "stop = None"
  have pend: "hl_pending s = None" "in_sim_reason ?inp = None"
    using none by (auto simp: stop hl_stop_def split: if_splits)
  have wf: "episode_wf (hl_ep s)" "ep_mode (hl_ep s) \<noteq> TERMINATED" using live by (simp_all add: hl_live_def)
  have "ep_mode (out_state out) \<noteq> TERMINATED"
    using hl_stop_terminated [OF step wf] none by (simp add: stop)
  with step wf(2) have "terminal_reason ?inp (settle_next (settle_count (hl_ep s)) (in_held ?inp)) = Inr NONE"
    by (cases rule: episode_step_cases) (auto simp: terminate_step_fields)
  then have "in_staleness ?inp \<le> 20"
    using pend(2) by (auto simp: terminal_reason_def rbind_eq_Inr split: if_splits)
  moreover have "0 < t \<longrightarrow> hl_loc (hl_truth s) = None" using live pend(1) by (auto simp: hl_live_def)
  ultimately show "row_admitted r" by (simp add: row_admitted_def r)
qed

lemma headless_loop_sees:
  assumes "headless_loop sc (ticks_from t n) s = Inr (rows, stop, s')" "hl_live t s" "0 \<le> t"
  shows "list_all row_sees rows \<and> list_all row_admitted (butlast rows)"
  using headless_loop_rule [where P = row_sees and Q = row_admitted and I = hl_live and L = "\<lambda>r st. True"
      and N = "t + int n", OF _ assms order_refl] hl_sees_step hl_live_step(2) by blast

text \<open>The sample that a row delivers, if any, and the last one that a run of rows has delivered.\<close>

definition delivered :: "row \<Rightarrow> observation option" where
  "delivered r =
     (if \<not> row_up_drop r \<and> f_finite (truth_theta (row_truth r)) \<and> f_finite (truth_omega (row_truth r))
      then Some \<lparr>obs_tick = row_tick r, obs_theta = truth_theta (row_truth r), obs_omega = truth_omega (row_truth r), obs_valid = True\<rparr>
      else None)"

fun last_delivered :: "row list \<Rightarrow> observation option" where
  "last_delivered [] = None"
| "last_delivered (r # rs) = (case last_delivered rs of None \<Rightarrow> delivered r | Some h \<Rightarrow> Some h)"

lemma last_delivered_snoc: "last_delivered (rs @ [r]) = (case delivered r of None \<Rightarrow> last_delivered rs | Some h \<Rightarrow> Some h)"
  by (induction rs) (auto split: option.splits)

lemma last_delivered_tick:
  "last_delivered rs = Some h \<Longrightarrow> \<exists>r \<in> set rs. delivered r = Some h \<and> obs_tick h = row_tick r"
  by (induction rs) (auto simp: delivered_def split: option.splits if_splits)

text \<open>What a row saw, given the rows up to it: the last sample delivered, its exact age, and whether it came now.\<close>

definition row_saw :: "row list \<Rightarrow> row \<Rightarrow> bool" where
  "row_saw history r \<longleftrightarrow>
     row_held r = last_delivered history \<and> (row_fresh r \<longleftrightarrow> delivered r \<noteq> None) \<and>
     row_staleness r = (case last_delivered history of Some h \<Rightarrow> row_tick r - obs_tick h | None \<Rightarrow> row_tick r + 1)"

lemma hl_sees_tick:
  assumes "headless_tick sc t s = Inr (r, stop, s')"
  shows "row_tick r = t \<and> row_held r = (case delivered r of None \<Rightarrow> hl_held s | Some h \<Rightarrow> Some h) \<and>
    (row_fresh r \<longleftrightarrow> delivered r \<noteq> None) \<and> row_staleness r = hl_age t (row_held r) \<and> hl_held s' = row_held r"
  using assms
  by (elim headless_tickE) (auto simp: delivered_def hl_observe_def observe_def obs_fresh_def)

lemma headless_loop_saw:
  assumes "headless_loop sc (ticks_from t n) s = Inr (rows, stop, s')" "hl_held s = last_delivered seen" "hl_live t s" "0 \<le> t"
    and "(case hl_held s of Some h \<Rightarrow> t - obs_tick h | None \<Rightarrow> t + 1) \<le> 21"
  shows "\<forall>i < length rows. row_saw (seen @ take (Suc i) rows) (rows ! i)"
  using assms
proof (induction n arbitrary: t s seen rows)
  case 0
  then show ?case by (simp add: ticks_from_simps)
next
  case (Suc n)
  obtain r stop1 s1 where tick: "headless_tick sc t s = Inr (r, stop1, s1)"
    using Suc.prems(1) by (auto simp: ticks_from_simps rbind_eq_Inr)
  note sees = hl_sees_tick [OF tick]
  have held: "row_held r = last_delivered (seen @ [r])" using sees Suc.prems(2) by (simp add: last_delivered_snoc split: option.split)
  have age: "(case row_held r of Some h \<Rightarrow> t - obs_tick h | None \<Rightarrow> t + 1) \<le> 21"
    using sees Suc.prems(5) by (cases "delivered r") (auto simp: delivered_def split: if_splits)
  then have stale: "row_staleness r = (case row_held r of Some h \<Rightarrow> t - obs_tick h | None \<Rightarrow> t + 1)"
    using sees by (auto simp: hl_age_def split: option.splits)
  have first: "row_saw (seen @ [r]) r" using sees held stale by (auto simp: row_saw_def)
  show ?case
  proof (cases stop1)
    case (Some reason)
    then have "rows = [r]" using Suc.prems(1) tick by (auto simp: ticks_from_simps)
    then show ?thesis using first by simp
  next
    case None
    then obtain rs where rest: "headless_loop sc (ticks_from (t + 1) n) s1 = Inr (rs, stop, s')" "rows = r # rs"
      using Suc.prems(1) tick by (auto simp: ticks_from_simps rbind_eq_Inr)
    have "row_staleness r \<le> 20" using hl_sees_step(2) [OF tick Suc.prems(3,4) None] by (simp add: row_admitted_def)
    then have "(case hl_held s1 of Some h \<Rightarrow> t + 1 - obs_tick h | None \<Rightarrow> t + 1 + 1) \<le> 21"
      using sees stale by (auto split: option.splits)
    then have "\<forall>i < length rs. row_saw ((seen @ [r]) @ take (Suc i) rs) (rs ! i)"
      using Suc.IH [OF rest(1), of "seen @ [r]"] hl_live_step(2) [OF tick Suc.prems(3,4) None] Suc.prems(4) held sees by simp
    then show ?thesis using first unfolding rest(2) by (auto simp: less_Suc_eq_0_disj)
  qed
qed

section \<open>Properties\<close>

definition scenario_bounded :: "scenario \<Rightarrow> bool" where
  "scenario_bounded sc \<longleftrightarrow> bdd WIDE (truth_theta (sc_initial sc)) \<and> bdd WIDE (truth_omega (sc_initial sc))"

lemma hl_safe_initial:
  assumes "scenario_bounded sc"
  shows "hl_safe 0 (headless_initial sc up down delay)"
proof -
  have "hl_live 0 (headless_initial sc up down delay)" by (rule hl_live_initial)
  then show ?thesis
    using assms actuator_initial_bdd control_initial_inv
    by (auto simp: hl_safe_def headless_initial_def episode_initial_def scenario_bounded_def bdd_wide_signal)
qed

lemma run_headless_returns:
  assumes "scenario_wf sc" "0 \<le> seed" "seed < 2 ^ 64" "delay \<in> {0, 1}"
  shows "\<exists>tr. run_headless sc seed delay = Inr tr"
proof -
  obtain up down where streams: "stream_state seed ''link.loss.up'' = Inr up"
    "stream_state seed ''link.loss.down'' = Inr down"
    using stream_state_loss by blast
  have "0 < sc_ticks sc" using assms(1) by (simp add: scenario_wf_def)
  moreover obtain rows stop s where "headless_loop sc (map int [0..<nat (sc_ticks sc)])
      (headless_initial sc up down delay) = Inr (rows, stop, s)"
    using headless_loop_total [OF assms(1), of "map int [0..<nat (sc_ticks sc)]"] by fastforce
  ultimately show ?thesis
    using assms(2-4) streams by (auto simp: run_headless_def ensure_def)
qed

lemma headless_complete:
  assumes "scenario_wf sc" "0 \<le> seed" "seed < 2 ^ 64" "delay \<in> {0, 1}"
  shows "\<exists>tr. run_headless sc seed delay = Inr tr \<and> tr_rows tr \<noteq> [] \<and>
    map row_tick (tr_rows tr) = map int [0..<length (tr_rows tr)] \<and>
    int (length (tr_rows tr)) \<le> sc_ticks sc \<and>
    list_all row_live (butlast (tr_rows tr)) \<and> row_final (last (tr_rows tr)) (tr_sim_reason tr)"
proof -
  obtain tr where tr: "run_headless sc seed delay = Inr tr" using run_headless_returns [OF assms] by blast
  then obtain up down s where pos: "0 < sc_ticks sc" and
    loop: "headless_loop sc (ticks_from 0 (nat (sc_ticks sc))) (headless_initial sc up down delay) =
       Inr (tr_rows tr, tr_sim_reason tr, s)" by (elim run_headless_unfold)
  have stop: "tr_sim_reason tr \<noteq> None" by (rule headless_loop_stops [OF loop hl_live_initial]) (use pos in simp_all)
  have rows: "map row_tick (tr_rows tr) = take (length (tr_rows tr)) (ticks_from 0 (nat (sc_ticks sc)))"
    using headless_loop_rows [OF loop] by simp
  then have len: "length (tr_rows tr) \<le> nat (sc_ticks sc)"
    by (metis length_map length_take min.absorb_iff2 nat_le_linear ticks_from_def length_upt diff_zero)
  with rows have "map row_tick (tr_rows tr) = map int [0..<length (tr_rows tr)]"
    by (simp add: ticks_from_def take_map take_upt)
  then show ?thesis
    using tr stop len pos headless_loop_live [OF loop hl_live_initial] by (auto simp: le_nat_iff)
qed

text \<open>C12. A run of a loaded scenario always returns a complete trace: its rows are ticks 0, 1, 2, ...
  inside the horizon; the episode is alive in every row but the last, where it has terminated; and
  the simulator reports why the run ended.\<close>

theorem run_headless_complete:
  assumes "scenario_wf sc" "0 \<le> seed" "seed < 2 ^ 64" "delay \<in> {0, 1}"
  shows "\<exists>tr. run_headless sc seed delay = Inr tr \<and> tr_rows tr \<noteq> [] \<and>
    map row_tick (tr_rows tr) = map int [0..<length (tr_rows tr)] \<and>
    int (length (tr_rows tr)) \<le> sc_ticks sc \<and>
    list_all row_live (butlast (tr_rows tr)) \<and> row_final (last (tr_rows tr)) (tr_sim_reason tr)"
  by (rule headless_complete [OF assms])

theorem run_headless_complete_witness:
  "\<exists>tr. run_headless example_scenario 7 1 = Inr tr \<and> tr_rows tr \<noteq> [] \<and>
     row_final (last (tr_rows tr)) (tr_sim_reason tr)"
  using run_headless_complete [OF example_scenario_wf, of 7 1] by auto

text \<open>The loss streams are owned by the run alone: whatever the loss rates and the scenario,
  each direction has consumed exactly one state per row when the run ends.\<close>

lemma run_headless_streams:
  assumes "run_headless sc seed delay = Inr tr"
  shows "\<exists>up down. stream_state seed ''link.loss.up'' = Inr up \<and> stream_state seed ''link.loss.down'' = Inr down \<and>
    map sr_start (tr_rng tr) = [up, down] \<and>
    map sr_final (tr_rng tr) =
      [up + of_nat (length (tr_rows tr)) * GOLDEN, down + of_nat (length (tr_rows tr)) * GOLDEN] \<and>
    map sr_draws (tr_rng tr) = [length (tr_rows tr), length (tr_rows tr)]"
  using assms
proof (rule run_headless_unfold)
  fix up down s
  assume streams: "stream_state seed ''link.loss.up'' = Inr up" "stream_state seed ''link.loss.down'' = Inr down"
    and loop: "headless_loop sc (ticks_from 0 (nat (sc_ticks sc))) (headless_initial sc up down delay) =
       Inr (tr_rows tr, tr_sim_reason tr, s)"
    and rng: "tr_rng tr =
      [\<lparr>sr_name = ''link.loss.up'', sr_start = up, sr_final = sm_state (hl_up s), sr_draws = length (tr_rows tr)\<rparr>,
       \<lparr>sr_name = ''link.loss.down'', sr_start = down, sr_final = sm_state (hl_down s), sr_draws = length (tr_rows tr)\<rparr>]"
  have "hl_up s = (splitmix_advance ^^ length (tr_rows tr)) (splitmix_init up)"
    "hl_down s = (splitmix_advance ^^ length (tr_rows tr)) (splitmix_init down)"
    using headless_loop_rows [OF loop] by (simp_all add: headless_initial_def)
  then show ?thesis
    using streams by (simp add: rng splitmix_advance_funpow splitmix_init_def)
qed

theorem run_headless_streams_witness:
  "\<exists>tr up. run_headless example_scenario 7 0 = Inr tr \<and> stream_state 7 ''link.loss.up'' = Inr up \<and>
     map sr_start (tr_rng tr) ! 0 = up"
proof -
  obtain tr where tr: "run_headless example_scenario 7 0 = Inr tr"
    using run_headless_returns [OF example_scenario_wf, of 7 0] by auto
  show ?thesis using run_headless_streams [OF tr] tr by auto
qed

lemma headless_safe:
  assumes "run_headless sc seed delay = Inr tr" "scenario_bounded sc"
  shows "list_all row_safe (tr_rows tr)"
  using assms(1)
  by (rule run_headless_unfold) (rule headless_loop_safe [OF _ hl_safe_initial [OF assms(2)]], auto)

text \<open>C13. From an initial state up to \<open>2 powi 900\<close> the whole run stays in its envelope: every
  commanded and every applied angle is inside the stops and the controller's state in its
  invariant, whatever is lost, delayed or gusting.\<close>

theorem run_headless_safe:
  assumes "run_headless sc seed delay = Inr tr" "scenario_bounded sc"
  shows "list_all row_safe (tr_rows tr)"
  by (rule headless_safe [OF assms])

lemma example_scenario_bounded: "scenario_bounded example_scenario"
  by (simp add: scenario_bounded_def example_scenario_def)

theorem run_headless_safe_witness:
  "\<exists>tr. run_headless example_scenario 7 0 = Inr tr \<and> list_all row_safe (tr_rows tr)"
proof -
  obtain tr where tr: "run_headless example_scenario 7 0 = Inr tr"
    using run_headless_returns [OF example_scenario_wf, of 7 0] by auto
  show ?thesis using run_headless_safe [OF tr example_scenario_bounded] tr by blast
qed

lemma headless_sees:
  assumes "run_headless sc seed delay = Inr tr"
  shows "(\<forall>i < length (tr_rows tr). row_tick (tr_rows tr ! i) = int i \<and> row_saw (take (Suc i) (tr_rows tr)) (tr_rows tr ! i)) \<and>
    list_all row_sees (tr_rows tr) \<and> list_all row_admitted (butlast (tr_rows tr))"
  using assms
proof (rule run_headless_unfold)
  fix up down s
  assume loop: "headless_loop sc (ticks_from 0 (nat (sc_ticks sc))) (headless_initial sc up down delay) =
    Inr (tr_rows tr, tr_sim_reason tr, s)"
  have none: "hl_held (headless_initial sc up down delay) = None" by (simp add: headless_initial_def)
  have "\<forall>i < length (tr_rows tr). row_saw ([] @ take (Suc i) (tr_rows tr)) (tr_rows tr ! i)"
    by (rule headless_loop_saw [OF loop _ hl_live_initial]) (simp_all add: none)
  moreover have "row_tick (tr_rows tr ! i) = int i" if "i < length (tr_rows tr)" for i
  proof -
    have rows: "map row_tick (tr_rows tr) = take (length (tr_rows tr)) (ticks_from 0 (nat (sc_ticks sc)))"
      using headless_loop_rows [OF loop] by simp
    with that have "i < nat (sc_ticks sc)"
      by (metis length_map length_take min_less_iff_conj ticks_from_def length_upt diff_zero)
    then show ?thesis using arg_cong [OF rows, of "\<lambda>xs. xs ! i"] that by (simp add: ticks_from_def)
  qed
  ultimately show ?thesis using headless_loop_sees [OF loop hl_live_initial order_refl] by simp
qed

text \<open>C14. What a row sees is true. Row \<open>i\<close> is tick \<open>i\<close>. The sample it holds is the last one that rows 0 to \<open>i\<close> delivered, which is
  the undropped finite true state of its row; its staleness is exactly the age of that sample, or the tick plus one where nothing has
  been delivered; it is fresh exactly when the row itself delivers. In every row but the last the sample is at most 20 ticks old
  and, from tick 1 on, the vehicle's true state finite with its angle within 0.30.\<close>

theorem run_headless_sees:
  assumes "run_headless sc seed delay = Inr tr"
  shows "(\<forall>i < length (tr_rows tr). row_tick (tr_rows tr ! i) = int i \<and> row_saw (take (Suc i) (tr_rows tr)) (tr_rows tr ! i)) \<and>
    list_all row_sees (tr_rows tr) \<and> list_all row_admitted (butlast (tr_rows tr))"
  by (rule headless_sees [OF assms])

theorem run_headless_sees_witness:
  "\<exists>tr. run_headless example_scenario 7 0 = Inr tr \<and> tr_rows tr \<noteq> [] \<and> row_saw [tr_rows tr ! 0] (tr_rows tr ! 0) \<and>
     list_all row_sees (tr_rows tr)"
proof -
  obtain tr where tr: "run_headless example_scenario 7 0 = Inr tr" "tr_rows tr \<noteq> []"
    using headless_complete [OF example_scenario_wf, of 7 0] by auto
  have "0 < length (tr_rows tr)" using tr(2) by simp
  then have "row_saw (take (Suc 0) (tr_rows tr)) (tr_rows tr ! 0)" using run_headless_sees [OF tr(1)] by blast
  moreover have "take (Suc 0) (tr_rows tr) = [tr_rows tr ! 0]" using tr(2) by (cases "tr_rows tr") simp_all
  ultimately show ?thesis using run_headless_sees [OF tr(1)] tr by auto
qed

section \<open>The quiet run\<close>

definition quiet_scenario :: "scenario \<Rightarrow> bool" where
  "quiet_scenario sc \<longleftrightarrow>
     1000 \<le> sc_ticks sc \<and> sc_initial sc = \<lparr>truth_theta = 0, truth_omega = 0\<rparr> \<and> sc_gusts sc = [] \<and>
     sc_loss_up sc = 0 \<and> sc_loss_down sc = 0 \<and> sc_blackout_up sc = None \<and> sc_blackout_down sc = None \<and>
     sc_commands sc = [] \<and> sc_auto_arm sc"

definition zero_truth :: truth_state where
  "zero_truth = \<lparr>truth_theta = 0, truth_omega = 0\<rparr>"

definition quiet_ep :: "int \<Rightarrow> episode_state" where
  "quiet_ep t = (episode_initial True)\<lparr>ep_mode := (if t = 0 then INIT else FLYING), settle_count := min t 1000\<rparr>"

definition hl_quiet :: "scenario \<Rightarrow> int \<Rightarrow> hl_state \<Rightarrow> bool" where
  "hl_quiet sc t s \<longleftrightarrow>
     hl_truth s = zero_truth \<and> hl_act s = \<lparr>applied = 0\<rparr> \<and> set (hl_delay s) \<subseteq> {None, Some 0} \<and>
     hl_pending s = None \<and> hl_ep s = quiet_ep t"

lemma zero_plant: "plant_step zero_truth \<lparr>applied = 0\<rparr> environment_fixed \<lparr>tau_d = 0\<rparr> DT = zero_truth"
  unfolding plant_step_def psin_def zero_truth_def environment_fixed_def
  by (simp add: plant_bits control_bits f_eval cong: let_weak_cong)

lemma zero_actuator: "x \<in> {None, Some 0} \<Longrightarrow> actuator_step \<lparr>applied = 0\<rparr> x = \<lparr>applied = 0\<rparr>"
  by (auto simp: actuator_step_def plant_bits f_eval)

lemma zero_floats: "f_zero False = 0" "f_finite 0" "\<not> f_lt x 0 \<or> True"
  by (simp_all add: f_zero_def f_field_defs)

lemma quiet_drops:
  assumes "quiet_scenario sc" "0 \<le> t" "t < sc_ticks sc"
  shows "\<exists>up down. hl_drops sc t s = Inr (False, False, up, down)"
proof -
  have p: "probability 0" by (simp add: probability_val fval_def f_field_defs)
  have no: "\<not> f_lt (fst (next_double g)) 0" for g
  proof -
    have "fval 0 = 0" by (simp add: fval_def f_field_defs)
    then show ?thesis
      using f_lt_iff [OF next_double_val(1) zero_floats(2)] next_double_range(1) [of g] by simp
  qed
  have d: "draw_drop g 0 = Inr (False, splitmix_advance g)" for g
    by (simp add: draw_drop_Inr p no)
  have forced: "forced_drop_at sc t dir = Inr (if t < sc_loss_start sc then Some False else None)"
    if "dir \<in> {''up'', ''down''}" for dir
    using assms that by (auto simp: forced_drop_at_def quiet_scenario_def check_tick_ok ensure_def)
  show ?thesis
    using assms(1) forced [of "''up''"] forced [of "''down''"]
    by (simp add: hl_drops_def quiet_scenario_def d)
qed

definition row_quiet :: "row \<Rightarrow> bool" where
  "row_quiet r \<longleftrightarrow> row_truth r = zero_truth \<and> out_delta (row_episode r) = 0 \<and>
     ep_pid (out_state (row_episode r)) = control_initial"

definition row_settled :: "scenario \<Rightarrow> row \<Rightarrow> int option \<Rightarrow> bool" where
  "row_settled sc r stop \<longleftrightarrow> row_tick r = sc_ticks sc - 1 \<and> stop = Some SIM_HORIZON \<and>
     terminal (out_state (row_episode r)) = Some \<lparr>term_reason = STABILIZED, term_tick = sc_ticks sc - 1\<rparr> \<and>
     ep_mode (out_state (row_episode r)) = TERMINATED"

lemma zero_observation: "hl_observe t zero_truth False = \<lparr>obs_tick = t, obs_theta = 0, obs_omega = 0, obs_valid = True\<rparr>"
  "obs_fresh \<lparr>obs_tick = t, obs_theta = 0, obs_omega = 0, obs_valid = True\<rparr>"
  by (simp_all add: hl_observe_def observe_def zero_truth_def obs_fresh_def zero_floats)

definition quiet_input :: "int \<Rightarrow> int \<Rightarrow> episode_input" where
  "quiet_input n t =
     \<lparr>in_tick = t, in_held = Some \<lparr>obs_tick = t, obs_theta = 0, obs_omega = 0, obs_valid = True\<rparr>,
      in_fresh = True, in_staleness = 0, in_command = None, in_horizon = False,
      in_sim_reason = (if t = n - 1 then Some SIM_HORIZON else None), in_stop_reason = None\<rparr>"

lemma quiet_episode:
  assumes "0 \<le> t"
  shows "t \<noteq> n - 1 \<Longrightarrow> episode_step (quiet_ep t) (quiet_input n t) =
      Inr \<lparr>out_state = quiet_ep (t + 1), out_delta = 0, out_acks = []\<rparr>"
    "t = n - 1 \<Longrightarrow> 1000 \<le> n \<Longrightarrow> episode_step (quiet_ep t) (quiet_input n t) =
      Inr \<lparr>out_state = (quiet_ep (t + 1))\<lparr>ep_mode := TERMINATED, terminal := Some \<lparr>term_reason = STABILIZED, term_tick = t\<rparr>\<rparr>,
           out_delta = 0, out_acks = []\<rparr>"
  using assms unfolding quiet_input_def
  by (auto simp: episode_eval quiet_ep_def LOC_ANGLE_zero fresh_control zero_floats)

lemma quiet_tick:
  assumes sc: "quiet_scenario sc" and s: "hl_quiet sc t s" and t: "0 \<le> t" "t < sc_ticks sc"
    and step: "headless_tick sc t s = Inr (r, stop, s')"
  shows "row_quiet r \<and> (stop = None \<longrightarrow> True \<and> hl_quiet sc (t + 1) s') \<and> (stop \<noteq> None \<longrightarrow> row_settled sc r stop)"
proof -
  obtain u d up down dstb cmd seq out where
    drops: "hl_drops sc t s = Inr (u, d, up, down)"
    and dstb: "disturbance_at sc t environment_fixed = Inr dstb"
    and cmd: "hl_command sc t (hl_seq s) = Inr (cmd, seq)"
    and out: "episode_step (hl_ep s) (hl_input sc t s u cmd) = Inr out"
    and r: "r = hl_row s (hl_input sc t s u cmd) out u d"
    and stop: "stop = hl_stop (hl_input sc t s u cmd) out"
    and s': "s' = hl_next s r up down dstb seq stop"
    using step by (rule headless_tickE)
  have ud: "\<not> u" "\<not> d" using quiet_drops [OF sc t, of s] drops by auto
  have "dstb = \<lparr>tau_d = 0\<rparr>" "cmd = None"
    using dstb cmd sc t
    by (simp_all add: disturbance_at_def hl_command_def command_at_def quiet_scenario_def check_tick_ok zero_floats)
  note [simp] = this ud
  have inp: "hl_input sc t s False None = quiet_input (sc_ticks sc) t"
    using s by (simp add: hl_input_def quiet_input_def hl_quiet_def zero_observation hl_age_def)
  have q: "hl_ep s = quiet_ep t" "hl_truth s = zero_truth" "hl_act s = \<lparr>applied = 0\<rparr>" "hl_pending s = None"
    using s by (simp_all add: hl_quiet_def)
  obtain arr q where pp: "push_pop (hl_delay s) (Some 0) = (arr, q)" by fastforce
  have arr: "arr \<in> {None, Some 0}" "set q \<subseteq> {None, Some 0}"
    using push_pop_set [OF pp] s by (auto simp: hl_quiet_def)
  have pid: "ep_pid (quiet_ep n) = control_initial" for n by (simp add: quiet_ep_def episode_initial_def)
  show ?thesis
  proof (cases "t = sc_ticks sc - 1")
    case True
    have "1000 \<le> sc_ticks sc" using sc by (simp add: quiet_scenario_def)
    from quiet_episode(2) [OF t(1) True this] out
    have o': "out = \<lparr>out_state = (quiet_ep (t + 1))\<lparr>ep_mode := TERMINATED, terminal := Some \<lparr>term_reason = STABILIZED, term_tick = t\<rparr>\<rparr>,
           out_delta = 0, out_acks = []\<rparr>" by (simp add: inp q)
    show ?thesis
      using True pid by (simp add: row_quiet_def row_settled_def r stop inp o' q hl_stop_def quiet_input_def)
  next
    case False
    from quiet_episode(1) [OF t(1) False] out
    have o': "out = \<lparr>out_state = quiet_ep (t + 1), out_delta = 0, out_acks = []\<rparr>" by (simp add: inp q)
    have tn: "terminal (quiet_ep n) = None" for n by (simp add: quiet_ep_def episode_initial_def)
    have none: "stop = None" using False by (simp add: stop hl_stop_def inp quiet_input_def o' tn)
    have ra: "row_actuator r = \<lparr>applied = 0\<rparr>" using pp zero_actuator [OF arr(1)] by (simp add: r o' q)
    have "hl_loc zero_truth = None" by (simp add: hl_loc_def zero_truth_def zero_floats LOC_ANGLE_zero)
    then have "hl_quiet sc (t + 1) s'"
      using pp arr by (simp add: hl_quiet_def s' none hl_next_def ra q zero_plant Let_def) (simp add: r o' ra)
    then show ?thesis using none pid by (simp add: row_quiet_def r o' q)
  qed
qed

lemma quiet_loop:
  assumes "quiet_scenario sc" "headless_loop sc (ticks_from t n) s = Inr (rows, stop, s')"
    "hl_quiet sc t s" "0 \<le> t" "t + int n = sc_ticks sc"
  shows "list_all row_quiet rows \<and> (stop \<noteq> None \<longrightarrow> rows \<noteq> [] \<and> row_settled sc (last rows) stop)"
  using headless_loop_rule [where I = "hl_quiet sc" and P = row_quiet and Q = "\<lambda>r. True" and
      L = "row_settled sc" and N = "sc_ticks sc", OF _ assms(2-4)] quiet_tick [OF assms(1)] assms(5)
  by (metis order_refl)

lemma hl_quiet_initial: "quiet_scenario sc \<Longrightarrow> hl_quiet sc 0 (headless_initial sc up down delay)"
  by (simp add: hl_quiet_def headless_initial_def quiet_scenario_def zero_truth_def actuator_initial_def
      zero_floats quiet_ep_def episode_initial_def set_replicate_conv_if)

lemma quiet_wf: "quiet_scenario sc \<Longrightarrow> 0 \<le> sc_loss_start sc \<Longrightarrow> sc_loss_start sc \<le> sc_ticks sc \<Longrightarrow> scenario_wf sc"
  by (simp add: scenario_wf_def quiet_scenario_def interval_wf_def probability_val fval_def f_field_defs)

lemma zero_checks: "f_le (f_abs 0) PEAK" "f_le (f_abs 0) SETTLE_BAND"
  by (simp_all add: PEAK_def SETTLE_BAND_def f_eval)

lemma quiet_evidence: "row_quiet r \<Longrightarrow> evidence_of r =
    \<lparr>ev_tick = row_tick r, ev_theta = 0, ev_omega = 0, ev_delta = 0, ev_i_state = 0, ev_d_prev = 0\<rparr>"
  by (simp add: row_quiet_def evidence_of_def zero_truth_def control_initial_def zero_floats)

lemma length_last_rows: "length (last_rows n xs) = min n (length xs)"
  by (simp add: last_rows_def)

lemma quiet_evaluate:
  assumes rows: "list_all row_quiet rows" "map row_tick rows = map int [0..<length rows]"
    and n: "int (length rows) = ticks" "1000 \<le> ticks"
    and last: "terminal (out_state (row_episode (last rows))) = Some \<lparr>term_reason = STABILIZED, term_tick = ticks - 1\<rparr>"
      "ep_mode (out_state (row_episode (last rows))) = TERMINATED"
  shows "acc_passed (evaluate \<lparr>tr_ticks = ticks, tr_seed = seed, tr_delay = d, tr_rows = rows,
    tr_rng = rng, tr_sim_reason = Some SIM_HORIZON\<rparr>)"
proof -
  have ne: "rows \<noteq> []" using n by auto
  have tick: "row_tick (rows ! i) = int i" if "i < length rows" for i
    using arg_cong [OF rows(2), of "\<lambda>xs. xs ! i"] that by simp
  define ev where "ev = map evidence_of rows"
  have len: "length ev = length rows" and evne: "ev \<noteq> []" using ne by (simp_all add: ev_def)
  have nth: "ev ! i = \<lparr>ev_tick = int i, ev_theta = 0, ev_omega = 0, ev_delta = 0, ev_i_state = 0, ev_d_prev = 0\<rparr>"
    if "i < length rows" for i
    using that rows(1) tick [OF that] quiet_evidence [of "rows ! i"] by (simp add: ev_def list_all_length)
  have big: "1000 \<le> length rows" using n by simp
  have win: "last_rows 1000 ev ! i = ev ! (length rows - 1000 + i)" if "i < 1000" for i
    using that big by (simp add: last_rows_def len)
  have last_tick: "ev_tick (last ev) = ticks - 1"
    using nth [of "length rows - 1"] ne n by (simp add: last_conv_nth [OF evne] len)
  have set: "\<And>e. e \<in> set ev \<Longrightarrow> ev_theta e = 0 \<and> ev_omega e = 0 \<and> ev_delta e = 0 \<and> ev_i_state e = 0 \<and> ev_d_prev e = 0"
    using nth by (auto simp: in_set_conv_nth len)
  have settled: "list_all (\<lambda>(i, r). ev_tick r = ticks - 1000 + int i \<and> f_le (f_abs (ev_theta r)) SETTLE_BAND \<and>
      f_le (f_abs (ev_omega r)) SETTLE_BAND) (enumerate 0 (last_rows 1000 ev))"
    unfolding list_all_length
    using big n by (auto simp: nth_enumerate_eq length_last_rows len win nth zero_checks)
  have cadence: "list_all (\<lambda>(i, r). ev_tick r = int i) (enumerate 0 ev)"
    unfolding list_all_length using nth by (simp add: nth_enumerate_eq len)
  have peak: "list_all (\<lambda>r. f_le (f_abs (ev_theta r)) PEAK) ev"
    using set by (simp add: list_all_iff zero_checks)
  have fin: "list_all (\<lambda>r. list_all f_finite [ev_theta r, ev_omega r, ev_delta r, ev_i_state r, ev_d_prev r]) ev"
    using set by (simp add: list_all_iff zero_floats)
  show ?thesis
    unfolding evaluate_def evaluate_rows_def acc_passed_def
    using ne evne last last_tick settled cadence peak fin n big
    by (simp add: ev_def [symmetric] length_last_rows len)
qed

text \<open>C34. A quiet run succeeds: from rest, with no gust, loss or request and at least 1000 ticks, the
  run lasts its whole horizon, ends \<open>STABILIZED\<close> and passes every acceptance clause, with either
  link delay and any seed.\<close>

theorem quiet_run_accepted:
  assumes "quiet_scenario sc" "0 \<le> sc_loss_start sc" "sc_loss_start sc \<le> sc_ticks sc"
    "0 \<le> seed" "seed < 2 ^ 64" "delay \<in> {0, 1}"
  shows "\<exists>tr. run_headless sc seed delay = Inr tr \<and> int (length (tr_rows tr)) = sc_ticks sc \<and>
    list_all row_quiet (tr_rows tr) \<and> acc_passed (evaluate tr)"
proof -
  obtain tr where tr: "run_headless sc seed delay = Inr tr"
    using run_headless_returns [OF quiet_wf [OF assms(1-3)] assms(4-6)] by blast
  then obtain up down s where pos: "0 < sc_ticks sc" and ticks: "tr_ticks tr = sc_ticks sc" and
    loop: "headless_loop sc (ticks_from 0 (nat (sc_ticks sc))) (headless_initial sc up down delay) =
       Inr (tr_rows tr, tr_sim_reason tr, s)" by (elim run_headless_unfold)
  have stop: "tr_sim_reason tr \<noteq> None" by (rule headless_loop_stops [OF loop hl_live_initial]) (use pos in simp_all)
  have q: "list_all row_quiet (tr_rows tr)" "tr_rows tr \<noteq> []" "row_settled sc (last (tr_rows tr)) (tr_sim_reason tr)"
    using quiet_loop [OF assms(1) loop hl_quiet_initial [OF assms(1)]] stop pos by auto
  have rows: "map row_tick (tr_rows tr) = take (length (tr_rows tr)) (ticks_from 0 (nat (sc_ticks sc)))"
    using headless_loop_rows [OF loop] by simp
  then have le: "length (tr_rows tr) \<le> nat (sc_ticks sc)"
    by (metis length_map length_take min.absorb_iff2 nat_le_linear ticks_from_def length_upt diff_zero)
  with rows have seq: "map row_tick (tr_rows tr) = map int [0..<length (tr_rows tr)]"
    by (simp add: ticks_from_def take_map take_upt)
  have "row_tick (last (tr_rows tr)) = int (length (tr_rows tr) - 1)"
    using arg_cong [OF seq, of last] q(2) by (simp add: last_map)
  then have len: "int (length (tr_rows tr)) = sc_ticks sc"
    using q(2,3) by (cases "tr_rows tr") (simp_all add: row_settled_def)
  have "acc_passed (evaluate \<lparr>tr_ticks = sc_ticks sc, tr_seed = tr_seed tr, tr_delay = tr_delay tr, tr_rows = tr_rows tr,
      tr_rng = tr_rng tr, tr_sim_reason = Some SIM_HORIZON\<rparr>)"
    using assms(1) q(3) by (intro quiet_evaluate [OF q(1) seq len]) (simp_all add: row_settled_def quiet_scenario_def)
  moreover have "tr = \<lparr>tr_ticks = sc_ticks sc, tr_seed = tr_seed tr, tr_delay = tr_delay tr, tr_rows = tr_rows tr,
      tr_rng = tr_rng tr, tr_sim_reason = Some SIM_HORIZON\<rparr>"
    using ticks q(3) by (simp add: row_settled_def)
  ultimately show ?thesis using tr len q(1) by (intro exI [of _ tr]) simp
qed

definition quiet_example :: scenario where
  "quiet_example =
     \<lparr>sc_id = ''quiet'', sc_ticks = 1000, sc_initial = \<lparr>truth_theta = 0, truth_omega = 0\<rparr>,
      sc_gusts = [], sc_loss_up = 0, sc_loss_down = 0, sc_loss_start = 0, sc_blackout_up = None,
      sc_blackout_down = None, sc_commands = [], sc_auto_arm = True\<rparr>"

theorem quiet_run_accepted_witness:
  "\<exists>tr. run_headless quiet_example 1 1 = Inr tr \<and> int (length (tr_rows tr)) = 1000 \<and>
    list_all row_quiet (tr_rows tr) \<and> acc_passed (evaluate tr)"
  using quiet_run_accepted [of quiet_example 1 1] by (simp add: quiet_example_def quiet_scenario_def)

end
