(* ===== verification/Wire.thy ===== *)
theory Wire
  imports Binary64_Facts
begin

text \<open>
  The wire codec of \<open>ground/wire.py\<close>: typed payloads at explicit offsets, CRC-protected frames,
  single datagrams, the recovering stream decoder and the recording files. The CRC-32C of the
  third-party \<open>google_crc32c\<close> is the parameter \<open>crc\<close>; no property needs more of it than that it
  is a function into 32 bits. A float field travels as its 64-bit pattern.
\<close>

unbundle bit_operations_syntax

section \<open>Little-endian integers (struct, int.to_bytes, int.from_bytes)\<close>

fun le_bytes :: "nat \<Rightarrow> nat \<Rightarrow> byte list" where
  "le_bytes 0 n = []"
| "le_bytes (Suc w) n = word_of_nat n # le_bytes w (n div 256)"

fun le_nat :: "byte list \<Rightarrow> nat" where
  "le_nat [] = 0"
| "le_nat (b # bs) = unat b + 256 * le_nat bs"

definition le_signed :: "byte list \<Rightarrow> int" where
  "le_signed bs =
     (let n = int (le_nat bs) in if 2 * n < 256 ^ length bs then n else n - 256 ^ length bs)"

text \<open>\<open>n.to_bytes(width, "little", signed)\<close>.\<close>

definition to_bytes :: "nat \<Rightarrow> bool \<Rightarrow> int \<Rightarrow> byte list result" where
  "to_bytes w is_signed n =
     (if (if is_signed then - (256 ^ w) \<le> 2 * n \<and> 2 * n < 256 ^ w else 0 \<le> n \<and> n < 256 ^ w)
      then Inr (le_bytes w (nat (n mod 256 ^ w)))
      else Inl (OverflowError ''int too big to convert''))"

definition slice :: "'a list \<Rightarrow> nat \<Rightarrow> nat \<Rightarrow> 'a list" where
  "slice xs a b = take (b - a) (drop a xs)"

section \<open>Constants (ground/wire.py)\<close>

definition SYNC :: nat where "SYNC = 0xEB90"
definition WIRE_VERSION :: nat where "WIRE_VERSION = 1"
definition TYPE_TELEMETRY :: nat where "TYPE_TELEMETRY = 1"
definition TYPES :: "nat list" where "TYPES = [1, 2, 3, 4, 5, 6]"
definition MAX_PAYLOAD :: nat where "MAX_PAYLOAD = 498"

definition SCHEMA_HASHES :: "(nat \<times> nat) list" where
  "SCHEMA_HASHES = [(1, 0xA871CD84), (2, 0x7F802902), (3, 0x3D42AF39), (4, 0xD23A4196),
     (5, 0x25573656), (6, 0xADFA94C8)]"

definition PAYLOAD_SIZES :: "(nat \<times> nat) list" where
  "PAYLOAD_SIZES = [(1, 56), (2, 16), (3, 16), (4, 44), (5, 48), (6, 128)]"

definition FILE_SCHEMAS :: "(nat \<times> nat) list" where
  "FILE_SCHEMAS = map (\<lambda>t. (the (map_of SCHEMA_HASHES t), t)) [1, 4, 6]"

definition MAGIC :: "byte list" where
  "MAGIC = [0x54, 0x56, 0x43, 0x52, 0x45, 0x43, 0x52, 0x44]"

definition HEAD_SIZE :: nat where "HEAD_SIZE = 10"
definition CRC_SIZE :: nat where "CRC_SIZE = 4"
definition FILE_HEADER_SIZE :: nat where "FILE_HEADER_SIZE = 32"
definition RECORD_SIZE :: nat where "RECORD_SIZE = 56"

section \<open>Payload fields\<close>

datatype kind = U8 | U16 | U32 | U64 | I64 | F64

fun field_width :: "kind \<Rightarrow> nat" where
  "field_width U8 = 1"
| "field_width U16 = 2"
| "field_width U32 = 4"
| "field_width U64 = 8"
| "field_width I64 = 8"
| "field_width F64 = 8"

type_synonym field = "string \<times> nat \<times> kind"

definition PAYLOAD_FIELDS :: "(nat \<times> field list) list" where
  "PAYLOAD_FIELDS =
     [(1, [(''tick'', 0, U64), (''deadline_ns'', 8, I64), (''woke_ns'', 16, I64),
           (''done_ns'', 24, I64), (''theta'', 32, F64), (''cmd'', 40, F64), (''drops'', 48, U64)]),
      (2, [(''cmd_seq'', 0, U32), (''opcode'', 4, U16), (''flags'', 6, U16), (''effective_tick'', 8, U64)]),
      (3, [(''applied_tick'', 0, U64), (''cmd_seq'', 8, U32), (''status'', 12, U16),
           (''state'', 14, U8), (''reason'', 15, U8)]),
      (4, [(''tick'', 0, U64), (''t_send_ns'', 8, I64), (''theta'', 16, F64), (''omega'', 24, F64),
           (''flags'', 32, U32), (''cmd_seq'', 36, U32), (''sim_reason'', 40, U32)]),
      (5, [(''tick'', 0, U64), (''veh_tick'', 8, U64), (''t_sensor_send_ns'', 16, I64),
           (''t_veh_send_ns'', 24, I64), (''delta'', 32, F64), (''status'', 40, U32), (''staleness'', 44, U32)]),
      (6, [(''tick'', 0, U64), (''deadline_ns'', 8, I64), (''woke_ns'', 16, I64), (''done_ns'', 24, I64),
           (''sensor_send_ns'', 32, I64), (''rx_ns'', 40, I64), (''tx_ns'', 48, I64), (''sensor_tick'', 56, U64),
           (''theta'', 64, F64), (''omega'', 72, F64), (''cmd'', 80, F64), (''i_state'', 88, F64),
           (''d_prev'', 96, F64), (''drops'', 104, U64), (''staleness'', 112, U32), (''ack_cmd_seq'', 116, U32),
           (''rx_count'', 120, U8), (''discarded_old'', 121, U8), (''discarded_superseded'', 122, U8),
           (''discarded_other'', 123, U8), (''state'', 124, U8), (''reason'', 125, U8),
           (''flags'', 126, U8), (''ack_status'', 127, U8)])]"

datatype fvalue = VInt int | VFlt f64

type_synonym fields = "string \<Rightarrow> fvalue option"

definition get_field :: "fields \<Rightarrow> string \<Rightarrow> fvalue result" where
  "get_field fields name = (case fields name of None \<Rightarrow> Inl (KeyError name) | Some v \<Rightarrow> Inr v)"

text \<open>An integer operand; a float reaches the missing attribute \<open>to_bytes\<close>.\<close>

definition int_field :: "fvalue \<Rightarrow> int result" where
  "int_field v = (case v of VInt n \<Rightarrow> Inr n | VFlt x \<Rightarrow> Inl (AttributeError ''to_bytes''))"

definition check_payload_counts :: "nat \<Rightarrow> fields \<Rightarrow> unit result" where
  "check_payload_counts ftype fields =
     (if ftype = 6 then
        rbind (rbind (get_field fields ''discarded_old'') int_field) (\<lambda>a.
        rbind (rbind (get_field fields ''discarded_superseded'') int_field) (\<lambda>b.
        rbind (rbind (get_field fields ''discarded_other'') int_field) (\<lambda>c.
        rbind (rbind (get_field fields ''rx_count'') int_field) (\<lambda>rx.
          ensure (\<not> (9 < rx \<or> rx < a + b + c)) ''invalid control counts'' (Inr ())))))
      else Inr ())"

definition pack_double :: "fvalue \<Rightarrow> byte list result" where
  "pack_double v =
     (case v of
        VFlt x \<Rightarrow> Inr (le_bytes 8 (unat x))
      | VInt n \<Rightarrow> (case f_of_int n of
            None \<Rightarrow> Inl (StructError ''required argument is not a float'')
          | Some x \<Rightarrow> Inr (le_bytes 8 (unat x))))"

definition field_mask :: "nat \<Rightarrow> string \<Rightarrow> int \<Rightarrow> int" where
  "field_mask ftype name n =
     (if name = ''flags'' \<and> ftype = 2 then n AND 0x0001
      else if name = ''flags'' \<and> ftype = 4 then n AND 0x0000FF07 else n)"

definition encode_field :: "nat \<Rightarrow> fields \<Rightarrow> field \<Rightarrow> byte list result" where
  "encode_field ftype fields f =
     (case f of (name, offset, kind) \<Rightarrow>
        rbind (get_field fields name) (\<lambda>v.
          if kind = F64 then pack_double v
          else rbind (int_field v) (\<lambda>n.
            to_bytes (field_width kind) (kind = I64) (field_mask ftype name n))))"

text \<open>\<open>payload[offset:offset + width] = scalar\<close>.\<close>

definition splice :: "nat \<Rightarrow> 'a list \<Rightarrow> 'a list \<Rightarrow> 'a list" where
  "splice offset scalar payload = take offset payload @ scalar @ drop (offset + length scalar) payload"

fun encode_fields :: "nat \<Rightarrow> fields \<Rightarrow> field list \<Rightarrow> byte list \<Rightarrow> byte list result" where
  "encode_fields ftype fields [] payload = Inr payload"
| "encode_fields ftype fields (f # fs) payload =
     rbind (encode_field ftype fields f) (\<lambda>scalar.
       encode_fields ftype fields fs (splice (fst (snd f)) scalar payload))"

definition encode_payload :: "nat \<Rightarrow> fields \<Rightarrow> byte list result" where
  "encode_payload ftype fields =
     (case map_of PAYLOAD_FIELDS ftype of
        None \<Rightarrow> Inl (ValueError ''bad payload type'')
      | Some fs \<Rightarrow>
          rbind (check_payload_counts ftype fields) (\<lambda>_.
            encode_fields ftype fields fs (replicate (the (map_of PAYLOAD_SIZES ftype)) 0)))"

definition decode_field :: "byte list \<Rightarrow> field \<Rightarrow> fvalue" where
  "decode_field data f =
     (case f of (name, offset, kind) \<Rightarrow>
        (let bs = slice data offset (offset + field_width kind)
         in if kind = F64 then VFlt (word_of_nat (le_nat bs))
            else if kind = I64 then VInt (le_signed bs) else VInt (int (le_nat bs))))"

fun decode_fields :: "byte list \<Rightarrow> field list \<Rightarrow> fields \<Rightarrow> fields" where
  "decode_fields data [] acc = acc"
| "decode_fields data (f # fs) acc = decode_fields data fs (acc(fst f := Some (decode_field data f)))"

definition decode_payload :: "nat \<Rightarrow> byte list \<Rightarrow> fields result" where
  "decode_payload ftype data =
     (case map_of PAYLOAD_FIELDS ftype of
        None \<Rightarrow> Inl (ValueError ''bad payload type'')
      | Some fs \<Rightarrow>
          ensure (length data = the (map_of PAYLOAD_SIZES ftype)) ''payload length''
            (let fields = decode_fields data fs (\<lambda>_. None)
             in rbind (check_payload_counts ftype fields) (\<lambda>_. Inr fields)))"

section \<open>Frames and datagrams\<close>

type_synonym frame = "nat \<times> nat \<times> byte list"

definition frame_head :: "nat \<Rightarrow> nat \<Rightarrow> nat \<Rightarrow> byte list" where
  "frame_head ftype len seq =
     le_bytes 2 SYNC @ le_bytes 1 WIRE_VERSION @ le_bytes 1 ftype @ le_bytes 2 len @ le_bytes 4 seq"

definition encode_frame :: "(byte list \<Rightarrow> 32 word) \<Rightarrow> nat \<Rightarrow> int \<Rightarrow> byte list \<Rightarrow> byte list result" where
  "encode_frame crc ftype seq payload =
     ensure (ftype \<in> set TYPES) ''bad frame type''
     (ensure (\<not> MAX_PAYLOAD < length payload) ''payload exceeds''
       (let head = frame_head ftype (length payload) (nat (seq mod 2 ^ 32))
        in Inr (head @ payload @ le_bytes 4 (unat (crc (drop 2 head @ payload))))))"

text \<open>\<open>FRAME_HEAD.unpack_from\<close>.\<close>

record head =
  hd_sync :: nat
  hd_version :: nat
  hd_type :: nat
  hd_length :: nat
  hd_seq :: nat

definition unpack_head :: "byte list \<Rightarrow> nat \<Rightarrow> head" where
  "unpack_head data pos =
     \<lparr>hd_sync = le_nat (slice data pos (pos + 2)), hd_version = le_nat (slice data (pos + 2) (pos + 3)),
      hd_type = le_nat (slice data (pos + 3) (pos + 4)), hd_length = le_nat (slice data (pos + 4) (pos + 6)),
      hd_seq = le_nat (slice data (pos + 6) (pos + 10))\<rparr>"

definition decode_datagram ::
  "(byte list \<Rightarrow> 32 word) \<Rightarrow> byte list \<Rightarrow> nat set \<Rightarrow> frame result" where
  "decode_datagram crc data accepted =
     ensure (\<not> length data < HEAD_SIZE + CRC_SIZE) ''bad_length: truncated datagram''
     (let h = unpack_head data 0; n = length data
      in ensure (hd_sync h = SYNC) ''bad_sync''
         (ensure (hd_version h = WIRE_VERSION) ''bad_version''
         (ensure (hd_type h \<in> fst ` set PAYLOAD_SIZES \<and> hd_type h \<in> accepted) ''bad_type''
         (ensure (map_of PAYLOAD_SIZES (hd_type h) = Some (hd_length h) \<and> n = HEAD_SIZE + hd_length h + CRC_SIZE)
            ''bad_length''
         (ensure (le_nat (slice data (n - CRC_SIZE) n) = unat (crc (slice data 2 (n - CRC_SIZE)))) ''bad_crc''
            (Inr (hd_type h, hd_seq h, slice data HEAD_SIZE (n - CRC_SIZE))))))))"

section \<open>The stream decoder\<close>

fun find_sync :: "byte list \<Rightarrow> nat option" where
  "find_sync (a # b # rest) =
     (if a = 0x90 \<and> b = 0xeb then Some 0 else map_option Suc (find_sync (b # rest)))"
| "find_sync _ = None"

record counters =
  frames_ok :: nat
  crc_errors :: nat
  version_mismatch :: nat
  resyncs :: nat
  seq_discontinuities :: nat
  lost :: nat
  skipped_bytes :: nat

record dec_state =
  ds_pos :: nat
  ds_frames :: "frame list"
  ds_ctr :: counters
  ds_expected :: "nat option"
  ds_consumed :: nat
  ds_locked :: bool

definition dec_initial :: dec_state where
  "dec_initial =
     \<lparr>ds_pos = 0, ds_frames = [],
      ds_ctr = \<lparr>frames_ok = 0, crc_errors = 0, version_mismatch = 0, resyncs = 0,
        seq_discontinuities = 0, lost = 0, skipped_bytes = 0\<rparr>,
      ds_expected = None, ds_consumed = 0, ds_locked = True\<rparr>"

text \<open>Losing lock counts one resync; the scan goes on at the next byte.\<close>

definition unlock :: "dec_state \<Rightarrow> nat \<Rightarrow> dec_state" where
  "unlock s pos =
     s\<lparr>ds_pos := pos + 1, ds_locked := False,
       ds_ctr := (if ds_locked s then (ds_ctr s)\<lparr>resyncs := resyncs (ds_ctr s) + 1\<rparr> else ds_ctr s)\<rparr>"

definition gap_counters :: "nat option \<Rightarrow> nat \<Rightarrow> counters \<Rightarrow> counters" where
  "gap_counters expected seq c =
     (case expected of
        None \<Rightarrow> c
      | Some e \<Rightarrow>
          (let gap = nat ((int seq - int e) mod 2 ^ 32)
           in if 1 \<le> gap \<and> gap < 2 ^ 31 then c\<lparr>lost := lost c + gap\<rparr>
              else if 2 ^ 31 \<le> gap then c\<lparr>seq_discontinuities := seq_discontinuities c + 1\<rparr>
              else c))"

text \<open>One iteration of the loop; \<open>None\<close> is its \<open>break\<close>.\<close>

definition dec_iter :: "(byte list \<Rightarrow> 32 word) \<Rightarrow> byte list \<Rightarrow> dec_state \<Rightarrow> dec_state option" where
  "dec_iter crc data s =
     (case find_sync (drop (ds_pos s) data) of
        None \<Rightarrow> None
      | Some i \<Rightarrow>
          (let pos = ds_pos s + i
           in if length data < pos + HEAD_SIZE then None
              else
                (let h = unpack_head data pos
                 in if hd_version h \<noteq> WIRE_VERSION then
                      Some (unlock (s\<lparr>ds_ctr := (ds_ctr s)\<lparr>version_mismatch := version_mismatch (ds_ctr s) + 1\<rparr>\<rparr>) pos)
                    else if hd_type h \<notin> set TYPES \<or> MAX_PAYLOAD < hd_length h then Some (unlock s pos)
                    else
                      (let fin = pos + HEAD_SIZE + hd_length h + CRC_SIZE
                       in if length data < fin then None
                          else if le_nat (slice data (fin - CRC_SIZE) fin) \<noteq>
                              unat (crc (slice data (pos + 2) (fin - CRC_SIZE))) then
                            Some (unlock (s\<lparr>ds_ctr := (ds_ctr s)\<lparr>crc_errors := crc_errors (ds_ctr s) + 1\<rparr>\<rparr>) pos)
                          else
                            Some (s\<lparr>ds_frames := ds_frames s @
                                [(hd_type h, hd_seq h, slice data (pos + HEAD_SIZE) (fin - CRC_SIZE))],
                              ds_ctr := gap_counters (ds_expected s) (hd_seq h)
                                ((ds_ctr s)\<lparr>frames_ok := frames_ok (ds_ctr s) + 1\<rparr>),
                              ds_consumed := ds_consumed s + (fin - pos),
                              ds_expected := Some ((hd_seq h + 1) mod 2 ^ 32),
                              ds_locked := True, ds_pos := fin\<rparr>)))))"

lemma find_sync_bound: "find_sync bs = Some i \<Longrightarrow> i + 2 \<le> length bs"
  by (induction bs arbitrary: i rule: find_sync.induct) (auto split: if_splits)

lemma find_sync_at: "find_sync bs = Some i \<Longrightarrow> take 2 (drop i bs) = [0x90, 0xeb]"
  by (induction bs arbitrary: i rule: find_sync.induct) (auto split: if_splits)

lemma dec_iter_progress: "dec_iter crc data s = Some s' \<Longrightarrow> ds_pos s < ds_pos s' \<and> ds_pos s < length data"
  by (auto simp: dec_iter_def unlock_def Let_def HEAD_SIZE_def CRC_SIZE_def split: option.splits if_splits
      dest!: find_sync_bound)

function dec_loop :: "(byte list \<Rightarrow> 32 word) \<Rightarrow> byte list \<Rightarrow> dec_state \<Rightarrow> dec_state" where
  "dec_loop crc data s =
     (case dec_iter crc data s of None \<Rightarrow> s | Some s' \<Rightarrow> dec_loop crc data s')"
  by pat_completeness auto

termination
  by (relation "measure (\<lambda>(crc, data, s). length data - ds_pos s)") (auto dest: dec_iter_progress)

declare dec_loop.simps [simp del]

definition decode_stream :: "(byte list \<Rightarrow> 32 word) \<Rightarrow> byte list \<Rightarrow> frame list \<times> counters" where
  "decode_stream crc data =
     (let s = dec_loop crc data dec_initial
      in (ds_frames s, (ds_ctr s)\<lparr>skipped_bytes := length data - ds_consumed s\<rparr>))"

section \<open>Recordings\<close>

text \<open>\<open>struct\<close> packing of one telemetry record, format \<open>QqqqddQ\<close>.\<close>

record telemetry =
  rec_tick :: int
  rec_deadline_ns :: int
  rec_woke_ns :: int
  rec_done_ns :: int
  rec_theta :: f64
  rec_cmd :: f64
  rec_drops :: int

definition pack_int :: "bool \<Rightarrow> int \<Rightarrow> byte list result" where
  "pack_int is_signed n =
     (case to_bytes 8 is_signed n of Inl e \<Rightarrow> Inl (StructError ''int format'') | Inr bs \<Rightarrow> Inr bs)"

definition pack_record :: "telemetry \<Rightarrow> byte list result" where
  "pack_record r =
     rbind (pack_int False (rec_tick r)) (\<lambda>a.
     rbind (pack_int True (rec_deadline_ns r)) (\<lambda>b.
     rbind (pack_int True (rec_woke_ns r)) (\<lambda>c.
     rbind (pack_int True (rec_done_ns r)) (\<lambda>d.
     rbind (pack_int False (rec_drops r)) (\<lambda>e.
       Inr (a @ b @ c @ d @ le_bytes 8 (unat (rec_theta r)) @ le_bytes 8 (unat (rec_cmd r)) @ e))))))"

definition unpack_record :: "byte list \<Rightarrow> telemetry result" where
  "unpack_record data =
     (if length data \<noteq> RECORD_SIZE then Inl (StructError ''unpack requires a buffer of 56 bytes'')
      else Inr \<lparr>rec_tick = int (le_nat (slice data 0 8)), rec_deadline_ns = le_signed (slice data 8 16),
        rec_woke_ns = le_signed (slice data 16 24), rec_done_ns = le_signed (slice data 24 32),
        rec_theta = word_of_nat (le_nat (slice data 32 40)), rec_cmd = word_of_nat (le_nat (slice data 40 48)),
        rec_drops = int (le_nat (slice data 48 56))\<rparr>)"

record rec_header =
  rh_magic :: "byte list"
  rh_version :: nat
  rh_schema_hash :: nat
  rh_start_monotonic_ns :: int
  rh_start_epoch_ns :: int
  rh_schema_known :: bool

text \<open>\<open>HEADER.unpack_from\<close>; the reserved word comes apart.\<close>

definition unpack_header :: "byte list \<Rightarrow> rec_header \<times> nat" where
  "unpack_header data =
     (\<lparr>rh_magic = slice data 0 8, rh_version = le_nat (slice data 8 10),
       rh_schema_hash = le_nat (slice data 12 16), rh_start_monotonic_ns = le_signed (slice data 16 24),
       rh_start_epoch_ns = le_signed (slice data 24 32),
       rh_schema_known = (map_of SCHEMA_HASHES 1 = Some (le_nat (slice data 12 16)))\<rparr>,
      le_nat (slice data 10 12))"

fun telemetry_records :: "frame list \<Rightarrow> telemetry list result" where
  "telemetry_records [] = Inr []"
| "telemetry_records ((t, q, p) # fs) =
     (if t \<noteq> TYPE_TELEMETRY then telemetry_records fs
      else ensure (length p = RECORD_SIZE) ''type-1 frame: encoder bug''
        (rbind (unpack_record p) (\<lambda>r. rbind (telemetry_records fs) (\<lambda>rs. Inr (r # rs)))))"

text \<open>The readers get the file's bytes.\<close>

definition read_recording ::
  "(byte list \<Rightarrow> 32 word) \<Rightarrow> byte list \<Rightarrow> (rec_header \<times> telemetry list \<times> counters) result" where
  "read_recording crc data =
     ensure (\<not> length data < FILE_HEADER_SIZE) ''recording shorter than its header''
     (let (header, reserved) = unpack_header data
      in ensure (rh_magic header = MAGIC) ''bad magic''
        (ensure (rh_version header = WIRE_VERSION) ''unsupported recording version''
          (let (frames, ctr) = decode_stream crc (drop FILE_HEADER_SIZE data)
           in rbind (telemetry_records frames) (\<lambda>records. Inr (header, records, ctr)))))"

fun typed_records :: "nat \<Rightarrow> frame list \<Rightarrow> fields list result" where
  "typed_records expected_type [] = Inr []"
| "typed_records expected_type ((t, q, p) # fs) =
     ensure (t = expected_type) ''recovered type''
       (rbind (decode_payload t p) (\<lambda>r. rbind (typed_records expected_type fs) (\<lambda>rs. Inr (r # rs))))"

definition read_typed_recording ::
  "(byte list \<Rightarrow> 32 word) \<Rightarrow> byte list \<Rightarrow> nat \<Rightarrow> (rec_header \<times> fields list \<times> counters) result" where
  "read_typed_recording crc data expected_type =
     ensure (expected_type \<in> {1, 4, 6}) ''unsupported expected_type''
     (ensure (\<not> length data < FILE_HEADER_SIZE) ''recording shorter than its header''
     (let (header, reserved) = unpack_header data
      in ensure (rh_magic header = MAGIC) ''bad magic''
        (ensure (rh_version header = WIRE_VERSION) ''unsupported recording version''
        (ensure (reserved = 0) ''nonzero reserved header word''
        (ensure (rh_schema_hash header \<in> fst ` set FILE_SCHEMAS) ''unknown file schema''
        (ensure (map_of FILE_SCHEMAS (rh_schema_hash header) = Some expected_type) ''file schema mismatch''
          (let (frames, ctr) = decode_stream crc (drop FILE_HEADER_SIZE data)
           in rbind (typed_records expected_type frames) (\<lambda>records.
                Inr (header\<lparr>rh_schema_known := True\<rparr>, records, ctr)))))))))"

section \<open>Facts on little-endian integers\<close>

lemma length_le_bytes [simp]: "length (le_bytes w n) = w"
  by (induction w arbitrary: n) simp_all

lemma unat_byte: "unat (word_of_nat n :: byte) = n mod 256"
  by (simp add: unsigned_of_nat take_bit_nat_def)

lemma le_nat_le_bytes [simp]: "le_nat (le_bytes w n) = n mod 256 ^ w"
proof (induction w arbitrary: n)
  case (Suc w)
  have "n mod (256 * 256 ^ w) = 256 * (n div 256 mod 256 ^ w) + n mod 256"
    by (rule mod_mult2_eq)
  then show ?case by (simp only: le_bytes.simps le_nat.simps Suc unat_byte power_Suc add.commute)
qed simp

lemma le_nat_bound: "le_nat bs < 256 ^ length bs"
proof (induction bs)
  case (Cons b bs)
  have "unat b < 256" using unsigned_less [of b] by simp
  then show ?case using Cons by simp
qed simp

lemma le_bytes_le_nat: "length bs = w \<Longrightarrow> le_bytes w (le_nat bs) = bs"
proof (induction bs arbitrary: w)
  case (Cons b bs)
  have b: "unat b < 256" using unsigned_less [of b] by simp
  have "word_of_nat (unat b + 256 * le_nat bs) = (b :: byte)"
    using b by (simp only: word_unat_eq_iff unat_byte) simp
  then show ?case using Cons b by (cases w) simp_all
qed simp

lemma slice_length: "b \<le> length xs \<Longrightarrow> length (slice xs a b) = b - a"
  by (simp add: slice_def)

lemma slice_append_mid: "length p = a \<Longrightarrow> length m = n \<Longrightarrow> slice (p @ m @ q) a (a + n) = m"
  by (simp add: slice_def)

lemma slice_slice: "slice (slice xs a b) c d = slice xs (a + c) (min (a + d) b)"
proof -
  have "min (d - c) (b - a - c) = min (a + d) b - (a + c)" by simp
  then show ?thesis by (simp only: slice_def drop_take take_take drop_drop add.commute [of c a])
qed

lemma slice_drop_take: "slice xs a (a + n) = drop a (take (a + n) xs)"
  by (simp add: slice_def drop_take)

lemma take_slice: "a \<le> b \<Longrightarrow> take b xs = take a xs @ slice xs a b"
  by (simp add: slice_def flip: take_add)

lemma to_bytes_Inr:
  "to_bytes w sg n = Inr bs \<longleftrightarrow>
     (if sg then - (256 ^ w) \<le> 2 * n \<and> 2 * n < 256 ^ w else 0 \<le> n \<and> n < 256 ^ w) \<and>
     bs = le_bytes w (nat (n mod 256 ^ w))"
  by (auto simp: to_bytes_def)

lemma to_bytes_unsigned: "to_bytes w False n = Inr bs \<Longrightarrow> int (le_nat bs) = n \<and> length bs = w"
  by (auto simp: to_bytes_Inr nat_mod_distrib nat_power_eq)

lemma to_bytes_signed:
  assumes "to_bytes w True n = Inr bs"
  shows "le_signed bs = n \<and> length bs = w"
proof -
  from assms have r: "- (256 ^ w) \<le> 2 * n" "2 * n < 256 ^ w" and bs: "bs = le_bytes w (nat (n mod 256 ^ w))"
    by (auto simp: to_bytes_Inr)
  define M :: int where "M = 256 ^ w"
  have M: "0 < M" by (simp add: M_def)
  have "nat (n mod M) < 256 ^ w" using pos_mod_bound [OF M, of n] by (simp add: M_def nat_less_iff)
  then have "le_nat bs = nat (n mod M)" by (simp add: bs M_def)
  then have le: "int (le_nat bs) = n mod M" using pos_mod_sign [OF M, of n] by simp
  have len: "(256 :: int) ^ length bs = M" by (simp add: bs M_def)
  show ?thesis
  proof (cases "0 \<le> n")
    case True
    then have "n mod M = n" using r by (simp add: M_def)
    then show ?thesis using r True by (simp add: le_signed_def Let_def le len bs M_def)
  next
    case False
    have "n mod M = (n + M) mod M" by simp
    also have "\<dots> = n + M" using r False by (intro mod_pos_pos_trivial) (simp_all add: M_def)
    finally have "n mod M = n + M" .
    then show ?thesis using r False by (simp add: le_signed_def Let_def le len bs M_def)
  qed
qed

lemma to_bytes_le_nat: "length bs = w \<Longrightarrow> to_bytes w False (int (le_nat bs)) = Inr bs"
  using le_nat_bound [of bs] by (auto simp: to_bytes_Inr le_bytes_le_nat nat_mod_distrib nat_power_eq
      simp flip: of_nat_less_iff)

lemma to_bytes_le_signed:
  assumes "length bs = w" "0 < w"
  shows "to_bytes w True (le_signed bs) = Inr bs"
proof -
  define M :: int where "M = 256 ^ w"
  define n where "n = int (le_nat bs)"
  have n: "0 \<le> n" "n < M"
    using le_nat_bound [of bs] assms(1) by (simp_all add: n_def M_def flip: of_nat_less_iff)
  have sg: "le_signed bs = (if 2 * n < M then n else n - M)"
    by (simp add: le_signed_def n_def M_def assms(1) Let_def)
  have "le_signed bs mod M = n"
  proof (cases "2 * n < M")
    case False
    have "(n - M) mod M = n mod M" by simp
    then show ?thesis using False n by (simp add: sg)
  qed (use n in \<open>simp add: sg\<close>)
  then have "le_bytes w (nat (le_signed bs mod M)) = bs"
    by (simp add: n_def le_bytes_le_nat [OF assms(1)])
  moreover have "- M \<le> 2 * le_signed bs \<and> 2 * le_signed bs < M" using n by (simp add: sg)
  ultimately show ?thesis by (simp add: to_bytes_Inr flip: M_def)
qed

section \<open>Payload layout\<close>

text \<open>Consecutive fields from an offset to the payload's size.\<close>

fun layout :: "nat \<Rightarrow> field list \<Rightarrow> nat \<Rightarrow> bool" where
  "layout off [] sz \<longleftrightarrow> off = sz"
| "layout off ((name, o', k) # fs) sz \<longleftrightarrow> o' = off \<and> layout (off + field_width k) fs sz"

definition payload_table :: "nat \<Rightarrow> field list \<Rightarrow> nat \<Rightarrow> bool" where
  "payload_table t fs sz \<longleftrightarrow> map_of PAYLOAD_FIELDS t = Some fs \<and> map_of PAYLOAD_SIZES t = Some sz"

lemma payload_table_layout:
  assumes "payload_table t fs sz"
  shows "layout 0 fs sz" "distinct (map fst fs)"
proof -
  have "t \<in> {1, 2, 3, 4, 5, 6}"
    using assms by (auto simp: payload_table_def PAYLOAD_SIZES_def split: if_splits)
  then have "layout 0 fs sz \<and> distinct (map fst fs)"
    using assms unfolding payload_table_def PAYLOAD_FIELDS_def PAYLOAD_SIZES_def
    by (elim insertE emptyE; simp; elim conjE; hypsubst; simp)
  then show "layout 0 fs sz" "distinct (map fst fs)" by auto
qed

lemma payload_table_exists: "map_of PAYLOAD_FIELDS t = Some fs \<Longrightarrow> \<exists>sz. payload_table t fs sz"
  by (auto simp: payload_table_def PAYLOAD_FIELDS_def PAYLOAD_SIZES_def split: if_splits)

lemma layout_le: "layout off fs sz \<Longrightarrow> off \<le> sz"
  by (induction off fs sz rule: layout.induct) auto

lemma pack_double_length: "pack_double v = Inr bs \<Longrightarrow> length bs = 8"
  by (auto simp: pack_double_def split: fvalue.splits option.splits)

lemma encode_field_length: "encode_field t F (n, off, k) = Inr bs \<Longrightarrow> length bs = field_width k"
  by (cases k) (auto simp: encode_field_def rbind_eq_Inr to_bytes_Inr dest: pack_double_length)

lemma encode_fields_slices:
  assumes "layout off fs sz" "length pre = off"
    "encode_fields t F fs (pre @ replicate (sz - off) 0) = Inr data"
  shows "take off data = pre \<and> length data = sz \<and>
    (\<forall>(n, o', k) \<in> set fs. off \<le> o' \<and> o' + field_width k \<le> sz \<and>
       encode_field t F (n, o', k) = Inr (slice data o' (o' + field_width k)))"
  using assms
proof (induction fs arbitrary: off pre)
  case Nil
  then show ?case by auto
next
  case (Cons f fs)
  obtain n k where f: "f = (n, off, k)" using Cons.prems(1) by (cases f) auto
  let ?w = "field_width k"
  have lay: "layout (off + ?w) fs sz" using Cons.prems(1) by (simp add: f)
  obtain bs where bs: "encode_field t F (n, off, k) = Inr bs"
    and rest: "encode_fields t F fs (splice off bs (pre @ replicate (sz - off) 0)) = Inr data"
    using Cons.prems(3) by (auto simp: f rbind_eq_Inr)
  have len: "length bs = ?w" by (rule encode_field_length [OF bs])
  have "splice off bs (pre @ replicate (sz - off) 0) = (pre @ bs) @ replicate (sz - (off + ?w)) 0"
    using Cons.prems(2) len by (simp add: splice_def)
  then have IH: "take (off + ?w) data = pre @ bs \<and> length data = sz \<and>
    (\<forall>(n, o', k) \<in> set fs. off + ?w \<le> o' \<and> o' + field_width k \<le> sz \<and>
       encode_field t F (n, o', k) = Inr (slice data o' (o' + field_width k)))"
    using Cons.IH [OF lay, of "pre @ bs"] rest Cons.prems(2) len by simp
  then have "take off data = pre" using Cons.prems(2)
    by (metis append_eq_conv_conj le_add1 min.absorb1 take_take)
  moreover have "slice data off (off + ?w) = bs"
    unfolding slice_drop_take IH [THEN conjunct1] using Cons.prems(2) by simp
  ultimately show ?case using IH bs layout_le [OF lay] by (fastforce simp: f)
qed

lemma decode_fields_lookup:
  "distinct (map fst fs) \<Longrightarrow> decode_fields data fs acc n =
     (case find (\<lambda>f. fst f = n) fs of Some f \<Rightarrow> Some (decode_field data f) | None \<Rightarrow> acc n)"
  by (induction fs arbitrary: acc) (force split: option.splits dest: find_Some_set)+

section \<open>Payload round trips\<close>

definition kind_range :: "kind \<Rightarrow> int \<Rightarrow> bool" where
  "kind_range k n \<longleftrightarrow>
     (if k = I64 then - (2 ^ 63) \<le> n \<and> n < 2 ^ 63 else 0 \<le> n \<and> n < 256 ^ field_width k)"

definition value_ok :: "nat \<Rightarrow> field \<Rightarrow> fvalue \<Rightarrow> bool" where
  "value_ok t f v = (case f of (name, off, k) \<Rightarrow>
     (case v of VFlt x \<Rightarrow> k = F64
      | VInt n \<Rightarrow> k \<noteq> F64 \<and> kind_range k n \<and> field_mask t name n = n))"

text \<open>A payload's fields: exactly the schema's names, values in their kinds, counts consistent.\<close>

definition payload_ok :: "nat \<Rightarrow> fields \<Rightarrow> bool" where
  "payload_ok t F \<longleftrightarrow> (\<exists>fs. map_of PAYLOAD_FIELDS t = Some fs \<and> dom F = fst ` set fs \<and>
     (\<forall>f \<in> set fs. \<forall>v. F (fst f) = Some v \<longrightarrow> value_ok t f v) \<and>
     check_payload_counts t F = Inr ())"

lemma encode_decode_field:
  assumes "value_ok t (n, off, k) v" "F n = Some v"
  shows "\<exists>bs. encode_field t F (n, off, k) = Inr bs"
    and "encode_field t F (n, off, k) = Inr (slice data off (off + field_width k)) \<Longrightarrow>
      decode_field data (n, off, k) = v"
proof -
  show "\<exists>bs. encode_field t F (n, off, k) = Inr bs"
    using assms by (cases v) (auto simp: value_ok_def encode_field_def get_field_def pack_double_def
        int_field_def to_bytes_Inr kind_range_def)
  assume enc: "encode_field t F (n, off, k) = Inr (slice data off (off + field_width k))"
  show "decode_field data (n, off, k) = v"
  proof (cases v)
    case (VFlt x)
    then have "k = F64" using assms(1) by (simp add: value_ok_def)
    then have "slice data off (off + 8) = le_bytes 8 (unat x)"
      using enc assms(2) VFlt by (simp add: encode_field_def get_field_def pack_double_def)
    moreover have "unat x < 256 ^ 8" using unsigned_less [of x] by simp
    ultimately show ?thesis using \<open>k = F64\<close> VFlt by (simp add: decode_field_def)
  next
    case (VInt m)
    then have k: "k \<noteq> F64" and m: "field_mask t n m = m" using assms(1) by (simp_all add: value_ok_def)
    then have "to_bytes (field_width k) (k = I64) m = Inr (slice data off (off + field_width k))"
      using enc assms(2) VInt by (simp add: encode_field_def get_field_def int_field_def)
    then show ?thesis
      using to_bytes_signed to_bytes_unsigned k VInt
      by (cases "k = I64") (fastforce simp: decode_field_def)+
  qed
qed

lemma encode_fields_total:
  "(\<And>f. f \<in> set fs \<Longrightarrow> \<exists>bs. encode_field t F f = Inr bs) \<Longrightarrow> \<exists>data. encode_fields t F fs payload = Inr data"
proof (induction fs arbitrary: payload)
  case (Cons f fs)
  obtain bs where "encode_field t F f = Inr bs" using Cons.prems by (metis list.set_intros(1))
  then show ?case using Cons by simp
qed simp

lemma payload_roundtrip:
  assumes "payload_ok t F"
  shows "rbind (encode_payload t F) (decode_payload t) = Inr F"
proof -
  obtain fs where fs: "map_of PAYLOAD_FIELDS t = Some fs" and dom: "dom F = fst ` set fs"
    and ok: "\<And>f v. f \<in> set fs \<Longrightarrow> F (fst f) = Some v \<Longrightarrow> value_ok t f v"
    and counts: "check_payload_counts t F = Inr ()"
    using assms by (auto simp: payload_ok_def)
  obtain sz where table: "payload_table t fs sz" using payload_table_exists [OF fs] by blast
  then have sz: "map_of PAYLOAD_SIZES t = Some sz" by (simp add: payload_table_def)
  have present: "\<exists>v. F (fst f) = Some v \<and> value_ok t f v" if "f \<in> set fs" for f
  proof -
    have "fst f \<in> dom F" using that dom by simp
    then show ?thesis using ok [OF that] by auto
  qed
  have "\<exists>bs. encode_field t F f = Inr bs" if f: "f \<in> set fs" for f
  proof -
    obtain v where "F (fst f) = Some v" "value_ok t f v" using present [OF f] by blast
    then show ?thesis using encode_decode_field(1) by (cases f) auto
  qed
  then obtain data where data: "encode_fields t F fs (replicate sz 0) = Inr data"
    using encode_fields_total by blast
  have slices: "length data = sz \<and> (\<forall>(n, o', k) \<in> set fs.
      encode_field t F (n, o', k) = Inr (slice data o' (o' + field_width k)))"
    using encode_fields_slices [OF payload_table_layout(1) [OF table], of "[]" t F data] data by auto
  have "decode_fields data fs (\<lambda>_. None) n = F n" for n
  proof (cases "find (\<lambda>f. fst f = n) fs")
    case None
    then have "n \<notin> dom F" by (auto simp: dom find_None_iff)
    then show ?thesis
      using None by (simp add: decode_fields_lookup [OF payload_table_layout(2) [OF table]] domIff)
  next
    case (Some f)
    then have f: "f \<in> set fs" "fst f = n" using find_Some_set [OF Some] by auto
    obtain off k where f': "f = (n, off, k)" using f(2) by (cases f) auto
    obtain v where v: "F n = Some v" "value_ok t f v" using present [OF f(1)] f(2) by auto
    have "encode_field t F (n, off, k) = Inr (slice data off (off + field_width k))"
      using slices f(1) unfolding f' by blast
    from encode_decode_field(2) [OF v(2) [unfolded f'] v(1) this] have "decode_field data f = v"
      by (simp add: f')
    then show ?thesis
      using Some v by (simp add: decode_fields_lookup [OF payload_table_layout(2) [OF table]])
  qed
  then have dec: "decode_fields data fs (\<lambda>_. None) = F" by (rule ext)
  have "encode_payload t F = Inr data"
    using fs counts data by (simp add: encode_payload_def sz)
  moreover have "decode_payload t data = Inr F"
    using fs slices counts by (simp add: decode_payload_def sz dec)
  ultimately show ?thesis by simp
qed

section \<open>Frames in a buffer\<close>

definition frame_bytes :: "(byte list \<Rightarrow> 32 word) \<Rightarrow> frame \<Rightarrow> byte list" where
  "frame_bytes crc f =
     (case f of (t, s, p) \<Rightarrow>
        frame_head t (length p) s @ p @
          le_bytes 4 (unat (crc (drop 2 (frame_head t (length p) s @ p)))))"

text \<open>What any sender can put into a frame.\<close>

definition frame_ok :: "frame \<Rightarrow> bool" where
  "frame_ok f \<longleftrightarrow> (case f of (t, s, p) \<Rightarrow> t \<in> set TYPES \<and> s < 2 ^ 32 \<and> length p \<le> MAX_PAYLOAD)"

lemmas frame_sizes = HEAD_SIZE_def CRC_SIZE_def

lemma length_frame_head [simp]: "length (frame_head t n s) = 10"
  by (simp add: frame_head_def)

lemma length_frame_bytes [simp]: "length (frame_bytes crc (t, s, p)) = length p + 14"
  by (simp add: frame_bytes_def)

lemma encode_frame_bytes:
  "t \<in> set TYPES \<Longrightarrow> length p \<le> MAX_PAYLOAD \<Longrightarrow>
     encode_frame crc t n p = Inr (frame_bytes crc (t, nat (n mod 2 ^ 32), p))"
  by (simp add: encode_frame_def frame_bytes_def Let_def)

lemma slice_cat: "a \<le> b \<Longrightarrow> b \<le> c \<Longrightarrow> slice xs a b @ slice xs b c = slice xs a c"
  using take_add [of "b - a" "c - b" "drop a xs"] by (simp add: slice_def add.commute)

lemma le_bytes_slice: "a + w \<le> length xs \<Longrightarrow> le_bytes w (le_nat (slice xs a (a + w))) = slice xs a (a + w)"
  by (rule le_bytes_le_nat) (simp add: slice_length)

lemma le_bytes_slice_to:
  "b = a + w \<Longrightarrow> b \<le> length xs \<Longrightarrow> le_bytes w (le_nat (slice xs a b)) = slice xs a b"
  using le_bytes_slice by blast

lemma slice_shift: "slice (pre @ xs) (length pre + a) (length pre + b) = slice xs a b"
  by (simp add: slice_def)

lemma slice_prefix: "b \<le> length xs \<Longrightarrow> slice (xs @ ys) a b = slice xs a b"
  by (simp add: slice_def)

text \<open>The head of a frame lying at \<open>pos\<close>, and the converse: bytes that pass the checks are a frame.\<close>

lemma frame_head_slices:
  "slice (frame_head t n s) 0 2 = le_bytes 2 SYNC"
  "slice (frame_head t n s) 2 3 = le_bytes 1 WIRE_VERSION"
  "slice (frame_head t n s) 3 4 = le_bytes 1 t"
  "slice (frame_head t n s) 4 6 = le_bytes 2 n"
  "slice (frame_head t n s) 6 10 = le_bytes 4 s"
  by (simp_all add: slice_def frame_head_def)

lemma unpack_frame_head:
  assumes "t < 256" "n < 65536" "s < 2 ^ 32"
  shows "unpack_head (pre @ frame_head t n s @ post) (length pre) =
    \<lparr>hd_sync = SYNC, hd_version = WIRE_VERSION, hd_type = t, hd_length = n, hd_seq = s\<rparr>"
proof -
  have sl: "slice (pre @ frame_head t n s @ post) (length pre + a) (length pre + b) = slice (frame_head t n s) a b"
    if "b \<le> 10" for a b
    using that by (simp add: slice_shift slice_prefix)
  let ?d = "pre @ frame_head t n s @ post"
  have "slice ?d (length pre + 0) (length pre + 2) = le_bytes 2 SYNC"
    "slice ?d (length pre + 2) (length pre + 3) = le_bytes 1 WIRE_VERSION"
    "slice ?d (length pre + 3) (length pre + 4) = le_bytes 1 t"
    "slice ?d (length pre + 4) (length pre + 6) = le_bytes 2 n"
    "slice ?d (length pre + 6) (length pre + 10) = le_bytes 4 s"
    by (rule trans [OF sl frame_head_slices(1)] trans [OF sl frame_head_slices(2)]
        trans [OF sl frame_head_slices(3)] trans [OF sl frame_head_slices(4)]
        trans [OF sl frame_head_slices(5)], simp)+
  note fs = this [unfolded add_0_right]
  show ?thesis
    unfolding unpack_head_def fs le_nat_le_bytes using assms by (simp add: SYNC_def WIRE_VERSION_def)
qed

lemma frame_bytes_at:
  assumes "pos + 14 + n \<le> length data"
    and "unpack_head data pos =
      \<lparr>hd_sync = SYNC, hd_version = WIRE_VERSION, hd_type = t, hd_length = n, hd_seq = s\<rparr>"
    and "le_nat (slice data (pos + 10 + n) (pos + 14 + n)) = unat (crc (slice data (pos + 2) (pos + 10 + n)))"
  shows "slice data pos (pos + 14 + n) = frame_bytes crc (t, s, slice data (pos + 10) (pos + 10 + n))"
proof -
  let ?p = "slice data (pos + 10) (pos + 10 + n)"
  have p: "length ?p = n" using assms(1) by (simp add: slice_length)
  note b = le_bytes_slice_to [of _ _ _ data]
  have "le_bytes 2 (le_nat (slice data pos (pos + 2))) = slice data pos (pos + 2)"
    "le_bytes 1 (le_nat (slice data (pos + 2) (pos + 3))) = slice data (pos + 2) (pos + 3)"
    "le_bytes 1 (le_nat (slice data (pos + 3) (pos + 4))) = slice data (pos + 3) (pos + 4)"
    "le_bytes 2 (le_nat (slice data (pos + 4) (pos + 6))) = slice data (pos + 4) (pos + 6)"
    "le_bytes 4 (le_nat (slice data (pos + 6) (pos + 10))) = slice data (pos + 6) (pos + 10)"
    and crc: "le_bytes 4 (le_nat (slice data (pos + 10 + n) (pos + 14 + n))) =
      slice data (pos + 10 + n) (pos + 14 + n)"
    using assms(1) by - (rule b; simp)+
  moreover have "le_nat (slice data pos (pos + 2)) = SYNC"
    "le_nat (slice data (pos + 2) (pos + 3)) = WIRE_VERSION" "le_nat (slice data (pos + 3) (pos + 4)) = t"
    "le_nat (slice data (pos + 4) (pos + 6)) = n" "le_nat (slice data (pos + 6) (pos + 10)) = s"
    using assms(2) by (simp_all only: unpack_head_def head.iffs)
  ultimately have "frame_head t n s = slice data pos (pos + 2) @ slice data (pos + 2) (pos + 3) @
      slice data (pos + 3) (pos + 4) @ slice data (pos + 4) (pos + 6) @ slice data (pos + 6) (pos + 10)"
    by (simp only: frame_head_def)
  then have head: "frame_head t n s = slice data pos (pos + 10)"
    by (simp add: slice_cat)
  then have hp: "frame_head t n s @ ?p = slice data pos (pos + 10 + n)" by (simp add: slice_cat)
  have drop: "drop 2 (slice data pos (pos + 10 + n)) = slice data (pos + 2) (pos + 10 + n)"
    by (simp add: slice_def drop_take add.commute)
  have "frame_bytes crc (t, s, ?p) = (frame_head t n s @ ?p) @
      le_bytes 4 (unat (crc (drop 2 (frame_head t n s @ ?p))))"
    by (simp only: frame_bytes_def prod.case p append_assoc)
  also have "\<dots> = slice data pos (pos + 10 + n) @ slice data (pos + 10 + n) (pos + 14 + n)"
    unfolding hp drop by (simp only: crc [unfolded assms(3)])
  finally show ?thesis by (simp add: slice_cat)
qed

lemma TYPES_bound: "t \<in> set TYPES \<Longrightarrow> t < 256 \<and> (\<exists>n. map_of PAYLOAD_SIZES t = Some n \<and> n \<le> MAX_PAYLOAD)"
  by (auto simp: TYPES_def PAYLOAD_SIZES_def MAX_PAYLOAD_def)

lemma PAYLOAD_SIZES_types: "map_of PAYLOAD_SIZES t = Some n \<Longrightarrow> t \<in> set TYPES \<and> n \<le> MAX_PAYLOAD"
  by (auto simp: TYPES_def PAYLOAD_SIZES_def MAX_PAYLOAD_def split: if_splits)

text \<open>Reading back a frame lying in a buffer.\<close>

lemma frame_in_buffer:
  assumes "frame_ok (t, s, p)" "data = pre @ frame_bytes crc (t, s, p) @ post"
  shows "unpack_head data (length pre) =
      \<lparr>hd_sync = SYNC, hd_version = WIRE_VERSION, hd_type = t, hd_length = length p, hd_seq = s\<rparr>"
    and "slice data (length pre + 10) (length pre + 10 + length p) = p"
    and "le_nat (slice data (length pre + 10 + length p) (length pre + 14 + length p)) =
      unat (crc (slice data (length pre + 2) (length pre + 10 + length p)))"
proof -
  have t: "t < 256" "length p < 65536" "s < 2 ^ 32"
    using assms(1) TYPES_bound [of t] by (auto simp: frame_ok_def MAX_PAYLOAD_def)
  let ?h = "frame_head t (length p) s"
  let ?c = "unat (crc (drop 2 (?h @ p)))"
  have data: "data = pre @ ?h @ p @ le_bytes 4 ?c @ post" using assms(2) by (simp add: frame_bytes_def)
  show "unpack_head data (length pre) =
      \<lparr>hd_sync = SYNC, hd_version = WIRE_VERSION, hd_type = t, hd_length = length p, hd_seq = s\<rparr>"
    unfolding data by (rule unpack_frame_head [OF t])
  show "slice data (length pre + 10) (length pre + 10 + length p) = p"
    using slice_append_mid [of "pre @ ?h" "length pre + 10" p "length p"] by (simp add: data)
  have "slice data (length pre + 10 + length p) (length pre + 10 + length p + 4) = le_bytes 4 ?c"
    using slice_append_mid [of "pre @ ?h @ p" "length pre + 10 + length p" "le_bytes 4 ?c" 4] by (simp add: data)
  moreover have "slice data (length pre + 2) (length pre + (10 + length p)) = drop 2 (?h @ p)"
    unfolding data slice_shift by (simp add: slice_def)
  moreover have "?c < 256 ^ 4" using unsigned_less [of "crc (drop 2 (?h @ p))"] by simp
  ultimately show "le_nat (slice data (length pre + 10 + length p) (length pre + 14 + length p)) =
      unat (crc (slice data (length pre + 2) (length pre + 10 + length p)))"
    by (simp add: add.assoc add.commute [of 4])
qed

section \<open>Datagrams\<close>

lemma decode_datagram_iff:
  "decode_datagram crc data accepted = Inr (t, s, p) \<longleftrightarrow>
     (\<exists>n. unpack_head data 0 = \<lparr>hd_sync = SYNC, hd_version = WIRE_VERSION, hd_type = t, hd_length = n, hd_seq = s\<rparr> \<and>
        t \<in> accepted \<and> map_of PAYLOAD_SIZES t = Some n \<and> length data = 14 + n \<and> p = slice data 10 (10 + n) \<and>
        le_nat (slice data (10 + n) (14 + n)) = unat (crc (slice data 2 (10 + n))))"
  (is "?L \<longleftrightarrow> ?R")
proof
  assume ?L
  then show ?R
    by (cases "unpack_head data 0") (auto simp: decode_datagram_def Let_def ensure_eq_Inr frame_sizes)
next
  assume ?R
  then show ?L
    by (auto simp: decode_datagram_def Let_def ensure_eq_Inr frame_sizes rev_image_eqI dest: map_of_SomeD)
qed

lemma le_nat_slice_bound: "le_nat (slice data a (a + w)) < 256 ^ w"
  by (rule less_le_trans [OF le_nat_bound]) (simp add: slice_def power_increasing)

lemma hd_seq_bound: "hd_seq (unpack_head data pos) < 2 ^ 32"
  using le_nat_slice_bound [of data "pos + 6" 4] by (simp add: unpack_head_def add.assoc)

lemma datagram_exact:
  "decode_datagram crc data accepted = Inr (t, s, p) \<longleftrightarrow>
     t \<in> accepted \<and> map_of PAYLOAD_SIZES t = Some (length p) \<and> s < 2 ^ 32 \<and>
     encode_frame crc t (int s) p = Inr data"
  (is "?L \<longleftrightarrow> ?R")
proof
  assume ?L
  then obtain n where n: "unpack_head data 0 =
      \<lparr>hd_sync = SYNC, hd_version = WIRE_VERSION, hd_type = t, hd_length = n, hd_seq = s\<rparr>"
    "t \<in> accepted" "map_of PAYLOAD_SIZES t = Some n" "length data = 14 + n" "p = slice data 10 (10 + n)"
    "le_nat (slice data (10 + n) (14 + n)) = unat (crc (slice data 2 (10 + n)))"
    unfolding decode_datagram_iff by blast
  have p: "length p = n" using n(4,5) by (simp add: slice_length)
  have s: "s < 2 ^ 32" using hd_seq_bound [of data 0] by (simp add: n(1))
  have "data = slice data 0 (0 + 14 + n)" using n(4) by (simp add: slice_def)
  also have "\<dots> = frame_bytes crc (t, s, p)"
    using frame_bytes_at [of 0 n data t s crc, unfolded add_0] n by (simp only: add_0 le_refl)
  finally have "encode_frame crc t (int s) p = Inr data"
    using PAYLOAD_SIZES_types [OF n(3)] p s by (simp add: encode_frame_bytes)
  with n(2,3) p s show ?R by simp
next
  assume R: ?R
  then have ok: "frame_ok (t, s, p)" and data: "data = [] @ frame_bytes crc (t, s, p) @ []"
    using PAYLOAD_SIZES_types [of t] encode_frame_bytes [of t p crc "int s"] by (auto simp: frame_ok_def)
  show ?L
    unfolding decode_datagram_iff
    using frame_in_buffer [OF ok data, unfolded list.size add_0] R
    by (intro exI [of _ "length p"] conjI) (simp_all only:, simp add: data)
qed

section \<open>The stream decoder\<close>

text \<open>A buffer cut into frames and the bytes skipped before each.\<close>

fun stream_bytes :: "(byte list \<Rightarrow> 32 word) \<Rightarrow> (byte list \<times> frame) list \<Rightarrow> byte list" where
  "stream_bytes crc [] = []"
| "stream_bytes crc ((g, f) # segs) = g @ frame_bytes crc f @ stream_bytes crc segs"

definition gap_bytes :: "(byte list \<times> frame) list \<Rightarrow> nat" where
  "gap_bytes segs = sum_list (map (length \<circ> fst) segs)"

lemma stream_bytes_snoc: "stream_bytes crc (segs @ [(g, f)]) = stream_bytes crc segs @ g @ frame_bytes crc f"
  by (induction crc segs rule: stream_bytes.induct) simp_all

lemma gap_bytes_simps [simp]: "gap_bytes [] = 0" "gap_bytes ((g, f) # segs) = length g + gap_bytes segs"
  "gap_bytes (segs @ [(g, f)]) = gap_bytes segs + length g"
  by (simp_all add: gap_bytes_def)

text \<open>What the loop keeps: the bytes before \<open>ds_consumed\<close> and the gaps are cut into genuine frames.\<close>

definition dec_inv :: "(byte list \<Rightarrow> 32 word) \<Rightarrow> byte list \<Rightarrow> dec_state \<Rightarrow> bool" where
  "dec_inv crc data s \<longleftrightarrow> (\<exists>segs tail. map snd segs = ds_frames s \<and> list_all frame_ok (ds_frames s) \<and>
     ds_pos s \<le> length data \<and> take (ds_pos s) data = stream_bytes crc segs @ tail \<and>
     ds_consumed s + gap_bytes segs = length (stream_bytes crc segs) \<and>
     frames_ok (ds_ctr s) = length segs)"

lemma gap_counters_other [simp]: "frames_ok (gap_counters e q c) = frames_ok c"
  "crc_errors (gap_counters e q c) = crc_errors c" "version_mismatch (gap_counters e q c) = version_mismatch c"
  "resyncs (gap_counters e q c) = resyncs c" "skipped_bytes (gap_counters e q c) = skipped_bytes c"
  by (simp_all add: gap_counters_def Let_def split: option.splits)

lemma unlock_other [simp]: "ds_frames (unlock s q) = ds_frames s" "ds_pos (unlock s q) = q + 1"
  "ds_consumed (unlock s q) = ds_consumed s" "frames_ok (ds_ctr (unlock s q)) = frames_ok (ds_ctr s)"
  by (simp_all add: unlock_def)

text \<open>The two outcomes of an iteration.\<close>

lemma dec_iter_cases:
  assumes "dec_iter crc data s = Some s'"
  obtains (skip) "ds_pos s < ds_pos s'" "ds_pos s' \<le> length data" "ds_frames s' = ds_frames s"
      "ds_consumed s' = ds_consumed s" "frames_ok (ds_ctr s') = frames_ok (ds_ctr s)"
  | (frame) pos t q n where "ds_pos s \<le> pos" "pos + 14 + n \<le> length data" "t \<in> set TYPES" "n \<le> MAX_PAYLOAD"
      "unpack_head data pos = \<lparr>hd_sync = SYNC, hd_version = WIRE_VERSION, hd_type = t, hd_length = n, hd_seq = q\<rparr>"
      "le_nat (slice data (pos + 10 + n) (pos + 14 + n)) = unat (crc (slice data (pos + 2) (pos + 10 + n)))"
      "ds_frames s' = ds_frames s @ [(t, q, slice data (pos + 10) (pos + 10 + n))]"
      "ds_consumed s' = ds_consumed s + (14 + n)" "ds_pos s' = pos + 14 + n"
      "frames_ok (ds_ctr s') = frames_ok (ds_ctr s) + 1"
proof -
  obtain i where i: "find_sync (drop (ds_pos s) data) = Some i"
    using assms by (auto simp: dec_iter_def split: option.splits)
  define pos where "pos = ds_pos s + i"
  have e: "pos + 10 + n + 4 = pos + 14 + n" "pos + 14 + n - 4 = pos + 10 + n" for n by simp_all
  note step = assms [unfolded dec_iter_def i option.case Let_def frame_sizes, folded pos_def, unfolded e]
  have pos: "ds_pos s \<le> pos" by (simp add: pos_def)
  have long: "pos + 10 \<le> length data" using step by (auto split: if_splits)
  obtain sy v t n q where h: "unpack_head data pos =
      \<lparr>hd_sync = sy, hd_version = v, hd_type = t, hd_length = n, hd_seq = q\<rparr>"
    by (cases "unpack_head data pos") auto
  note step = step [unfolded h head.simps]
  show thesis
  proof (cases "v = WIRE_VERSION \<and> t \<in> set TYPES \<and> n \<le> MAX_PAYLOAD \<and>
      le_nat (slice data (pos + 10 + n) (pos + 14 + n)) = unat (crc (slice data (pos + 2) (pos + 10 + n)))")
    case False
    show thesis
      by (rule skip) (use step long pos False in \<open>auto split: if_splits\<close>)
  next
    case True
    have "slice data pos (pos + 2) = [0x90, 0xeb]"
      using find_sync_at [OF i] by (simp add: slice_def pos_def add.commute)
    then have "sy = SYNC" using h by (simp add: unpack_head_def SYNC_def)
    show thesis
      by (rule frame [of pos n t q])
        (use step long pos True h \<open>sy = SYNC\<close> in \<open>auto split: if_splits\<close>)
  qed
qed

lemma frame_payload_ok:
  assumes "unpack_head data pos = h" "pos + 14 + hd_length h \<le> length data" "hd_type h \<in> set TYPES"
    "hd_length h \<le> MAX_PAYLOAD"
  shows "frame_ok (hd_type h, hd_seq h, slice data (pos + 10) (pos + 10 + hd_length h))"
proof -
  have "hd_seq h < 2 ^ 32" using hd_seq_bound [of data pos] assms(1) by simp
  then show ?thesis using assms by (simp add: frame_ok_def slice_length)
qed

lemma dec_iter_inv:
  assumes "dec_inv crc data s" "dec_iter crc data s = Some s'"
  shows "dec_inv crc data s'"
proof -
  obtain segs tail where I: "map snd segs = ds_frames s" "list_all frame_ok (ds_frames s)"
    "ds_pos s \<le> length data" "take (ds_pos s) data = stream_bytes crc segs @ tail"
    "ds_consumed s + gap_bytes segs = length (stream_bytes crc segs)" "frames_ok (ds_ctr s) = length segs"
    using assms(1) by (auto simp: dec_inv_def)
  from assms(2) show ?thesis
  proof (cases rule: dec_iter_cases)
    case skip
    have "take (ds_pos s') data = stream_bytes crc segs @ tail @ slice data (ds_pos s) (ds_pos s')"
      using take_slice [of "ds_pos s" "ds_pos s'" data] skip(1) I(4) by simp
    then show ?thesis using skip I unfolding dec_inv_def by metis
  next
    case (frame pos t q n)
    let ?f = "(t, q, slice data (pos + 10) (pos + 10 + n))"
    let ?g = "tail @ slice data (ds_pos s) pos"
    have ok: "frame_ok ?f" using frame_payload_ok [OF frame(5)] frame(2-4) by simp
    have "take (pos + 14 + n) data = take pos data @ slice data pos (pos + 14 + n)"
      by (rule take_slice) simp
    also have "\<dots> = stream_bytes crc (segs @ [(?g, ?f)])"
      unfolding stream_bytes_snoc frame_bytes_at [of pos n data t q crc, OF frame(2,5,6)] take_slice [OF frame(1)] I(4) by simp
    finally have "take (ds_pos s') data = stream_bytes crc (segs @ [(?g, ?f)]) @ []" by (simp add: frame(9))
    moreover have "ds_consumed s' + gap_bytes (segs @ [(?g, ?f)]) = length (stream_bytes crc (segs @ [(?g, ?f)]))"
      using I(5) frame(2) by (simp add: frame(8) stream_bytes_snoc slice_length)
    ultimately show ?thesis
      unfolding dec_inv_def using I frame(2,7,9,10) ok
      by (intro exI [of _ "segs @ [(?g, ?f)]"] exI [of _ "[]"]) simp
  qed
qed

lemma dec_loop_rule:
  assumes "P s" "\<And>s s'. P s \<Longrightarrow> dec_iter crc data s = Some s' \<Longrightarrow> P s'"
  shows "P (dec_loop crc data s)"
  using assms(1)
proof (induction "length data - ds_pos s" arbitrary: s rule: less_induct)
  case less
  show ?case
  proof (cases "dec_iter crc data s")
    case None
    then show ?thesis using less.prems by (simp add: dec_loop.simps [of _ _ s])
  next
    case (Some s')
    then have "P (dec_loop crc data s')"
      using less dec_iter_progress [OF Some] assms(2) by (meson diff_less_mono2)
    then show ?thesis using Some by (simp add: dec_loop.simps [of _ _ s])
  qed
qed

lemma stream_sound:
  "\<exists>segs rest. fst (decode_stream crc data) = map snd segs \<and> list_all (frame_ok \<circ> snd) segs \<and>
     data = stream_bytes crc segs @ rest \<and>
     skipped_bytes (snd (decode_stream crc data)) = gap_bytes segs + length rest \<and>
     frames_ok (snd (decode_stream crc data)) = length segs"
proof -
  define z where "z = dec_loop crc data dec_initial"
  have "dec_inv crc data dec_initial"
    by (simp add: dec_inv_def dec_initial_def)
  then have "dec_inv crc data z" unfolding z_def by (rule dec_loop_rule) (rule dec_iter_inv)
  then obtain segs tail where I: "map snd segs = ds_frames z" "list_all frame_ok (ds_frames z)"
    "take (ds_pos z) data = stream_bytes crc segs @ tail"
    "ds_consumed z + gap_bytes segs = length (stream_bytes crc segs)" "frames_ok (ds_ctr z) = length segs"
    by (auto simp: dec_inv_def)
  define rest where "rest = tail @ drop (ds_pos z) data"
  have data: "data = stream_bytes crc segs @ rest"
    using I(3) append_take_drop_id [of "ds_pos z" data] by (simp add: rest_def)
  have "length data - ds_consumed z = gap_bytes segs + length rest"
    using I(4) arg_cong [OF data, of length] by simp
  moreover have "list_all (frame_ok \<circ> snd) segs" using I(2) by (simp add: I(1) [symmetric] list.pred_map)
  moreover have "decode_stream crc data =
      (ds_frames z, (ds_ctr z)\<lparr>skipped_bytes := length data - ds_consumed z\<rparr>)"
    by (simp add: decode_stream_def Let_def z_def)
  ultimately show ?thesis
    using I(1,5) data by (intro exI [of _ segs] exI [of _ rest] conjI) simp_all
qed

text \<open>Frames between stretches of bytes that cannot start a frame are all recovered.\<close>

definition clean :: "byte list \<Rightarrow> bool" where
  "clean g \<longleftrightarrow> 0x90 \<notin> set g"

definition deliver :: "dec_state \<Rightarrow> byte list \<times> frame \<Rightarrow> dec_state" where
  "deliver s seg = (case seg of (g, (t, q, p)) \<Rightarrow>
     s\<lparr>ds_frames := ds_frames s @ [(t, q, p)],
       ds_ctr := gap_counters (ds_expected s) q ((ds_ctr s)\<lparr>frames_ok := frames_ok (ds_ctr s) + 1\<rparr>),
       ds_consumed := ds_consumed s + (14 + length p), ds_expected := Some ((q + 1) mod 2 ^ 32),
       ds_locked := True, ds_pos := ds_pos s + length g + (14 + length p)\<rparr>)"

lemmas deliver_eq = deliver_def [of _ "(g, t, q, p)" for g t q p, unfolded prod.case]

lemma find_sync_clean: "clean g \<Longrightarrow> find_sync (g @ 0x90 # 0xeb # xs) = Some (length g)"
proof (induction g)
  case (Cons a g)
  then show ?case by (cases g) (auto simp: clean_def)
qed simp

lemma find_sync_clean_None: "clean g \<Longrightarrow> find_sync g = None"
  by (induction g rule: find_sync.induct) (auto simp: clean_def)

lemma le_bytes_2: "le_bytes 2 n = [word_of_nat n, word_of_nat (n div 256)]"
  by (simp add: numeral_2_eq_2)

lemma frame_bytes_sync: "\<exists>xs. frame_bytes crc f = 0x90 # 0xeb # xs"
proof -
  have "le_bytes 2 SYNC = [0x90, 0xeb]" by (simp add: le_bytes_2 SYNC_def)
  then show ?thesis by (cases f) (simp add: frame_bytes_def frame_head_def)
qed

lemma dec_iter_deliver:
  assumes "ds_pos s = length pre" "data = pre @ g @ frame_bytes crc f @ post" "clean g" "frame_ok f"
  shows "dec_iter crc data s = Some (deliver s (g, f))"
proof -
  obtain t q p where f: "f = (t, q, p)" by (cases f)
  have types: "t \<in> set TYPES" "length p \<le> MAX_PAYLOAD" using assms(4) by (simp_all add: f frame_ok_def)
  obtain xs where xs: "frame_bytes crc f = 0x90 # 0xeb # xs" using frame_bytes_sync by blast
  have sync: "find_sync (drop (ds_pos s) data) = Some (length g)"
    using find_sync_clean [OF assms(3)] by (simp add: assms(1,2) xs)
  define pos where "pos = ds_pos s + length g"
  have pos: "length (pre @ g) = pos" by (simp add: pos_def assms(1))
  note buf = frame_in_buffer [OF assms(4) [unfolded f], of data "pre @ g" crc post, unfolded pos]
  have data: "data = (pre @ g) @ frame_bytes crc (t, q, p) @ post" using assms(2) f by simp
  have long: "pos + 14 + length p \<le> length data" using pos unfolding data by simp
  have e: "pos + 10 + n + 4 = pos + 14 + n" "pos + 14 + n - 4 = pos + 10 + n" for n by simp_all
  show ?thesis
    unfolding dec_iter_def sync option.case Let_def frame_sizes pos_def [symmetric] buf(1) [OF data] head.simps e
      buf(2) [OF data] buf(3) [OF data]
    using long types by (simp add: f deliver_eq pos_def)
qed

lemma dec_loop_deliver:
  "ds_pos s = length pre \<Longrightarrow> list_all (\<lambda>(g, f). clean g \<and> frame_ok f) segs \<Longrightarrow> clean rest \<Longrightarrow>
   dec_loop crc (pre @ stream_bytes crc segs @ rest) s = foldl deliver s segs"
proof (induction segs arbitrary: pre s)
  case Nil
  then have "dec_iter crc (pre @ rest) s = None"
    using find_sync_clean_None [OF Nil(3)] by (simp add: dec_iter_def)
  then show ?case by (simp add: dec_loop.simps [of _ _ s])
next
  case (Cons seg segs)
  obtain g t q p where seg: "seg = (g, (t, q, p))" by (cases seg) auto
  let ?pre = "pre @ g @ frame_bytes crc (t, q, p)"
  have "dec_iter crc (pre @ stream_bytes crc (seg # segs) @ rest) s = Some (deliver s seg)"
    unfolding seg by (rule dec_iter_deliver [of s pre]) (use Cons.prems seg in auto)
  moreover have "dec_loop crc (?pre @ stream_bytes crc segs @ rest) (deliver s seg) =
      foldl deliver (deliver s seg) segs"
    by (rule Cons.IH) (use Cons.prems in \<open>auto simp: seg deliver_eq\<close>)
  ultimately show ?case by (simp add: dec_loop.simps [of _ _ s] seg)
qed

text \<open>The counters of such a stream, from the sequence numbers alone.\<close>

definition seq_gap :: "nat \<Rightarrow> nat \<Rightarrow> nat" where
  "seq_gap a b = nat ((int b - int a - 1) mod 2 ^ 32)"

fun seq_lost :: "nat list \<Rightarrow> nat" where
  "seq_lost (a # b # qs) = (if seq_gap a b < 2 ^ 31 then seq_gap a b else 0) + seq_lost (b # qs)"
| "seq_lost _ = 0"

fun seq_jumps :: "nat list \<Rightarrow> nat" where
  "seq_jumps (a # b # qs) = (if seq_gap a b < 2 ^ 31 then 0 else 1) + seq_jumps (b # qs)"
| "seq_jumps _ = 0"

abbreviation seqs_of :: "(byte list \<times> frame) list \<Rightarrow> nat list" where
  "seqs_of segs \<equiv> map (\<lambda>(g, t, q, p). q) segs"

lemma gap_counters_next:
  "gap_counters (Some ((a + 1) mod 2 ^ 32)) b c =
     (if seq_gap a b < 2 ^ 31 then c\<lparr>lost := lost c + seq_gap a b\<rparr>
      else c\<lparr>seq_discontinuities := seq_discontinuities c + 1\<rparr>)"
proof -
  have "nat ((int b - int ((a + 1) mod 2 ^ 32)) mod 2 ^ 32) = seq_gap a b"
    by (simp add: seq_gap_def zmod_int mod_simps algebra_simps)
  then show ?thesis by (auto simp: gap_counters_def Let_def)
qed

lemma deliver_counters:
  assumes "ds_expected s = Some ((a + 1) mod 2 ^ 32)"
  shows "ds_ctr (foldl deliver s segs) = (ds_ctr s)\<lparr>frames_ok := frames_ok (ds_ctr s) + length segs,
      lost := lost (ds_ctr s) + seq_lost (a # seqs_of segs),
      seq_discontinuities := seq_discontinuities (ds_ctr s) + seq_jumps (a # seqs_of segs)\<rparr>"
  using assms
proof (induction segs arbitrary: s a)
  case (Cons seg segs)
  obtain g t q p where seg: "seg = (g, t, q, p)" by (cases seg) auto
  have "ds_expected (deliver s seg) = Some ((q + 1) mod 2 ^ 32)" by (simp add: seg deliver_eq)
  note IH = Cons.IH [OF this]
  have c: "ds_ctr (deliver s seg) =
      gap_counters (Some ((a + 1) mod 2 ^ 32)) q ((ds_ctr s)\<lparr>frames_ok := frames_ok (ds_ctr s) + 1\<rparr>)"
    using Cons.prems by (simp add: seg deliver_eq)
  show ?case unfolding foldl_Cons IH c gap_counters_next by (simp add: seg)
qed simp

lemma deliver_frames: "ds_frames (foldl deliver s segs) = ds_frames s @ map snd segs"
  by (induction segs arbitrary: s) (auto simp: deliver_def)

lemma deliver_consumed:
  "ds_consumed (foldl deliver s segs) + gap_bytes segs = ds_consumed s + length (stream_bytes crc segs)"
proof (induction segs arbitrary: s)
  case (Cons seg segs)
  obtain g t q p where seg: "seg = (g, t, q, p)" by (cases seg) auto
  from Cons.IH [of "deliver s seg"] show ?case by (simp add: seg deliver_eq)
qed simp

lemma stream_complete:
  assumes "list_all (\<lambda>(g, f). clean g \<and> frame_ok f) segs" "clean rest"
  shows "decode_stream crc (stream_bytes crc segs @ rest) = (map snd segs,
    \<lparr>frames_ok = length segs, crc_errors = 0, version_mismatch = 0, resyncs = 0,
     seq_discontinuities = seq_jumps (seqs_of segs), lost = seq_lost (seqs_of segs),
     skipped_bytes = gap_bytes segs + length rest\<rparr>)"
proof -
  have loop: "dec_loop crc (stream_bytes crc segs @ rest) dec_initial = foldl deliver dec_initial segs"
    using dec_loop_deliver [of dec_initial "[]" segs rest crc] assms by (simp add: dec_initial_def)
  have "ds_ctr (foldl deliver dec_initial segs) =
    \<lparr>frames_ok = length segs, crc_errors = 0, version_mismatch = 0, resyncs = 0,
     seq_discontinuities = seq_jumps (seqs_of segs), lost = seq_lost (seqs_of segs), skipped_bytes = 0\<rparr>"
  proof (cases segs)
    case (Cons seg segs')
    obtain g t q p where seg: "seg = (g, t, q, p)" by (cases seg) auto
    show ?thesis
      using deliver_counters [of "deliver dec_initial seg" q segs']
      by (simp add: Cons seg deliver_eq dec_initial_def gap_counters_def)
  qed (simp add: dec_initial_def)
  moreover have "ds_consumed (foldl deliver dec_initial segs) + gap_bytes segs = length (stream_bytes crc segs)"
    using deliver_consumed [of dec_initial segs crc] by (simp add: dec_initial_def)
  ultimately show ?thesis
    by (simp add: decode_stream_def Let_def loop deliver_frames) (simp add: dec_initial_def)
qed

text \<open>
  A sender counts its frames from \<open>k\<close>; a receiver that gets those with the indices \<open>ks\<close> reports
  as lost exactly the indices missing between the first and the last.
\<close>

fun sparse :: "nat list \<Rightarrow> bool" where
  "sparse (a # b # ks) \<longleftrightarrow> a < b \<and> b - a \<le> 2 ^ 31 \<and> sparse (b # ks)"
| "sparse _ \<longleftrightarrow> True"

lemma seq_gap_indices:
  assumes "a < b" "b - a \<le> 2 ^ 31"
  shows "seq_gap (a mod 2 ^ 32) (b mod 2 ^ 32) = b - a - 1"
proof -
  have "(int (b mod 2 ^ 32) - int (a mod 2 ^ 32) - 1) mod 2 ^ 32 = (int b - int a - 1) mod 2 ^ 32"
    unfolding zmod_int by (intro mod_diff_cong) simp_all
  also have "\<dots> = int b - int a - 1"
  proof (rule mod_pos_pos_trivial)
    have "int b \<le> int a + 2147483648" using assms by simp
    then show "int b - int a - 1 < 2 ^ 32" by simp
  qed (use assms in simp)
  finally show ?thesis using assms by (simp add: seq_gap_def)
qed

lemma sparse_lost:
  "sparse ks \<Longrightarrow> ks \<noteq> [] \<Longrightarrow>
     seq_jumps (map (\<lambda>k. k mod 2 ^ 32) ks) = 0 \<and> hd ks \<le> last ks \<and>
     seq_lost (map (\<lambda>k. k mod 2 ^ 32) ks) + length ks = last ks - hd ks + 1"
proof (induction ks rule: sparse.induct)
  case (1 a b ks)
  then have gap: "seq_gap (a mod 2 ^ 32) (b mod 2 ^ 32) = b - a - 1" "b - a - 1 < 2 ^ 31" "a < b"
    using seq_gap_indices [of a b] by auto
  let ?m = "map (\<lambda>k. k mod 2 ^ 32)"
  have IH: "seq_jumps (?m (b # ks)) = 0" "b \<le> last (b # ks)"
    "seq_lost (?m (b # ks)) + length (b # ks) = last (b # ks) - b + 1"
    using 1 by simp_all
  have l: "seq_lost (?m (a # b # ks)) = b - a - 1 + seq_lost (?m (b # ks))"
    "last (a # b # ks) = last (b # ks)" "length (a # b # ks) = length (b # ks) + 1"
    using gap by simp_all
  have "seq_jumps (?m (a # b # ks)) = 0" using gap IH(1) by simp
  then show ?case unfolding l list.sel using gap(3) IH(2,3) by linarith
qed simp_all

text \<open>Encoding a well-formed field mapping and decoding the payload gives the mapping back.\<close>

theorem payload_decode_encode:
  assumes "payload_ok t F"
  shows "rbind (encode_payload t F) (decode_payload t) = Inr F"
  using assms by (rule payload_roundtrip)

lemma payload_decode_encode_witness:
  "rbind (encode_payload 3 ([''applied_tick'' \<mapsto> VInt 7, ''cmd_seq'' \<mapsto> VInt 3, ''status'' \<mapsto> VInt 0,
      ''state'' \<mapsto> VInt 1, ''reason'' \<mapsto> VInt 0])) (decode_payload 3) =
    Inr [''applied_tick'' \<mapsto> VInt 7, ''cmd_seq'' \<mapsto> VInt 3, ''status'' \<mapsto> VInt 0,
      ''state'' \<mapsto> VInt 1, ''reason'' \<mapsto> VInt 0]"
proof (rule payload_decode_encode)
  show "payload_ok 3 [''applied_tick'' \<mapsto> VInt 7, ''cmd_seq'' \<mapsto> VInt 3, ''status'' \<mapsto> VInt 0,
      ''state'' \<mapsto> VInt 1, ''reason'' \<mapsto> VInt 0]"
    by (auto simp: payload_ok_def PAYLOAD_FIELDS_def value_ok_def kind_range_def field_mask_def
        check_payload_counts_def)
qed

text \<open>C29. A datagram decodes to a frame if and only if it is, byte for byte, what \<open>encode_frame\<close>
  makes of that frame, of an accepted type and with a payload of the type's size.
\<close>

theorem datagram_iff_encoded:
  "decode_datagram crc data accepted = Inr (t, s, p) \<longleftrightarrow>
     t \<in> accepted \<and> map_of PAYLOAD_SIZES t = Some (length p) \<and> s < 2 ^ 32 \<and>
     encode_frame crc t (int s) p = Inr data"
  by (rule datagram_exact)

text \<open>C30. Whatever the buffer holds, the stream decoder returns, and the frames it returns lie in the
  buffer one after the other as encoded frames; the bytes outside them are the skipped bytes.
\<close>

theorem decode_stream_sound:
  "\<exists>segs rest. fst (decode_stream crc data) = map snd segs \<and> list_all (frame_ok \<circ> snd) segs \<and>
     data = stream_bytes crc segs @ rest \<and>
     skipped_bytes (snd (decode_stream crc data)) = gap_bytes segs + length rest \<and>
     frames_ok (snd (decode_stream crc data)) = length segs"
  by (rule stream_sound)

text \<open>C31. Frames interleaved with bytes that cannot start a frame are all recovered, without a
  resync or an error, and the counters are those of the sequence numbers.
\<close>

theorem decode_stream_complete:
  assumes "list_all (\<lambda>(g, f). clean g \<and> frame_ok f) segs" "clean rest"
  shows "decode_stream crc (stream_bytes crc segs @ rest) = (map snd segs,
    \<lparr>frames_ok = length segs, crc_errors = 0, version_mismatch = 0, resyncs = 0,
     seq_discontinuities = seq_jumps (seqs_of segs), lost = seq_lost (seqs_of segs),
     skipped_bytes = gap_bytes segs + length rest\<rparr>)"
  using assms by (rule stream_complete)

lemma decode_stream_complete_witness:
  "fst (decode_stream (\<lambda>_. 0) (stream_bytes (\<lambda>_. 0) [([1, 2], (3, 5, [7])), ([], (2, 6, []))] @ [3])) =
     [(3, 5, [7]), (2, 6, [])]"
  by (subst decode_stream_complete) (simp_all add: clean_def frame_ok_def TYPES_def MAX_PAYLOAD_def)

text \<open>A sender numbers its frames with a 32-bit counter; of a recording that keeps the frames
  with the indices \<open>ks\<close> the decoder counts as lost exactly the indices missing in between, also
  where the counter wraps.
\<close>

theorem decode_stream_lost:
  assumes "list_all (\<lambda>(g, f). clean g \<and> frame_ok f) segs" "clean rest"
    and "seqs_of segs = map (\<lambda>k. k mod 2 ^ 32) ks" "sparse ks" "ks \<noteq> []"
  shows "lost (snd (decode_stream crc (stream_bytes crc segs @ rest))) + length ks = last ks - hd ks + 1"
  using sparse_lost [OF assms(4,5)] by (simp add: stream_complete [OF assms(1,2)] assms(3))

lemma decode_stream_lost_witness:
  "lost (snd (decode_stream (\<lambda>_. 0) (stream_bytes (\<lambda>_. 0) [([], (2, 4294967295, [])), ([], (2, 3, []))] @ []))) + 2 =
     4294967299 - 4294967295 + 1"
  using decode_stream_lost [of "[([], (2, 4294967295, [])), ([], (2, 3, []))]" "[]"
      "[4294967295, 4294967299]" "\<lambda>_. 0"]
  by (simp add: clean_def frame_ok_def TYPES_def MAX_PAYLOAD_def)

section \<open>Recording round trips\<close>

lemma pack_int_Inr: "pack_int sg n = Inr bs \<longleftrightarrow> to_bytes 8 sg n = Inr bs"
  by (auto simp: pack_int_def split: sum.splits)

text \<open>The bytes of a recording's header.\<close>

definition header_bytes :: "nat \<Rightarrow> int \<Rightarrow> int \<Rightarrow> byte list" where
  "header_bytes t start epoch =
     MAGIC @ le_bytes 2 WIRE_VERSION @ le_bytes 2 0 @ le_bytes 4 (the (map_of SCHEMA_HASHES t)) @
     le_bytes 8 (nat (start mod 256 ^ 8)) @ le_bytes 8 (nat (epoch mod 256 ^ 8))"

definition int64_ok :: "int \<Rightarrow> bool" where
  "int64_ok n \<longleftrightarrow> - (2 ^ 63) \<le> n \<and> n < 2 ^ 63"

lemma le_signed_int64: "int64_ok n \<Longrightarrow> le_signed (le_bytes 8 (nat (n mod 256 ^ 8))) = n"
  using to_bytes_signed [of 8 n] by (simp add: int64_ok_def to_bytes_Inr)

lemma length_header_bytes [simp]: "length (header_bytes t start epoch) = FILE_HEADER_SIZE"
  by (simp add: header_bytes_def MAGIC_def FILE_HEADER_SIZE_def)

lemma unpack_header_bytes:
  assumes "t \<in> {1, 4, 6}" "int64_ok start" "int64_ok epoch"
  shows "unpack_header (header_bytes t start epoch @ rest) =
    (\<lparr>rh_magic = MAGIC, rh_version = WIRE_VERSION, rh_schema_hash = the (map_of SCHEMA_HASHES t),
      rh_start_monotonic_ns = start, rh_start_epoch_ns = epoch, rh_schema_known = (t = 1)\<rparr>, 0)"
proof -
  let ?h = "the (map_of SCHEMA_HASHES t)" and ?d = "header_bytes t start epoch @ rest"
  have "slice ?d 0 8 = MAGIC" "slice ?d 8 10 = le_bytes 2 WIRE_VERSION" "slice ?d 10 12 = le_bytes 2 0"
    "slice ?d 12 16 = le_bytes 4 ?h" "slice ?d 16 24 = le_bytes 8 (nat (start mod 256 ^ 8))"
    "slice ?d 24 32 = le_bytes 8 (nat (epoch mod 256 ^ 8))"
    by (simp_all add: slice_def header_bytes_def MAGIC_def del: le_bytes.simps)
  note fs = this
  have h: "?h < 256 ^ 4" "(map_of SCHEMA_HASHES 1 = Some ?h) = (t = 1)"
    using assms(1) by (auto simp: SCHEMA_HASHES_def)
  show ?thesis
    unfolding unpack_header_def fs le_nat_le_bytes le_signed_int64 [OF assms(2)] le_signed_int64 [OF assms(3)]
    using h by (simp add: WIRE_VERSION_def)
qed

text \<open>A recording of type-\<open>t\<close> frames that carry the fields \<open>rows\<close>, with sequence numbers from \<open>q\<close>.\<close>

fun recorded :: "(byte list \<Rightarrow> 32 word) \<Rightarrow> nat \<Rightarrow> nat \<Rightarrow> fields list \<Rightarrow> byte list result" where
  "recorded crc t q [] = Inr []"
| "recorded crc t q (F # rows) =
     rbind (encode_payload t F) (\<lambda>p.
     rbind (encode_frame crc t (int q) p) (\<lambda>f.
     rbind (recorded crc t (q + 1) rows) (\<lambda>fs. Inr (f @ fs))))"

lemma payload_encoded:
  assumes "payload_ok t F"
  obtains p where "encode_payload t F = Inr p" "decode_payload t p = Inr F" "t \<in> set TYPES" "length p \<le> MAX_PAYLOAD"
proof -
  obtain p where p: "encode_payload t F = Inr p" "decode_payload t p = Inr F"
    using payload_roundtrip [OF assms] by (auto simp: rbind_eq_Inr)
  obtain fs where "map_of PAYLOAD_FIELDS t = Some fs" using assms by (auto simp: payload_ok_def)
  then obtain sz where "payload_table t fs sz" using payload_table_exists by blast
  then have "map_of PAYLOAD_SIZES t = Some sz" by (simp add: payload_table_def)
  moreover have "length p = the (map_of PAYLOAD_SIZES t)"
    using p(2) by (auto simp: decode_payload_def ensure_eq_Inr split: option.splits)
  ultimately show thesis using that p PAYLOAD_SIZES_types [of t sz] by auto
qed

lemma recorded_stream:
  assumes "list_all (payload_ok t) rows"
  shows "\<exists>fs. recorded crc t q rows = Inr (stream_bytes crc (map (Pair []) fs)) \<and> list_all frame_ok fs \<and>
    typed_records t fs = Inr rows \<and> map (\<lambda>(t, q, p). q) fs = map (\<lambda>k. k mod 2 ^ 32) [q..<q + length rows]"
  using assms
proof (induction rows arbitrary: q)
  case (Cons F rows)
  obtain p where p: "encode_payload t F = Inr p" "decode_payload t p = Inr F" "t \<in> set TYPES" "length p \<le> MAX_PAYLOAD"
    using payload_encoded [of t F] Cons.prems by auto
  obtain fs where fs: "recorded crc t (q + 1) rows = Inr (stream_bytes crc (map (Pair []) fs))"
    "list_all frame_ok fs" "typed_records t fs = Inr rows"
    "map (\<lambda>(t, q, p). q) fs = map (\<lambda>k. k mod 2 ^ 32) [q + 1..<q + 1 + length rows]"
    using Cons.IH [of "q + 1"] Cons.prems by auto
  have q: "nat (int q mod 2 ^ 32) = q mod 2 ^ 32" by (simp add: nat_mod_distrib nat_power_eq)
  let ?f = "(t, q mod 2 ^ 32, p)"
  have "recorded crc t q (F # rows) = Inr (stream_bytes crc (map (Pair []) (?f # fs)))"
    unfolding recorded.simps p(1) rbind_Inr encode_frame_bytes [OF p(3,4)] q fs(1) by simp
  moreover have "typed_records t (?f # fs) = Inr (F # rows)" by (simp add: p fs(3))
  moreover have "frame_ok ?f" using p by (simp add: frame_ok_def)
  moreover have "[q..<q + length (F # rows)] = q # [q + 1..<q + 1 + length rows]"
    using upt_conv_Cons [of q "q + length (F # rows)"] by simp
  ultimately show ?case using fs(2,4) by (intro exI [of _ "?f # fs"]) simp
qed simp

lemma typed_recording_empty:
  assumes "t \<in> {1, 4, 6}" "int64_ok start" "int64_ok epoch"
  shows "read_typed_recording crc (header_bytes t start epoch) t =
    Inr (\<lparr>rh_magic = MAGIC, rh_version = WIRE_VERSION, rh_schema_hash = the (map_of SCHEMA_HASHES t),
          rh_start_monotonic_ns = start, rh_start_epoch_ns = epoch, rh_schema_known = True\<rparr>, [],
      \<lparr>frames_ok = 0, crc_errors = 0, version_mismatch = 0, resyncs = 0,
       seq_discontinuities = 0, lost = 0, skipped_bytes = 0\<rparr>)"
proof -
  have "decode_stream crc [] = ([], \<lparr>frames_ok = 0, crc_errors = 0, version_mismatch = 0, resyncs = 0,
       seq_discontinuities = 0, lost = 0, skipped_bytes = 0\<rparr>)"
    using stream_complete [of "[]" "[]" crc] by (simp add: clean_def)
  moreover have "map_of FILE_SCHEMAS (the (map_of SCHEMA_HASHES t)) = Some t"
    "the (map_of SCHEMA_HASHES t) \<in> fst ` set FILE_SCHEMAS"
    using assms(1) by (auto simp: FILE_SCHEMAS_def SCHEMA_HASHES_def)
  ultimately show ?thesis
    using assms(1) unpack_header_bytes [OF assms, of "[]"] by (simp add: read_typed_recording_def)
qed

lemma sparse_upt: "sparse [a..<b]"
proof (induction "b - a" arbitrary: a)
  case (Suc n)
  then have "[a..<b] = a # [Suc a..<b]" by (simp add: upt_conv_Cons)
  moreover have "sparse [Suc a..<b]" using Suc by simp
  ultimately show ?case by (cases "Suc a < b") (simp_all add: upt_conv_Cons)
qed simp

lemma typed_recording_reads:
  assumes "t \<in> {1, 4, 6}" "int64_ok start" "int64_ok epoch" "list_all (payload_ok t) rows"
  shows "rbind (recorded crc t q rows) (\<lambda>body. read_typed_recording crc (header_bytes t start epoch @ body) t) =
    Inr (\<lparr>rh_magic = MAGIC, rh_version = WIRE_VERSION, rh_schema_hash = the (map_of SCHEMA_HASHES t),
          rh_start_monotonic_ns = start, rh_start_epoch_ns = epoch, rh_schema_known = True\<rparr>, rows,
      \<lparr>frames_ok = length rows, crc_errors = 0, version_mismatch = 0, resyncs = 0,
       seq_discontinuities = 0, lost = 0, skipped_bytes = 0\<rparr>)"
proof -
  obtain fs where fs: "recorded crc t q rows = Inr (stream_bytes crc (map (Pair []) fs))"
    "list_all frame_ok fs" "typed_records t fs = Inr rows"
    "map (\<lambda>(t, q, p). q) fs = map (\<lambda>k. k mod 2 ^ 32) [q..<q + length rows]"
    using recorded_stream [OF assms(4), of crc q] by blast
  have len: "length fs = length rows" using arg_cong [OF fs(4), of length] by simp
  have seqs: "seq_jumps (map (\<lambda>(t, q, p). q) fs) = 0 \<and> seq_lost (map (\<lambda>(t, q, p). q) fs) = 0"
  proof (cases "rows = []")
    case False
    then show ?thesis
      using sparse_lost [OF sparse_upt, of q "q + length rows"] by (simp add: fs(4))
  qed (use len in simp)
  have "list_all (\<lambda>(g, f). clean g \<and> frame_ok f) (map (Pair []) fs)"
    using fs(2) by (simp add: list.pred_map comp_def clean_def)
  from stream_complete [OF this, of "[]" crc]
  have dec: "decode_stream crc (stream_bytes crc (map (Pair []) fs)) = (fs,
      \<lparr>frames_ok = length rows, crc_errors = 0, version_mismatch = 0, resyncs = 0,
       seq_discontinuities = 0, lost = 0, skipped_bytes = 0\<rparr>)"
    using seqs len by (simp add: clean_def gap_bytes_def comp_def)
  have "map_of FILE_SCHEMAS (the (map_of SCHEMA_HASHES t)) = Some t"
    "the (map_of SCHEMA_HASHES t) \<in> fst ` set FILE_SCHEMAS"
    using assms(1) by (auto simp: FILE_SCHEMAS_def SCHEMA_HASHES_def)
  then show ?thesis
    using assms(1) fs(3)
    by (simp add: fs(1) read_typed_recording_def unpack_header_bytes [OF assms(1-3)] dec)
qed

text \<open>C32. A recording file of well-formed rows reads back as those rows, with every frame accepted,
  nothing skipped and nothing lost, also where the frame counter wraps.
\<close>

theorem typed_recording_roundtrip:
  assumes "t \<in> {1, 4, 6}" "int64_ok start" "int64_ok epoch" "list_all (payload_ok t) rows"
  shows "rbind (recorded crc t q rows) (\<lambda>body. read_typed_recording crc (header_bytes t start epoch @ body) t) =
    Inr (\<lparr>rh_magic = MAGIC, rh_version = WIRE_VERSION, rh_schema_hash = the (map_of SCHEMA_HASHES t),
          rh_start_monotonic_ns = start, rh_start_epoch_ns = epoch, rh_schema_known = True\<rparr>, rows,
      \<lparr>frames_ok = length rows, crc_errors = 0, version_mismatch = 0, resyncs = 0,
       seq_discontinuities = 0, lost = 0, skipped_bytes = 0\<rparr>)"
  by (rule typed_recording_reads [OF assms])

definition example_row :: fields where
  "example_row = [''tick'' \<mapsto> VInt 9, ''deadline_ns'' \<mapsto> VInt 500, ''woke_ns'' \<mapsto> VInt 501, ''done_ns'' \<mapsto> VInt (- 1),
     ''theta'' \<mapsto> VFlt 0x3FF0000000000000, ''cmd'' \<mapsto> VFlt 0, ''drops'' \<mapsto> VInt 2]"

lemma example_row_ok: "payload_ok 1 example_row"
  by (auto simp: payload_ok_def example_row_def PAYLOAD_FIELDS_def value_ok_def kind_range_def field_mask_def
      check_payload_counts_def)

lemma typed_recording_roundtrip_witness:
  "rbind (recorded (\<lambda>_. 0) 1 4294967295 [example_row, example_row])
     (\<lambda>body. read_typed_recording (\<lambda>_. 0) (header_bytes 1 5 (- 6) @ body) 1) =
    Inr (\<lparr>rh_magic = MAGIC, rh_version = WIRE_VERSION, rh_schema_hash = 0xA871CD84,
          rh_start_monotonic_ns = 5, rh_start_epoch_ns = - 6, rh_schema_known = True\<rparr>, [example_row, example_row],
      \<lparr>frames_ok = 2, crc_errors = 0, version_mismatch = 0, resyncs = 0,
       seq_discontinuities = 0, lost = 0, skipped_bytes = 0\<rparr>)"
  by (subst typed_recording_roundtrip) (simp_all add: int64_ok_def SCHEMA_HASHES_def example_row_ok del: One_nat_def)

end
