(* ===== verification/Effects.thy ===== *)
theory Effects
  imports Prelude
begin

text \<open>
  Statements that change a state and may raise: functions from a state to the state they leave
  and a result. An exception keeps the changes made before it, as in Python. \<open>keeps\<close> and
  \<open>steps\<close> are the Hoare triples that the components use, with one rule per combinator.
\<close>

type_synonym ('s, 'a) act = "'s \<Rightarrow> 's \<times> 'a result"

definition sbind :: "('s, 'a) act \<Rightarrow> ('a \<Rightarrow> ('s, 'b) act) \<Rightarrow> ('s, 'b) act" where
  "sbind m f s = (case m s of (s', Inl e) \<Rightarrow> (s', Inl e) | (s', Inr a) \<Rightarrow> f a s')"

definition lift_result :: "'a result \<Rightarrow> ('s, 'a) act" where
  "lift_result r s = (s, r)"

definition modify :: "('s \<Rightarrow> 's) \<Rightarrow> ('s, unit) act" where
  "modify f s = (f s, Inr ())"

definition gets :: "('s \<Rightarrow> 'a) \<Rightarrow> ('s, 'a) act" where
  "gets f s = (s, Inr (f s))"

abbreviation raise :: "exn \<Rightarrow> ('s, 'a) act" where
  "raise e \<equiv> lift_result (Inl e)"

abbreviation give :: "'a \<Rightarrow> ('s, 'a) act" where
  "give a \<equiv> lift_result (Inr a)"

lemma sbind_simps [simp]: "sbind (modify g) f s = f () (g s)" "sbind (gets h) f1 s = f1 (h s) s"
  "sbind (give a) f2 s = f2 a s" "sbind (raise e) f3 s = (s, Inl e)"
  by (simp_all add: sbind_def modify_def gets_def lift_result_def)

lemma sbind_Inr: "sbind m f s = (s'', Inr b) \<longleftrightarrow> (\<exists>s' a. m s = (s', Inr a) \<and> f a s' = (s'', Inr b))"
  by (auto simp: sbind_def split: prod.splits sum.splits)

text \<open>\<open>steps P m Q\<close>: from a state in \<open>P\<close> every outcome of \<open>m\<close>, a value or an exception, satisfies \<open>Q\<close>.\<close>

definition steps :: "('s \<Rightarrow> bool) \<Rightarrow> ('s, 'a) act \<Rightarrow> ('a result \<Rightarrow> 's \<Rightarrow> bool) \<Rightarrow> bool" where
  "steps P m Q \<longleftrightarrow> (\<forall>s s' r. P s \<longrightarrow> m s = (s', r) \<longrightarrow> Q r s')"

abbreviation keeps :: "('s \<Rightarrow> bool) \<Rightarrow> ('s, 'a) act \<Rightarrow> bool" where
  "keeps I m \<equiv> steps I m (\<lambda>_. I)"

named_theorems steps_intro \<open>rules for triples over the combinators\<close>

lemma steps_sbind:
  assumes "steps P m (\<lambda>r s. case r of Inl e \<Rightarrow> Q (Inl e) s | Inr a \<Rightarrow> R a s)" "\<And>a. steps (R a) (f a) Q"
  shows "steps P (sbind m f) Q"
  unfolding steps_def
proof (intro allI impI)
  fix s s' r
  assume P: "P s" and run: "sbind m f s = (s', r)"
  obtain t x where t: "m s = (t, x)" by (cases "m s")
  then have Q: "case x of Inl e \<Rightarrow> Q (Inl e) t | Inr a \<Rightarrow> R a t"
    using assms(1) P by (auto simp: steps_def)
  show "Q r s'"
  proof (cases x)
    case (Inl e)
    then show ?thesis using run t Q by (simp add: sbind_def)
  next
    case (Inr a)
    then have "f a t = (s', r)" "R a t" using run t Q by (simp_all add: sbind_def)
    then show ?thesis using assms(2) [of a] by (simp add: steps_def)
  qed
qed

lemma keeps_sbind [steps_intro]:
  fixes m :: "('s, 'a) act"
  assumes "keeps I m" "\<And>a. keeps I (f a)"
  shows "keeps I (sbind m f)"
proof (rule steps_sbind [where R = "\<lambda>_. I"])
  have "(\<lambda>(r :: 'a result) s. case r of Inl e \<Rightarrow> I s | Inr a \<Rightarrow> I s) = (\<lambda>_. I)"
    by (intro ext) (simp split: sum.split)
  then show "steps I m (\<lambda>r s. case r of Inl e \<Rightarrow> I s | Inr a \<Rightarrow> I s)" using assms(1) by (simp only:)
qed (rule assms(2))

lemma keeps_lift [steps_intro]: "keeps I (lift_result r)"
  by (simp add: steps_def lift_result_def)

lemma keeps_gets [steps_intro]: "keeps I (gets f)"
  by (simp add: steps_def gets_def)

lemma keeps_modify: "(\<And>s. I s \<Longrightarrow> I (f s)) \<Longrightarrow> keeps I (modify f)"
  by (simp add: steps_def modify_def)

lemma keeps_if [steps_intro]: "(c \<Longrightarrow> keeps I m) \<Longrightarrow> (\<not> c \<Longrightarrow> keeps I m') \<Longrightarrow> keeps I (if c then m else m')"
  by simp

lemma keepsD: "keeps I m \<Longrightarrow> I s \<Longrightarrow> m s = (s', r) \<Longrightarrow> I s'"
  by (simp add: steps_def)

lemma keepsI: "(\<And>s s' r. I s \<Longrightarrow> m s = (s', r) \<Longrightarrow> I s') \<Longrightarrow> keeps I m"
  by (simp add: steps_def)

end
