(* ===== verification/Lockstep.thy ===== *)
theory Lockstep
  imports Headless Wire Effects
begin

text \<open>
  The lockstep simulator process of \<open>sim/run_sim.py\<close>: per tick one modelled sample, at most 26
  physical sends of its frame until the vehicle's reply arrives, then exactly one model step.
  What the socket does is a script: for each tick and attempt, the outcome of the send and what
  the receives return until they time out.
\<close>

section \<open>Counters\<close>

record sender =
  sn_generated :: int
  sn_original_attempts :: int
  sn_retry_attempts :: int
  sn_not_attempted :: int
  sn_send_attempts :: int
  sn_send_pending :: int
  sn_tx_fail :: int
  sn_transmitted :: int
  sn_first_transmitted :: int
  sn_additional_copies :: int
  sn_never_transmitted :: int
  sn_sample_loss :: int
  sn_first_tick :: "int option"
  sn_last_tick :: "int option"

definition sender_counts :: sender where
  "sender_counts = \<lparr>sn_generated = 0, sn_original_attempts = 0, sn_retry_attempts = 0, sn_not_attempted = 0,
     sn_send_attempts = 0, sn_send_pending = 0, sn_tx_fail = 0, sn_transmitted = 0, sn_first_transmitted = 0,
     sn_additional_copies = 0, sn_never_transmitted = 0, sn_sample_loss = 0, sn_first_tick = None, sn_last_tick = None\<rparr>"

record receipt =
  rc_received_raw :: int
  rc_malformed :: int
  rc_received :: int
  rc_decode_pending :: int
  rc_logical_received :: int
  rc_discarded_duplicate :: int
  rc_rejected_received :: int
  rc_classification_pending :: int
  rc_modeled_command_loss :: int
  rc_forwarded_to_delay :: int
  rc_disposition_pending :: int
  rc_test_discarded :: int
  rc_discarded_old :: int

definition receiver_counts :: receipt where
  "receiver_counts = \<lparr>rc_received_raw = 0, rc_malformed = 0, rc_received = 0, rc_decode_pending = 0,
     rc_logical_received = 0, rc_discarded_duplicate = 0, rc_rejected_received = 0, rc_classification_pending = 0,
     rc_modeled_command_loss = 0, rc_forwarded_to_delay = 0, rc_disposition_pending = 0, rc_test_discarded = 0,
     rc_discarded_old = 0\<rparr>"

section \<open>The state of a run\<close>

text \<open>A decoded actuator payload; \<open>decode_payload\<close> gives every field in its kind.\<close>

record reply =
  rp_tick :: int
  rp_veh_tick :: int
  rp_sensor_send_ns :: int
  rp_veh_send_ns :: int
  rp_delta :: f64
  rp_status :: int
  rp_staleness :: int

definition int_at :: "(string \<Rightarrow> fvalue option) \<Rightarrow> string \<Rightarrow> int" where
  "int_at F k = (case F k of Some (VInt n) \<Rightarrow> n | _ \<Rightarrow> 0)"

definition flt_at :: "(string \<Rightarrow> fvalue option) \<Rightarrow> string \<Rightarrow> f64" where
  "flt_at F k = (case F k of Some (VFlt x) \<Rightarrow> x | _ \<Rightarrow> 0)"

definition reply_of :: "(string \<Rightarrow> fvalue option) \<Rightarrow> reply" where
  "reply_of F = \<lparr>rp_tick = int_at F ''tick'', rp_veh_tick = int_at F ''veh_tick'',
     rp_sensor_send_ns = int_at F ''t_sensor_send_ns'', rp_veh_send_ns = int_at F ''t_veh_send_ns'',
     rp_delta = flt_at F ''delta'', rp_status = int_at F ''status'', rp_staleness = int_at F ''staleness''\<rparr>"

text \<open>A row keeps the floats themselves; the code prints their words.\<close>

record lrow =
  lr_tick :: int
  lr_has_sample :: bool
  lr_applied :: bool
  lr_theta :: f64
  lr_omega :: f64
  lr_cmd_applied :: f64

record lock =
  lk_up :: sender
  lk_down :: receipt
  lk_stream_up :: splitmix
  lk_stream_down :: splitmix
  lk_draws :: int
  lk_truth :: truth_state
  lk_act :: actuator_state
  lk_delay :: "f64 option list"
  lk_rows :: "lrow list"
  lk_replies :: "reply list"
  lk_last_reply :: "byte list option"
  lk_command_seq :: int
  lk_pending_reason :: "int option"
  lk_final_reason :: int
  lk_vehicle_seen :: "int option"
  lk_inputs :: "byte list list"

definition lock_initial :: "scenario \<Rightarrow> int \<Rightarrow> nat \<Rightarrow> lock result" where
  "lock_initial sc seed delay_ticks =
     rbind (stream_state seed ''link.loss.up'') (\<lambda>up.
     rbind (stream_state seed ''link.loss.down'') (\<lambda>down.
       Inr \<lparr>lk_up = sender_counts, lk_down = receiver_counts, lk_stream_up = splitmix_init up,
         lk_stream_down = splitmix_init down, lk_draws = 0, lk_truth = sc_initial sc, lk_act = actuator_initial,
         lk_delay = replicate delay_ticks None, lk_rows = [], lk_replies = [], lk_last_reply = None,
         lk_command_seq = 0, lk_pending_reason = None, lk_final_reason = SIM_PEER_LOST,
         lk_vehicle_seen = None, lk_inputs = []\<rparr>))"

section \<open>One tick: the modelled sample\<close>

definition draw_up :: "f64 \<Rightarrow> (lock, bool) act" where
  "draw_up p s = (case draw_drop (lk_stream_up s) p of
     Inl e \<Rightarrow> (s, Inl e) | Inr (b, g) \<Rightarrow> (s\<lparr>lk_stream_up := g\<rparr>, Inr b))"

definition draw_down :: "f64 \<Rightarrow> (lock, bool) act" where
  "draw_down p s = (case draw_drop (lk_stream_down s) p of
     Inl e \<Rightarrow> (s, Inl e) | Inr (b, g) \<Rightarrow> (s\<lparr>lk_stream_down := g\<rparr>, Inr b))"

definition sensor_reason :: "scenario \<Rightarrow> int \<Rightarrow> lock \<Rightarrow> int option" where
  "sensor_reason sc tick s =
     (if lk_pending_reason s = None \<and> tick = sc_ticks sc - 1 then Some SIM_HORIZON else lk_pending_reason s)"

text \<open>The sample's fields: what the vehicle is to see at this tick.\<close>

definition sensor_fields :: "int \<Rightarrow> truth_state \<Rightarrow> bool \<Rightarrow> int option \<Rightarrow> int option \<Rightarrow> int \<Rightarrow> fields" where
  "sensor_fields tick truth up_drop op sim_reason seq =
     (let ob = observe tick truth;
          flags = (if up_drop then 0 else 1)
      in [''tick'' \<mapsto> VInt tick, ''t_send_ns'' \<mapsto> VInt 0,
          ''theta'' \<mapsto> VFlt (if up_drop then f_zero False else obs_theta ob),
          ''omega'' \<mapsto> VFlt (if up_drop then f_zero False else obs_omega ob),
          ''flags'' \<mapsto> VInt ((flags OR (case op of None \<Rightarrow> 0 | Some v \<Rightarrow> 4 OR push_bit 8 v)) OR
            (if sim_reason = None then 0 else 2)),
          ''cmd_seq'' \<mapsto> VInt (if op = None then 0 else seq),
          ''sim_reason'' \<mapsto> VInt (case sim_reason of None \<Rightarrow> 0 | Some r \<Rightarrow> r)])"

definition sensor_frame :: "(byte list \<Rightarrow> 32 word) \<Rightarrow> scenario \<Rightarrow> int \<Rightarrow> bool \<Rightarrow> (lock, byte list) act" where
  "sensor_frame crc sc tick up_drop =
     sbind (lift_result (command_at sc tick)) (\<lambda>name.
     sbind (case name of
         None \<Rightarrow> give None
       | Some op \<Rightarrow>
           sbind (modify (\<lambda>s. s\<lparr>lk_command_seq := (lk_command_seq s + 1) mod 2 ^ 32\<rparr>)) (\<lambda>_.
             lift_result (rbind (opcode_of op) (\<lambda>v. Inr (Some v))))) (\<lambda>op.
     sbind (gets (\<lambda>s. sensor_fields tick (lk_truth s) up_drop op (sensor_reason sc tick s) (lk_command_seq s))) (\<lambda>F.
       lift_result (rbind (encode_payload 4 F) (encode_frame crc 4 tick)))))"

definition count_generated :: "int \<Rightarrow> sender \<Rightarrow> sender" where
  "count_generated tick u =
     u\<lparr>sn_generated := sn_generated u + 1, sn_not_attempted := sn_not_attempted u + 1,
       sn_never_transmitted := sn_never_transmitted u + 1,
       sn_first_tick := (if sn_first_tick u = None then Some tick else sn_first_tick u), sn_last_tick := Some tick\<rparr>"

section \<open>One tick: the physical exchange\<close>

datatype send_result = Sent nat | SendFails int
datatype reply_event = Reply "byte list" | ReplyTimeout | ReplyFails int

record attempt_script =
  at_send :: send_result
  at_events :: "reply_event list"

text \<open>A send: every attempt ends as a copy on the wire or as a failure, nothing is left pending.\<close>

definition count_attempt :: "nat \<Rightarrow> sender \<Rightarrow> sender" where
  "count_attempt attempt u =
     (let u = u\<lparr>sn_send_attempts := sn_send_attempts u + 1, sn_send_pending := sn_send_pending u + 1\<rparr>
      in if attempt = 0 then
           u\<lparr>sn_original_attempts := sn_original_attempts u + 1, sn_not_attempted := sn_not_attempted u - 1\<rparr>
         else u\<lparr>sn_retry_attempts := sn_retry_attempts u + 1\<rparr>)"

definition count_sent :: "bool \<Rightarrow> bool \<Rightarrow> sender \<Rightarrow> sender" where
  "count_sent sent logged u =
     (let u = (if \<not> sent then u\<lparr>sn_tx_fail := sn_tx_fail u + 1\<rparr>
               else (let u = u\<lparr>sn_transmitted := sn_transmitted u + 1\<rparr>
                     in if logged then u\<lparr>sn_additional_copies := sn_additional_copies u + 1\<rparr>
                        else u\<lparr>sn_first_transmitted := sn_first_transmitted u + 1,
                               sn_never_transmitted := sn_never_transmitted u - 1\<rparr>))
      in u\<lparr>sn_send_pending := sn_send_pending u - 1\<rparr>)"

definition send_ok :: "int option \<Rightarrow> int \<Rightarrow> nat \<Rightarrow> byte list \<Rightarrow> send_result \<Rightarrow> bool" where
  "send_ok fail_sensor tick attempt frame res \<longleftrightarrow>
     \<not> (attempt = 0 \<and> fail_sensor = Some tick) \<and> res = Sent (length frame)"

definition send_frame :: "nat \<Rightarrow> byte list \<Rightarrow> bool \<Rightarrow> bool \<Rightarrow> lock \<Rightarrow> lock" where
  "send_frame attempt frame sent logged s =
     s\<lparr>lk_up := count_sent sent logged (count_attempt attempt (lk_up s)),
       lk_inputs := (if sent \<and> \<not> logged then lk_inputs s @ [frame] else lk_inputs s)\<rparr>"

definition count_down :: "(receipt \<Rightarrow> receipt) \<Rightarrow> lock \<Rightarrow> lock" where
  "count_down f s = s\<lparr>lk_down := f (lk_down s)\<rparr>"

definition rc_reject :: "receipt \<Rightarrow> receipt" where
  "rc_reject c = c\<lparr>rc_rejected_received := rc_rejected_received c + 1\<rparr>"

text \<open>One received datagram: \<open>None\<close> keeps waiting.\<close>

definition classify_reply :: "int option \<Rightarrow> int \<Rightarrow> byte list \<Rightarrow> reply \<Rightarrow> (lock, reply option) act" where
  "classify_reply drop_actuator tick data value s =
     (if drop_actuator = Some (rc_received_raw (lk_down s)) then
        (count_down (\<lambda>c. rc_reject (c\<lparr>rc_test_discarded := rc_test_discarded c + 1\<rparr>)) s, Inr None)
      else if rp_tick value \<noteq> tick then
        (if Some data = lk_last_reply s then
           (count_down (\<lambda>c. c\<lparr>rc_discarded_duplicate := rc_discarded_duplicate c + 1\<rparr>) s, Inr None)
         else (count_down (\<lambda>c. rc_reject (c\<lparr>rc_discarded_old := rc_discarded_old c + 1\<rparr>)) s, Inr None))
      else if rp_veh_tick value \<noteq> tick \<or> \<not> f_finite (rp_delta value) then
        (count_down rc_reject s, Inl (ValueError ''invalid actuator identity or command''))
      else if rp_sensor_send_ns value \<noteq> 0 \<or> rp_veh_send_ns value \<noteq> 0 then
        (count_down rc_reject s, Inl (ValueError ''nonzero lockstep actuator timestamp''))
      else ((count_down (\<lambda>c. c\<lparr>rc_logical_received := rc_logical_received c + 1\<rparr>) s)\<lparr>lk_last_reply := Some data\<rparr>,
            Inr (Some value)))"

definition classify ::
  "(byte list \<Rightarrow> 32 word) \<Rightarrow> int option \<Rightarrow> int \<Rightarrow> byte list \<Rightarrow> (lock, reply option) act" where
  "classify crc drop_actuator tick data s0 =
     (let s = count_down (\<lambda>c. c\<lparr>rc_received_raw := rc_received_raw c + 1\<rparr>) s0
      in case rbind (decode_datagram crc data {5}) (\<lambda>(t, seq, body). decode_payload 5 body) of
           Inl (ValueError m) \<Rightarrow> (count_down (\<lambda>c. c\<lparr>rc_malformed := rc_malformed c + 1\<rparr>) s, Inr None)
         | Inl e \<Rightarrow> (s, Inl e)
         | Inr F \<Rightarrow> classify_reply drop_actuator tick data (reply_of F)
             (count_down (\<lambda>c. c\<lparr>rc_received := rc_received c + 1\<rparr>) s))"

text \<open>The receives of one attempt, up to the reply or the resend deadline.\<close>

fun await_reply ::
  "(byte list \<Rightarrow> 32 word) \<Rightarrow> int option \<Rightarrow> int \<Rightarrow> reply_event list \<Rightarrow> (lock, reply option) act" where
  "await_reply crc drop_actuator tick [] = give None"
| "await_reply crc drop_actuator tick (ev # evs) =
     (case ev of
        ReplyTimeout \<Rightarrow> give None
      | ReplyFails e \<Rightarrow> raise (OSError e)
      | Reply data \<Rightarrow> sbind (classify crc drop_actuator tick data) (\<lambda>ans.
          if ans = None then await_reply crc drop_actuator tick evs else give ans))"

text \<open>The attempts left, \<open>attempt\<close> being the next one.\<close>

fun attempts ::
  "(byte list \<Rightarrow> 32 word) \<Rightarrow> int option \<Rightarrow> int option \<Rightarrow> (nat \<Rightarrow> attempt_script) \<Rightarrow> int \<Rightarrow> byte list \<Rightarrow>
   nat list \<Rightarrow> bool \<Rightarrow> (lock, reply option) act" where
  "attempts crc fail_sensor drop_actuator script tick frame [] logged = give None"
| "attempts crc fail_sensor drop_actuator script tick frame (a # as) logged =
     (let sent = send_ok fail_sensor tick a frame (at_send (script a))
      in sbind (modify (send_frame a frame sent logged)) (\<lambda>_.
         sbind (await_reply crc drop_actuator tick (at_events (script a))) (\<lambda>ans.
           if ans = None then attempts crc fail_sensor drop_actuator script tick frame as (logged \<or> sent)
           else give ans)))"

section \<open>One tick: the model step\<close>

definition apply_reply :: "int \<Rightarrow> bool \<Rightarrow> bool \<Rightarrow> reply \<Rightarrow> lock \<Rightarrow> lock" where
  "apply_reply tick up_drop down_drop answer s =
     (let c = lk_down s; truth = lk_truth s;
          (arriving, delay) = push_pop (lk_delay s) (if down_drop then None else Some (rp_delta answer));
          act = actuator_step (lk_act s) arriving
      in s\<lparr>lk_replies := lk_replies s @ [answer],
           lk_down := (if down_drop then c\<lparr>rc_modeled_command_loss := rc_modeled_command_loss c + 1\<rparr>
                       else c\<lparr>rc_forwarded_to_delay := rc_forwarded_to_delay c + 1\<rparr>),
           lk_delay := delay, lk_act := act,
           lk_rows := lk_rows s @ [\<lparr>lr_tick = tick,
             lr_has_sample = (\<not> up_drop \<and> f_finite (truth_theta truth) \<and> f_finite (truth_omega truth)),
             lr_applied = (arriving \<noteq> None), lr_theta = truth_theta truth, lr_omega = truth_omega truth,
             lr_cmd_applied = applied act\<rparr>],
           lk_vehicle_seen := (if rp_status answer mod 256 = 3 then Some (rp_status answer div 256 mod 256)
             else lk_vehicle_seen s)\<rparr>)"

text \<open>Whether the loop goes on; if it does, the plant moves.\<close>

definition advance_model :: "int option \<Rightarrow> disturbance \<Rightarrow> reply \<Rightarrow> lock \<Rightarrow> lock \<times> bool" where
  "advance_model sim_reason dstb answer s =
     (case sim_reason of
        Some r \<Rightarrow> (s\<lparr>lk_final_reason := r\<rparr>, False)
      | None \<Rightarrow>
          if rp_status answer mod 256 = 3 then (s\<lparr>lk_final_reason := SIM_VEHICLE_TERMINAL\<rparr>, False)
          else
            (let truth = plant_step (lk_truth s) (lk_act s) environment_fixed dstb DT; loc = hl_loc truth
             in (s\<lparr>lk_truth := truth, lk_pending_reason := (if loc = None then lk_pending_reason s else loc)\<rparr>, True)))"

text \<open>The modelled losses, the disturbance and the sample's frame.\<close>

definition lock_sample ::
  "(byte list \<Rightarrow> 32 word) \<Rightarrow> scenario \<Rightarrow> int \<Rightarrow> (lock, bool \<times> bool \<times> disturbance \<times> int option \<times> byte list) act" where
  "lock_sample crc sc tick =
     sbind (draw_up (sc_loss_up sc)) (\<lambda>raw_up.
     sbind (draw_down (sc_loss_down sc)) (\<lambda>raw_down.
     sbind (modify (\<lambda>s. s\<lparr>lk_draws := lk_draws s + 1\<rparr>)) (\<lambda>_.
     sbind (lift_result (forced_drop_at sc tick ''up'')) (\<lambda>forced_up.
     sbind (lift_result (forced_drop_at sc tick ''down'')) (\<lambda>forced_down.
     let up_drop = (case forced_up of None \<Rightarrow> raw_up | Some b \<Rightarrow> b);
         down_drop = (case forced_down of None \<Rightarrow> raw_down | Some b \<Rightarrow> b)
     in
     sbind (modify (\<lambda>s. s\<lparr>lk_up := (lk_up s)\<lparr>sn_sample_loss := sn_sample_loss (lk_up s) + (if up_drop then 1 else 0)\<rparr>\<rparr>)) (\<lambda>_.
     sbind (lift_result (disturbance_at sc tick environment_fixed)) (\<lambda>dstb.
     sbind (gets (sensor_reason sc tick)) (\<lambda>sim_reason.
     sbind (sensor_frame crc sc tick up_drop) (\<lambda>frame.
       give (up_drop, down_drop, dstb, sim_reason, frame))))))))))"

text \<open>The physical exchange and the one model step that answers it.\<close>

definition lock_exchange ::
  "(byte list \<Rightarrow> 32 word) \<Rightarrow> int option \<Rightarrow> int option \<Rightarrow> (nat \<Rightarrow> attempt_script) \<Rightarrow> int \<Rightarrow>
   bool \<times> bool \<times> disturbance \<times> int option \<times> byte list \<Rightarrow> (lock, bool) act" where
  "lock_exchange crc fail_sensor drop_actuator script tick sample =
     (case sample of (up_drop, down_drop, dstb, sim_reason, frame) \<Rightarrow>
       sbind (modify (\<lambda>s. s\<lparr>lk_up := count_generated tick (lk_up s)\<rparr>)) (\<lambda>_.
       sbind (attempts crc fail_sensor drop_actuator script tick frame [0..<26] False) (\<lambda>ans.
         case ans of
           None \<Rightarrow> raise (TimeoutError ''no actuator reply after 25 retries'')
         | Some answer \<Rightarrow>
             (\<lambda>s. case advance_model sim_reason dstb answer (apply_reply tick up_drop down_drop answer s) of
                (s', b) \<Rightarrow> (s', Inr b)))))"

definition lock_tick ::
  "(byte list \<Rightarrow> 32 word) \<Rightarrow> scenario \<Rightarrow> int option \<Rightarrow> int option \<Rightarrow> (nat \<Rightarrow> attempt_script) \<Rightarrow> int \<Rightarrow> (lock, bool) act" where
  "lock_tick crc sc fail_sensor drop_actuator script tick =
     sbind (lock_sample crc sc tick) (lock_exchange crc fail_sensor drop_actuator script tick)"

text \<open>The loop over the ticks, and the exit code with the error of a run whose files opened.\<close>

fun lock_loop ::
  "(byte list \<Rightarrow> 32 word) \<Rightarrow> scenario \<Rightarrow> int option \<Rightarrow> int option \<Rightarrow> (int \<Rightarrow> nat \<Rightarrow> attempt_script) \<Rightarrow> int list \<Rightarrow>
   (lock, unit) act" where
  "lock_loop crc sc fail_sensor drop_actuator script [] = give ()"
| "lock_loop crc sc fail_sensor drop_actuator script (t # ts) =
     sbind (lock_tick crc sc fail_sensor drop_actuator (script t) t) (\<lambda>continue.
       if continue then lock_loop crc sc fail_sensor drop_actuator script ts else give ())"

definition lock_execute ::
  "(byte list \<Rightarrow> 32 word) \<Rightarrow> scenario \<Rightarrow> int \<Rightarrow> nat \<Rightarrow> int option \<Rightarrow> int option \<Rightarrow> (int \<Rightarrow> nat \<Rightarrow> attempt_script) \<Rightarrow>
   (lock \<times> unit result) result" where
  "lock_execute crc sc seed delay_ticks fail_sensor drop_actuator script =
     rbind (lock_initial sc seed delay_ticks) (\<lambda>s.
       Inr (lock_loop crc sc fail_sensor drop_actuator script [0..sc_ticks sc - 1] s))"

section \<open>Counter invariants\<close>

text \<open>The balance of the sends, and of the receipts with \<open>k\<close> accepted replies not yet disposed of.\<close>

definition sender_balanced :: "sender \<Rightarrow> bool" where
  "sender_balanced u \<longleftrightarrow>
     sn_generated u = sn_original_attempts u + sn_not_attempted u \<and>
     sn_send_attempts u = sn_original_attempts u + sn_retry_attempts u \<and>
     sn_send_attempts u = sn_tx_fail u + sn_transmitted u \<and> sn_send_pending u = 0 \<and>
     sn_transmitted u = sn_first_transmitted u + sn_additional_copies u \<and>
     sn_generated u = sn_first_transmitted u + sn_never_transmitted u \<and>
     0 \<le> sn_original_attempts u \<and> 0 \<le> sn_retry_attempts u \<and> 0 \<le> sn_not_attempted u \<and> 0 \<le> sn_tx_fail u \<and>
     0 \<le> sn_first_transmitted u \<and> 0 \<le> sn_additional_copies u \<and> 0 \<le> sn_never_transmitted u"

definition receipt_balanced :: "int \<Rightarrow> receipt \<Rightarrow> bool" where
  "receipt_balanced k c \<longleftrightarrow>
     rc_received_raw c = rc_malformed c + rc_received c \<and> rc_decode_pending c = 0 \<and>
     rc_received c = rc_logical_received c + rc_discarded_duplicate c + rc_rejected_received c \<and>
     rc_classification_pending c = 0 \<and>
     rc_logical_received c = rc_modeled_command_loss c + rc_forwarded_to_delay c + k \<and> rc_disposition_pending c = 0 \<and>
     0 \<le> rc_malformed c \<and> 0 \<le> rc_discarded_duplicate c \<and> 0 \<le> rc_rejected_received c \<and>
     0 \<le> rc_modeled_command_loss c \<and> 0 \<le> rc_forwarded_to_delay c"

definition lock_balanced :: "lock \<Rightarrow> bool" where
  "lock_balanced s \<longleftrightarrow> sender_balanced (lk_up s) \<and> receipt_balanced 0 (lk_down s)"

definition accepted_replies :: "reply option result \<Rightarrow> int" where
  "accepted_replies r = (case r of Inr (Some a) \<Rightarrow> 1 | _ \<Rightarrow> 0)"

lemma accepted_replies_simps [simp]: "accepted_replies (Inl e) = 0" "accepted_replies (Inr None) = 0"
  "accepted_replies (Inr (Some a)) = 1"
  by (simp_all add: accepted_replies_def)

text \<open>The receives touch only the receipt counters and the last reply.\<close>

definition same_but_receipt :: "lock \<Rightarrow> lock \<Rightarrow> bool" where
  "same_but_receipt s t \<longleftrightarrow> t = s\<lparr>lk_down := lk_down t, lk_last_reply := lk_last_reply t\<rparr>"

lemma classify_reply_balanced:
  assumes "classify_reply da tick data value s = (s', r)"
    and "receipt_balanced 0 ((lk_down s)\<lparr>rc_received := rc_received (lk_down s) - 1, rc_received_raw := rc_received_raw (lk_down s) - 1\<rparr>)"
  shows "receipt_balanced (accepted_replies r) (lk_down s')"
  using assms by (auto simp: classify_reply_def count_down_def rc_reject_def receipt_balanced_def split: if_splits)

text \<open>Decoding an actuator payload raises nothing but \<open>ValueError\<close>.\<close>

lemma decode_actuator_errors:
  assumes "rbind (decode_datagram crc data {5}) (\<lambda>(t, seq, body). decode_payload 5 body) = Inl e"
  shows "\<exists>m. e = ValueError m"
proof -
  have "decode_payload 5 body = Inl e \<Longrightarrow> \<exists>m. e = ValueError m" for body
    by (auto simp: decode_payload_def check_payload_counts_def ensure_def Let_def split: option.splits if_splits)
  moreover have "decode_datagram crc data {5} = Inl e \<Longrightarrow> \<exists>m. e = ValueError m"
    by (auto simp: decode_datagram_def ensure_def Let_def split: if_splits)
  ultimately show ?thesis using assms by (auto simp: rbind_def split: sum.splits prod.splits)
qed

lemma classify_balanced:
  assumes "receipt_balanced 0 (lk_down s)" "classify crc da tick data s = (s', r)"
  shows "receipt_balanced (accepted_replies r) (lk_down s')"
proof (cases "rbind (decode_datagram crc data {5}) (\<lambda>(t, seq, body). decode_payload 5 body)")
  case (Inl e)
  then obtain m where "e = ValueError m" using decode_actuator_errors by blast
  then show ?thesis using assms Inl by (auto simp: classify_def count_down_def receipt_balanced_def Let_def)
next
  case (Inr F)
  let ?s = "count_down (\<lambda>c. c\<lparr>rc_received := rc_received c + 1\<rparr>) (count_down (\<lambda>c. c\<lparr>rc_received_raw := rc_received_raw c + 1\<rparr>) s)"
  have "classify_reply da tick data (reply_of F) ?s = (s', r)" using assms(2) Inr by (simp add: classify_def)
  then show ?thesis
    by (rule classify_reply_balanced) (use assms(1) in \<open>simp add: count_down_def receipt_balanced_def\<close>)
qed

lemma classify_frame: "classify crc da tick data s = (s', r) \<Longrightarrow> same_but_receipt s s'"
  by (auto simp: classify_def classify_reply_def count_down_def Let_def same_but_receipt_def
      split: sum.splits exn.splits if_splits)

lemma same_but_receipt_trans: "same_but_receipt s t \<Longrightarrow> same_but_receipt t u \<Longrightarrow> same_but_receipt s u"
  by (cases s; cases t; cases u) (auto simp: same_but_receipt_def)

lemma await_reply_frame: "await_reply crc da tick evs s = (s', r) \<Longrightarrow> same_but_receipt s s'"
proof (induction evs arbitrary: s)
  case Nil
  then show ?case by (simp add: lift_result_def same_but_receipt_def)
next
  case (Cons ev evs)
  show ?case
  proof (cases ev)
    case (Reply data)
    obtain t x where t: "classify crc da tick data s = (t, x)" by (cases "classify crc da tick data s")
    have "same_but_receipt t s'"
      using Cons Reply t
      by (auto simp: sbind_def lift_result_def same_but_receipt_def split: sum.splits if_splits)
    with classify_frame [OF t] show ?thesis by (rule same_but_receipt_trans)
  qed (use Cons.prems in \<open>auto simp: lift_result_def same_but_receipt_def\<close>)
qed

lemma await_reply_balanced:
  "receipt_balanced 0 (lk_down s) \<Longrightarrow> await_reply crc da tick evs s = (s', r) \<Longrightarrow>
     receipt_balanced (accepted_replies r) (lk_down s')"
proof (induction evs arbitrary: s)
  case (Cons ev evs)
  show ?case
  proof (cases ev)
    case (Reply data)
    obtain t x where t: "classify crc da tick data s = (t, x)" by (cases "classify crc da tick data s")
    have "receipt_balanced (accepted_replies x) (lk_down t)"
      by (rule classify_balanced [OF Cons.prems(1) t])
    then show ?thesis
      using Cons.IH [of t] Cons.prems(2) t Reply
      by (cases x) (auto simp: sbind_def lift_result_def split: if_splits)
  qed (use Cons.prems in \<open>auto simp: lift_result_def\<close>)
qed (auto simp: lift_result_def)

text \<open>Every attempt keeps the balance; the first one needs a frame not yet attempted.\<close>

definition attempt_ready :: "nat list \<Rightarrow> bool \<Rightarrow> sender \<Rightarrow> bool" where
  "attempt_ready as logged u \<longleftrightarrow> sender_balanced u \<and> (\<not> logged \<longrightarrow> 1 \<le> sn_never_transmitted u) \<and>
     (0 \<in> set as \<longrightarrow> 1 \<le> sn_not_attempted u)"

lemma count_attempt_ready:
  assumes "attempt_ready (a # as) logged u" "distinct (a # as)"
  shows "attempt_ready as (logged \<or> sent) (count_sent sent logged (count_attempt a u))"
  using assms by (auto simp: attempt_ready_def sender_balanced_def count_attempt_def count_sent_def Let_def)

lemma attempts_balanced:
  "attempt_ready as logged (lk_up s) \<Longrightarrow> distinct as \<Longrightarrow> receipt_balanced 0 (lk_down s) \<Longrightarrow>
   attempts crc fs da script tick frame as logged s = (s', r) \<Longrightarrow>
     sender_balanced (lk_up s') \<and> receipt_balanced (accepted_replies r) (lk_down s')"
proof (induction as arbitrary: logged s)
  case Nil
  then show ?case by (auto simp: lift_result_def attempt_ready_def)
next
  case (Cons a as)
  define sent where "sent = send_ok fs tick a frame (at_send (script a))"
  let ?s = "send_frame a frame sent logged s"
  obtain t x where t: "await_reply crc da tick (at_events (script a)) ?s = (t, x)"
    by (cases "await_reply crc da tick (at_events (script a)) ?s")
  have "lk_up t = lk_up ?s" using await_reply_frame [OF t] by (cases t) (auto simp: same_but_receipt_def)
  then have ready: "attempt_ready as (logged \<or> sent) (lk_up t)"
    using count_attempt_ready [OF Cons.prems(1,2)] by (simp add: send_frame_def)
  have bal: "receipt_balanced (accepted_replies x) (lk_down t)"
    using await_reply_balanced [OF _ t] Cons.prems(3) by (simp add: send_frame_def)
  have run: "attempts crc fs da script tick frame (a # as) logged s =
      (case x of Inl e \<Rightarrow> (t, Inl e)
       | Inr ans \<Rightarrow> (if ans = None then attempts crc fs da script tick frame as (logged \<or> sent) t else (t, Inr ans)))"
    using t by (simp add: sent_def [symmetric] sbind_def lift_result_def modify_def split: sum.split)
  show ?case
  proof (cases x)
    case (Inl e)
    then show ?thesis using Cons.prems(4) ready bal unfolding run by (auto simp: attempt_ready_def)
  next
    case (Inr ans)
    then show ?thesis
      using Cons.prems(2,4) Cons.IH [OF ready] ready bal unfolding run
      by (cases ans) (auto simp: attempt_ready_def)
  qed
qed

lemma apply_reply_balanced:
  "sender_balanced (lk_up s) \<Longrightarrow> receipt_balanced 1 (lk_down s) \<Longrightarrow> lock_balanced (apply_reply tick ud dd a s)"
  by (auto simp: apply_reply_def lock_balanced_def receipt_balanced_def Let_def split: prod.split)

lemma advance_model_balanced: "lock_balanced s \<Longrightarrow> lock_balanced (fst (advance_model r d a s))"
  by (auto simp: advance_model_def lock_balanced_def Let_def split: option.split)

section \<open>A tick keeps the balance\<close>

lemma draw_up_keeps: "(\<And>s g. I s \<Longrightarrow> I (s\<lparr>lk_stream_up := g\<rparr>)) \<Longrightarrow> keeps I (draw_up p)"
  by (rule keepsI) (auto simp: draw_up_def split: sum.splits)

lemma draw_down_keeps: "(\<And>s g. I s \<Longrightarrow> I (s\<lparr>lk_stream_down := g\<rparr>)) \<Longrightarrow> keeps I (draw_down p)"
  by (rule keepsI) (auto simp: draw_down_def split: sum.splits)

lemma sensor_frame_keeps:
  "(\<And>s q. I s \<Longrightarrow> I (s\<lparr>lk_command_seq := q\<rparr>)) \<Longrightarrow> keeps I (sensor_frame crc sc tick d)"
  unfolding sensor_frame_def
  by (intro steps_intro) (auto intro!: steps_intro keeps_modify split: option.split)

text \<open>What the sample leaves alone.\<close>

lemma lock_sample_keeps:
  assumes "\<And>s g. I s \<Longrightarrow> I (s\<lparr>lk_stream_up := g\<rparr>)" "\<And>s g. I s \<Longrightarrow> I (s\<lparr>lk_stream_down := g\<rparr>)"
    "\<And>s n. I s \<Longrightarrow> I (s\<lparr>lk_draws := n\<rparr>)" "\<And>s q. I s \<Longrightarrow> I (s\<lparr>lk_command_seq := q\<rparr>)"
    "\<And>s n. I s \<Longrightarrow> I (s\<lparr>lk_up := (lk_up s)\<lparr>sn_sample_loss := n\<rparr>\<rparr>)"
  shows "keeps I (lock_sample crc sc tick)"
  unfolding lock_sample_def Let_def
  by (intro steps_intro draw_up_keeps draw_down_keeps sensor_frame_keeps keeps_modify assms)

lemma lock_sample_balanced: "keeps lock_balanced (lock_sample crc sc tick)"
  by (rule lock_sample_keeps) (auto simp: lock_balanced_def sender_balanced_def)

lemma generated_ready: "sender_balanced u \<Longrightarrow> attempt_ready [0..<26] False (count_generated tick u)"
  by (auto simp: attempt_ready_def sender_balanced_def count_generated_def)

lemma lock_exchange_balanced:
  assumes "lock_balanced s" "lock_exchange crc fs da script tick sample s = (s', r)"
  shows "lock_balanced s'"
proof -
  obtain ud dd d sr frame where sample: "sample = (ud, dd, d, sr, frame)" by (cases sample) auto
  let ?s = "s\<lparr>lk_up := count_generated tick (lk_up s)\<rparr>"
  obtain t x where t: "attempts crc fs da script tick frame [0..<26] False ?s = (t, x)"
    by (cases "attempts crc fs da script tick frame [0..<26] False ?s")
  have bal: "sender_balanced (lk_up t) \<and> receipt_balanced (accepted_replies x) (lk_down t)"
    using assms(1) by (intro attempts_balanced [OF _ _ _ t]) (simp_all add: lock_balanced_def generated_ready del: upt_rec_numeral)
  show ?thesis
  proof (cases "\<exists>a. x = Inr (Some a)")
    case True
    then obtain a where a: "x = Inr (Some a)" by blast
    have "s' = fst (advance_model sr d a (apply_reply tick ud dd a t))"
      using assms(2) t a
      by (simp add: lock_exchange_def sample sbind_def [of "attempts _ _ _ _ _ _ _ _"] sbind_def modify_def
          del: upt_rec_numeral split: prod.splits)
    then show ?thesis using advance_model_balanced apply_reply_balanced bal a by simp
  next
    case False
    then have "s' = t"
      using assms(2) t
      by (simp add: lock_exchange_def sample sbind_def modify_def lift_result_def del: upt_rec_numeral
          split: sum.splits option.splits)
    moreover have "accepted_replies x = 0" using False by (auto simp: accepted_replies_def split: sum.split option.split)
    ultimately show ?thesis using bal by (simp add: lock_balanced_def)
  qed
qed

lemma lock_tick_balanced: "keeps lock_balanced (lock_tick crc sc fs da script tick)"
  unfolding lock_tick_def
  by (intro keeps_sbind lock_sample_balanced keepsI) (rule lock_exchange_balanced)

lemma lock_loop_balanced: "keeps lock_balanced (lock_loop crc sc fs da script ts)"
  by (induction ts) (auto intro!: steps_intro lock_tick_balanced)

lemma lock_initial_balanced: "lock_initial sc seed delay = Inr s \<Longrightarrow> lock_balanced s"
  by (auto simp: lock_initial_def rbind_eq_Inr lock_balanced_def sender_balanced_def sender_counts_def
      receipt_balanced_def receiver_counts_def)

section \<open>The logical run\<close>

text \<open>
  The specification of a lockstep run knows no sockets: a tick consumes one draw per direction, the
  reply's command enters the delay line, the actuator takes what leaves it, and the plant moves
  once, unless the run ends here.
\<close>

record logic =
  lg_up :: splitmix
  lg_down :: splitmix
  lg_truth :: truth_state
  lg_act :: actuator_state
  lg_delay :: "f64 option list"
  lg_pending :: "int option"

definition logic_of :: "lock \<Rightarrow> logic" where
  "logic_of s = \<lparr>lg_up = lk_stream_up s, lg_down = lk_stream_down s, lg_truth = lk_truth s, lg_act = lk_act s,
     lg_delay = lk_delay s, lg_pending = lk_pending_reason s\<rparr>"

definition logical_losses :: "scenario \<Rightarrow> int \<Rightarrow> logic \<Rightarrow> (bool \<times> bool \<times> logic) result" where
  "logical_losses sc tick lg =
     rbind (draw_drop (lg_up lg) (sc_loss_up sc)) (\<lambda>(raw_up, up).
     rbind (draw_drop (lg_down lg) (sc_loss_down sc)) (\<lambda>(raw_down, down).
     rbind (forced_drop_at sc tick ''up'') (\<lambda>forced_up.
     rbind (forced_drop_at sc tick ''down'') (\<lambda>forced_down.
       Inr (case forced_up of None \<Rightarrow> raw_up | Some b \<Rightarrow> b, case forced_down of None \<Rightarrow> raw_down | Some b \<Rightarrow> b,
         lg\<lparr>lg_up := up, lg_down := down\<rparr>)))))"

definition logical_row :: "int \<Rightarrow> bool \<Rightarrow> bool \<Rightarrow> reply \<Rightarrow> logic \<Rightarrow> lrow \<times> logic" where
  "logical_row tick up_drop down_drop a lg =
     (let truth = lg_truth lg;
          (arriving, delay) = push_pop (lg_delay lg) (if down_drop then None else Some (rp_delta a));
          act = actuator_step (lg_act lg) arriving
      in (\<lparr>lr_tick = tick, lr_has_sample = (\<not> up_drop \<and> f_finite (truth_theta truth) \<and> f_finite (truth_omega truth)),
           lr_applied = (arriving \<noteq> None), lr_theta = truth_theta truth, lr_omega = truth_omega truth,
           lr_cmd_applied = applied act\<rparr>, lg\<lparr>lg_delay := delay, lg_act := act\<rparr>))"

definition logical_advance :: "scenario \<Rightarrow> int \<Rightarrow> disturbance \<Rightarrow> reply \<Rightarrow> logic \<Rightarrow> logic" where
  "logical_advance sc tick dstb a lg =
     (if lg_pending lg \<noteq> None \<or> tick = sc_ticks sc - 1 \<or> rp_status a mod 256 = 3 then lg
      else (let truth = plant_step (lg_truth lg) (lg_act lg) environment_fixed dstb DT
            in lg\<lparr>lg_truth := truth, lg_pending := hl_loc truth\<rparr>))"

definition logical_tick :: "scenario \<Rightarrow> lrow list \<times> logic \<Rightarrow> reply \<Rightarrow> (lrow list \<times> logic) result" where
  "logical_tick sc st a =
     (case st of (rows, lg) \<Rightarrow>
        (let tick = int (length rows)
         in rbind (logical_losses sc tick lg) (\<lambda>(up_drop, down_drop, lg1).
            rbind (disturbance_at sc tick environment_fixed) (\<lambda>dstb.
              case logical_row tick up_drop down_drop a lg1 of
                (row, lg2) \<Rightarrow> Inr (rows @ [row], logical_advance sc tick dstb a lg2)))))"

definition logical_run :: "scenario \<Rightarrow> logic \<Rightarrow> reply list \<Rightarrow> (lrow list \<times> logic) result" where
  "logical_run sc lg as = foldl (\<lambda>m a. rbind m (\<lambda>st. logical_tick sc st a)) (Inr ([], lg)) as"

lemma logical_run_snoc: "logical_run sc lg (as @ [a]) = rbind (logical_run sc lg as) (\<lambda>st. logical_tick sc st a)"
  by (simp add: logical_run_def)

text \<open>The concrete sample is the logical one, and the exchange leaves the logic alone.\<close>

lemma sensor_frame_frame: "sensor_frame crc sc tick b t = (t', r) \<Longrightarrow> \<exists>q. t' = t\<lparr>lk_command_seq := q\<rparr>"
proof -
  assume "sensor_frame crc sc tick b t = (t', r)"
  then have "t' = t \<or> t' = t\<lparr>lk_command_seq := (lk_command_seq t + 1) mod 2 ^ 32\<rparr>"
    by (auto simp: sensor_frame_def sbind_def modify_def gets_def lift_result_def split: sum.splits option.splits)
  moreover have "t = t\<lparr>lk_command_seq := lk_command_seq t\<rparr>" by simp
  ultimately show ?thesis by metis
qed

lemma lock_sample_logic:
  assumes "lock_sample crc sc tick s = (s', Inr (ud, dd, d, sr, frame))"
  shows "logical_losses sc tick (logic_of s) = Inr (ud, dd, logic_of s') \<and>
    disturbance_at sc tick environment_fixed = Inr d \<and> sr = sensor_reason sc tick s' \<and>
    lk_rows s' = lk_rows s \<and> lk_replies s' = lk_replies s"
proof -
  obtain ru gu where up: "draw_drop (lk_stream_up s) (sc_loss_up sc) = Inr (ru, gu)"
    using assms by (auto simp: lock_sample_def sbind_Inr draw_up_def split: sum.splits)
  obtain rd gd where down: "draw_drop (lk_stream_down s) (sc_loss_down sc) = Inr (rd, gd)"
    using assms up by (auto simp: lock_sample_def sbind_Inr draw_up_def draw_down_def split: sum.splits)
  show ?thesis
    using assms up down
    by (auto simp: lock_sample_def sbind_Inr draw_up_def draw_down_def Let_def lift_result_def modify_def gets_def
        logical_losses_def logic_of_def sensor_reason_def dest!: sensor_frame_frame)
qed

text \<open>What a reply has passed before it reaches the model.\<close>

definition reply_ok :: "int \<Rightarrow> reply \<Rightarrow> bool" where
  "reply_ok tick a \<longleftrightarrow> rp_tick a = tick \<and> rp_veh_tick a = tick \<and> f_finite (rp_delta a) \<and>
     rp_sensor_send_ns a = 0 \<and> rp_veh_send_ns a = 0"

lemma classify_reply_ok: "classify crc da tick data s = (s', Inr (Some a)) \<Longrightarrow> reply_ok tick a"
  by (auto simp: classify_def classify_reply_def reply_ok_def Let_def split: sum.splits exn.splits if_splits)

lemma await_reply_ok: "await_reply crc da tick evs s = (s', Inr (Some a)) \<Longrightarrow> reply_ok tick a"
proof (induction evs arbitrary: s)
  case (Cons ev evs)
  then show ?case
    by (auto simp: sbind_Inr lift_result_def split: reply_event.splits if_splits dest: classify_reply_ok)
qed (simp add: lift_result_def)

lemma attempts_ok:
  "attempts crc fs da script tick frame as logged s = (s', Inr (Some a)) \<Longrightarrow> reply_ok tick a"
proof (induction as arbitrary: logged s)
  case (Cons k as)
  then show ?case
    by (auto simp: Let_def sbind_Inr modify_def lift_result_def split: if_splits dest: await_reply_ok)
qed (simp add: lift_result_def)

definition model_part :: "lock \<Rightarrow> logic \<times> lrow list \<times> reply list" where
  "model_part s = (logic_of s, lk_rows s, lk_replies s)"

lemma receipt_model_part: "same_but_receipt s t \<Longrightarrow> model_part t = model_part s"
  by (cases s; cases t) (simp add: same_but_receipt_def model_part_def logic_of_def)

lemma attempts_model_part: "keeps (\<lambda>s. model_part s = c) (attempts crc fs da script tick frame as logged)"
proof (induction as arbitrary: logged)
  case (Cons a as)
  have "keeps (\<lambda>s. model_part s = c) (await_reply crc da tick evs)" for evs
    by (rule keepsI) (metis await_reply_frame receipt_model_part)
  then show ?case
    unfolding attempts.simps Let_def
    by (intro steps_intro keeps_modify Cons.IH) (simp_all add: send_frame_def model_part_def logic_of_def)
qed (simp add: steps_intro)

lemma apply_reply_logic:
  assumes "(row, lg) = logical_row tick ud dd a (logic_of s)"
  shows "lk_rows (apply_reply tick ud dd a s) = lk_rows s @ [row] \<and>
    lk_replies (apply_reply tick ud dd a s) = lk_replies s @ [a] \<and> logic_of (apply_reply tick ud dd a s) = lg"
proof -
  obtain x q where pp: "push_pop (lk_delay s) (if dd then None else Some (rp_delta a)) = (x, q)"
    by (cases "push_pop (lk_delay s) (if dd then None else Some (rp_delta a))")
  show ?thesis
    using assms unfolding apply_reply_def logical_row_def logic_of_def Let_def logic.simps pp prod.case by simp
qed

lemma advance_model_logic:
  assumes "sr = sensor_reason sc tick s"
  shows "logic_of (fst (advance_model sr d a s)) = logical_advance sc tick d a (logic_of s) \<and>
    lk_rows (fst (advance_model sr d a s)) = lk_rows s \<and> lk_replies (fst (advance_model sr d a s)) = lk_replies s"
  unfolding assms
  by (auto simp: advance_model_def sensor_reason_def logical_advance_def logic_of_def Let_def split: option.splits)

lemma lock_exchange_logic:
  assumes "lock_exchange crc fs da script tick (ud, dd, d, sensor_reason sc tick s, frame) s = (s', r)"
  shows "(case r of
      Inl e \<Rightarrow> lk_rows s' = lk_rows s \<and> lk_replies s' = lk_replies s
    | Inr b \<Rightarrow> \<exists>a row lg. reply_ok tick a \<and> (row, lg) = logical_row tick ud dd a (logic_of s) \<and>
        lk_rows s' = lk_rows s @ [row] \<and> lk_replies s' = lk_replies s @ [a] \<and>
        logic_of s' = logical_advance sc tick d a lg)"
proof -
  let ?s = "s\<lparr>lk_up := count_generated tick (lk_up s)\<rparr>"
  obtain t x where t: "attempts crc fs da script tick frame [0..<26] False ?s = (t, x)"
    by (cases "attempts crc fs da script tick frame [0..<26] False ?s")
  have "model_part ?s = model_part s" by (simp add: model_part_def logic_of_def)
  then have part: "model_part t = model_part s" using keepsD [OF attempts_model_part _ t] by blast
  show ?thesis
  proof (cases "\<exists>a. x = Inr (Some a)")
    case True
    then obtain a where a: "x = Inr (Some a)" by blast
    let ?u = "apply_reply tick ud dd a t"
    have s': "s' = fst (advance_model (sensor_reason sc tick s) d a ?u)" "\<exists>b. r = Inr b"
      using assms t a
      by (auto simp: lock_exchange_def sbind_def modify_def simp del: upt_rec_numeral split: prod.splits)
    obtain row lg where row: "(row, lg) = logical_row tick ud dd a (logic_of s)"
      by (cases "logical_row tick ud dd a (logic_of s)") auto
    have logic: "logic_of t = logic_of s" "lk_rows t = lk_rows s" "lk_replies t = lk_replies s"
      using part by (simp_all add: model_part_def)
    have u: "lk_rows ?u = lk_rows s @ [row]" "lk_replies ?u = lk_replies s @ [a]" "logic_of ?u = lg"
      using apply_reply_logic [of row lg tick ud dd a t] row logic by simp_all
    have "sensor_reason sc tick s = sensor_reason sc tick ?u"
      using part by (simp add: model_part_def logic_of_def sensor_reason_def apply_reply_def Let_def split: prod.split)
    note adv = advance_model_logic [OF this, of d a]
    have "reply_ok tick a" using attempts_ok t a by blast
    moreover obtain b where "r = Inr b" using s'(2) by blast
    moreover have "lk_rows s' = lk_rows s @ [row]" "lk_replies s' = lk_replies s @ [a]"
      "logic_of s' = logical_advance sc tick d a lg"
      using adv unfolding s'(1) u by simp_all
    ultimately show ?thesis using row by (simp only: sum.case) blast
  next
    case False
    then have "s' = t \<and> (\<exists>e. r = Inl e)"
      using assms t
      by (auto simp: lock_exchange_def sbind_def modify_def lift_result_def simp del: upt_rec_numeral
          split: sum.splits option.splits)
    then show ?thesis using part by (auto simp: model_part_def)
  qed
qed

text \<open>After every tick the run has done what the logical run does on the replies so far.\<close>

definition lock_refines :: "scenario \<Rightarrow> logic \<Rightarrow> lock \<Rightarrow> bool" where
  "lock_refines sc lg0 s \<longleftrightarrow> logical_run sc lg0 (lk_replies s) = Inr (lk_rows s, logic_of s)"

definition rows_refine :: "scenario \<Rightarrow> logic \<Rightarrow> lock \<Rightarrow> bool" where
  "rows_refine sc lg0 s \<longleftrightarrow> (\<exists>lg. logical_run sc lg0 (lk_replies s) = Inr (lk_rows s, lg)) \<and>
     length (lk_rows s) = length (lk_replies s) \<and> (\<forall>i < length (lk_replies s). reply_ok (int i) (lk_replies s ! i))"

lemma lock_tick_refines:
  assumes "lock_refines sc lg0 s" "rows_refine sc lg0 s" "int (length (lk_rows s)) = tick"
    "lock_tick crc sc fs da script tick s = (s', r)"
  shows "rows_refine sc lg0 s' \<and> (\<forall>b. r = Inr b \<longrightarrow> lock_refines sc lg0 s' \<and> int (length (lk_rows s')) = tick + 1)"
proof -
  obtain t x where t: "lock_sample crc sc tick s = (t, x)" by (cases "lock_sample crc sc tick s")
  show ?thesis
  proof (cases x)
    case (Inl e)
    then have r: "s' = t" "r = Inl e" using assms(4) t by (simp_all add: lock_tick_def sbind_def)
    have "keeps (\<lambda>u. lk_rows u = lk_rows s \<and> lk_replies u = lk_replies s) (lock_sample crc sc tick)"
      by (rule lock_sample_keeps) simp_all
    from keepsD [OF this _ t] have "lk_rows t = lk_rows s \<and> lk_replies t = lk_replies s" by simp
    then show ?thesis using assms(2) r by (simp add: rows_refine_def)
  next
    case (Inr sample)
    obtain ud dd d sr frame where sample: "sample = (ud, dd, d, sr, frame)" by (cases sample) auto
    have L: "logical_losses sc tick (logic_of s) = Inr (ud, dd, logic_of t)" "disturbance_at sc tick environment_fixed = Inr d"
      "sr = sensor_reason sc tick t" "lk_rows t = lk_rows s" "lk_replies t = lk_replies s"
      using lock_sample_logic [of crc sc tick s t] t Inr sample by auto
    have ex: "lock_exchange crc fs da script tick (ud, dd, d, sensor_reason sc tick t, frame) t = (s', r)"
      using assms(4) t Inr sample L(3) by (simp add: lock_tick_def sbind_def)
    note X = lock_exchange_logic [OF ex]
    show ?thesis
    proof (cases r)
      case (Inl e)
      then show ?thesis using X assms(2) L(4,5) by (simp add: rows_refine_def)
    next
      case (Inr b)
      then obtain a row lg where a: "reply_ok tick a" "(row, lg) = logical_row tick ud dd a (logic_of t)"
        "lk_rows s' = lk_rows s @ [row]" "lk_replies s' = lk_replies s @ [a]"
        "logic_of s' = logical_advance sc tick d a lg"
        using X L(4,5) by auto
      have "logical_tick sc (lk_rows s, logic_of s) a = Inr (lk_rows s', logic_of s')"
        using L(1,2) a assms(3) by (simp add: logical_tick_def Let_def flip: a(2))
      then have "logical_run sc lg0 (lk_replies s') = Inr (lk_rows s', logic_of s')"
        using assms(1) by (simp add: a(4) logical_run_snoc lock_refines_def)
      then show ?thesis
        using assms(2,3) a Inr by (auto simp: lock_refines_def rows_refine_def nth_append less_Suc_eq)
    qed
  qed
qed

lemma lock_loop_refines:
  assumes "lock_refines sc lg0 s" "rows_refine sc lg0 s" "int (length (lk_rows s)) = tick"
    "lock_loop crc sc fs da script [tick..hi] s = (s', r)"
  shows "rows_refine sc lg0 s'"
  using assms
proof (induction "nat (hi + 1 - tick)" arbitrary: tick s)
  case 0
  then show ?case by (simp add: lift_result_def)
next
  case (Suc n)
  then have ticks: "[tick..hi] = tick # [tick + 1..hi]" by (simp add: upto_rec1)
  obtain t x where t: "lock_tick crc sc fs da (script tick) tick s = (t, x)"
    by (cases "lock_tick crc sc fs da (script tick) tick s")
  note step = lock_tick_refines [OF Suc.prems(1-3) t]
  show ?case
  proof (cases "x = Inr True")
    case True
    then have "lock_loop crc sc fs da script [tick + 1..hi] t = (s', r)"
      using Suc.prems(4) t by (simp add: ticks sbind_def)
    then show ?thesis using Suc.hyps(1) [of "tick + 1" t] Suc.hyps(2) step True by simp
  next
    case False
    then have "s' = t" using Suc.prems(4) t by (auto simp: ticks sbind_def lift_result_def split: sum.splits if_splits)
    then show ?thesis using step by simp
  qed
qed

section \<open>Properties\<close>

definition initial_logic :: "scenario \<Rightarrow> u64 \<Rightarrow> u64 \<Rightarrow> nat \<Rightarrow> logic" where
  "initial_logic sc up down delay_ticks = \<lparr>lg_up = splitmix_init up, lg_down = splitmix_init down,
     lg_truth = sc_initial sc, lg_act = actuator_initial, lg_delay = replicate delay_ticks None, lg_pending = None\<rparr>"

lemma lock_initial_refines:
  assumes "lock_initial sc seed delay = Inr s" "stream_state seed ''link.loss.up'' = Inr u"
    "stream_state seed ''link.loss.down'' = Inr d"
  shows "lock_refines sc (initial_logic sc u d delay) s \<and> rows_refine sc (initial_logic sc u d delay) s \<and> lk_rows s = []"
  using assms
  by (auto simp: lock_initial_def lock_refines_def rows_refine_def logical_run_def initial_logic_def logic_of_def)

text \<open>C3. Physical attempts never repeat a model step: whatever the socket does, the rows of a lockstep
  run are those of the socket-free logical run on the accepted replies, one per reply, and every
  accepted reply carries its tick, a finite command and no timestamp.\<close>

theorem lockstep_refines_logical:
  assumes "lock_execute crc sc seed delay fail_sensor drop_actuator script = Inr (s, r)"
    and "stream_state seed ''link.loss.up'' = Inr u" "stream_state seed ''link.loss.down'' = Inr d"
  shows "(\<exists>lg. logical_run sc (initial_logic sc u d delay) (lk_replies s) = Inr (lk_rows s, lg)) \<and>
    length (lk_rows s) = length (lk_replies s) \<and>
    (\<forall>i < length (lk_replies s). reply_ok (int i) (lk_replies s ! i))"
proof -
  obtain s0 where s0: "lock_initial sc seed delay = Inr s0"
    "lock_loop crc sc fail_sensor drop_actuator script [0..sc_ticks sc - 1] s0 = (s, r)"
    using assms(1) by (auto simp: lock_execute_def rbind_eq_Inr)
  note start = lock_initial_refines [OF s0(1) assms(2,3)]
  have "rows_refine sc (initial_logic sc u d delay) s"
    by (rule lock_loop_refines [OF _ _ _ s0(2)]) (use start in simp_all)
  then show ?thesis by (simp add: rows_refine_def)
qed

text \<open>A silent first send, a malformed datagram and one reply.\<close>

definition example_script :: "int \<Rightarrow> nat \<Rightarrow> attempt_script" where
  "example_script tick a = \<lparr>at_send = (if a = 0 then SendFails 11 else Sent 58),
     at_events = (if tick = 0 \<and> a = 1 then [Reply [1], Reply (frame_bytes (\<lambda>_. 0) (5, 0, replicate 48 0))]
       else [ReplyTimeout])\<rparr>"

lemma lockstep_streams: "\<exists>u d. stream_state seed ''link.loss.up'' = Inr u \<and> stream_state seed ''link.loss.down'' = Inr d"
  by (simp add: stream_state_def STREAMS_def)

lemma lock_execute_total: "\<exists>s r. lock_execute crc sc seed delay fs da script = Inr (s, r)"
proof -
  obtain u d where "stream_state seed ''link.loss.up'' = Inr u" "stream_state seed ''link.loss.down'' = Inr d"
    using lockstep_streams by blast
  then show ?thesis by (simp add: lock_execute_def lock_initial_def)
qed

lemma lockstep_refines_logical_witness:
  "\<exists>s r u d. lock_execute (\<lambda>_. 0) example_scenario 1 1 None None example_script = Inr (s, r) \<and>
    (\<exists>lg. logical_run example_scenario (initial_logic example_scenario u d 1) (lk_replies s) = Inr (lk_rows s, lg)) \<and>
    length (lk_rows s) = length (lk_replies s) \<and>
    (\<forall>i < length (lk_replies s). reply_ok (int i) (lk_replies s ! i))"
proof -
  obtain s r where s: "lock_execute (\<lambda>_. 0) example_scenario 1 1 None None example_script = Inr (s, r)"
    using lock_execute_total by blast
  obtain u d where "stream_state 1 ''link.loss.up'' = Inr u" "stream_state 1 ''link.loss.down'' = Inr d"
    using lockstep_streams by blast
  from lockstep_refines_logical [OF s this] show ?thesis using s by blast
qed

end
