(* ===== verification/Freerun.thy ===== *)
theory Freerun
  imports Lockstep
begin

text \<open>
  The free-running simulator of \<open>sim/freerun.py\<close>: the \<open>Model\<close> that owns receipt and model steps,
  and the loop of \<open>execute\<close> with its samples, its terminal copies and its counters. The clock, the
  socket and the sleep are a script. An \<open>InterruptedError\<close> is the \<open>OSError\<close> with the number EINTR.
\<close>

definition PERIOD_NS :: int where "PERIOD_NS = 2000000"
definition GRACE_TICKS :: int where "GRACE_TICKS = 16"
definition ERR_INTR :: int where "ERR_INTR = 4"
definition ERR_AGAIN :: int where "ERR_AGAIN = 11"

section \<open>Round trips\<close>

record roundtrip =
  rt_received_ns :: int
  rt_sensor_send_ns :: int
  rt_status :: int

definition decode_actuator :: "(byte list \<Rightarrow> 32 word) \<Rightarrow> byte list \<Rightarrow> reply result" where
  "decode_actuator crc data =
     rbind (decode_datagram crc data {5}) (\<lambda>(t, seq, payload).
       rbind (decode_payload 5 payload) (\<lambda>F. Inr (reply_of F)))"

definition roundtrip_observation :: "(byte list \<Rightarrow> 32 word) \<Rightarrow> byte list \<Rightarrow> int \<Rightarrow> roundtrip option" where
  "roundtrip_observation crc data received_ns =
     (case decode_actuator crc data of
        Inl e \<Rightarrow> None
      | Inr v \<Rightarrow>
          if rp_status v mod 256 = 3 \<or> rp_status v div 2 ^ 16 mod 256 \<noteq> 0 \<or> rp_sensor_send_ns v = 0 then None
          else Some \<lparr>rt_received_ns = received_ns, rt_sensor_send_ns = rp_sensor_send_ns v, rt_status = rp_status v\<rparr>)"

definition roundtrip_ns :: "(byte list \<Rightarrow> 32 word) \<Rightarrow> byte list \<Rightarrow> int \<Rightarrow> int option" where
  "roundtrip_ns crc data received_ns =
     map_option (\<lambda>s. rt_received_ns s - rt_sensor_send_ns s) (roundtrip_observation crc data received_ns)"

definition validate_ticks :: "int \<Rightarrow> unit result" where
  "validate_ticks ticks = ensure (\<not> ticks < 2) ''freerun requires ticks >= 2'' (Inr ())"

section \<open>The model's state\<close>

record up_counts =
  uc_generated :: int
  uc_intentionally_lost :: int
  uc_transmitted :: int
  uc_sensor_tx_fail :: int
  uc_forced_transmit :: int
  uc_forced_drop :: int

record down_counts =
  dc_received :: int
  dc_intentionally_lost :: int
  dc_actuator_selected :: int
  dc_superseded :: int
  dc_malformed :: int
  dc_invalid :: int
  dc_last_received_tick :: "int option"

record term_counts =
  tc_up_attempts :: int
  tc_up_intentionally_lost :: int
  tc_up_tx_fail :: int
  tc_up_transmitted :: int
  tc_down_received_raw :: int
  tc_down_intentionally_lost :: int
  tc_down_survived :: int

record event_counts =
  ev_plant_steps :: int
  ev_actuator_updates :: int
  ev_fifo_advances :: int
  ev_sensor_observations :: int

record free_step =
  fs_row :: lrow
  fs_deadline_ns :: int
  fs_selected :: "f64 option"

record termination_time =
  tt_ns :: int
  tt_before_ns :: int
  tt_by_vehicle :: bool

record free =
  fr_truth :: truth_state
  fr_act :: actuator_state
  fr_delay :: "f64 option list"
  fr_stream_up :: splitmix
  fr_stream_down :: splitmix
  fr_draws_up :: int
  fr_draws_down :: int
  fr_up :: up_counts
  fr_down :: down_counts
  fr_term :: term_counts
  fr_events :: event_counts
  fr_reason :: "int option"
  fr_vehicle_seen :: "int option"
  fr_origin :: int
  fr_cached_terminal :: "byte list option"
  fr_terminal_logged :: bool
  fr_first_send :: int
  fr_last_send :: int
  fr_rows :: "lrow list"
  fr_steps :: "free_step list"
  fr_roundtrips :: "roundtrip list"
  fr_inputs :: "byte list list"
  fr_termination :: "termination_time option"

definition unit_interval :: "f64 \<Rightarrow> bool" where
  "unit_interval p \<longleftrightarrow> f_finite p \<and> f_le (f_zero False) p \<and> f_le p (f_lit 1 1)"

definition free_new :: "scenario \<Rightarrow> int \<Rightarrow> nat \<Rightarrow> free result" where
  "free_new sc seed delay_ticks =
     rbind (validate_ticks (sc_ticks sc)) (\<lambda>_.
     ensure (sc_commands sc = []) ''live command-bearing freerun scenarios are unsupported''
     (ensure (delay_ticks = 0 \<or> delay_ticks = 1) ''delay must be 0 or 1''
     (ensure (unit_interval (sc_loss_up sc) \<and> unit_interval (sc_loss_down sc)) ''loss outside [0,1]''
     (rbind (stream_state seed ''link.loss.up'') (\<lambda>up.
      rbind (stream_state seed ''link.loss.down'') (\<lambda>down.
        Inr \<lparr>fr_truth = sc_initial sc, fr_act = actuator_initial, fr_delay = replicate delay_ticks None,
          fr_stream_up = splitmix_init up, fr_stream_down = splitmix_init down, fr_draws_up = 0, fr_draws_down = 0,
          fr_up = \<lparr>uc_generated = 0, uc_intentionally_lost = 0, uc_transmitted = 0, uc_sensor_tx_fail = 0,
            uc_forced_transmit = 0, uc_forced_drop = 0\<rparr>,
          fr_down = \<lparr>dc_received = 0, dc_intentionally_lost = 0, dc_actuator_selected = 0, dc_superseded = 0,
            dc_malformed = 0, dc_invalid = 0, dc_last_received_tick = None\<rparr>,
          fr_term = \<lparr>tc_up_attempts = 0, tc_up_intentionally_lost = 0, tc_up_tx_fail = 0, tc_up_transmitted = 0,
            tc_down_received_raw = 0, tc_down_intentionally_lost = 0, tc_down_survived = 0\<rparr>,
          fr_events = \<lparr>ev_plant_steps = 0, ev_actuator_updates = 0, ev_fifo_advances = 0, ev_sensor_observations = 0\<rparr>,
          fr_reason = None, fr_vehicle_seen = None, fr_origin = 0, fr_cached_terminal = None,
          fr_terminal_logged = False, fr_first_send = 0, fr_last_send = 0, fr_rows = [], fr_steps = [], fr_roundtrips = [],
          fr_inputs = [], fr_termination = None\<rparr>))))))"

section \<open>Losses\<close>

text \<open>\<open>Model.loss\<close>: one draw, then what the scenario forces, unless the datagram is terminal or the
  prologue. The first component is the raw draw.\<close>

definition free_draw :: "scenario \<Rightarrow> bool \<Rightarrow> (free, bool) act" where
  "free_draw sc uplink s =
     (if uplink then
        (case draw_drop (fr_stream_up s) (sc_loss_up sc) of
           Inl e \<Rightarrow> (s, Inl e)
         | Inr (b, g) \<Rightarrow> (s\<lparr>fr_stream_up := g, fr_draws_up := fr_draws_up s + 1\<rparr>, Inr b))
      else
        (case draw_drop (fr_stream_down s) (sc_loss_down sc) of
           Inl e \<Rightarrow> (s, Inl e)
         | Inr (b, g) \<Rightarrow> (s\<lparr>fr_stream_down := g, fr_draws_down := fr_draws_down s + 1\<rparr>, Inr b)))"

definition free_loss :: "scenario \<Rightarrow> bool \<Rightarrow> int \<Rightarrow> bool \<Rightarrow> bool \<Rightarrow> (free, bool \<times> bool) act" where
  "free_loss sc uplink tick ending prologue =
     sbind (free_draw sc uplink) (\<lambda>raw.
     sbind (if prologue then give (Some False)
            else if ending then give None
            else lift_result (forced_drop_at sc tick (if uplink then ''up'' else ''down''))) (\<lambda>override.
       give (raw, case override of None \<Rightarrow> raw | Some b \<Rightarrow> b)))"

section \<open>Receipt\<close>

definition is_terminal :: "reply \<Rightarrow> bool" where
  "is_terminal v \<longleftrightarrow> rp_status v mod 256 = 3"

text \<open>The counters of one decoded datagram, \<open>drop\<close> being its loss.\<close>

definition count_receipt :: "reply \<Rightarrow> bool \<Rightarrow> free \<Rightarrow> free" where
  "count_receipt v lose s =
     (if is_terminal v then
        s\<lparr>fr_term := (let c = (fr_term s)\<lparr>tc_down_received_raw := tc_down_received_raw (fr_term s) + 1\<rparr>
           in if lose then c\<lparr>tc_down_intentionally_lost := tc_down_intentionally_lost c + 1\<rparr>
              else c\<lparr>tc_down_survived := tc_down_survived c + 1\<rparr>)\<rparr>
      else
        s\<lparr>fr_down := (let c = fr_down s;
             c = c\<lparr>dc_received := dc_received c + 1,
               dc_last_received_tick := Some (case dc_last_received_tick c of
                 None \<Rightarrow> rp_tick v | Some l \<Rightarrow> max l (rp_tick v))\<rparr>
           in if lose then c\<lparr>dc_intentionally_lost := dc_intentionally_lost c + 1\<rparr> else c)\<rparr>)"

fun receive_packets ::
  "(byte list \<Rightarrow> 32 word) \<Rightarrow> scenario \<Rightarrow> int \<Rightarrow> byte list list \<Rightarrow> reply list \<Rightarrow> (free, reply list) act" where
  "receive_packets crc sc body_tick [] survivors = give survivors"
| "receive_packets crc sc body_tick (d # ds) survivors =
     (case decode_actuator crc d of
        Inl (ValueError m) \<Rightarrow>
          sbind (modify (\<lambda>s. s\<lparr>fr_down := (fr_down s)\<lparr>dc_malformed := dc_malformed (fr_down s) + 1\<rparr>\<rparr>)) (\<lambda>_.
            receive_packets crc sc body_tick ds survivors)
      | Inl e \<Rightarrow> raise e
      | Inr v \<Rightarrow>
          sbind (free_loss sc False body_tick (is_terminal v) False) (\<lambda>(raw, lose).
          sbind (modify (count_receipt v lose)) (\<lambda>_.
            if lose then receive_packets crc sc body_tick ds survivors
            else if is_terminal v then
              (let r = rp_status v div 256 mod 256
               in if 1 \<le> r \<and> r \<le> 8 then
                    sbind (modify (\<lambda>s. s\<lparr>fr_vehicle_seen := Some r\<rparr>)) (\<lambda>_.
                      receive_packets crc sc body_tick ds survivors)
                  else raise (ValueError ''invalid terminal actuator reason''))
            else if \<not> f_finite (rp_delta v) then
              sbind (modify (\<lambda>s. s\<lparr>fr_down := (fr_down s)\<lparr>dc_invalid := dc_invalid (fr_down s) + 1\<rparr>\<rparr>)) (\<lambda>_.
                raise (ValueError ''nonfinite actuator command''))
            else receive_packets crc sc body_tick ds (survivors @ [v]))))"

text \<open>\<open>max(survivors, key=tick)\<close>: the first of the latest.\<close>

fun pick_latest :: "reply \<Rightarrow> reply list \<Rightarrow> reply" where
  "pick_latest b [] = b"
| "pick_latest b (v # vs) = pick_latest (if rp_tick b < rp_tick v then v else b) vs"

definition dispose_survivors :: "reply list \<Rightarrow> free \<Rightarrow> free \<times> f64 option" where
  "dispose_survivors survivors s =
     (let c = fr_down s
      in if fr_vehicle_seen s \<noteq> None then
           (s\<lparr>fr_down := c\<lparr>dc_superseded := dc_superseded c + int (length survivors)\<rparr>,
              fr_reason := (if fr_reason s = None then Some SIM_VEHICLE_TERMINAL else fr_reason s)\<rparr>, None)
         else
           (case survivors of
              [] \<Rightarrow> (s, None)
            | v # vs \<Rightarrow>
                (s\<lparr>fr_down := c\<lparr>dc_actuator_selected := dc_actuator_selected c + 1,
                    dc_superseded := dc_superseded c + int (length vs)\<rparr>\<rparr>, Some (rp_delta (pick_latest v vs)))))"

definition free_receive :: "(byte list \<Rightarrow> 32 word) \<Rightarrow> scenario \<Rightarrow> byte list list \<Rightarrow> int \<Rightarrow> (free, f64 option) act" where
  "free_receive crc sc packets body_tick =
     sbind (receive_packets crc sc body_tick packets []) (\<lambda>survivors s.
       case dispose_survivors survivors s of (s', d) \<Rightarrow> (s', Inr d))"

section \<open>The model step\<close>

definition free_reason :: "scenario \<Rightarrow> int \<Rightarrow> truth_state \<Rightarrow> int option" where
  "free_reason sc k truth =
     (case hl_loc truth of
        Some r \<Rightarrow> Some r
      | None \<Rightarrow> if k + 1 = sc_ticks sc - 1 then Some SIM_HORIZON else None)"

definition free_advance :: "scenario \<Rightarrow> int \<Rightarrow> f64 option \<Rightarrow> (free, f64 option) act" where
  "free_advance sc k selected =
     sbind (gets fr_reason) (\<lambda>reason.
       if reason \<noteq> None then raise (ValueError ''plant advancement after termination'')
       else
         sbind (gets (\<lambda>s. push_pop (fr_delay s) selected)) (\<lambda>(arriving, delay).
         sbind (modify (\<lambda>s. s\<lparr>fr_delay := delay, fr_act := actuator_step (fr_act s) arriving,
            fr_events := (fr_events s)\<lparr>ev_fifo_advances := ev_fifo_advances (fr_events s) + 1,
              ev_actuator_updates := ev_actuator_updates (fr_events s) + 1\<rparr>\<rparr>)) (\<lambda>_.
         sbind (lift_result (disturbance_at sc k environment_fixed)) (\<lambda>dstb.
         sbind (modify (\<lambda>s.
            (let truth = plant_step (fr_truth s) (fr_act s) environment_fixed dstb DT
             in s\<lparr>fr_truth := truth,
                  fr_events := (fr_events s)\<lparr>ev_plant_steps := ev_plant_steps (fr_events s) + 1\<rparr>,
                  fr_reason := free_reason sc k truth\<rparr>))) (\<lambda>_.
           give arriving)))))"

section \<open>Samples and terminal copies\<close>

text \<open>What the clock and the socket do during one \<open>offer\<close>.\<close>

record offer_script =
  of_sent_ns :: int
  of_result :: send_result
  of_after_ns :: int

definition offer_fields :: "int \<Rightarrow> truth_state \<Rightarrow> int \<Rightarrow> bool \<Rightarrow> int \<Rightarrow> fields" where
  "offer_fields tick truth sent_ns ending reason =
     (let ob = observe tick truth
      in [''tick'' \<mapsto> VInt tick, ''t_send_ns'' \<mapsto> VInt sent_ns, ''theta'' \<mapsto> VFlt (obs_theta ob),
          ''omega'' \<mapsto> VFlt (obs_omega ob), ''flags'' \<mapsto> VInt (if ending then 3 else 1),
          ''cmd_seq'' \<mapsto> VInt 0, ''sim_reason'' \<mapsto> VInt (if ending then reason else 0)])"

text \<open>The first terminal frame is cached: its copies carry the same bytes.\<close>

definition cached_frame :: "bool \<Rightarrow> free \<Rightarrow> byte list option" where
  "cached_frame ending s = (if ending then fr_cached_terminal s else None)"

definition count_observation :: "bool \<Rightarrow> free \<Rightarrow> free" where
  "count_observation ending s =
     (if cached_frame ending s = None then
        s\<lparr>fr_events := (fr_events s)\<lparr>ev_sensor_observations := ev_sensor_observations (fr_events s) + 1\<rparr>\<rparr>
      else s)"

definition count_offer :: "bool \<Rightarrow> free \<Rightarrow> free" where
  "count_offer ending s =
     (if ending then s\<lparr>fr_term := (fr_term s)\<lparr>tc_up_attempts := tc_up_attempts (fr_term s) + 1\<rparr>\<rparr>
      else s\<lparr>fr_up := (fr_up s)\<lparr>uc_generated := uc_generated (fr_up s) + 1\<rparr>\<rparr>)"

definition offer_frame :: "(byte list \<Rightarrow> 32 word) \<Rightarrow> int \<Rightarrow> bool \<Rightarrow> int \<Rightarrow> (free, byte list) act" where
  "offer_frame crc tick ending sent_ns =
     sbind (gets (cached_frame ending)) (\<lambda>cached.
       case cached of
         Some frame \<Rightarrow> give frame
       | None \<Rightarrow>
           sbind (gets (\<lambda>s. (fr_truth s, fr_reason s))) (\<lambda>(truth, reason).
           sbind (lift_result (if ending \<and> reason = None then Inl (TypeError ''int() of NoneType'')
               else rbind (encode_payload 4 (offer_fields tick truth sent_ns ending (case reason of None \<Rightarrow> 0 | Some r \<Rightarrow> r)))
                      (encode_frame crc 4 tick))) (\<lambda>frame.
           sbind (modify (\<lambda>s. if ending then s\<lparr>fr_cached_terminal := Some frame\<rparr> else s)) (\<lambda>_.
             give frame))))"

definition count_lost_offer :: "bool \<Rightarrow> bool \<Rightarrow> free \<Rightarrow> free" where
  "count_lost_offer ending raw s =
     (if ending then
        s\<lparr>fr_term := (fr_term s)\<lparr>tc_up_intentionally_lost := tc_up_intentionally_lost (fr_term s) + 1\<rparr>\<rparr>
      else s\<lparr>fr_up := (fr_up s)\<lparr>uc_intentionally_lost := uc_intentionally_lost (fr_up s) + 1,
             uc_forced_drop := uc_forced_drop (fr_up s) + (if raw then 0 else 1)\<rparr>\<rparr>)"

definition count_failed_offer :: "bool \<Rightarrow> free \<Rightarrow> free" where
  "count_failed_offer ending s =
     (if ending then s\<lparr>fr_term := (fr_term s)\<lparr>tc_up_tx_fail := tc_up_tx_fail (fr_term s) + 1\<rparr>\<rparr>
      else s\<lparr>fr_up := (fr_up s)\<lparr>uc_sensor_tx_fail := uc_sensor_tx_fail (fr_up s) + 1\<rparr>\<rparr>)"

definition count_sent_offer :: "bool \<Rightarrow> bool \<Rightarrow> byte list \<Rightarrow> free \<Rightarrow> free" where
  "count_sent_offer ending raw frame s =
     (let s = (if ending then s\<lparr>fr_term := (fr_term s)\<lparr>tc_up_transmitted := tc_up_transmitted (fr_term s) + 1\<rparr>\<rparr>
               else s\<lparr>fr_up := (fr_up s)\<lparr>uc_transmitted := uc_transmitted (fr_up s) + 1,
                      uc_forced_transmit := uc_forced_transmit (fr_up s) + (if raw then 1 else 0)\<rparr>\<rparr>)
      in if ending \<and> fr_terminal_logged s then s
         else s\<lparr>fr_inputs := fr_inputs s @ [frame], fr_terminal_logged := (ending \<or> fr_terminal_logged s)\<rparr>)"

text \<open>\<open>None\<close> is a send of the whole frame; a short send has no number.\<close>

definition offer_error :: "int option \<Rightarrow> int \<Rightarrow> bool \<Rightarrow> bool \<Rightarrow> byte list \<Rightarrow> send_result \<Rightarrow> int option" where
  "offer_error fail_sensor tick ending initial frame res =
     (if fail_sensor = Some tick \<and> (\<not> ending \<or> initial) then Some ERR_AGAIN
      else case res of
             SendFails e \<Rightarrow> Some e
           | Sent n \<Rightarrow> if n = length frame then None else Some 0)"

definition stamp_terminal :: "bool \<Rightarrow> offer_script \<Rightarrow> free \<Rightarrow> free" where
  "stamp_terminal ending script s =
     (if ending then
        s\<lparr>fr_first_send := (if fr_first_send s = 0 then of_sent_ns script else fr_first_send s),
          fr_last_send := of_after_ns script\<rparr>
      else s)"

definition offer_send :: "int option \<Rightarrow> int \<Rightarrow> bool \<Rightarrow> bool \<Rightarrow> bool \<Rightarrow> byte list \<Rightarrow> offer_script \<Rightarrow> (free, unit) act" where
  "offer_send fail_sensor tick ending prologue raw frame script =
     sbind (modify (stamp_terminal ending script)) (\<lambda>_.
     sbind (gets (\<lambda>s. tc_up_attempts (fr_term s) = 1)) (\<lambda>initial.
       case offer_error fail_sensor tick ending initial frame (of_result script) of
         None \<Rightarrow> modify (count_sent_offer ending raw frame)
       | Some e \<Rightarrow>
           sbind (modify (count_failed_offer ending)) (\<lambda>_. if prologue then raise (OSError e) else give ())))"

definition offer ::
  "(byte list \<Rightarrow> 32 word) \<Rightarrow> scenario \<Rightarrow> int option \<Rightarrow> int \<Rightarrow> bool \<Rightarrow> bool \<Rightarrow> offer_script \<Rightarrow> (free, unit) act" where
  "offer crc sc fail_sensor tick ending prologue script =
     sbind (modify (count_observation ending)) (\<lambda>_.
     sbind (free_loss sc True tick ending prologue) (\<lambda>(raw, lose).
     sbind (modify (count_offer ending)) (\<lambda>_.
     sbind (modify (\<lambda>s. if prologue then s\<lparr>fr_origin := of_sent_ns script\<rparr> else s)) (\<lambda>_.
     sbind (offer_frame crc tick ending (of_sent_ns script)) (\<lambda>frame.
       if lose then modify (count_lost_offer ending raw)
       else offer_send fail_sensor tick ending prologue raw frame script)))))"

section \<open>The loop\<close>

text \<open>The results of the sleeps until the stop flag is set: \<open>0\<close> is a full sleep.\<close>

fun sleep_until :: "int list \<Rightarrow> unit result" where
  "sleep_until [] = Inl (OSError ERR_INTR)"
| "sleep_until (e # es) =
     (if e = 0 then Inr () else if e = ERR_INTR then sleep_until es else Inl (OSError e))"

datatype recv_event = Packet "byte list" | RecvFails int

text \<open>At most \<open>n\<close> receives, up to the first that would block.\<close>

fun drain_socket :: "nat \<Rightarrow> recv_event list \<Rightarrow> byte list list result" where
  "drain_socket n [] = Inr []"
| "drain_socket 0 (ev # evs) = Inr []"
| "drain_socket (Suc n) (Packet d # evs) = rbind (drain_socket n evs) (\<lambda>ps. Inr (take 513 d # ps))"
| "drain_socket (Suc n) (RecvFails e # evs) = (if e = ERR_AGAIN then Inr [] else Inl (OSError e))"

record body_script =
  bs_sleep :: "int list"
  bs_recv :: "recv_event list"
  bs_received_ns :: int
  bs_receive_start_ns :: int
  bs_advance_start_ns :: int
  bs_end_ns :: int
  bs_offer :: offer_script

definition drain :: "(byte list \<Rightarrow> 32 word) \<Rightarrow> body_script \<Rightarrow> (free, byte list list) act" where
  "drain crc script =
     sbind (lift_result (drain_socket 8 (bs_recv script))) (\<lambda>packets.
     sbind (modify (\<lambda>s. s\<lparr>fr_roundtrips := fr_roundtrips s @
         List.map_filter (\<lambda>d. roundtrip_observation crc d (bs_received_ns script)) packets\<rparr>)) (\<lambda>_.
       give packets))"

definition free_row :: "int \<Rightarrow> bool \<Rightarrow> free \<Rightarrow> lrow" where
  "free_row tick was_applied s = \<lparr>lr_tick = tick, lr_has_sample = True, lr_applied = was_applied,
     lr_theta = truth_theta (fr_truth s), lr_omega = truth_omega (fr_truth s), lr_cmd_applied = applied (fr_act s)\<rparr>"

definition record_step :: "int \<Rightarrow> f64 option \<Rightarrow> f64 option \<Rightarrow> free \<Rightarrow> free" where
  "record_step k selected arriving s =
     (let row = free_row (k + 1) (arriving \<noteq> None) s
      in s\<lparr>fr_rows := fr_rows s @ [row],
           fr_steps := fr_steps s @ [\<lparr>fs_row = row, fs_deadline_ns = fr_origin s + (k + 1) * PERIOD_NS,
             fs_selected = selected\<rparr>]\<rparr>)"

definition stamp_termination :: "int \<Rightarrow> int \<Rightarrow> bool \<Rightarrow> free \<Rightarrow> free" where
  "stamp_termination now since by_vehicle s =
     s\<lparr>fr_termination := Some \<lparr>tt_ns = now, tt_before_ns = since, tt_by_vehicle = by_vehicle\<rparr>\<rparr>"

datatype body_end = Goes_on | Answered | Ended

text \<open>Body \<open>k\<close>: wake, receive, move the model, offer the next sample.\<close>

definition free_body ::
  "(byte list \<Rightarrow> 32 word) \<Rightarrow> scenario \<Rightarrow> int option \<Rightarrow> int \<Rightarrow> body_script \<Rightarrow> (free, body_end) act" where
  "free_body crc sc fail_sensor k script =
     sbind (lift_result (sleep_until (bs_sleep script))) (\<lambda>_.
     sbind (drain crc script) (\<lambda>packets.
     sbind (free_receive crc sc packets k) (\<lambda>selected.
     sbind (gets fr_vehicle_seen) (\<lambda>seen.
       if seen \<noteq> None then
         sbind (modify (stamp_termination (bs_end_ns script) (bs_receive_start_ns script) True)) (\<lambda>_. give Answered)
       else
         sbind (free_advance sc k selected) (\<lambda>arriving.
         sbind (gets (\<lambda>s. fr_reason s \<noteq> None)) (\<lambda>ending.
         sbind (modify (\<lambda>s. if ending then stamp_termination (bs_end_ns script) (bs_advance_start_ns script) False s
             else s)) (\<lambda>_.
         sbind (modify (record_step k selected arriving)) (\<lambda>_.
         sbind (offer crc sc fail_sensor (k + 1) ending False (bs_offer script)) (\<lambda>_.
           give (if ending then Ended else Goes_on))))))))))"

text \<open>The bodies left; the result is the tick of a local termination.\<close>

fun free_bodies ::
  "(byte list \<Rightarrow> 32 word) \<Rightarrow> scenario \<Rightarrow> int option \<Rightarrow> (int \<Rightarrow> body_script) \<Rightarrow> int list \<Rightarrow> (free, int option) act" where
  "free_bodies crc sc fail_sensor script [] = give None"
| "free_bodies crc sc fail_sensor script (k # ks) =
     sbind (free_body crc sc fail_sensor k (script k)) (\<lambda>e.
       case e of
         Goes_on \<Rightarrow> free_bodies crc sc fail_sensor script ks
       | Answered \<Rightarrow> give None
       | Ended \<Rightarrow> give (Some k))"

text \<open>The offsets after a local termination in tick \<open>k\<close>, with copies up to \<open>copies\<close>.\<close>

fun terminal_offsets ::
  "(byte list \<Rightarrow> 32 word) \<Rightarrow> scenario \<Rightarrow> int option \<Rightarrow> int \<Rightarrow> int \<Rightarrow> (int \<Rightarrow> body_script) \<Rightarrow> int list \<Rightarrow> (free, unit) act" where
  "terminal_offsets crc sc fail_sensor k copies script [] = give ()"
| "terminal_offsets crc sc fail_sensor k copies script (n # ns) =
     sbind (lift_result (sleep_until (bs_sleep (script n)))) (\<lambda>_.
     sbind (drain crc (script n)) (\<lambda>packets.
     sbind (free_receive crc sc packets k) (\<lambda>_.
     sbind (gets fr_vehicle_seen) (\<lambda>seen.
       if seen \<noteq> None then give ()
       else
         sbind (if n < copies then offer crc sc fail_sensor (k + 1) True False (bs_offer (script n)) else give ()) (\<lambda>_.
           terminal_offsets crc sc fail_sensor k copies script ns)))))"

record free_script =
  fsc_prologue :: offer_script
  fsc_body :: "int \<Rightarrow> body_script"
  fsc_offset :: "int \<Rightarrow> body_script"

definition free_prologue :: "(byte list \<Rightarrow> 32 word) \<Rightarrow> scenario \<Rightarrow> int option \<Rightarrow> offer_script \<Rightarrow> (free, unit) act" where
  "free_prologue crc sc fail_sensor script =
     sbind (offer crc sc fail_sensor 0 False True script) (\<lambda>_.
       modify (\<lambda>s. s\<lparr>fr_rows := fr_rows s @ [free_row 0 False s]\<rparr>))"

definition free_finish ::
  "(byte list \<Rightarrow> 32 word) \<Rightarrow> scenario \<Rightarrow> int option \<Rightarrow> int \<Rightarrow> (int \<Rightarrow> body_script) \<Rightarrow> int option \<Rightarrow> (free, int) act" where
  "free_finish crc sc fail_sensor copies script terminal_tick =
     (case terminal_tick of
        None \<Rightarrow> give 0
      | Some k \<Rightarrow>
          sbind (terminal_offsets crc sc fail_sensor k copies script [1..copies + GRACE_TICKS - 1]) (\<lambda>_.
            gets (\<lambda>s. if fr_vehicle_seen s = None then 3 else 0)))"

definition free_run ::
  "(byte list \<Rightarrow> 32 word) \<Rightarrow> scenario \<Rightarrow> int option \<Rightarrow> int \<Rightarrow> free_script \<Rightarrow> (free, int) act" where
  "free_run crc sc fail_sensor copies script =
     sbind (free_prologue crc sc fail_sensor (fsc_prologue script)) (\<lambda>_.
     sbind (free_bodies crc sc fail_sensor (fsc_body script) [0..sc_ticks sc - 2])
       (free_finish crc sc fail_sensor copies (fsc_offset script)))"

text \<open>What \<open>execute\<close> catches, and the exit code it returns.\<close>

fun exit_code :: "exn \<Rightarrow> int result" where
  "exit_code (ValueError m) = Inr 1"
| "exit_code (OSError n) = Inr (if n = ERR_INTR then 3 else 1)"
| "exit_code e = Inl e"

definition free_execute ::
  "(byte list \<Rightarrow> 32 word) \<Rightarrow> scenario \<Rightarrow> int \<Rightarrow> nat \<Rightarrow> int \<Rightarrow> int option \<Rightarrow> free_script \<Rightarrow> (free \<times> int \<times> exn option) result" where
  "free_execute crc sc seed delay_ticks copies fail_sensor script =
     rbind (free_new sc seed delay_ticks) (\<lambda>s0.
     ensure (1 \<le> copies \<and> copies \<le> 64) ''terminal copies outside [1,64]''
       (let (s, r) = free_run crc sc fail_sensor copies script s0;
            s = (if fr_reason s = None then s\<lparr>fr_reason := Some SIM_PEER_LOST\<rparr> else s)
        in case r of
             Inr code \<Rightarrow> Inr (s, code, None)
           | Inl e \<Rightarrow> rbind (exit_code e) (\<lambda>code. Inr (s, code, Some e))))"

section \<open>Conservation\<close>

text \<open>
  What is not yet accounted for: a sample offered but not lost, failed or sent (\<open>up\<close>), the same for a
  terminal copy (\<open>tu\<close>), commands received but not disposed of (\<open>dn\<close>), draws not yet counted (\<open>du\<close>, \<open>dd\<close>).
\<close>

definition balance :: "int \<Rightarrow> int \<Rightarrow> int \<Rightarrow> int \<Rightarrow> int \<Rightarrow> free \<Rightarrow> bool" where
  "balance up tu dn du dd s \<longleftrightarrow>
     uc_generated (fr_up s) =
       uc_intentionally_lost (fr_up s) + uc_transmitted (fr_up s) + uc_sensor_tx_fail (fr_up s) + up \<and>
     tc_up_attempts (fr_term s) =
       tc_up_intentionally_lost (fr_term s) + tc_up_tx_fail (fr_term s) + tc_up_transmitted (fr_term s) + tu \<and>
     dc_received (fr_down s) =
       dc_actuator_selected (fr_down s) + dc_intentionally_lost (fr_down s) + dc_superseded (fr_down s) + dn \<and>
     tc_down_received_raw (fr_term s) = tc_down_intentionally_lost (fr_term s) + tc_down_survived (fr_term s) \<and>
     fr_draws_up s = uc_generated (fr_up s) + tc_up_attempts (fr_term s) + du \<and>
     fr_draws_down s = dc_received (fr_down s) + tc_down_received_raw (fr_term s) + dd \<and>
     0 \<le> uc_transmitted (fr_up s) \<and> 0 \<le> tc_up_transmitted (fr_term s) \<and>
     int (length (fr_inputs s)) = uc_transmitted (fr_up s) + (if fr_terminal_logged s then 1 else 0) \<and>
     (fr_terminal_logged s \<longleftrightarrow> 0 < tc_up_transmitted (fr_term s))"

definition conserved :: "free \<Rightarrow> bool" where
  "conserved s \<longleftrightarrow> balance 0 0 0 0 0 s"

text \<open>After an exception at most one sample, copy or draw is open, and the commands of one batch.\<close>

definition residual :: "free \<Rightarrow> bool" where
  "residual s \<longleftrightarrow> (\<exists>up tu dn du dd. balance up tu dn du dd s \<and> up \<in> {0, 1} \<and> tu \<in> {0, 1} \<and> 0 \<le> dn \<and> du \<in> {0, 1} \<and> dd \<in> {0, 1})"

lemma residualI: "balance up tu dn du dd s \<Longrightarrow> up \<in> {0, 1} \<Longrightarrow> tu \<in> {0, 1} \<Longrightarrow> 0 \<le> dn \<Longrightarrow> du \<in> {0, 1} \<Longrightarrow>
  dd \<in> {0, 1} \<Longrightarrow> residual s"
  unfolding residual_def by blast

lemma conserved_residual: "conserved s \<Longrightarrow> residual s"
  unfolding conserved_def by (erule residualI) simp_all

text \<open>A statement that ends conserved, or raises and leaves a residual.\<close>

abbreviation conserves :: "(free, 'a) act \<Rightarrow> bool" where
  "conserves m \<equiv> steps conserved m (\<lambda>r s. case r of Inl e \<Rightarrow> residual s | Inr a \<Rightarrow> conserved s)"

lemma ends_sbind:
  fixes m :: "('s, 'b) act" and f :: "'b \<Rightarrow> ('s, 'c) act"
  assumes "steps P m (\<lambda>r s. case r of Inl e \<Rightarrow> E s | Inr a \<Rightarrow> R a s)"
    and "\<And>a. steps (R a) (f a) (\<lambda>r s. case r of Inl e \<Rightarrow> E s | Inr a \<Rightarrow> Q a s)"
  shows "steps P (sbind m f) (\<lambda>r s. case r of Inl e \<Rightarrow> E s | Inr a \<Rightarrow> Q a s)"
proof -
  have "(\<lambda>(r :: 'b result) s. case r of Inl e \<Rightarrow> (case (Inl e :: 'c result) of Inl e \<Rightarrow> E s | Inr a \<Rightarrow> Q a s) | Inr a \<Rightarrow> R a s) =
     (\<lambda>r s. case r of Inl e \<Rightarrow> E s | Inr a \<Rightarrow> R a s)"
    by (simp cong: sum.case_cong)
  then show ?thesis using assms by (intro steps_sbind [where R = R]) simp_all
qed

named_theorems conserves_intro \<open>conservation of the statements of the loop\<close>

lemma conserves_sbind [conserves_intro]: "conserves m \<Longrightarrow> (\<And>a. conserves (f a)) \<Longrightarrow> conserves (sbind m f)"
  by (rule ends_sbind)

lemma conserves_lift [conserves_intro]: "conserves (lift_result r)"
  by (auto simp: steps_def lift_result_def conserved_residual split: sum.split)

lemma conserves_gets [conserves_intro]: "conserves (gets f)"
  by (simp add: steps_def gets_def)

lemma conserves_modify: "(\<And>s. conserved s \<Longrightarrow> conserved (f s)) \<Longrightarrow> conserves (modify f)"
  by (simp add: steps_def modify_def)

text \<open>The counters and logs that conservation is about.\<close>

definition counters :: "free \<Rightarrow> up_counts \<times> down_counts \<times> term_counts \<times> int \<times> int \<times> byte list list \<times> bool" where
  "counters s = (fr_up s, fr_down s, fr_term s, fr_draws_up s, fr_draws_down s, fr_inputs s, fr_terminal_logged s)"

lemma balance_cong: "counters s = counters t \<Longrightarrow> balance up tu dn du dd s = balance up tu dn du dd t"
  by (simp add: counters_def balance_def)

lemma conserved_cong: "counters s = counters t \<Longrightarrow> conserved s = conserved t"
  unfolding conserved_def by (rule balance_cong)

lemma conserves_untouched:
  assumes "\<And>s. counters (f s) = counters s"
  shows "conserves (modify f)"
  by (rule conserves_modify) (simp add: assms cong: conserved_cong)

lemma free_draw_result:
  assumes "free_draw sc uplink s = (t, x)"
  shows "case x of Inl e \<Rightarrow> t = s
    | Inr b \<Rightarrow> \<exists>g. t = (if uplink then s\<lparr>fr_stream_up := g, fr_draws_up := fr_draws_up s + 1\<rparr>
        else s\<lparr>fr_stream_down := g, fr_draws_down := fr_draws_down s + 1\<rparr>)"
  using assms by (auto simp: free_draw_def split: sum.splits prod.splits if_splits)

lemma balance_draw: "balance up tu dn 0 0 s \<Longrightarrow> balance up tu dn 1 0 (s\<lparr>fr_stream_up := g, fr_draws_up := fr_draws_up s + 1\<rparr>)"
  "balance up tu dn 0 0 s \<Longrightarrow> balance up tu dn 0 1 (s\<lparr>fr_stream_down := g, fr_draws_down := fr_draws_down s + 1\<rparr>)"
  by (simp_all add: balance_def)

lemma free_loss_balance:
  assumes "free_loss sc uplink tick ending prologue s = (s', r)" "balance up tu dn 0 0 s"
  shows "case r of
      Inl e \<Rightarrow> balance up tu dn 0 0 s' \<or> (if uplink then balance up tu dn 1 0 s' else balance up tu dn 0 1 s')
    | Inr b \<Rightarrow> if uplink then balance up tu dn 1 0 s' else balance up tu dn 0 1 s'"
proof -
  obtain t x where t: "free_draw sc uplink s = (t, x)" by (cases "free_draw sc uplink s")
  note draw = free_draw_result [OF t]
  show ?thesis
  proof (cases x)
    case (Inl e)
    then show ?thesis using assms t draw by (auto simp: free_loss_def sbind_def)
  next
    case (Inr b)
    then have "s' = t"
      using assms(1) t by (auto simp: free_loss_def sbind_def lift_result_def split: sum.splits prod.splits if_splits)
    moreover have "if uplink then balance up tu dn 1 0 t else balance up tu dn 0 1 t"
      using draw Inr balance_draw [OF assms(2)] by auto
    ultimately show ?thesis by (cases r) simp_all
  qed
qed

lemma count_receipt_balance:
  assumes "balance 0 0 n 0 1 s"
  shows "balance 0 0 (n + (if is_terminal v \<or> lose then 0 else 1)) 0 0 (count_receipt v lose s)"
  using assms by (simp add: balance_def count_receipt_def Let_def)

lemma receive_packets_balance:
  assumes "balance 0 0 (int (length survivors)) 0 0 s" "receive_packets crc sc body_tick ds survivors s = (s', r)"
  shows "case r of Inl e \<Rightarrow> residual s' | Inr vs \<Rightarrow> balance 0 0 (int (length vs)) 0 0 s'"
  using assms
proof (induction ds arbitrary: s survivors)
  case Nil
  then show ?case by (auto simp: lift_result_def)
next
  case (Cons d ds)
  show ?case
  proof (cases "decode_actuator crc d")
    case (Inl e)
    then show ?thesis
    proof (cases "\<exists>m. e = ValueError m")
      case True
      let ?t = "s\<lparr>fr_down := (fr_down s)\<lparr>dc_malformed := dc_malformed (fr_down s) + 1\<rparr>\<rparr>"
      have "balance 0 0 (int (length survivors)) 0 0 ?t" using Cons.prems(1) by (simp add: balance_def)
      moreover have "receive_packets crc sc body_tick ds survivors ?t = (s', r)"
        using Cons.prems(2) Inl True by auto
      ultimately show ?thesis by (rule Cons.IH)
    next
      case False
      then have "s' = s \<and> (\<exists>e. r = Inl e)"
        using Cons.prems(2) Inl by (auto simp: lift_result_def split: exn.splits)
      then show ?thesis using residualI [OF Cons.prems(1)] by auto
    qed
  next
    case (Inr v)
    obtain t x where t: "free_loss sc False body_tick (is_terminal v) False s = (t, x)"
      by (cases "free_loss sc False body_tick (is_terminal v) False s")
    note loss = free_loss_balance [OF t Cons.prems(1)]
    show ?thesis
    proof (cases x)
      case (Inl e)
      then have "s' = t \<and> r = Inl e" using Cons.prems(2) Inr t by (simp add: sbind_def)
      moreover have "residual t" using loss Inl by (auto intro: residualI)
      ultimately show ?thesis by simp
    next
      case x: (Inr p)
      obtain raw lose where p: "p = (raw, lose)" by (cases p)
      let ?u = "count_receipt v lose t"
      have u: "balance 0 0 (int (length survivors) + (if is_terminal v \<or> lose then 0 else 1)) 0 0 ?u"
        by (rule count_receipt_balance) (use loss x in simp)
      have seen: "balance 0 0 k 0 0 (w\<lparr>fr_vehicle_seen := q\<rparr>) = balance 0 0 k 0 0 w" for k w q
        by (simp add: balance_def)
      have invalid: "balance 0 0 k 0 0 (w\<lparr>fr_down := (fr_down w)\<lparr>dc_invalid := q\<rparr>\<rparr>) = balance 0 0 k 0 0 w" for k w q
        by (simp add: balance_def)
      show ?thesis
      proof (cases "\<not> lose \<and> (if is_terminal v then \<not> (1 \<le> rp_status v div 256 mod 256 \<and> rp_status v div 256 mod 256 \<le> 8)
          else \<not> f_finite (rp_delta v))")
        case True
        then have "(\<exists>e. r = Inl e) \<and> (s' = ?u \<or> s' = ?u\<lparr>fr_down := (fr_down ?u)\<lparr>dc_invalid := dc_invalid (fr_down ?u) + 1\<rparr>\<rparr>)"
          using Cons.prems(2) Inr t x p by (auto simp: sbind_def modify_def lift_result_def Let_def split: if_splits)
        moreover have "residual ?u" by (rule residualI [OF u]) simp_all
        moreover have "residual (?u\<lparr>fr_down := (fr_down ?u)\<lparr>dc_invalid := dc_invalid (fr_down ?u) + 1\<rparr>\<rparr>)"
          by (rule residualI, subst invalid, rule u) simp_all
        ultimately show ?thesis by auto
      next
        case False
        then consider "receive_packets crc sc body_tick ds survivors ?u = (s', r)" "is_terminal v \<or> lose"
          | q where "receive_packets crc sc body_tick ds survivors (?u\<lparr>fr_vehicle_seen := q\<rparr>) = (s', r)" "is_terminal v"
          | "receive_packets crc sc body_tick ds (survivors @ [v]) ?u = (s', r)" "\<not> (is_terminal v \<or> lose)"
          using Cons.prems(2) Inr t x p by (auto simp: sbind_def modify_def Let_def split: if_splits)
        then show ?thesis
        proof cases
          case 1
          then show ?thesis using Cons.IH [OF _ 1(1)] u by simp
        next
          case 2
          then show ?thesis using Cons.IH [OF _ 2(1)] u seen by simp
        next
          case 3
          then show ?thesis using Cons.IH [OF _ 3(1)] u by (simp add: add.commute)
        qed
      qed
    qed
  qed
qed

lemma dispose_balance:
  assumes "balance 0 0 (int (length vs)) 0 0 s"
  shows "conserved (fst (dispose_survivors vs s))"
  using assms
  by (cases vs) (auto simp: balance_def conserved_def dispose_survivors_def Let_def)

lemma free_receive_conserves [conserves_intro]: "conserves (free_receive crc sc packets body_tick)"
  unfolding free_receive_def
proof (rule ends_sbind [where R = "\<lambda>vs. balance 0 0 (int (length vs)) 0 0"])
  show "steps conserved (receive_packets crc sc body_tick packets [])
    (\<lambda>r s. case r of Inl e \<Rightarrow> residual s | Inr a \<Rightarrow> balance 0 0 (int (length a)) 0 0 s)"
    using receive_packets_balance [of "[]"] by (simp add: steps_def conserved_def)
  show "steps (balance 0 0 (int (length vs)) 0 0)
     (\<lambda>s. case dispose_survivors vs s of (s', d) \<Rightarrow> (s', Inr d))
     (\<lambda>r s. case r of Inl e \<Rightarrow> residual s | Inr a \<Rightarrow> conserved s)" for vs
    unfolding steps_def
  proof (intro allI impI)
    fix s s' r
    assume "balance 0 0 (int (length vs)) 0 0 s" "(case dispose_survivors vs s of (s', d) \<Rightarrow> (s', Inr d)) = (s', r)"
    then show "case r of Inl e \<Rightarrow> residual s' | Inr a \<Rightarrow> conserved s'"
      using dispose_balance [of vs s] by (auto split: prod.splits)
  qed
qed

text \<open>A sample or copy that has been counted as offered.\<close>

definition offered :: "bool \<Rightarrow> free \<Rightarrow> bool" where
  "offered ending s \<longleftrightarrow> balance (if ending then 0 else 1) (if ending then 1 else 0) 0 0 0 s"

lemma offered_residual: "offered ending s \<Longrightarrow> residual s"
  unfolding offered_def by (erule residualI) simp_all

lemma offered_cong: "counters s = counters t \<Longrightarrow> offered ending s = offered ending t"
  unfolding offered_def by (rule balance_cong)

lemma count_offer_offered: "balance 0 0 0 1 0 s \<Longrightarrow> offered ending (count_offer ending s)"
  by (simp add: offered_def balance_def count_offer_def)

lemma offered_closed:
  assumes "offered ending s"
  shows "conserved (count_lost_offer ending raw s)" "conserved (count_failed_offer ending s)"
    "conserved (count_sent_offer ending raw frame s)"
proof -
  show "conserved (count_lost_offer ending raw s)"
    using assms by (simp add: offered_def conserved_def balance_def count_lost_offer_def)
  show "conserved (count_failed_offer ending s)"
    using assms by (simp add: offered_def conserved_def balance_def count_failed_offer_def)
  show "conserved (count_sent_offer ending raw frame s)"
    using assms by (cases ending) (simp_all add: offered_def conserved_def balance_def count_sent_offer_def Let_def)
qed

lemma offer_frame_untouched:
  assumes "offer_frame crc tick ending sent_ns s = (s', r)"
  shows "counters s' = counters s"
  using assms
  by (auto simp: offer_frame_def sbind_def gets_def modify_def lift_result_def counters_def
      split: option.splits sum.splits if_splits)

lemma offer_frame_keeps:
  "steps (offered ending) (offer_frame crc tick ending sent_ns)
     (\<lambda>r s. case r of Inl e \<Rightarrow> residual s | Inr a \<Rightarrow> offered ending s)"
  unfolding steps_def
proof (intro allI impI)
  fix s s' r
  assume *: "offered ending s" "offer_frame crc tick ending sent_ns s = (s', r)"
  then have "offered ending s'" using offered_cong [OF offer_frame_untouched [OF *(2)]] by simp
  then show "case r of Inl e \<Rightarrow> residual s' | Inr a \<Rightarrow> offered ending s'"
    by (simp add: offered_residual split: sum.split)
qed

lemma steps_modify_bind:
  assumes "\<And>s. P s \<Longrightarrow> R (f s)" "steps R m Q"
  shows "steps P (sbind (modify f) (\<lambda>_. m)) Q"
  using assms by (auto simp: steps_def)

lemma offer_send_closes:
  "steps (offered ending) (offer_send fail_sensor tick ending prologue raw frame script)
     (\<lambda>r s. case r of Inl e \<Rightarrow> residual s | Inr a \<Rightarrow> conserved s)"
  unfolding steps_def
proof (intro allI impI)
  fix s s' r
  let ?t = "stamp_terminal ending script s"
  assume "offered ending s" and run: "offer_send fail_sensor tick ending prologue raw frame script s = (s', r)"
  then have t: "offered ending ?t"
    by (simp add: stamp_terminal_def counters_def cong: offered_cong)
  have "s' = count_sent_offer ending raw frame ?t \<or> s' = count_failed_offer ending ?t"
    using run by (auto simp: offer_send_def sbind_def gets_def modify_def lift_result_def split: option.splits if_splits)
  then have "conserved s'" using offered_closed [OF t] by blast
  then show "case r of Inl e \<Rightarrow> residual s' | Inr a \<Rightarrow> conserved s'"
    by (simp add: conserved_residual split: sum.split)
qed

lemma offer_conserves [conserves_intro]: "conserves (offer crc sc fail_sensor tick ending prologue script)"
  unfolding offer_def
proof (rule ends_sbind [where R = "\<lambda>_. conserved"])
  show "conserves (modify (count_observation ending))"
    by (rule conserves_untouched) (simp add: count_observation_def counters_def)
  show "steps conserved (sbind (free_loss sc True tick ending prologue) (\<lambda>(raw, lose).
      sbind (modify (count_offer ending)) (\<lambda>_.
      sbind (modify (\<lambda>s. if prologue then s\<lparr>fr_origin := of_sent_ns script\<rparr> else s)) (\<lambda>_.
      sbind (offer_frame crc tick ending (of_sent_ns script)) (\<lambda>frame.
        if lose then modify (count_lost_offer ending raw)
        else offer_send fail_sensor tick ending prologue raw frame script)))))
    (\<lambda>r s. case r of Inl e \<Rightarrow> residual s | Inr a \<Rightarrow> conserved s)"
  proof (rule ends_sbind [where R = "\<lambda>_. balance 0 0 0 1 0"])
    show "steps conserved (free_loss sc True tick ending prologue)
        (\<lambda>r s. case r of Inl e \<Rightarrow> residual s | Inr a \<Rightarrow> balance 0 0 0 1 0 s)"
      unfolding steps_def
    proof (intro allI impI)
      fix s s' r
      assume *: "conserved s" "free_loss sc True tick ending prologue s = (s', r)"
      show "case r of Inl e \<Rightarrow> residual s' | Inr a \<Rightarrow> balance 0 0 0 1 0 s'"
        using free_loss_balance [OF *(2) *(1) [unfolded conserved_def]] by (cases r) (auto intro: residualI)
    qed
    fix p :: "bool \<times> bool"
    obtain raw lose where p: "p = (raw, lose)" by (cases p)
    have "steps (offered ending) (sbind (offer_frame crc tick ending (of_sent_ns script)) (\<lambda>frame.
        if lose then modify (count_lost_offer ending raw)
        else offer_send fail_sensor tick ending prologue raw frame script))
      (\<lambda>r s. case r of Inl e \<Rightarrow> residual s | Inr a \<Rightarrow> conserved s)"
    proof (rule ends_sbind [where R = "\<lambda>_. offered ending"])
      show "steps (offered ending) (offer_frame crc tick ending (of_sent_ns script))
          (\<lambda>r s. case r of Inl e \<Rightarrow> residual s | Inr a \<Rightarrow> offered ending s)"
        by (rule offer_frame_keeps)
      show "steps (offered ending) (if lose then modify (count_lost_offer ending raw)
          else offer_send fail_sensor tick ending prologue raw frame script)
        (\<lambda>r s. case r of Inl e \<Rightarrow> residual s | Inr a \<Rightarrow> conserved s)" for frame
        using offer_send_closes offered_closed(1) by (auto simp: steps_def modify_def)
    qed
    then show "steps (balance 0 0 0 1 0) (case p of (raw, lose) \<Rightarrow>
        sbind (modify (count_offer ending)) (\<lambda>_.
        sbind (modify (\<lambda>s. if prologue then s\<lparr>fr_origin := of_sent_ns script\<rparr> else s)) (\<lambda>_.
        sbind (offer_frame crc tick ending (of_sent_ns script)) (\<lambda>frame.
          if lose then modify (count_lost_offer ending raw)
          else offer_send fail_sensor tick ending prologue raw frame script))))
      (\<lambda>r s. case r of Inl e \<Rightarrow> residual s | Inr a \<Rightarrow> conserved s)"
      unfolding p prod.case
    proof (intro steps_modify_bind [where R = "offered ending"])
      show "offered ending s \<Longrightarrow> offered ending (if prologue then s\<lparr>fr_origin := of_sent_ns script\<rparr> else s)" for s
        using offered_cong [of "s\<lparr>fr_origin := of_sent_ns script\<rparr>" s] by (simp add: counters_def)
    qed (rule count_offer_offered)
  qed
qed

lemma free_advance_untouched:
  assumes "free_advance sc k selected s = (s', r)"
  shows "counters s' = counters s"
  using assms
  by (auto simp: free_advance_def sbind_def gets_def modify_def lift_result_def counters_def Let_def
      split: option.splits sum.splits if_splits prod.splits)

lemma free_advance_conserves [conserves_intro]: "conserves (free_advance sc k selected)"
  unfolding steps_def
proof (intro allI impI)
  fix s s' r
  assume *: "conserved s" "free_advance sc k selected s = (s', r)"
  then have "conserved s'" using conserved_cong [OF free_advance_untouched [OF *(2)]] by simp
  then show "case r of Inl e \<Rightarrow> residual s' | Inr a \<Rightarrow> conserved s'"
    by (simp add: conserved_residual split: sum.split)
qed

lemma conserves_if [conserves_intro]: "(c \<Longrightarrow> conserves m) \<Longrightarrow> (\<not> c \<Longrightarrow> conserves m') \<Longrightarrow> conserves (if c then m else m')"
  by simp

lemma drain_conserves [conserves_intro]: "conserves (drain crc script)"
  unfolding drain_def by (intro conserves_intro conserves_untouched) (simp add: counters_def)

lemma free_body_conserves [conserves_intro]: "conserves (free_body crc sc fail_sensor k script)"
  unfolding free_body_def
  by (intro conserves_intro conserves_untouched)
    (simp_all add: counters_def stamp_termination_def record_step_def Let_def)

lemma free_bodies_conserves [conserves_intro]: "conserves (free_bodies crc sc fail_sensor script ks)"
proof (induction ks)
  case (Cons k ks)
  have "conserves (case e of Goes_on \<Rightarrow> free_bodies crc sc fail_sensor script ks | Answered \<Rightarrow> give None | Ended \<Rightarrow> give (Some k))" for e
    by (cases e) (simp_all add: Cons conserves_lift)
  then show ?case unfolding free_bodies.simps by (intro conserves_intro)
qed (simp add: conserves_lift)

lemma terminal_offsets_conserves [conserves_intro]:
  "conserves (terminal_offsets crc sc fail_sensor k copies script ns)"
proof (induction ns)
  case (Cons n ns)
  show ?case unfolding terminal_offsets.simps by (intro conserves_intro Cons)
qed (simp add: conserves_lift)

lemma free_run_conserves: "conserves (free_run crc sc fail_sensor copies script)"
proof -
  have "conserves (free_finish crc sc fail_sensor copies (fsc_offset script) t)" for t
    unfolding free_finish_def by (cases t) (simp_all add: conserves_lift, intro conserves_intro)
  then show ?thesis
    unfolding free_run_def free_prologue_def
    by (intro conserves_intro conserves_untouched) (simp_all add: counters_def)
qed

lemma free_new_conserved: "free_new sc seed delay_ticks = Inr s \<Longrightarrow> conserved s"
  by (auto simp: free_new_def rbind_eq_Inr ensure_eq_Inr conserved_def balance_def)

section \<open>Every count is the sum of its outcomes\<close>

lemma free_execute_cases:
  assumes "free_execute crc sc seed delay_ticks copies fail_sensor script = Inr (s, code, err)"
  obtains s0 t r where "free_new sc seed delay_ticks = Inr s0"
    "free_run crc sc fail_sensor copies script s0 = (t, r)"
    "s = (if fr_reason t = None then t\<lparr>fr_reason := Some SIM_PEER_LOST\<rparr> else t)"
    "(err = None \<and> r = Inr code) \<or> (\<exists>e. err = Some e \<and> r = Inl e \<and> exit_code e = Inr code)"
proof -
  obtain s0 where s0: "free_new sc seed delay_ticks = Inr s0"
    using assms by (auto simp: free_execute_def rbind_eq_Inr)
  obtain t r where t: "free_run crc sc fail_sensor copies script s0 = (t, r)"
    by (cases "free_run crc sc fail_sensor copies script s0")
  show thesis
    by (rule that [OF s0 t])
      (use assms s0 t in \<open>auto simp: free_execute_def rbind_eq_Inr ensure_eq_Inr Let_def split: sum.splits\<close>)
qed

text \<open>C4. No sample, terminal copy, command or random draw goes missing in a free run, whatever the
  clock and the socket do: every count is the sum of its outcomes, the recorded inputs are the sent
  samples and one terminal frame, and after an error at most one of each is open, with the commands of
  the batch that raised.\<close>

theorem freerun_conserves:
  assumes "free_execute crc sc seed delay_ticks copies fail_sensor script = Inr (s, code, err)"
  shows "if err = None then conserved s else residual s"
proof -
  obtain s0 t r where run: "free_new sc seed delay_ticks = Inr s0"
    "free_run crc sc fail_sensor copies script s0 = (t, r)"
    "s = (if fr_reason t = None then t\<lparr>fr_reason := Some SIM_PEER_LOST\<rparr> else t)"
    "(err = None \<and> r = Inr code) \<or> (\<exists>e. err = Some e \<and> r = Inl e \<and> exit_code e = Inr code)"
    using assms by (rule free_execute_cases)
  have "case r of Inl e \<Rightarrow> residual t | Inr a \<Rightarrow> conserved t"
    using free_run_conserves run(2) free_new_conserved [OF run(1)] by (simp add: steps_def)
  moreover have "counters s = counters t" by (simp add: run(3) counters_def)
  then have "balance up tu dn du dd s = balance up tu dn du dd t" for up tu dn du dd by (rule balance_cong)
  ultimately show ?thesis using run(4) by (auto simp: conserved_def residual_def)
qed

section \<open>Exit codes\<close>

text \<open>The reason the vehicle gives is one of its eight.\<close>

definition seen_ok :: "free \<Rightarrow> bool" where
  "seen_ok s \<longleftrightarrow> (\<forall>r. fr_vehicle_seen s = Some r \<longrightarrow> 1 \<le> r \<and> r \<le> 8)"

lemma keeps_modify_seen: "(\<And>s. fr_vehicle_seen (f s) = fr_vehicle_seen s) \<Longrightarrow> keeps seen_ok (modify f)"
  by (rule keeps_modify) (simp add: seen_ok_def)

lemma keeps_loss: "keeps seen_ok (free_loss sc uplink tick ending prologue)"
proof (rule keepsI)
  fix s s' r
  assume *: "seen_ok s" "free_loss sc uplink tick ending prologue s = (s', r)"
  obtain t x where t: "free_draw sc uplink s = (t, x)" by (cases "free_draw sc uplink s")
  have "seen_ok t" using free_draw_result [OF t] *(1) by (cases x) (auto simp: seen_ok_def split: if_splits)
  moreover have "s' = t"
    using *(2) t by (auto simp: free_loss_def sbind_def lift_result_def split: sum.splits prod.splits if_splits)
  ultimately show "seen_ok s'" by simp
qed

lemma keeps_receive_packets: "keeps seen_ok (receive_packets crc sc body_tick ds survivors)"
proof (induction ds arbitrary: survivors)
  case Nil
  show ?case by (simp add: keeps_lift)
next
  case (Cons d ds)
  have one: "keeps seen_ok (modify (count_receipt v lose))" for v lose
    by (rule keeps_modify_seen) (simp add: count_receipt_def Let_def)
  have two: "keeps seen_ok (modify (\<lambda>s. s\<lparr>fr_down := f s\<rparr>))" for f
    by (rule keeps_modify_seen) simp
  have three: "1 \<le> q \<Longrightarrow> q \<le> 8 \<Longrightarrow> keeps seen_ok (modify (\<lambda>s. s\<lparr>fr_vehicle_seen := Some q\<rparr>))" for q
    by (rule keeps_modify) (simp add: seen_ok_def)
  have bad: "keeps seen_ok (case e of ValueError m \<Rightarrow>
      sbind (modify (\<lambda>s. s\<lparr>fr_down := (fr_down s)\<lparr>dc_malformed := dc_malformed (fr_down s) + 1\<rparr>\<rparr>)) (\<lambda>_.
        receive_packets crc sc body_tick ds survivors) | _ \<Rightarrow> raise e)" for e
    by (cases e) (simp_all add: keeps_lift keeps_sbind two Cons)
  show ?case
  proof (cases "decode_actuator crc d")
    case (Inl e)
    then show ?thesis using bad [of e] unfolding receive_packets.simps by (cases e) (simp_all only: sum.case exn.case)
  next
    case (Inr v)
    then show ?thesis
      by (auto simp: Let_def intro!: keeps_sbind keeps_loss one two three Cons keeps_lift split: prod.split)
  qed
qed

lemma keeps_free_receive: "keeps seen_ok (free_receive crc sc packets body_tick)"
  unfolding free_receive_def
  by (rule keeps_sbind [OF keeps_receive_packets])
    (auto simp: steps_def seen_ok_def dispose_survivors_def Let_def split: if_splits list.splits)

lemma keeps_drain: "keeps seen_ok (drain crc script)"
  unfolding drain_def by (intro steps_intro keeps_modify_seen) simp

lemma keeps_advance: "keeps seen_ok (free_advance sc k selected)"
  unfolding free_advance_def
  by (auto simp: Let_def intro!: steps_intro keeps_modify_seen split: prod.split)

lemma keeps_offer: "keeps seen_ok (offer crc sc fail_sensor tick ending prologue script)"
proof -
  have frame: "keeps seen_ok (offer_frame crc tick ending sent)" for sent
    unfolding offer_frame_def
    by (auto intro!: steps_intro keeps_modify_seen split: option.split prod.split)
  have send: "keeps seen_ok (offer_send fail_sensor tick ending prologue raw frame script)" for raw frame
    unfolding offer_send_def
    by (auto intro!: steps_intro keeps_modify_seen split: option.split
        simp: count_failed_offer_def count_sent_offer_def stamp_terminal_def Let_def)
  show ?thesis
    unfolding offer_def
    by (auto intro!: steps_intro keeps_modify_seen keeps_loss frame send split: prod.split
        simp: count_observation_def count_offer_def count_lost_offer_def)
qed

definition answered :: "free \<Rightarrow> bool" where
  "answered s \<longleftrightarrow> fr_vehicle_seen s \<noteq> None"

lemma free_advance_reason:
  assumes "free_advance sc k selected s = (s', Inr a)"
  shows "fr_reason s' = free_reason sc k (fr_truth s')"
  using assms
  by (auto simp: free_advance_def sbind_def gets_def modify_def lift_result_def Let_def
      split: sum.splits if_splits prod.splits)

lemma offer_frame_reason:
  assumes "offer_frame crc tick ending sent s = (s', r)"
  shows "fr_vehicle_seen s' = fr_vehicle_seen s \<and> fr_reason s' = fr_reason s"
  using assms
  by (auto simp: offer_frame_def sbind_def gets_def modify_def lift_result_def
      split: option.splits sum.splits if_splits)

text \<open>How a body ends: by an answer, or with a reason exactly if it says so, in the last tick always.\<close>

lemma free_body_end:
  assumes "free_body crc sc fail_sensor k script s = (s', Inr e)"
  shows "(e = Answered \<longrightarrow> answered s') \<and> (k + 1 = sc_ticks sc - 1 \<longrightarrow> e \<noteq> Goes_on)"
proof (intro conjI impI)
  assume "e = Answered"
  then show "answered s'"
    using assms
    by (auto simp: free_body_def sbind_Inr answered_def gets_def modify_def lift_result_def stamp_termination_def
        split: if_splits)
next
  assume last: "k + 1 = sc_ticks sc - 1"
  show "e \<noteq> Goes_on"
  proof
    assume "e = Goes_on"
    then obtain t u sel a where "free_advance sc k sel t = (u, Inr a)" "fr_reason u = None"
      using assms
      by (auto simp: free_body_def sbind_Inr gets_def modify_def lift_result_def split: if_splits)
    then show False
      using free_advance_reason last by (simp add: free_reason_def split: option.splits)
  qed
qed

lemma free_bodies_end:
  assumes "free_bodies crc sc fail_sensor script [k..sc_ticks sc - 2] s = (s', Inr None)" "k \<le> sc_ticks sc - 2"
  shows "answered s'"
  using assms
proof (induction "nat (sc_ticks sc - 2 - k)" arbitrary: k s rule: less_induct)
  case less
  have ks: "[k..sc_ticks sc - 2] = k # [k + 1..sc_ticks sc - 2]" using less.prems(2) by (simp add: upto_rec1)
  obtain t e where t: "free_body crc sc fail_sensor k (script k) s = (t, Inr e)"
    and rest: "(case e of Goes_on \<Rightarrow> free_bodies crc sc fail_sensor script [k + 1..sc_ticks sc - 2]
      | Answered \<Rightarrow> give None | Ended \<Rightarrow> give (Some k)) t = (s', Inr None)"
    using less.prems(1) unfolding ks free_bodies.simps sbind_Inr by blast
  note ends = free_body_end [OF t]
  show ?case
  proof (cases e)
    case Goes_on
    then have "k + 1 \<le> sc_ticks sc - 2" using ends less.prems(2) by auto
    then show ?thesis using less.hyps [of "k + 1" t] rest Goes_on by simp
  qed (use rest ends in \<open>simp_all add: lift_result_def\<close>)
qed

lemma keeps_bodies: "keeps seen_ok (free_bodies crc sc fail_sensor script ks)"
proof (induction ks)
  case (Cons k ks)
  have body: "keeps seen_ok (free_body crc sc fail_sensor k (script k))"
    unfolding free_body_def
    by (intro steps_intro keeps_modify_seen keeps_drain keeps_free_receive keeps_advance keeps_offer)
      (simp_all add: stamp_termination_def record_step_def Let_def)
  show ?case
    unfolding free_bodies.simps
    by (rule keeps_sbind [OF body]) (auto intro: Cons keeps_lift split: body_end.split)
qed (simp add: keeps_lift)

lemma keeps_offsets: "keeps seen_ok (terminal_offsets crc sc fail_sensor k copies script ns)"
proof (induction ns)
  case (Cons n ns)
  show ?case
    unfolding terminal_offsets.simps
    by (intro steps_intro keeps_drain keeps_free_receive keeps_offer Cons)
qed (simp add: keeps_lift)

lemma keeps_free_run: "keeps seen_ok (free_run crc sc fail_sensor copies script)"
proof -
  have "keeps seen_ok (free_finish crc sc fail_sensor copies (fsc_offset script) t)" for t
    unfolding free_finish_def by (cases t) (simp_all add: keeps_lift, intro steps_intro keeps_offsets)
  then show ?thesis
    unfolding free_run_def free_prologue_def
    by (intro steps_intro keeps_bodies keeps_offer keeps_modify_seen) simp_all
qed

text \<open>C26. A free run that raises nothing always ends for a reason: either the vehicle's terminal reason,
  one of its eight, was received and the exit code is 0, or every terminal copy and the grace period
  stayed unanswered and the code is 3; it never ends silently.\<close>

theorem freerun_exit_code:
  assumes "free_execute crc sc seed delay_ticks copies fail_sensor script = Inr (s, code, None)"
  shows "(code = 0 \<and> (\<exists>r. fr_vehicle_seen s = Some r \<and> 1 \<le> r \<and> r \<le> 8)) \<or> (code = 3 \<and> fr_vehicle_seen s = None)"
proof -
  obtain s0 t where run: "free_new sc seed delay_ticks = Inr s0"
    "free_run crc sc fail_sensor copies script s0 = (t, Inr code)"
    "s = (if fr_reason t = None then t\<lparr>fr_reason := Some SIM_PEER_LOST\<rparr> else t)"
    using assms by (rule free_execute_cases) auto
  have ticks: "2 \<le> sc_ticks sc" and "seen_ok s0"
    using run(1) by (auto simp: free_new_def validate_ticks_def rbind_eq_Inr ensure_eq_Inr seen_ok_def)
  then have ok: "seen_ok t" using keepsD [OF keeps_free_run _ run(2)] by blast
  obtain u v tt where u: "free_bodies crc sc fail_sensor (fsc_body script) [0..sc_ticks sc - 2] u = (v, Inr tt)"
    "free_finish crc sc fail_sensor copies (fsc_offset script) tt v = (t, Inr code)"
    using run(2) unfolding free_run_def sbind_Inr by blast
  have "code = (if answered t then 0 else 3)"
  proof (cases tt)
    case None
    then show ?thesis using free_bodies_end [of crc sc fail_sensor "fsc_body script" 0 u v] u ticks
      by (simp add: free_finish_def lift_result_def)
  next
    case (Some k)
    then show ?thesis using u(2) by (auto simp: free_finish_def sbind_Inr gets_def answered_def)
  qed
  moreover have "fr_vehicle_seen s = fr_vehicle_seen t" by (simp add: run(3))
  ultimately show ?thesis using ok by (auto simp: answered_def seen_ok_def)
qed

section \<open>A concrete run\<close>

text \<open>The vehicle answers the first sample with its terminal reason 7.\<close>

definition example_answer :: fields where
  "example_answer = [''tick'' \<mapsto> VInt 0, ''veh_tick'' \<mapsto> VInt 0, ''t_sensor_send_ns'' \<mapsto> VInt 1,
     ''t_veh_send_ns'' \<mapsto> VInt 2, ''delta'' \<mapsto> VFlt 0, ''status'' \<mapsto> VInt 1795, ''staleness'' \<mapsto> VInt 0]"

definition example_packet :: "byte list" where
  "example_packet = (case rbind (encode_payload 5 example_answer) (encode_frame (\<lambda>_. 0) 5 0) of Inl e \<Rightarrow> [] | Inr p \<Rightarrow> p)"

definition example_offer :: offer_script where
  "example_offer = \<lparr>of_sent_ns = 1, of_result = Sent 58, of_after_ns = 2\<rparr>"

definition example_body :: body_script where
  "example_body = \<lparr>bs_sleep = [4, 0], bs_recv = [Packet example_packet],
     bs_received_ns = 3, bs_receive_start_ns = 3, bs_advance_start_ns = 4, bs_end_ns = 5, bs_offer = example_offer\<rparr>"

definition example_free :: free_script where
  "example_free = \<lparr>fsc_prologue = example_offer, fsc_body = (\<lambda>k. example_body), fsc_offset = (\<lambda>k. example_body)\<rparr>"

definition free_scenario :: scenario where
  "free_scenario = example_scenario\<lparr>sc_commands := []\<rparr>"

lemma encoded_frame:
  assumes "payload_ok t F" "crc = (\<lambda>_. 0)" "t \<in> {4, 5}"
  shows "\<exists>p. encode_payload t F = Inr p \<and> length p = the (map_of PAYLOAD_SIZES t) \<and> decode_payload t p = Inr F \<and>
    encode_frame crc t n p = Inr (frame_bytes crc (t, nat (n mod 2 ^ 32), p))"
proof -
  obtain p where p: "encode_payload t F = Inr p" "decode_payload t p = Inr F"
    using payload_roundtrip [OF assms(1)] by (auto simp: rbind_eq_Inr)
  have len: "length p = the (map_of PAYLOAD_SIZES t)"
    using p(2) assms(3) by (auto simp: decode_payload_def ensure_eq_Inr PAYLOAD_SIZES_def PAYLOAD_FIELDS_def rbind_eq_Inr)
  moreover have "encode_frame crc t n p = Inr (frame_bytes crc (t, nat (n mod 2 ^ 32), p))"
    by (rule encode_frame_bytes) (use len assms(3) in \<open>auto simp: TYPES_def PAYLOAD_SIZES_def MAX_PAYLOAD_def\<close>)
  ultimately show ?thesis using p by blast
qed

lemma example_packet_decoded: "decode_actuator (\<lambda>_. 0) example_packet = Inr (reply_of example_answer) \<and> length example_packet = 62"
proof -
  have "payload_ok 5 example_answer"
    by (auto simp: payload_ok_def PAYLOAD_FIELDS_def value_ok_def kind_range_def field_mask_def
        check_payload_counts_def example_answer_def)
  then obtain p where p: "encode_payload 5 example_answer = Inr p" "length p = 48" "decode_payload 5 p = Inr example_answer"
    "encode_frame (\<lambda>_. 0) 5 0 p = Inr (frame_bytes (\<lambda>_. 0) (5, 0, p))"
    using encoded_frame [of 5 example_answer "\<lambda>_. 0" 0] by (auto simp: PAYLOAD_SIZES_def)
  then have "example_packet = frame_bytes (\<lambda>_. 0) (5, 0, p)" by (simp add: example_packet_def)
  moreover have "decode_datagram (\<lambda>_. 0) (frame_bytes (\<lambda>_. 0) (5, 0, p)) {5} = Inr (5, 0, p)"
    using p(2,4) by (simp add: datagram_exact PAYLOAD_SIZES_def)
  moreover have "length (frame_bytes (\<lambda>_. 0) (5, 0, p)) = 62" unfolding length_frame_bytes by (simp add: p(2))
  ultimately show ?thesis using p(3) by (simp add: decode_actuator_def)
qed

lemma no_draw: "draw_drop g 0 = Inr (False, splitmix_advance g)"
proof -
  have zero: "fval 0 = 0" "f_finite 0" by (simp_all add: fval_def f_field_defs)
  then have "\<not> f_lt (fst (next_double g)) 0"
    using f_lt_iff [OF next_double_val(1) zero(2)] next_double_range(1) [of g] by simp
  moreover have "probability 0" using zero by (simp add: probability_val)
  ultimately show ?thesis by (simp add: draw_drop_Inr)
qed

lemma example_prologue: "\<exists>t. free_prologue (\<lambda>_. 0) free_scenario None example_offer s = (t, Inr ())"
proof -
  let ?F = "offer_fields 0 (fr_truth s) 1 False (case fr_reason s of None \<Rightarrow> 0 | Some r \<Rightarrow> r)"
  have "payload_ok 4 ?F"
    by (auto simp: payload_ok_def PAYLOAD_FIELDS_def value_ok_def kind_range_def field_mask_def
        check_payload_counts_def offer_fields_def Let_def)
  then obtain p where p: "encode_payload 4 ?F = Inr p" "length p = 44"
    "encode_frame (\<lambda>_. 0) 4 0 p = Inr (frame_bytes (\<lambda>_. 0) (4, 0, p))"
    using encoded_frame [of 4 ?F "\<lambda>_. 0" 0] by (auto simp: PAYLOAD_SIZES_def)
  then show ?thesis
    by (simp add: free_prologue_def offer_def free_loss_def free_draw_def sbind_def modify_def gets_def lift_result_def
        free_scenario_def example_scenario_def no_draw offer_frame_def cached_frame_def count_observation_def
        count_offer_def offer_send_def example_offer_def offer_error_def stamp_terminal_def)
qed

lemma example_body_run:
  "\<exists>t. free_body (\<lambda>_. 0) free_scenario None 0 example_body s = (t, Inr Answered)"
proof -
  have answer: "is_terminal (reply_of example_answer)" "rp_status (reply_of example_answer) = 1795"
    by (simp_all add: is_terminal_def reply_of_def int_at_def example_answer_def)
  have packets: "drain_socket 8 (bs_recv example_body) = Inr [example_packet]"
    using example_packet_decoded by (simp add: example_body_def numeral_eq_Suc)
  have sleep: "sleep_until (bs_sleep example_body) = Inr ()"
    by (simp add: example_body_def ERR_INTR_def)
  have receive: "\<exists>t d. free_receive (\<lambda>_. 0) free_scenario [example_packet] 0 u = (t, Inr d) \<and> fr_vehicle_seen t \<noteq> None" for u
    using example_packet_decoded
    by (simp add: free_receive_def sbind_def modify_def lift_result_def free_loss_def free_draw_def no_draw answer
        free_scenario_def example_scenario_def dispose_survivors_def Let_def)
  obtain u where u: "drain (\<lambda>_. 0) example_body s = (u, Inr [example_packet])"
    by (simp add: drain_def packets modify_def sbind_def lift_result_def)
  obtain t d where t: "free_receive (\<lambda>_. 0) free_scenario [example_packet] 0 u = (t, Inr d)" "fr_vehicle_seen t \<noteq> None"
    using receive by blast
  then show ?thesis
    by (simp add: free_body_def sleep u sbind_def gets_def modify_def lift_result_def)
qed

lemma example_run: "\<exists>s. free_execute (\<lambda>_. 0) free_scenario 1 1 12 None example_free = Inr (s, 0, None)"
proof -
  have "unit_interval 0"
    using probability_val [of 0] unfolding unit_interval_def probability_def by (simp add: fval_def f_field_defs)
  then obtain s0 where s0: "free_new free_scenario 1 1 = Inr s0"
    using lockstep_streams [of 1]
    by (auto simp: free_new_def free_scenario_def example_scenario_def validate_ticks_def)
  obtain t where t: "free_prologue (\<lambda>_. 0) free_scenario None example_offer s0 = (t, Inr ())"
    using example_prologue by blast
  obtain u where u: "free_body (\<lambda>_. 0) free_scenario None 0 example_body t = (u, Inr Answered)"
    using example_body_run by blast
  have "[0..sc_ticks free_scenario - 2] = 0 # [1..8]"
    by (simp add: free_scenario_def example_scenario_def upto_rec1)
  then have "free_run (\<lambda>_. 0) free_scenario None 12 example_free s0 = (u, Inr 0)"
    using t u by (simp add: free_run_def free_finish_def sbind_def lift_result_def example_free_def)
  then show ?thesis using s0 by (simp add: free_execute_def Let_def)
qed

lemma freerun_conserves_witness:
  "\<exists>s. free_execute (\<lambda>_. 0) free_scenario 1 1 12 None example_free = Inr (s, 0, None) \<and> conserved s"
  using example_run freerun_conserves [of "\<lambda>_. 0" free_scenario 1 1 12 None example_free _ 0 None] by auto

lemma freerun_exit_code_witness:
  "\<exists>s r. free_execute (\<lambda>_. 0) free_scenario 1 1 12 None example_free = Inr (s, 0, None) \<and>
     fr_vehicle_seen s = Some r \<and> 1 \<le> r \<and> r \<le> 8"
  using example_run freerun_exit_code [of "\<lambda>_. 0" free_scenario 1 1 12 None example_free _ 0] by auto

end
