(* ===== verification/Ground.thy ===== *)
theory Ground
  imports Wire Scenario "HOL-Library.Sublist"
begin

text \<open>
  The ground receiver and its offline accounting, \<open>ground/link.py\<close>: the datagram filter
  \<open>Receiver.accept\<close> with its counters, the collection loop over an explicit script of what
  the operating system answers, the merge \<open>match_streams\<close> of the ground recording into the
  vehicle's, and \<open>check\<close> on the parsed reports. Parameters: the CRC, SHA-256 (\<open>sha\<close>), the JSON
  reader of the standard library (\<open>parse\<close>) and the address syntax test of \<open>inet_pton\<close> (\<open>ipv4\<close>).
\<close>

section \<open>Control frames\<close>

definition FRAME_BYTES :: nat where
  "FRAME_BYTES = HEAD_SIZE + the (map_of PAYLOAD_SIZES 6) + CRC_SIZE"

type_synonym gframe = "nat \<times> int \<times> byte list"

definition finite_field :: "fields \<Rightarrow> string \<Rightarrow> bool result" where
  "finite_field F name =
     rbind (get_field F name) (\<lambda>v. Inr (case v of VFlt x \<Rightarrow> f_finite x | VInt n \<Rightarrow> True))"

fun all_finite :: "fields \<Rightarrow> string list \<Rightarrow> bool result" where
  "all_finite F [] = Inr True"
| "all_finite F (k # ks) = rbind (finite_field F k) (\<lambda>b. if b then all_finite F ks else Inr False)"

definition control_frame :: "(byte list \<Rightarrow> 32 word) \<Rightarrow> byte list \<Rightarrow> gframe result" where
  "control_frame crc data =
     rbind (decode_datagram crc data {6}) (\<lambda>(t, seq, payload).
     rbind (decode_payload 6 payload) (\<lambda>F.
     rbind (all_finite F [''theta'', ''omega'', ''cmd'', ''i_state'', ''d_prev'']) (\<lambda>ok.
     ensure ok ''nonfinite control record''
       (rbind (rbind (get_field F ''tick'') int_field) (\<lambda>tick. Inr (seq, tick, data))))))"

text \<open>What the operating system answers to a write; a failed one may have kept some of the bytes.\<close>

datatype write_outcome = Wrote nat | WriteFails int nat

definition kept_bytes :: "write_outcome \<Rightarrow> nat" where
  "kept_bytes w = (case w of Wrote n \<Rightarrow> n | WriteFails e n \<Rightarrow> n)"

definition EIO :: int where "EIO = 5"
definition EINTR :: int where "EINTR = 4"

definition write_all :: "write_outcome \<Rightarrow> byte list \<Rightarrow> unit result" where
  "write_all w data =
     (case w of
        WriteFails e k \<Rightarrow> Inl (OSError e)
      | Wrote n \<Rightarrow> if n \<noteq> length data then Inl (OSError EIO) else Inr ())"

section \<open>The receiver\<close>

record rx_counters =
  rx_received :: nat
  rx_foreign :: nat
  rx_malformed :: nat
  rx_duplicate :: nat
  rx_out_of_order :: nat
  rx_conflict :: nat
  rx_recorded :: nat
  rx_write_failed :: nat
  rx_socket_errors :: nat
  rx_last_errno :: int

type_synonym address = "string \<times> nat"

text \<open>\<open>rx_bytes\<close> is the recording after its header; \<open>rx_file\<close> remembers the frames written to it in full, in order.\<close>

record receiver =
  rx_source :: "address option"
  rx_last :: "byte list option"
  rx_last_tick :: "int option"
  rx_ctr :: rx_counters
  rx_file :: "byte list list"
  rx_bytes :: "byte list"

definition receiver_new :: receiver where
  "receiver_new = \<lparr>rx_source = None, rx_last = None, rx_last_tick = None,
     rx_ctr = \<lparr>rx_received = 0, rx_foreign = 0, rx_malformed = 0, rx_duplicate = 0, rx_out_of_order = 0,
       rx_conflict = 0, rx_recorded = 0, rx_write_failed = 0, rx_socket_errors = 0, rx_last_errno = 0\<rparr>,
     rx_file = [], rx_bytes = []\<rparr>"

text \<open>The write of a frame newer than all before it.\<close>

definition rx_record :: "write_outcome \<Rightarrow> int \<Rightarrow> byte list \<Rightarrow> receiver \<Rightarrow> receiver \<times> exn option" where
  "rx_record w tick raw r =
     (case write_all w raw of
        Inl e \<Rightarrow> (r\<lparr>rx_ctr := (rx_ctr r)\<lparr>rx_write_failed := rx_write_failed (rx_ctr r) + 1\<rparr>,
                   rx_bytes := rx_bytes r @ take (kept_bytes w) raw\<rparr>, Some e)
      | Inr _ \<Rightarrow> (r\<lparr>rx_ctr := (rx_ctr r)\<lparr>rx_recorded := rx_recorded (rx_ctr r) + 1\<rparr>,
                   rx_last := Some raw, rx_last_tick := Some tick, rx_file := rx_file r @ [raw],
                   rx_bytes := rx_bytes r @ raw\<rparr>, None))"

definition rx_classify :: "write_outcome \<Rightarrow> int \<Rightarrow> byte list \<Rightarrow> receiver \<Rightarrow> receiver \<times> exn option" where
  "rx_classify w tick raw r =
     (case rx_last_tick r of
        None \<Rightarrow> rx_record w tick raw r
      | Some prev \<Rightarrow>
          if tick < prev then
            (r\<lparr>rx_ctr := (rx_ctr r)\<lparr>rx_out_of_order := rx_out_of_order (rx_ctr r) + 1\<rparr>\<rparr>, None)
          else if tick = prev then
            (if Some raw = rx_last r
             then (r\<lparr>rx_ctr := (rx_ctr r)\<lparr>rx_duplicate := rx_duplicate (rx_ctr r) + 1\<rparr>\<rparr>, None)
             else (r\<lparr>rx_ctr := (rx_ctr r)\<lparr>rx_conflict := rx_conflict (rx_ctr r) + 1\<rparr>\<rparr>, None))
          else rx_record w tick raw r)"

text \<open>\<open>Receiver.accept\<close>; an exception leaves the updated counters behind.\<close>

definition accept ::
  "(byte list \<Rightarrow> 32 word) \<Rightarrow> byte list \<Rightarrow> address \<Rightarrow> write_outcome \<Rightarrow> receiver \<Rightarrow> receiver \<times> exn option" where
  "accept crc data source w r0 =
     (let r = r0\<lparr>rx_ctr := (rx_ctr r0)\<lparr>rx_received := rx_received (rx_ctr r0) + 1\<rparr>\<rparr>
      in if rx_source r \<noteq> None \<and> rx_source r \<noteq> Some source then
           (r\<lparr>rx_ctr := (rx_ctr r)\<lparr>rx_foreign := rx_foreign (rx_ctr r) + 1\<rparr>\<rparr>, None)
         else
           (case control_frame crc data of
              Inl (ValueError m) \<Rightarrow>
                (r\<lparr>rx_ctr := (rx_ctr r)\<lparr>rx_malformed := rx_malformed (rx_ctr r) + 1\<rparr>\<rparr>, None)
            | Inl e \<Rightarrow> (r, Some e)
            | Inr (seq, tick, raw) \<Rightarrow> rx_classify w tick raw (r\<lparr>rx_source := Some source\<rparr>)))"

section \<open>The collection loop\<close>

text \<open>What one round of the loop sees: the stop flag, the wait, and the answers to its receives.\<close>

datatype stdin_read = StdinQuiet | StdinInterrupted | StdinFails int | StdinData | StdinEof int
datatype wait_result = WaitInterrupted | WaitFails int | WaitReady bool stdin_read
datatype receive_result = Datagram "byte list" address write_outcome | WouldBlock | ReceiveFails int

record poll =
  poll_stopped :: bool
  poll_now :: int
  poll_receive :: receive_result

record cycle_script =
  cs_stopped :: bool
  cs_wait :: wait_result
  cs_polls :: "nat \<Rightarrow> poll"

datatype drain_result = Returns bool | Raises exn | Continues

definition socket_error :: "int \<Rightarrow> receiver \<Rightarrow> receiver" where
  "socket_error e r =
     r\<lparr>rx_ctr := (rx_ctr r)\<lparr>rx_socket_errors := rx_socket_errors (rx_ctr r) + 1,
       rx_last_errno := (if e = 0 then EIO else e)\<rparr>\<rparr>"

fun drain :: "(byte list \<Rightarrow> 32 word) \<Rightarrow> int option \<Rightarrow> poll list \<Rightarrow> receiver \<Rightarrow> receiver \<times> drain_result" where
  "drain crc deadline [] r = (r, Continues)"
| "drain crc deadline (p # ps) r =
     (if poll_stopped p then (r, Returns False)
      else if (case deadline of None \<Rightarrow> False | Some d \<Rightarrow> d \<le> poll_now p) then (r, Returns True)
      else
        (case poll_receive p of
           WouldBlock \<Rightarrow> if deadline \<noteq> None then (r, Returns False) else (r, Continues)
         | ReceiveFails e \<Rightarrow>
             if e = EINTR then drain crc deadline ps (socket_error e r)
             else (socket_error e r, Raises (OSError e))
         | Datagram data source w \<Rightarrow>
             (case accept crc data source w r of
                (r', None) \<Rightarrow> drain crc deadline ps r'
              | (r', Some e) \<Rightarrow> (r', Raises e))))"

definition drain_cycle :: "(byte list \<Rightarrow> 32 word) \<Rightarrow> int option \<Rightarrow> cycle_script \<Rightarrow> receiver \<Rightarrow> receiver \<times> drain_result" where
  "drain_cycle crc deadline c r = drain crc deadline (map (cs_polls c) [0..<512]) r"

text \<open>One iteration of the outer loop: the next deadline, the receiver, and how it went on.\<close>

definition collect_cycle ::
  "(byte list \<Rightarrow> 32 word) \<Rightarrow> int option \<Rightarrow> cycle_script \<Rightarrow> receiver \<Rightarrow> int option \<times> receiver \<times> drain_result" where
  "collect_cycle crc deadline c r =
     (if cs_stopped c then (deadline, r, Returns False)
      else
        (case deadline of
           Some d \<Rightarrow> (deadline, drain_cycle crc deadline c r)
         | None \<Rightarrow>
             (case cs_wait c of
                WaitInterrupted \<Rightarrow> (None, r, Continues)
              | WaitFails e \<Rightarrow> (None, r, Raises (OSError e))
              | WaitReady peer stdin \<Rightarrow>
                  (case stdin of
                     StdinInterrupted \<Rightarrow> (None, r, Continues)
                   | StdinFails e \<Rightarrow> (None, r, Raises (OSError e))
                   | StdinEof now \<Rightarrow>
                       (let d = Some (now + 100000000) in (d, drain_cycle crc d c r))
                   | _ \<Rightarrow> if peer then (None, drain_cycle crc None c r) else (None, r, Continues)))))"

text \<open>The loop over a finite script; \<open>Continues\<close> means it still runs at its end.\<close>

fun collect :: "(byte list \<Rightarrow> 32 word) \<Rightarrow> int option \<Rightarrow> cycle_script list \<Rightarrow> receiver \<Rightarrow> receiver \<times> drain_result" where
  "collect crc deadline [] r = (r, Continues)"
| "collect crc deadline (c # cs) r =
     (case collect_cycle crc deadline c r of
        (deadline', r', Continues) \<Rightarrow> collect crc deadline' cs r'
      | (deadline', r', res) \<Rightarrow> (r', res))"

text \<open>The exit code of \<open>receive\<close>, from how the output files and the loop went.\<close>

definition receive_code :: "bool \<Rightarrow> receiver \<Rightarrow> drain_result \<Rightarrow> bool \<Rightarrow> bool \<Rightarrow> bool \<Rightarrow> int" where
  "receive_code open_failed r res close_failed interrupted report_failed =
     (let code = (if open_failed then 4
                  else case res of Raises e \<Rightarrow> (if rx_write_failed (rx_ctr r) \<noteq> 0 then 4 else 6) | _ \<Rightarrow> 0);
          code = (if close_failed then 4 else code);
          code = (if code \<noteq> 4 then
                    (if interrupted then 3
                     else if res = Returns True \<or> rx_malformed (rx_ctr r) \<noteq> 0 \<or> rx_conflict (rx_ctr r) \<noteq> 0 then 6
                     else code)
                  else code)
      in if report_failed then 4 else code)"

section \<open>Checked report fields\<close>

definition link_integer :: "json \<Rightarrow> bool \<Rightarrow> int result" where
  "link_integer value is_signed =
     (case value of
        JInt n \<Rightarrow> ensure (is_signed \<or> 0 \<le> n) ''invalid integer'' (Inr n)
      | _ \<Rightarrow> Inl (ValueError ''invalid integer''))"

definition link_boolean :: "json \<Rightarrow> bool result" where
  "link_boolean value = (case value of JBool b \<Rightarrow> Inr b | _ \<Rightarrow> Inl (ValueError ''invalid boolean''))"

fun decimal :: "nat \<Rightarrow> string" where
  "decimal n = (if n < 10 then [char_of (48 + n)] else decimal (n div 10) @ [char_of (48 + n mod 10)])"

declare decimal.simps [simp del]

definition endpoint :: "(string \<Rightarrow> bool) \<Rightarrow> json \<Rightarrow> string result" where
  "endpoint ipv4 value =
     (case value of
        JList [a, b] \<Rightarrow>
          (case a of
             JString host \<Rightarrow>
               if ipv4 host then
                 rbind (link_integer b False) (\<lambda>port.
                   ensure (0 < port \<and> port \<le> 65535) ''invalid endpoint port''
                     (Inr (host @ '':'' @ decimal (nat port))))
               else Inl (OSError 0)
           | _ \<Rightarrow> Inl (ValueError ''invalid endpoint host''))
      | _ \<Rightarrow> Inl (ValueError ''invalid endpoint''))"

text \<open>\<open>d.get(key)\<close> and \<open>d[key]\<close> on an object.\<close>

definition jget :: "(string \<times> json) list \<Rightarrow> string \<Rightarrow> json" where
  "jget d key = (case map_of d key of None \<Rightarrow> JNull | Some v \<Rightarrow> v)"

definition jitem :: "(string \<times> json) list \<Rightarrow> string \<Rightarrow> json result" where
  "jitem d key = (case map_of d key of None \<Rightarrow> Inl (KeyError key) | Some v \<Rightarrow> Inr v)"

definition as_object :: "json \<Rightarrow> (string \<times> json) list result" where
  "as_object v = (case v of JObject d \<Rightarrow> Inr d | _ \<Rightarrow> Inl (ValueError ''not an object''))"

fun finite_numbers :: "json \<Rightarrow> bool"
  and finite_numbers_list :: "json list \<Rightarrow> bool"
  and finite_numbers_pairs :: "(string \<times> json) list \<Rightarrow> bool" where
  "finite_numbers (JList xs) \<longleftrightarrow> finite_numbers_list xs"
| "finite_numbers (JObject ps) \<longleftrightarrow> finite_numbers_pairs ps"
| "finite_numbers (JFloat x) \<longleftrightarrow> f_finite x"
| "finite_numbers _ \<longleftrightarrow> True"
| "finite_numbers_list [] \<longleftrightarrow> True"
| "finite_numbers_list (x # xs) \<longleftrightarrow> finite_numbers x \<and> finite_numbers_list xs"
| "finite_numbers_pairs [] \<longleftrightarrow> True"
| "finite_numbers_pairs ((k, x) # ps) \<longleftrightarrow> finite_numbers x \<and> finite_numbers_pairs ps"

definition MAX_REPORT_BYTES :: nat where "MAX_REPORT_BYTES = 1024 * 1024"

text \<open>\<open>read_json\<close> on the file's bytes; \<open>parse\<close> gives the syntax tree, before the object hook.\<close>

definition read_json ::
  "(byte list \<Rightarrow> string) \<Rightarrow> (byte list \<Rightarrow> json result) \<Rightarrow> byte list \<Rightarrow> string \<Rightarrow> (string \<times> json) list result" where
  "read_json sha parse file expected_digest =
     (let data = take (MAX_REPORT_BYTES + 1) file
      in ensure (length data \<le> MAX_REPORT_BYTES) ''report exceeds bounded input size''
        (ensure (sha data = expected_digest) ''report changed while checking''
          (rbind (parse data) (\<lambda>tree.
             ensure (finite_numbers tree) ''nonfinite JSON number''
               (rbind (json_hook tree) as_object)))))"

section \<open>Recordings and the merge\<close>

text \<open>
  The frames a generator yields: an exception is the last element. After the frames comes the
  digest of everything read.
\<close>

function chunks :: "(byte list \<Rightarrow> 32 word) \<Rightarrow> byte list \<Rightarrow> gframe result list" where
  "chunks crc data =
     (if data = [] then [] else control_frame crc (take FRAME_BYTES data) # chunks crc (drop FRAME_BYTES data))"
  by pat_completeness auto

termination
  by (relation "measure (length \<circ> snd)") (auto simp: FRAME_BYTES_def PAYLOAD_SIZES_def HEAD_SIZE_def)

declare chunks.simps [simp del]

definition recording_frames ::
  "(byte list \<Rightarrow> 32 word) \<Rightarrow> (byte list \<Rightarrow> string) \<Rightarrow> byte list \<Rightarrow> string \<Rightarrow> gframe result list" where
  "recording_frames crc sha file expected_digest =
     (case read_typed_recording crc (take FILE_HEADER_SIZE file) 6 of
        Inl e \<Rightarrow> [Inl e]
      | Inr _ \<Rightarrow> chunks crc (drop FILE_HEADER_SIZE file) @
          (if sha file = expected_digest then [] else [Inl (ValueError ''recording changed while checking'')]))"

text \<open>\<open>next(ground, None)\<close>.\<close>

fun pull :: "gframe result list \<Rightarrow> (gframe option \<times> gframe result list) result" where
  "pull [] = Inr (None, [])"
| "pull (Inl e # fs) = Inl e"
| "pull (Inr f # fs) = Inr (Some f, fs)"

record merge_state =
  mg_next :: "gframe option"
  mg_rest :: "gframe result list"
  mg_prev_vehicle :: "int option"
  mg_prev_ground :: "int option"
  mg_last_match :: "nat option"
  mg_vehicle :: nat
  mg_ground :: nat
  mg_leading :: nat
  mg_interior :: nat

definition after :: "int option \<Rightarrow> int \<Rightarrow> bool" where
  "after prev tick \<longleftrightarrow> (case prev of None \<Rightarrow> True | Some p \<Rightarrow> p < tick)"

text \<open>The vehicle frame with tick \<open>tick\<close> against the pending ground frame.\<close>

definition merge_match :: "int \<Rightarrow> byte list \<Rightarrow> merge_state \<Rightarrow> merge_state result" where
  "merge_match tick raw m =
     (case mg_next m of
        None \<Rightarrow> Inr m
      | Some (gseq, gtick, graw) \<Rightarrow>
          ensure (tick \<le> gtick) ''unmatched or repeated ground tick''
            (if gtick = tick then
               ensure (after (mg_prev_ground m) gtick) ''ground ticks are not increasing''
               (ensure (graw = raw) ''ground frame differs from authoritative frame''
                 (rbind (pull (mg_rest m)) (\<lambda>(nxt, rest).
                    Inr (m\<lparr>mg_leading := (if mg_last_match m = None then mg_vehicle m else mg_leading m),
                           mg_interior := (case mg_last_match m of
                              None \<Rightarrow> mg_interior m | Some l \<Rightarrow> mg_interior m + (mg_vehicle m - l - 1)),
                           mg_last_match := Some (mg_vehicle m), mg_prev_ground := Some gtick,
                           mg_ground := mg_ground m + 1, mg_next := nxt, mg_rest := rest\<rparr>))))
             else Inr m))"

fun merge_loop :: "nat \<Rightarrow> gframe result list \<Rightarrow> merge_state \<Rightarrow> merge_state result" where
  "merge_loop start [] m = Inr m"
| "merge_loop start (Inl e # vs) m = Inl e"
| "merge_loop start (Inr (seq, tick, raw) # vs) m =
     ensure (seq = (start + mg_vehicle m) mod 2 ^ 32) ''vehicle sequence is not contiguous''
     (ensure (after (mg_prev_vehicle m) tick) ''vehicle ticks are not increasing''
       (rbind (merge_match tick raw (m\<lparr>mg_prev_vehicle := Some tick\<rparr>)) (\<lambda>m'.
          merge_loop start vs (m'\<lparr>mg_vehicle := mg_vehicle m' + 1\<rparr>))))"

record population =
  pop_vehicle :: nat
  pop_ground :: nat
  pop_leading :: nat
  pop_interior :: nat
  pop_trailing :: nat
  pop_lost :: nat

definition merge_initial :: "gframe option \<Rightarrow> gframe result list \<Rightarrow> merge_state" where
  "merge_initial nxt rest =
     \<lparr>mg_next = nxt, mg_rest = rest, mg_prev_vehicle = None, mg_prev_ground = None, mg_last_match = None,
      mg_vehicle = 0, mg_ground = 0, mg_leading = 0, mg_interior = 0\<rparr>"

definition merge_result :: "merge_state \<Rightarrow> population" where
  "merge_result m =
     (let trailing = (case mg_last_match m of None \<Rightarrow> mg_vehicle m | Some l \<Rightarrow> mg_vehicle m - l - 1)
      in \<lparr>pop_vehicle = mg_vehicle m, pop_ground = mg_ground m, pop_leading = mg_leading m,
          pop_interior = mg_interior m, pop_trailing = trailing,
          pop_lost = mg_leading m + mg_interior m + trailing\<rparr>)"

definition match_streams :: "gframe result list \<Rightarrow> gframe result list \<Rightarrow> nat \<Rightarrow> population result" where
  "match_streams vehicle ground start =
     rbind (pull ground) (\<lambda>(nxt, rest).
     rbind (merge_loop start vehicle (merge_initial nxt rest)) (\<lambda>m.
     ensure (mg_next m = None) ''ground frame beyond authoritative recording'' (Inr (merge_result m))))"

section \<open>The offline check\<close>

definition CHECK_COUNTERS :: "string list" where
  "CHECK_COUNTERS = [''received'', ''foreign'', ''malformed'', ''duplicate'', ''out_of_order'', ''conflict'',
     ''recorded'', ''write_failed_datagrams'', ''socket_errors'', ''last_errno'']"

definition CHECK_DISPOSITIONS :: "string list" where
  "CHECK_DISPOSITIONS = [''foreign'', ''malformed'', ''duplicate'', ''out_of_order'', ''conflict'',
     ''recorded'', ''write_failed_datagrams'']"

text \<open>Checked integers read into a map.\<close>

fun read_integers :: "(string \<times> json) list \<Rightarrow> string list \<Rightarrow> (string \<Rightarrow> int) result" where
  "read_integers d [] = Inr (\<lambda>_. 0)"
| "read_integers d (k # ks) =
     rbind (link_integer (jget d k) False) (\<lambda>n. rbind (read_integers d ks) (\<lambda>f. Inr (f(k := n))))"

definition check_receiver :: "(string \<Rightarrow> bool) \<Rightarrow> (string \<times> json) list \<Rightarrow> string \<Rightarrow> ((string \<Rightarrow> int) \<times> string \<times> int) result" where
  "check_receiver ipv4 report ground_digest =
     rbind (link_boolean (jget report ''interrupted'')) (\<lambda>i. ensure (\<not> i) ''receiver interrupted''
     (rbind (link_boolean (jget report ''shutdown_truncated'')) (\<lambda>t. ensure (\<not> t) ''receiver shutdown incomplete''
     (rbind (rbind (jitem report ''counters'') as_object) (\<lambda>cd.
     rbind (read_integers cd CHECK_COUNTERS) (\<lambda>c.
     ensure (c ''received'' = sum_list (map c CHECK_DISPOSITIONS)) ''receiver dispositions do not conserve datagrams''
     (ensure (c ''malformed'' = 0 \<and> c ''conflict'' = 0 \<and> c ''write_failed_datagrams'' = 0)
        ''receiver integrity/output failure''
     (ensure ((c ''socket_errors'' = 0 \<and> c ''last_errno'' = 0) \<or> (0 < c ''socket_errors'' \<and> c ''last_errno'' = EINTR))
        ''receiver socket failure''
     (rbind (endpoint ipv4 (jget report ''bound'')) (\<lambda>bound.
     rbind (if jget report ''source'' = JNull then Inr [] else endpoint ipv4 (jget report ''source'')) (\<lambda>_.
     ensure (''source'' \<in> fst ` set report) ''missing receiver source''
     (ensure (case jget report ''recording'' of JString p \<Rightarrow> p \<noteq> [] | _ \<Rightarrow> False) ''missing recording path''
     (ensure (jget report ''recording_sha256'' = JString ground_digest) ''receiver recording digest mismatch''
     (rbind (link_integer (jget report ''frame_count'') False) (\<lambda>frame_count.
        Inr (c, bound, frame_count))))))))))))))))"

definition check_vehicle :: "(string \<times> json) list \<Rightarrow> string \<Rightarrow> (int \<times> int \<times> (string \<Rightarrow> int)) result" where
  "check_vehicle summary bound =
     rbind (link_integer (jget summary ''total_cycles'') False) (\<lambda>cycles.
     rbind (rbind (jitem summary ''telemetry'') as_object) (\<lambda>telem.
     rbind (link_integer (jget telem ''records'') False) (\<lambda>local_count.
     rbind (link_integer (jget telem ''dropped'') False) (\<lambda>dropped.
     ensure (dropped = 0) ''authoritative ring dropped records''
     (rbind (rbind (jitem summary ''ground'') as_object) (\<lambda>g.
     rbind (rbind (jitem summary ''applied'') as_object) (\<lambda>app.
     rbind (link_boolean (jget g ''requested'')) (\<lambda>requested.
     rbind (link_boolean (jget app ''ground'')) (\<lambda>applied.
     rbind (read_integers g [''attempted'', ''sent'', ''send_errors'', ''last_errno'', ''short_sends'', ''setup_errno'']) (\<lambda>n.
     rbind (link_integer (jget g ''resolver_error'') True) (\<lambda>resolver.
     ensure requested ''ground distribution disabled''
     (ensure (applied \<and> n ''setup_errno'' = 0 \<and> resolver = 0) ''ground startup was not successful''
     (ensure (jget g ''endpoint'' = JString bound) ''ground destination differs from receiver binding''
     (ensure (n ''short_sends'' \<le> n ''send_errors'') ''short send count exceeds send errors''
     (ensure ((n ''send_errors'' = 0 \<and> n ''last_errno'' = 0) \<or> (0 < n ''send_errors'' \<and> 0 < n ''last_errno''))
        ''ground errno/count mismatch''
        (Inr (cycles, local_count, n)))))))))))))))))"

definition check_totals ::
  "population \<Rightarrow> int \<Rightarrow> int \<Rightarrow> (string \<Rightarrow> int) \<Rightarrow> int \<Rightarrow> int \<Rightarrow> bool \<Rightarrow> unit result" where
  "check_totals pop cycles local_count n frame_count stored no_source =
     (let v = int (pop_vehicle pop); observed = int (pop_ground pop); ground_lost = int (pop_lost pop);
          a = n ''attempted''; sent = n ''sent''; failed = n ''send_errors''
      in ensure (v = local_count \<and> local_count = cycles) ''authoritative frame/count mismatch''
        (ensure (observed = frame_count \<and> frame_count = stored) ''receiver frame/count mismatch''
        (ensure (no_source = (observed = 0)) ''receiver source/count mismatch''
        (ensure (a = sent + failed \<and> a = v) ''ground attempt conservation failed''
        (ensure (0 \<le> observed \<and> observed \<le> sent \<and> sent \<le> a \<and> failed \<le> ground_lost) ''impossible ground populations''
        (ensure (v = observed + ground_lost) ''ground frame conservation failed''
        (ensure (ground_lost = failed + (sent - observed)) ''ground loss conservation failed'' (Inr ()))))))))"

record ground_files =
  gf_vehicle_recording :: "byte list"
  gf_vehicle_summary :: "byte list"
  gf_ground_recording :: "byte list"
  gf_receiver_report :: "byte list"

definition ground_audit ::
  "(byte list \<Rightarrow> 32 word) \<Rightarrow> (byte list \<Rightarrow> string) \<Rightarrow> (byte list \<Rightarrow> json result) \<Rightarrow> (string \<Rightarrow> bool) \<Rightarrow>
   ground_files \<Rightarrow> int \<Rightarrow> int \<Rightarrow> population result" where
  "ground_audit crc sha parse ipv4 fs vehicle_exit receiver_exit =
     rbind (read_json sha parse (gf_vehicle_summary fs) (sha (gf_vehicle_summary fs))) (\<lambda>summary.
     rbind (read_json sha parse (gf_receiver_report fs) (sha (gf_receiver_report fs))) (\<lambda>report.
     ensure (jget summary ''mode'' = JString ''freerun'') ''vehicle mode is not freerun''
     (ensure (jget report ''format'' = JString ''tvc-ground-receiver-1'') ''wrong receiver report format''
     (rbind (link_integer (JInt vehicle_exit) False) (\<lambda>ve. ensure (ve = 0) ''vehicle exited unsuccessfully''
     (rbind (link_integer (JInt receiver_exit) False) (\<lambda>re. ensure (re = 0) ''receiver exited unsuccessfully''
     (rbind (check_receiver ipv4 report (sha (gf_ground_recording fs))) (\<lambda>(c, bound, frame_count).
     rbind (check_vehicle summary bound) (\<lambda>(cycles, local_count, n).
     rbind (match_streams
        (recording_frames crc sha (gf_vehicle_recording fs) (sha (gf_vehicle_recording fs)))
        (recording_frames crc sha (gf_ground_recording fs) (sha (gf_ground_recording fs))) 0) (\<lambda>pop.
     rbind (check_totals pop cycles local_count n frame_count (c ''recorded'') (jget report ''source'' = JNull))
       (\<lambda>_. Inr pop))))))))))))"

record ground_result =
  gr_valid :: bool
  gr_delivery_complete :: bool
  gr_status :: string
  gr_failed :: "exn list"

definition ground_check ::
  "(byte list \<Rightarrow> 32 word) \<Rightarrow> (byte list \<Rightarrow> string) \<Rightarrow> (byte list \<Rightarrow> json result) \<Rightarrow> (string \<Rightarrow> bool) \<Rightarrow>
   ground_files \<Rightarrow> int \<Rightarrow> int \<Rightarrow> ground_result" where
  "ground_check crc sha parse ipv4 fs vehicle_exit receiver_exit =
     (case ground_audit crc sha parse ipv4 fs vehicle_exit receiver_exit of
        Inl e \<Rightarrow>
          \<lparr>gr_valid = False, gr_delivery_complete = False,
           gr_status = (if e = ValueError ''ground distribution disabled'' then ''disabled'' else ''invalid''),
           gr_failed = [e]\<rparr>
      | Inr pop \<Rightarrow>
          \<lparr>gr_valid = True, gr_delivery_complete = (pop_ground pop = pop_vehicle pop \<and> 0 < pop_vehicle pop),
           gr_status = (if pop_vehicle pop = 0 then ''empty'' else ''valid''), gr_failed = []\<rparr>)"

section \<open>Control frames raise only \<open>ValueError\<close>\<close>

definition value_errors :: "'a result \<Rightarrow> bool" where
  "value_errors m \<longleftrightarrow> (\<forall>e. m = Inl e \<longrightarrow> (\<exists>msg. e = ValueError msg))"

lemma value_errors_Inr [simp]: "value_errors (Inr a)"
  by (simp add: value_errors_def)

lemma value_errors_ensure [intro]: "value_errors k \<Longrightarrow> value_errors (ensure c msg k)"
  by (simp add: value_errors_def ensure_def)

lemma value_errors_rbind [intro]:
  "value_errors m \<Longrightarrow> (\<And>a. m = Inr a \<Longrightarrow> value_errors (f a)) \<Longrightarrow> value_errors (rbind m f)"
  by (cases m) (auto simp: value_errors_def)

lemma decode_datagram_errors: "value_errors (decode_datagram crc data acc)"
  unfolding decode_datagram_def Let_def by (intro value_errors_ensure value_errors_Inr)

text \<open>The fields of a control payload.\<close>

lemma control_fields:
  assumes "map_of PAYLOAD_FIELDS 6 = Some fs"
  shows "\<exists>n. decode_fields data fs (\<lambda>_. None) ''tick'' = Some (VInt n)"
    and "\<forall>k \<in> {''discarded_old'', ''discarded_superseded'', ''discarded_other'', ''rx_count''}.
      \<exists>n. decode_fields data fs (\<lambda>_. None) k = Some (VInt n)"
    and "\<forall>k \<in> {''theta'', ''omega'', ''cmd'', ''i_state'', ''d_prev''}.
      \<exists>x. decode_fields data fs (\<lambda>_. None) k = Some (VFlt x)"
  using assms by (auto simp: PAYLOAD_FIELDS_def decode_field_def Let_def)

lemma decode_control_errors: "value_errors (decode_payload 6 payload)"
proof -
  obtain fs where fs: "map_of PAYLOAD_FIELDS 6 = Some fs" by (simp add: PAYLOAD_FIELDS_def)
  let ?F = "decode_fields payload fs (\<lambda>_. None)"
  obtain a b c n where "?F ''discarded_old'' = Some (VInt a)" "?F ''discarded_superseded'' = Some (VInt b)"
    "?F ''discarded_other'' = Some (VInt c)" "?F ''rx_count'' = Some (VInt n)"
    using control_fields(2) [OF fs, of payload] by auto
  then have "value_errors (check_payload_counts 6 ?F)"
    by (simp add: check_payload_counts_def get_field_def int_field_def value_errors_ensure)
  then show ?thesis
    by (auto simp: decode_payload_def fs Let_def intro!: value_errors_ensure value_errors_rbind)
qed

lemma decode_control_fields:
  assumes "decode_payload 6 payload = Inr F"
  shows "\<exists>n. F ''tick'' = Some (VInt n)" "\<forall>k \<in> {''theta'', ''omega'', ''cmd'', ''i_state'', ''d_prev''}. \<exists>x. F k = Some (VFlt x)"
proof -
  obtain fs where fs: "map_of PAYLOAD_FIELDS 6 = Some fs" by (simp add: PAYLOAD_FIELDS_def)
  then have "F = decode_fields payload fs (\<lambda>_. None)"
    using assms by (auto simp: decode_payload_def Let_def ensure_eq_Inr rbind_eq_Inr)
  then show "\<exists>n. F ''tick'' = Some (VInt n)"
    "\<forall>k \<in> {''theta'', ''omega'', ''cmd'', ''i_state'', ''d_prev''}. \<exists>x. F k = Some (VFlt x)"
    using control_fields(1,3) [OF fs, of payload] by auto
qed

lemma control_frame_errors: "value_errors (control_frame crc data)"
proof -
  have tail: "value_errors (rbind (all_finite F [''theta'', ''omega'', ''cmd'', ''i_state'', ''d_prev'']) (\<lambda>ok.
    ensure ok ''nonfinite control record''
      (rbind (rbind (get_field F ''tick'') int_field) (\<lambda>tick. Inr (seq, tick, data)))))"
    if dec: "decode_payload 6 payload = Inr F" for payload F seq
  proof -
    obtain n where n: "F ''tick'' = Some (VInt n)" using decode_control_fields(1) [OF dec] by blast
    obtain a b c d e where f: "F ''theta'' = Some (VFlt a)" "F ''omega'' = Some (VFlt b)"
      "F ''cmd'' = Some (VFlt c)" "F ''i_state'' = Some (VFlt d)" "F ''d_prev'' = Some (VFlt e)"
      using decode_control_fields(2) [OF dec] by auto
    show ?thesis by (simp add: finite_field_def get_field_def int_field_def f n value_errors_ensure)
  qed
  show ?thesis
    unfolding control_frame_def
  proof (rule value_errors_rbind [OF decode_datagram_errors])
    fix h :: frame
    obtain t seq payload where h: "h = (t, seq, payload)" by (cases h)
    show "value_errors (case h of (t, seq, payload) \<Rightarrow>
      rbind (decode_payload 6 payload) (\<lambda>F.
      rbind (all_finite F [''theta'', ''omega'', ''cmd'', ''i_state'', ''d_prev'']) (\<lambda>ok.
      ensure ok ''nonfinite control record''
        (rbind (rbind (get_field F ''tick'') int_field) (\<lambda>tick. Inr (seq, tick, data))))))"
      unfolding h prod.case by (rule value_errors_rbind [OF decode_control_errors]) (rule tail)
  qed
qed

lemma control_frame_raw: "control_frame crc data = Inr (q, t, raw) \<Longrightarrow> raw = data \<and> length data = FRAME_BYTES"
  by (auto simp: control_frame_def rbind_eq_Inr ensure_eq_Inr decode_datagram_iff FRAME_BYTES_def frame_sizes)

section \<open>The receiver's invariant\<close>

definition frame_tick :: "(byte list \<Rightarrow> 32 word) \<Rightarrow> byte list \<Rightarrow> int" where
  "frame_tick crc raw = (case control_frame crc raw of Inr (q, t, r) \<Rightarrow> t | Inl e \<Rightarrow> 0)"

definition is_control :: "(byte list \<Rightarrow> 32 word) \<Rightarrow> byte list \<Rightarrow> bool" where
  "is_control crc raw \<longleftrightarrow> (\<exists>q. control_frame crc raw = Inr (q, frame_tick crc raw, raw))"

lemma is_control_Inr: "control_frame crc raw = Inr (q, t, r) \<Longrightarrow> is_control crc raw \<and> frame_tick crc raw = t \<and> r = raw"
  using control_frame_raw [of crc raw q t r] by (simp add: is_control_def frame_tick_def)

definition conserves :: "rx_counters \<Rightarrow> bool" where
  "conserves c \<longleftrightarrow> rx_received c = rx_foreign c + rx_malformed c + rx_duplicate c + rx_out_of_order c +
     rx_conflict c + rx_recorded c + rx_write_failed c"

definition increasing_ticks :: "(byte list \<Rightarrow> 32 word) \<Rightarrow> byte list list \<Rightarrow> bool" where
  "increasing_ticks crc raws \<longleftrightarrow> sorted_wrt (<) (map (frame_tick crc) raws)"

definition rx_inv :: "(byte list \<Rightarrow> 32 word) \<Rightarrow> byte list set \<Rightarrow> receiver \<Rightarrow> bool" where
  "rx_inv crc Q r \<longleftrightarrow> conserves (rx_ctr r) \<and> rx_recorded (rx_ctr r) = length (rx_file r) \<and>
     list_all (\<lambda>raw. raw \<in> Q \<and> is_control crc raw) (rx_file r) \<and> increasing_ticks crc (rx_file r) \<and>
     rx_last_tick r = (if rx_file r = [] then None else Some (frame_tick crc (last (rx_file r))))"

lemma increasing_snoc:
  assumes "increasing_ticks crc xs" "xs \<noteq> [] \<Longrightarrow> frame_tick crc (last xs) < frame_tick crc x"
  shows "increasing_ticks crc (xs @ [x])"
proof -
  have "frame_tick crc y < frame_tick crc x" if "y \<in> set xs" for y
  proof -
    have "frame_tick crc y \<le> frame_tick crc (last xs)"
      using assms(1) that by (induction xs) (auto simp: increasing_ticks_def less_imp_le)
    then show ?thesis using assms(2) that by (cases xs) auto
  qed
  then show ?thesis using assms(1) by (auto simp: increasing_ticks_def sorted_wrt_append)
qed

lemma receiver_new_inv: "rx_inv crc Q receiver_new"
  by (simp add: rx_inv_def receiver_new_def conserves_def increasing_ticks_def)

lemma accept_inv:
  assumes "rx_inv crc Q r" "is_control crc data \<Longrightarrow> data \<in> Q"
  shows "rx_inv crc Q (fst (accept crc data source w r))"
proof (cases "control_frame crc data")
  case (Inl e)
  then obtain m where "e = ValueError m"
    using control_frame_errors [of crc data] by (auto simp: value_errors_def)
  then show ?thesis using assms(1) Inl by (auto simp: accept_def Let_def rx_inv_def conserves_def)
next
  case (Inr f)
  obtain q t raw where f: "f = (q, t, raw)" by (cases f)
  have data: "is_control crc data" "frame_tick crc data = t" "raw = data"
    using is_control_Inr [OF Inr [unfolded f]] by auto
  have snoc: "increasing_ticks crc (rx_file r @ [data])" if "rx_file r \<noteq> [] \<Longrightarrow> frame_tick crc (last (rx_file r)) < t"
    using increasing_snoc assms(1) that data(2) by (auto simp: rx_inv_def)
  show ?thesis
    using assms snoc data
    by (auto simp: accept_def Let_def rx_classify_def rx_record_def Inr f rx_inv_def conserves_def
        split: sum.split option.split)
qed

lemma socket_error_inv: "rx_inv crc Q r \<Longrightarrow> rx_inv crc Q (socket_error e r)"
  by (simp add: rx_inv_def conserves_def socket_error_def)

text \<open>Every well-formed control frame that reaches the socket is one of \<open>Q\<close>.\<close>

definition script_offers :: "(byte list \<Rightarrow> 32 word) \<Rightarrow> byte list set \<Rightarrow> cycle_script list \<Rightarrow> bool" where
  "script_offers crc Q cs \<longleftrightarrow> (\<forall>c \<in> set cs. \<forall>i data source w.
     poll_receive (cs_polls c i) = Datagram data source w \<longrightarrow> is_control crc data \<longrightarrow> data \<in> Q)"

lemma drain_inv:
  assumes "rx_inv crc Q r"
    and "\<And>p data source w. p \<in> set ps \<Longrightarrow> poll_receive p = Datagram data source w \<Longrightarrow> is_control crc data \<Longrightarrow> data \<in> Q"
  shows "rx_inv crc Q (fst (drain crc deadline ps r))"
  using assms
proof (induction ps arbitrary: r)
  case (Cons p ps)
  have IH: "rx_inv crc Q (fst (drain crc deadline ps r'))" if "rx_inv crc Q r'" for r'
    by (rule Cons.IH [OF that]) (rule Cons.prems(2), rule list.set_intros(2))
  show ?case
  proof (cases "poll_receive p")
    case (Datagram data source w)
    obtain r' x where acc: "accept crc data source w r = (r', x)" by (cases "accept crc data source w r")
    have "rx_inv crc Q r'"
      using accept_inv [of crc Q r data source w] Cons.prems(1) Cons.prems(2) [of p, OF _ Datagram] acc by auto
    then show ?thesis using Datagram Cons.prems(1) IH acc by (cases x) auto
  next
    case (ReceiveFails e)
    then show ?thesis using Cons.prems(1) IH [OF socket_error_inv] by (auto intro: socket_error_inv)
  qed (use Cons.prems(1) in auto)
qed simp

lemma collect_inv:
  assumes "rx_inv crc Q r" "script_offers crc Q cs"
  shows "rx_inv crc Q (fst (collect crc deadline cs r))"
  using assms
proof (induction cs arbitrary: r deadline)
  case (Cons c cs)
  have drain: "rx_inv crc Q (fst (drain_cycle crc d c r))" for d
    unfolding drain_cycle_def by (rule drain_inv [OF Cons.prems(1)]) (use Cons.prems(2) in \<open>fastforce simp: script_offers_def\<close>)
  obtain d' r' res where cyc: "collect_cycle crc deadline c r = (d', r', res)"
    by (cases "collect_cycle crc deadline c r") auto
  have "rx_inv crc Q r'"
    using cyc drain Cons.prems(1)
    by (auto simp: collect_cycle_def Let_def split: if_splits option.splits wait_result.splits stdin_read.splits)
      (metis fst_conv)+
  then show ?case using Cons cyc by (cases res) (auto simp: script_offers_def)
qed simp

text \<open>The bytes of the recording: the frames written in full, and after a failed write, which ends the loop, part of one more.\<close>

definition bytes_whole :: "receiver \<Rightarrow> bool" where
  "bytes_whole r \<longleftrightarrow> rx_write_failed (rx_ctr r) = 0 \<and> rx_bytes r = concat (rx_file r)"

definition bytes_cut :: "receiver \<Rightarrow> bool" where
  "bytes_cut r \<longleftrightarrow> rx_write_failed (rx_ctr r) = 1 \<and>
     (\<exists>part. rx_bytes r = concat (rx_file r) @ part \<and> length part \<le> FRAME_BYTES)"

lemma accept_bytes:
  assumes "bytes_whole r" "accept crc data source w r = (r', x)"
  shows "if x = None then bytes_whole r' else bytes_whole r' \<or> bytes_cut r'"
proof (cases "control_frame crc data")
  case (Inl e)
  then show ?thesis using assms by (cases e) (auto simp: accept_def Let_def bytes_whole_def split: if_splits)
next
  case (Inr f)
  obtain q t raw where f: "f = (q, t, raw)" by (cases f)
  have "length raw \<le> FRAME_BYTES" using control_frame_raw [OF Inr [unfolded f]] by simp
  then have "\<exists>part. take (kept_bytes w) raw = part \<and> length part \<le> FRAME_BYTES" by auto
  then show ?thesis
    using assms by (auto simp: accept_def Let_def rx_classify_def rx_record_def Inr f bytes_whole_def bytes_cut_def
        split: sum.splits option.splits if_splits)
qed

lemma drain_bytes:
  assumes "bytes_whole r" "drain crc deadline ps r = (r', res)"
  shows "bytes_whole r' \<or> bytes_cut r' \<and> (\<exists>e. res = Raises e)"
  using assms
proof (induction ps arbitrary: r)
  case (Cons p ps)
  show ?case
  proof (cases "poll_receive p")
    case (Datagram data source w)
    obtain r1 x where acc: "accept crc data source w r = (r1, x)" by (cases "accept crc data source w r")
    from accept_bytes [OF Cons.prems(1) acc] Cons show ?thesis
      by (cases x) (auto simp: Datagram acc split: if_splits option.splits)
  next
    case (ReceiveFails e)
    have "bytes_whole (socket_error e r)" using Cons.prems(1) by (simp add: bytes_whole_def socket_error_def)
    with Cons ReceiveFails show ?thesis by (auto split: if_splits option.splits)
  qed (use Cons.prems in \<open>auto split: if_splits option.splits\<close>)
qed simp

lemma collect_bytes:
  assumes "bytes_whole r"
  shows "bytes_whole (fst (collect crc deadline cs r)) \<or> bytes_cut (fst (collect crc deadline cs r))"
  using assms
proof (induction cs arbitrary: r deadline)
  case (Cons c cs)
  have drain: "bytes_whole r' \<or> bytes_cut r' \<and> (\<exists>e. res = Raises e)" if "drain_cycle crc d c r = (r', res)" for d r' res
    using drain_bytes [OF Cons.prems] that by (simp add: drain_cycle_def)
  obtain d' r' res where cyc: "collect_cycle crc deadline c r = (d', r', res)"
    by (cases "collect_cycle crc deadline c r") auto
  have "bytes_whole r' \<or> bytes_cut r' \<and> (\<exists>e. res = Raises e)"
    using cyc Cons.prems drain
    by (auto simp: collect_cycle_def Let_def split: if_splits option.splits wait_result.splits stdin_read.splits)
  then show ?case using Cons.IH [of r'] cyc by (cases res) auto
qed simp

section \<open>The merge\<close>

fun contiguous :: "nat \<Rightarrow> gframe list \<Rightarrow> bool" where
  "contiguous k [] \<longleftrightarrow> True"
| "contiguous k ((q, t, raw) # vs) \<longleftrightarrow> q = k mod 2 ^ 32 \<and> contiguous (k + 1) vs"

fun rising :: "int option \<Rightarrow> gframe list \<Rightarrow> bool" where
  "rising prev [] \<longleftrightarrow> True"
| "rising prev ((q, t, raw) # vs) \<longleftrightarrow> after prev t \<and> rising (Some t) vs"

definition mg_holds :: "merge_state \<Rightarrow> gframe list \<Rightarrow> bool" where
  "mg_holds m gs \<longleftrightarrow> pull (map Inr gs) = Inr (mg_next m, mg_rest m) \<and>
     (case mg_prev_ground m of None \<Rightarrow> True | Some g \<Rightarrow> \<exists>p. mg_prev_vehicle m = Some p \<and> g \<le> p)"

lemma rising_above: "rising (Some p) vs \<Longrightarrow> f \<in> set vs \<Longrightarrow> p < fst (snd f)"
  by (induction vs arbitrary: p) (fastforce simp: after_def)+

lemma subseq_Cons_in: "subseq (x # xs) ys \<Longrightarrow> x \<in> set ys"
  by (auto dest!: list_emb_ConsD)

lemma mg_holds_Nil: "mg_holds m [] \<Longrightarrow> mg_next m = None \<and> mg_rest m = []"
  by (simp add: mg_holds_def)

lemma mg_holds_Cons: "mg_holds m (g # gs) \<Longrightarrow> mg_next m = Some g \<and> mg_rest m = map Inr gs"
  by (simp add: mg_holds_def)

lemma mg_holds_vehicle:
  assumes "mg_holds m gs" "after (mg_prev_vehicle m) t"
  shows "mg_holds (m\<lparr>mg_prev_vehicle := Some t\<rparr>) gs" "after (mg_prev_ground m) t"
    "mg_holds (m\<lparr>mg_prev_vehicle := Some t, mg_vehicle := n\<rparr>) gs"
  using assms by (auto simp: mg_holds_def after_def split: option.splits)

lemma pull_Inr: "\<exists>nxt rest. pull (map Inr gs) = Inr (nxt, rest)"
  by (cases gs) auto

lemma merge_exact:
  assumes "mg_holds m gs"
  shows "(\<exists>m'. merge_loop start (map Inr vs) m = Inr m' \<and> mg_next m' = None) \<longleftrightarrow>
    contiguous (start + mg_vehicle m) vs \<and> rising (mg_prev_vehicle m) vs \<and> subseq (map snd gs) (map snd vs)"
  using assms
proof (induction vs arbitrary: m gs)
  case Nil
  then show ?case by (cases gs) (auto dest: mg_holds_Nil mg_holds_Cons)
next
  case (Cons v vs)
  obtain q t raw where v: "v = (q, t, raw)" by (cases v)
  show ?case
  proof (cases "q = (start + mg_vehicle m) mod 2 ^ 32 \<and> after (mg_prev_vehicle m) t")
    case False
    then show ?thesis by (auto simp: v ensure_def)
  next
    case True
    let ?m = "m\<lparr>mg_prev_vehicle := Some t\<rparr>"
    note holds = mg_holds_vehicle [OF Cons.prems conjunct2 [OF True]]
    have loop: "merge_loop start (map Inr (v # vs)) m =
        rbind (merge_match t raw ?m) (\<lambda>m'. merge_loop start (map Inr vs) (m'\<lparr>mg_vehicle := mg_vehicle m' + 1\<rparr>))"
      using True by (simp add: v)
    have skip: ?thesis if "merge_match t raw ?m = Inr ?m" "subseq (map snd gs) (map snd (v # vs)) \<longleftrightarrow> subseq (map snd gs) (map snd vs)"
      using Cons.IH [OF holds(3), of "mg_vehicle m + 1"] True unfolding loop that by (simp add: v)
    show ?thesis
    proof (cases gs)
      case Nil
      show ?thesis
        by (rule skip) (use Nil mg_holds_Nil [of m] Cons.prems in \<open>simp_all add: merge_match_def\<close>)
    next
      case (Cons g gs')
      obtain gq gt graw where g: "g = (gq, gt, graw)" by (cases g)
      have nxt: "mg_next m = Some (gq, gt, graw)" "mg_rest m = map Inr gs'"
        using mg_holds_Cons Cons.prems \<open>gs = g # gs'\<close> g by auto
      have later: False if "rising (Some t) vs" "subseq (map snd gs) (map snd vs)" "gt \<le> t"
        using subseq_Cons_in [of "snd g" "map snd gs'" "map snd vs"] rising_above [OF that(1)] that(2,3) Cons g by force
      consider (old) "gt < t" | (same) "gt = t" "graw = raw" | (other) "gt = t" "graw \<noteq> raw" | (new) "t < gt"
        by linarith
      then show ?thesis
      proof cases
        case same
        obtain nx rest where pull: "pull (map Inr gs') = Inr (nx, rest)" using pull_Inr by blast
        define m2 where "m2 = ?m\<lparr>mg_leading := (if mg_last_match m = None then mg_vehicle m else mg_leading m),
          mg_interior := (case mg_last_match m of
            None \<Rightarrow> mg_interior m | Some l \<Rightarrow> mg_interior m + (mg_vehicle m - l - 1)),
          mg_last_match := Some (mg_vehicle m), mg_prev_ground := Some gt,
          mg_ground := mg_ground m + 1, mg_next := nx, mg_rest := rest\<rparr>"
        have match: "merge_match t raw ?m = Inr m2"
          using same holds(2) by (simp add: merge_match_def nxt pull m2_def split: option.split)
        have "mg_holds (m2\<lparr>mg_vehicle := mg_vehicle m2 + 1\<rparr>) gs'"
          using same pull by (simp add: mg_holds_def m2_def)
        from Cons.IH [OF this] show ?thesis
          using True same Cons unfolding loop match by (simp add: v g m2_def)
      next
        case new
        have "subseq (map snd gs) (map snd (v # vs)) \<longleftrightarrow> subseq (map snd gs) (map snd vs)"
          using new Cons by (simp add: v g)
        then show ?thesis using new by (intro skip) (simp_all add: merge_match_def nxt)
      next
        case old
        then have "\<not> (rising (Some t) vs \<and> subseq (map snd gs) (map snd (v # vs)))"
          using later Cons by (auto simp: v g)
        then show ?thesis using old unfolding loop by (simp add: merge_match_def nxt ensure_def v)
      next
        case other
        then have "\<not> (rising (Some t) vs \<and> subseq (map snd gs) (map snd (v # vs)))"
          using later Cons by (auto simp: v g)
        then show ?thesis using other holds(2) unfolding loop by (simp add: merge_match_def nxt ensure_def v)
      qed
    qed
  qed
qed

text \<open>What the counters of the merge add up to.\<close>

definition mg_counts :: "merge_state \<Rightarrow> bool" where
  "mg_counts m \<longleftrightarrow> (case mg_last_match m of
       None \<Rightarrow> mg_ground m = 0 \<and> mg_leading m = 0 \<and> mg_interior m = 0
     | Some l \<Rightarrow> l < mg_vehicle m \<and> mg_ground m + mg_leading m + mg_interior m = l + 1)"

definition mg_pending :: "merge_state \<Rightarrow> nat" where
  "mg_pending m = (if mg_next m = None then 0 else 1 + length (mg_rest m))"

lemma pull_pending: "pull fs = Inr (nxt, rest) \<Longrightarrow> (if nxt = None then 0 else 1 + length rest) = length fs"
  by (cases fs rule: pull.cases) auto

lemma merge_match_counts:
  assumes "merge_match t raw m = Inr m'" "mg_counts m"
  shows "mg_counts (m'\<lparr>mg_vehicle := mg_vehicle m' + 1\<rparr>) \<and> mg_vehicle m' = mg_vehicle m \<and>
    mg_ground m' + mg_pending m' = mg_ground m + mg_pending m"
  using assms
  by (auto simp: merge_match_def ensure_eq_Inr rbind_eq_Inr mg_counts_def mg_pending_def
      split: option.splits if_splits dest!: pull_pending)

lemma mg_prev_counts [simp]: "mg_counts (m\<lparr>mg_prev_vehicle := x\<rparr>) = mg_counts m"
  "mg_pending (m\<lparr>mg_prev_vehicle := x\<rparr>) = mg_pending m" "mg_pending (m\<lparr>mg_vehicle := n\<rparr>) = mg_pending m"
  by (simp_all add: mg_counts_def mg_pending_def split: option.split)

lemma mg_prev_fields: "mg_vehicle (m\<lparr>mg_prev_vehicle := x\<rparr>) = mg_vehicle m"
  "mg_ground (m\<lparr>mg_prev_vehicle := x\<rparr>) = mg_ground m"
  by simp_all

lemma merge_loop_counts:
  assumes "merge_loop start vs m = Inr m'" "mg_counts m"
  shows "mg_counts m' \<and> mg_vehicle m' = mg_vehicle m + length vs \<and> mg_ground m' + mg_pending m' = mg_ground m + mg_pending m"
  using assms
proof (induction start vs m rule: merge_loop.induct)
  case (3 start q t raw vs m)
  then obtain m1 where m1: "merge_match t raw (m\<lparr>mg_prev_vehicle := Some t\<rparr>) = Inr m1"
    "merge_loop start vs (m1\<lparr>mg_vehicle := mg_vehicle m1 + 1\<rparr>) = Inr m'"
    by (auto simp: ensure_eq_Inr rbind_eq_Inr)
  have c: "mg_counts (m1\<lparr>mg_vehicle := mg_vehicle m1 + 1\<rparr>)" "mg_vehicle m1 = mg_vehicle m"
    "mg_ground m1 + mg_pending m1 = mg_ground m + mg_pending m"
    using merge_match_counts [OF m1(1), unfolded mg_prev_counts mg_prev_fields, OF 3(3)] by blast+
  show ?case using 3(1) [OF m1(2) c(1)] c(2,3) by simp
qed auto

lemma match_streams_counts:
  assumes "match_streams vehicle ground start = Inr pop"
  shows "pop_vehicle pop = length vehicle \<and> pop_ground pop = length ground \<and>
    pop_lost pop + length ground = length vehicle \<and> pop_lost pop = pop_leading pop + pop_interior pop + pop_trailing pop"
proof -
  obtain nxt rest m where m: "pull ground = Inr (nxt, rest)" "merge_loop start vehicle (merge_initial nxt rest) = Inr m"
    "mg_next m = None" "pop = merge_result m"
    using assms by (auto simp: match_streams_def rbind_eq_Inr ensure_eq_Inr)
  have "mg_counts m \<and> mg_vehicle m = length vehicle \<and> mg_ground m = length ground"
    using merge_loop_counts [OF m(2)] pull_pending [OF m(1)] m(3)
    by (cases nxt) (simp_all add: mg_counts_def mg_pending_def merge_initial_def)
  then show ?thesis by (auto simp: m(4) merge_result_def mg_counts_def Let_def split: option.splits)
qed

lemma match_streams_exact:
  "(\<exists>pop. match_streams (map Inr vs) (map Inr gs) start = Inr pop) \<longleftrightarrow>
     contiguous start vs \<and> rising None vs \<and> subseq (map snd gs) (map snd vs)"
proof -
  obtain nxt rest where pull: "pull (map Inr gs) = Inr (nxt, rest)" using pull_Inr by blast
  then have "mg_holds (merge_initial nxt rest) gs" by (simp add: mg_holds_def merge_initial_def)
  from merge_exact [OF this, of start vs] show ?thesis
    by (auto simp: match_streams_def pull rbind_eq_Inr ensure_eq_Inr merge_initial_def)
qed

section \<open>From the receiver's file to the accounting\<close>

lemma chunks_concat:
  "list_all (is_control crc) raws \<Longrightarrow> chunks crc (concat raws) = map (control_frame crc) raws"
proof (induction raws)
  case Nil
  then show ?case by (simp add: chunks.simps)
next
  case (Cons raw raws)
  then have len: "length raw = FRAME_BYTES" using control_frame_raw by (auto simp: is_control_def)
  then have "raw \<noteq> []" by (auto simp: FRAME_BYTES_def HEAD_SIZE_def)
  then show ?case using Cons len by (simp add: chunks.simps [of _ "raw @ concat raws"])
qed

lemma recording_frames_of:
  assumes "list_all (is_control crc) raws" "int64_ok start" "int64_ok epoch"
  shows "recording_frames crc sha (header_bytes 6 start epoch @ concat raws)
      (sha (header_bytes 6 start epoch @ concat raws)) = map (control_frame crc) raws"
proof -
  have "read_typed_recording crc (header_bytes 6 start epoch) 6 =
      Inr (\<lparr>rh_magic = MAGIC, rh_version = WIRE_VERSION, rh_schema_hash = the (map_of SCHEMA_HASHES 6),
        rh_start_monotonic_ns = start, rh_start_epoch_ns = epoch, rh_schema_known = True\<rparr>, [],
      \<lparr>frames_ok = 0, crc_errors = 0, version_mismatch = 0, resyncs = 0,
       seq_discontinuities = 0, lost = 0, skipped_bytes = 0\<rparr>)"
    using typed_recording_empty [OF _ assms(2,3), of 6] by simp
  then show ?thesis by (simp add: recording_frames_def chunks_concat [OF assms(1)])
qed

text \<open>The vehicle's log: control frames numbered from zero, with increasing ticks.\<close>

definition vehicle_log :: "(byte list \<Rightarrow> 32 word) \<Rightarrow> byte list list \<Rightarrow> bool" where
  "vehicle_log crc raws \<longleftrightarrow> increasing_ticks crc raws \<and>
     (\<forall>i < length raws. control_frame crc (raws ! i) = Inr (i mod 2 ^ 32, frame_tick crc (raws ! i), raws ! i))"

definition frame_of :: "(byte list \<Rightarrow> 32 word) \<Rightarrow> byte list \<Rightarrow> gframe" where
  "frame_of crc raw = (case control_frame crc raw of Inr f \<Rightarrow> f | Inl e \<Rightarrow> (0, 0, []))"

lemma frame_of_control: "is_control crc raw \<Longrightarrow> control_frame crc raw = Inr (frame_of crc raw) \<and>
    snd (frame_of crc raw) = (frame_tick crc raw, raw)"
  by (auto simp: is_control_def frame_of_def)

lemma frames_of_control: "list_all (is_control crc) raws \<Longrightarrow>
    map (control_frame crc) raws = map Inr (map (frame_of crc) raws)"
  by (induction raws) (auto simp: frame_of_control)

lemma contiguous_nth: "contiguous k fs \<longleftrightarrow> (\<forall>i < length fs. fst (fs ! i) = (k + i) mod 2 ^ 32)"
proof (induction k fs rule: contiguous.induct)
  case (2 k q t raw vs)
  show ?case unfolding contiguous.simps 2 by (auto simp: nth_Cons' less_Suc_eq_0_disj)
qed simp

lemma rising_increasing:
  "list_all (is_control crc) raws \<Longrightarrow> increasing_ticks crc raws \<Longrightarrow>
     (\<And>p. prev = Some p \<Longrightarrow> \<forall>raw \<in> set raws. p < frame_tick crc raw) \<Longrightarrow> rising prev (map (frame_of crc) raws)"
proof (induction raws arbitrary: prev)
  case (Cons raw raws)
  obtain q where f: "frame_of crc raw = (q, frame_tick crc raw, raw)"
    using frame_of_control [of crc raw] Cons.prems(1) by (cases "frame_of crc raw") auto
  have "rising (Some (frame_tick crc raw)) (map (frame_of crc) raws)"
    by (rule Cons.IH) (use Cons.prems in \<open>auto simp: increasing_ticks_def\<close>)
  then show ?case using Cons.prems(3) by (auto simp: f after_def split: option.split)
qed simp

text \<open>Two logs with increasing ticks: one with fewer frames is a subsequence of the other.\<close>

lemma increasing_subseq:
  "increasing_ticks crc xs \<Longrightarrow> increasing_ticks crc ys \<Longrightarrow> set xs \<subseteq> set ys \<Longrightarrow> subseq xs ys"
proof (induction ys arbitrary: xs)
  case (Cons y ys)
  show ?case
  proof (cases xs)
    case (Cons x xs')
    have ys: "increasing_ticks crc ys" using Cons.prems(2) by (simp add: increasing_ticks_def)
    show ?thesis
    proof (cases "x = y")
      case True
      have "y \<notin> set xs'" using Cons.prems(1) Cons True by (auto simp: increasing_ticks_def)
      then show ?thesis
        using Cons.IH [of xs'] Cons.prems Cons True ys by (auto simp: increasing_ticks_def)
    next
      case False
      then have "x \<in> set ys" using Cons.prems(3) Cons by auto
      then have "frame_tick crc y < frame_tick crc x" using Cons.prems(2) by (auto simp: increasing_ticks_def)
      then have "y \<notin> set xs" using Cons.prems(1) Cons by (auto simp: increasing_ticks_def)
      then have "subseq xs ys" using Cons.IH [OF Cons.prems(1) ys] Cons.prems(3) by auto
      then show ?thesis by (rule list_emb_Cons)
    qed
  qed simp
qed simp

lemma subseq_frames: "list_all (is_control crc) xs \<Longrightarrow> list_all (is_control crc) ys \<Longrightarrow> subseq xs ys \<Longrightarrow>
    subseq (map snd (map (frame_of crc) xs)) (map snd (map (frame_of crc) ys))"
  unfolding map_map by (rule subseq_map)

lemma vehicle_log_control: "vehicle_log crc raws \<Longrightarrow> list_all (is_control crc) raws"
  by (auto simp: vehicle_log_def is_control_def list_all_length)

lemma ground_merges:
  assumes "vehicle_log crc raws" "list_all (is_control crc) file" "increasing_ticks crc file" "set file \<subseteq> set raws"
  shows "\<exists>pop. match_streams (map (control_frame crc) raws) (map (control_frame crc) file) 0 = Inr pop \<and>
    pop_ground pop = length file \<and> pop_lost pop + length file = length raws"
proof -
  note raws = vehicle_log_control [OF assms(1)]
  have "contiguous 0 (map (frame_of crc) raws)"
    using assms(1) by (auto simp: contiguous_nth vehicle_log_def frame_of_def)
  moreover have "rising None (map (frame_of crc) raws)"
    using assms(1) by (intro rising_increasing raws) (simp_all add: vehicle_log_def)
  moreover have "subseq file raws"
    using assms by (intro increasing_subseq [of crc]) (simp_all add: vehicle_log_def)
  ultimately obtain pop where pop: "match_streams (map (control_frame crc) raws) (map (control_frame crc) file) 0 = Inr pop"
    unfolding frames_of_control [OF raws] frames_of_control [OF assms(2)]
    using match_streams_exact subseq_frames [OF assms(2) raws] by blast
  then show ?thesis using match_streams_counts [OF pop] by auto
qed

section \<open>What a verdict says about the files\<close>

lemma pull_prefix: "pull fs = Inr (nxt, rest) \<Longrightarrow> \<exists>gs. fs = map Inr gs @ rest \<and> (nxt = None \<longrightarrow> rest = [])"
proof (cases fs rule: pull.cases)
  case (3 f fs')
  assume "pull fs = Inr (nxt, rest)"
  then show ?thesis using 3 by (intro exI [of _ "[f]"]) auto
qed auto

lemma merge_match_prefix:
  assumes "merge_match t raw m = Inr m'" "mg_next m = None \<longrightarrow> mg_rest m = []"
  shows "\<exists>gs. mg_rest m = map Inr gs @ mg_rest m' \<and> (mg_next m' = None \<longrightarrow> mg_rest m' = [])"
proof (cases "mg_rest m' = mg_rest m \<and> mg_next m' = mg_next m")
  case True
  then show ?thesis using assms(2) by (intro exI [of _ "[]"]) simp
next
  case False
  then obtain nxt rest where "pull (mg_rest m) = Inr (nxt, rest)" "mg_next m' = nxt" "mg_rest m' = rest"
    using assms(1) by (auto simp: merge_match_def ensure_eq_Inr rbind_eq_Inr split: option.splits if_splits)
  then show ?thesis using pull_prefix by blast
qed

lemma mg_vehicle_fields: "mg_rest (m\<lparr>mg_vehicle := n\<rparr>) = mg_rest m" "mg_next (m\<lparr>mg_vehicle := n\<rparr>) = mg_next m"
  by simp_all

lemma merge_loop_frames:
  assumes "merge_loop start fs m = Inr m'" "mg_next m = None \<longrightarrow> mg_rest m = []"
  shows "(\<exists>vs. fs = map Inr vs) \<and>
    (\<exists>gs. mg_rest m = map Inr gs @ mg_rest m') \<and> (mg_next m' = None \<longrightarrow> mg_rest m' = [])"
  using assms
proof (induction start fs m rule: merge_loop.induct)
  case (1 start m)
  then show ?case by (auto intro: exI [of _ "[]"])
next
  case (3 start q t raw fs m)
  then obtain m1 where m1: "merge_match t raw (m\<lparr>mg_prev_vehicle := Some t\<rparr>) = Inr m1"
    "merge_loop start fs (m1\<lparr>mg_vehicle := mg_vehicle m1 + 1\<rparr>) = Inr m'"
    by (auto simp: ensure_eq_Inr rbind_eq_Inr)
  obtain gs where gs: "mg_rest m = map Inr gs @ mg_rest m1" "mg_next m1 = None \<longrightarrow> mg_rest m1 = []"
    using merge_match_prefix [OF m1(1)] 3(3) by auto
  obtain vs gs' where IH: "fs = map Inr vs" "mg_rest m1 = map Inr gs' @ mg_rest m'" "mg_next m' = None \<longrightarrow> mg_rest m' = []"
    using 3(1) [OF m1(2), unfolded mg_vehicle_fields, OF gs(2)] by (elim conjE exE) (rule that; assumption)
  have "Inr (q, t, raw) # fs = map Inr ((q, t, raw) # vs)" by (simp only: IH(1) list.map)
  moreover have "mg_rest m = map Inr (gs @ gs') @ mg_rest m'"
    by (simp only: gs(1) IH(2) map_append append_assoc)
  ultimately show ?case by (intro conjI exI IH(3))
qed simp

lemma match_streams_frames:
  assumes "match_streams vehicle ground start = Inr pop"
  obtains vs gs where "vehicle = map Inr vs" "ground = map Inr gs" "subseq (map snd gs) (map snd vs)"
proof -
  obtain nxt rest m where m: "pull ground = Inr (nxt, rest)" "merge_loop start vehicle (merge_initial nxt rest) = Inr m"
    "mg_next m = None"
    using assms by (auto simp: match_streams_def rbind_eq_Inr ensure_eq_Inr)
  obtain gs where "ground = map Inr gs @ rest" "nxt = None \<longrightarrow> rest = []" using pull_prefix [OF m(1)] by blast
  moreover obtain vs gs' where "vehicle = map Inr vs" "rest = map Inr gs'"
    using merge_loop_frames [OF m(2)] m(3) \<open>nxt = None \<longrightarrow> rest = []\<close> by (auto simp: merge_initial_def)
  ultimately have frames: "vehicle = map Inr vs" "ground = map Inr (gs @ gs')" by simp_all
  then have "subseq (map snd (gs @ gs')) (map snd vs)"
    using assms match_streams_exact [of vs "gs @ gs'" start] by blast
  then show thesis using that frames by blast
qed

lemma chunks_bytes: "chunks crc data = map Inr fs \<Longrightarrow> data = concat (map (snd \<circ> snd) fs)"
proof (induction crc data arbitrary: fs rule: chunks.induct)
  case (1 crc data)
  show ?case
  proof (cases "data = []")
    case False
    then obtain f fs' where fs: "fs = f # fs'" "control_frame crc (take FRAME_BYTES data) = Inr f"
      "chunks crc (drop FRAME_BYTES data) = map Inr fs'"
      using 1(2) by (cases fs) (auto simp: chunks.simps [of _ data])
    have "snd (snd f) = take FRAME_BYTES data"
      using control_frame_raw fs(2) by (cases f) auto
    moreover have "drop FRAME_BYTES data = concat (map (snd \<circ> snd) fs')" by (rule 1(1) [OF False fs(3)])
    ultimately show ?thesis using append_take_drop_id [of FRAME_BYTES data] by (simp add: fs(1) comp_def)
  qed (use 1(2) in \<open>simp add: chunks.simps\<close>)
qed

lemma recording_frames_bytes:
  assumes "recording_frames crc sha file digest = map Inr fs"
  shows "drop FILE_HEADER_SIZE file = concat (map (snd \<circ> snd) fs)"
proof -
  have "chunks crc (drop FILE_HEADER_SIZE file) = map Inr fs"
    using assms by (auto simp: recording_frames_def Cons_eq_map_conv append_eq_map_conv split: sum.splits if_splits)
  then show ?thesis by (rule chunks_bytes)
qed

lemma ground_audit_match:
  assumes "ground_audit crc sha parse ipv4 fs ve re = Inr pop"
  shows "match_streams (recording_frames crc sha (gf_vehicle_recording fs) (sha (gf_vehicle_recording fs)))
    (recording_frames crc sha (gf_ground_recording fs) (sha (gf_ground_recording fs))) 0 = Inr pop"
  using assms by (auto simp: ground_audit_def rbind_eq_Inr ensure_eq_Inr split: prod.splits)

section \<open>Properties\<close>

text \<open>C20. Whatever the network and the operating system do, the receiver accounts for every datagram
  in exactly one disposition, and its recording holds only genuine control frames, with strictly
  increasing ticks and as many as it counts. Only a failed write, of which there is at most one, leaves
  part of one more frame behind them.\<close>

theorem receiver_accounts:
  "let r = fst (collect crc None cs receiver_new)
   in conserves (rx_ctr r) \<and> rx_recorded (rx_ctr r) = length (rx_file r) \<and>
      list_all (is_control crc) (rx_file r) \<and> increasing_ticks crc (rx_file r) \<and>
      (\<exists>part. rx_bytes r = concat (rx_file r) @ part \<and> length part \<le> (if rx_write_failed (rx_ctr r) = 0 then 0 else FRAME_BYTES)) \<and>
      rx_write_failed (rx_ctr r) \<le> 1"
proof -
  have "bytes_whole receiver_new" by (simp add: bytes_whole_def receiver_new_def)
  from collect_bytes [OF this, of crc None cs] show ?thesis
    using collect_inv [OF receiver_new_inv, of crc UNIV cs None]
    by (auto simp: script_offers_def rx_inv_def Let_def list_all_iff bytes_whole_def bytes_cut_def)
qed

text \<open>The merge accepts two recordings exactly when the vehicle's is contiguous with increasing
  ticks and the ground's frames are some of them in order, byte for byte; the lost frames are then
  exactly those missing.\<close>

theorem match_streams_subsequence:
  "(\<exists>pop. match_streams (map Inr vs) (map Inr gs) start = Inr pop \<and> pop_vehicle pop = length vs \<and>
      pop_ground pop = length gs \<and> pop_lost pop + length gs = length vs \<and>
      pop_lost pop = pop_leading pop + pop_interior pop + pop_trailing pop) \<longleftrightarrow>
   contiguous start vs \<and> rising None vs \<and> subseq (map snd gs) (map snd vs)"
  unfolding match_streams_exact [symmetric] by (metis match_streams_counts length_map)

text \<open>C21. End to end: if every well-formed control frame on the wire was sent by the vehicle, then
  however the network drops, repeats and reorders datagrams, the receiver's complete frames, which are its
  whole recording where no write failed, merge into the vehicle's, and the lost frames are the vehicle's
  frames less the recorded ones.\<close>

theorem ground_delivery_accounts:
  assumes "vehicle_log crc raws" "script_offers crc (set raws) cs" "int64_ok start" "int64_ok epoch"
    "r = fst (collect crc None cs receiver_new)" "V = header_bytes 6 start epoch @ concat raws"
    "G = header_bytes 6 start epoch @ concat (rx_file r)"
  shows "\<exists>pop. match_streams (recording_frames crc sha V (sha V)) (recording_frames crc sha G (sha G)) 0 = Inr pop \<and>
    pop_ground pop = rx_recorded (rx_ctr r) \<and> pop_lost pop + rx_recorded (rx_ctr r) = length raws \<and>
    (rx_write_failed (rx_ctr r) = 0 \<longrightarrow> G = header_bytes 6 start epoch @ rx_bytes r)"
proof -
  have inv: "rx_inv crc (set raws) r" unfolding assms(5) by (rule collect_inv [OF receiver_new_inv assms(2)])
  then have recs: "list_all (is_control crc) (rx_file r)" "increasing_ticks crc (rx_file r)" "set (rx_file r) \<subseteq> set raws"
    "rx_recorded (rx_ctr r) = length (rx_file r)"
    by (auto simp: rx_inv_def list_all_iff)
  have "bytes_whole receiver_new" by (simp add: bytes_whole_def receiver_new_def)
  from collect_bytes [OF this, of crc None cs]
  have whole: "rx_write_failed (rx_ctr r) = 0 \<longrightarrow> concat (rx_file r) = rx_bytes r"
    by (auto simp: assms(5) bytes_whole_def bytes_cut_def)
  have "\<exists>pop. match_streams (recording_frames crc sha V (sha V)) (recording_frames crc sha G (sha G)) 0 = Inr pop \<and>
    pop_ground pop = rx_recorded (rx_ctr r) \<and> pop_lost pop + rx_recorded (rx_ctr r) = length raws"
    unfolding assms(6,7) recording_frames_of [OF vehicle_log_control [OF assms(1)] assms(3,4)]
      recording_frames_of [OF recs(1) assms(3,4)] recs(4)
    by (rule ground_merges [OF assms(1) recs(1-3)])
  with whole show ?thesis unfolding assms(7) by auto
qed

text \<open>C33. A verdict of complete delivery means that the two recordings carry the same bytes after
  their headers.\<close>

theorem delivery_complete_identical:
  assumes "gr_delivery_complete (ground_check crc sha parse ipv4 fs vehicle_exit receiver_exit)"
  shows "drop FILE_HEADER_SIZE (gf_ground_recording fs) = drop FILE_HEADER_SIZE (gf_vehicle_recording fs)"
proof -
  obtain pop where pop: "ground_audit crc sha parse ipv4 fs vehicle_exit receiver_exit = Inr pop"
    "pop_ground pop = pop_vehicle pop"
    using assms by (auto simp: ground_check_def split: sum.splits)
  obtain vs gs where f: "recording_frames crc sha (gf_vehicle_recording fs) (sha (gf_vehicle_recording fs)) = map Inr vs"
    "recording_frames crc sha (gf_ground_recording fs) (sha (gf_ground_recording fs)) = map Inr gs"
    "subseq (map snd gs) (map snd vs)"
    by (rule match_streams_frames [OF ground_audit_match [OF pop(1)]])
  have "length gs = length vs"
    using match_streams_counts [OF ground_audit_match [OF pop(1)]] pop(2) f(1,2) by simp
  then have "map snd gs = map snd vs" using subseq_same_length [OF f(3)] by simp
  then have "map (snd \<circ> snd) gs = map (snd \<circ> snd) vs" by (metis map_map)
  then show ?thesis using recording_frames_bytes f(1,2) by metis
qed

section \<open>Examples\<close>

lemma le_nat_zeros: "le_nat (replicate n 0) = 0"
  by (induction n) simp_all

definition example_raw :: "(byte list \<Rightarrow> 32 word) \<Rightarrow> byte list" where
  "example_raw crc = frame_bytes crc (6, 0, replicate 128 0)"

lemma decode_zero_control: "\<exists>F. decode_payload 6 (replicate 128 0) = Inr F \<and> F ''tick'' = Some (VInt 0) \<and>
    (\<forall>k \<in> {''theta'', ''omega'', ''cmd'', ''i_state'', ''d_prev''}. F k = Some (VFlt 0))"
proof -
  obtain fs where fs: "map_of PAYLOAD_FIELDS 6 = Some fs" by (simp add: PAYLOAD_FIELDS_def)
  have zero: "slice (replicate 128 0) a b = (replicate (min (b - a) (128 - a)) 0 :: byte list)" for a b
    by (simp add: slice_def)
  let ?F = "decode_fields (replicate 128 0) fs (\<lambda>_. None)"
  have ints: "?F k = Some (VInt 0)" if "k \<in> {''tick'', ''discarded_old'', ''discarded_superseded'', ''discarded_other'', ''rx_count''}" for k
    using that fs by (auto simp: PAYLOAD_FIELDS_def decode_field_def zero le_nat_zeros Let_def)
  have flts: "?F k = Some (VFlt 0)" if "k \<in> {''theta'', ''omega'', ''cmd'', ''i_state'', ''d_prev''}" for k
    using that fs by (auto simp: PAYLOAD_FIELDS_def decode_field_def zero le_nat_zeros Let_def)
  have "check_payload_counts 6 ?F = Inr ()"
    using ints by (simp add: check_payload_counts_def get_field_def int_field_def)
  then have "decode_payload 6 (replicate 128 0) = Inr ?F"
    using fs by (simp add: decode_payload_def PAYLOAD_SIZES_def Let_def)
  then show ?thesis using ints flts by blast
qed

lemma control_example: "control_frame crc (example_raw crc) = Inr (0, 0, example_raw crc)"
proof -
  have "decode_datagram crc (example_raw crc) {6} = Inr (6, 0, replicate 128 0)"
    unfolding datagram_exact
    by (simp add: example_raw_def encode_frame_bytes PAYLOAD_SIZES_def TYPES_def MAX_PAYLOAD_def)
  moreover obtain F where "decode_payload 6 (replicate 128 0) = Inr F" "F ''tick'' = Some (VInt 0)"
    "\<forall>k \<in> {''theta'', ''omega'', ''cmd'', ''i_state'', ''d_prev''}. F k = Some (VFlt 0)"
    using decode_zero_control by blast
  moreover have "f_finite 0" by (simp add: f_finite_def f_expo_def)
  ultimately show ?thesis
    by (simp add: control_frame_def finite_field_def get_field_def int_field_def)
qed

lemma example_control: "is_control crc (example_raw crc)" "frame_tick crc (example_raw crc) = 0"
  using is_control_Inr [OF control_example] by auto

definition example_poll :: "(byte list \<Rightarrow> 32 word) \<Rightarrow> nat \<Rightarrow> poll" where
  "example_poll crc i = \<lparr>poll_stopped = False, poll_now = 0,
     poll_receive = (if i < 2 then Datagram (example_raw crc) (''127.0.0.1'', 5) (Wrote 142) else WouldBlock)\<rparr>"

definition example_script :: "(byte list \<Rightarrow> 32 word) \<Rightarrow> cycle_script list" where
  "example_script crc = [\<lparr>cs_stopped = False, cs_wait = WaitReady True StdinQuiet, cs_polls = example_poll crc\<rparr>]"

lemma example_offers: "script_offers crc {example_raw crc} (example_script crc)"
  by (auto simp: script_offers_def example_script_def example_poll_def split: if_splits)

lemma example_log: "vehicle_log crc [example_raw crc]"
  by (simp add: vehicle_log_def increasing_ticks_def example_control control_example)

lemma ground_delivery_accounts_witness:
  "\<exists>pop. match_streams
      (recording_frames (\<lambda>_. 0) (\<lambda>_. []) (header_bytes 6 0 0 @ concat [example_raw (\<lambda>_. 0)]) [])
      (recording_frames (\<lambda>_. 0) (\<lambda>_. []) (header_bytes 6 0 0 @
         concat (rx_file (fst (collect (\<lambda>_. 0) None (example_script (\<lambda>_. 0)) receiver_new)))) []) 0 = Inr pop \<and>
    pop_ground pop = rx_recorded (rx_ctr (fst (collect (\<lambda>_. 0) None (example_script (\<lambda>_. 0)) receiver_new))) \<and>
    pop_lost pop + rx_recorded (rx_ctr (fst (collect (\<lambda>_. 0) None (example_script (\<lambda>_. 0)) receiver_new))) = 1"
proof -
  have ok: "int64_ok 0" by (simp add: int64_ok_def)
  have offers: "script_offers (\<lambda>_. 0) (set [example_raw (\<lambda>_. 0)]) (example_script (\<lambda>_. 0))" using example_offers by simp
  show ?thesis
    using ground_delivery_accounts [OF example_log [of "\<lambda>_. 0"] offers ok ok refl refl refl, of "\<lambda>_. []"]
    by auto
qed

definition example_summary :: "(string \<times> json) list" where
  "example_summary = [(''mode'', JString ''freerun''), (''total_cycles'', JInt 1),
     (''telemetry'', JObject [(''records'', JInt 1), (''dropped'', JInt 0)]),
     (''ground'', JObject [(''requested'', JBool True), (''attempted'', JInt 1), (''sent'', JInt 1),
        (''send_errors'', JInt 0), (''last_errno'', JInt 0), (''short_sends'', JInt 0), (''setup_errno'', JInt 0),
        (''resolver_error'', JInt 0), (''endpoint'', JString ''127.0.0.1:7'')]),
     (''applied'', JObject [(''ground'', JBool True)])]"

definition example_report :: "(string \<times> json) list" where
  "example_report = [(''format'', JString ''tvc-ground-receiver-1''), (''interrupted'', JBool False),
     (''shutdown_truncated'', JBool False),
     (''counters'', JObject [(''received'', JInt 2), (''foreign'', JInt 0), (''malformed'', JInt 0),
        (''duplicate'', JInt 1), (''out_of_order'', JInt 0), (''conflict'', JInt 0), (''recorded'', JInt 1),
        (''write_failed_datagrams'', JInt 0), (''socket_errors'', JInt 0), (''last_errno'', JInt 0)]),
     (''bound'', JList [JString ''127.0.0.1'', JInt 7]), (''source'', JList [JString ''127.0.0.1'', JInt 5]),
     (''recording'', JString ''a''), (''recording_sha256'', JString ''d''), (''frame_count'', JInt 1)]"

definition example_parse :: "byte list \<Rightarrow> json result" where
  "example_parse data = Inr (JObject (if data = [] then example_summary else example_report))"

definition example_files :: ground_files where
  "example_files = \<lparr>gf_vehicle_recording = header_bytes 6 0 0 @ concat [example_raw (\<lambda>_. 0)],
     gf_vehicle_summary = [], gf_ground_recording = header_bytes 6 3 4 @ concat [example_raw (\<lambda>_. 0)],
     gf_receiver_report = [1]\<rparr>"

lemma example_match: "match_streams [Inr (0, 0, raw)] [Inr (0, 0, raw)] 0 =
    Inr \<lparr>pop_vehicle = 1, pop_ground = 1, pop_leading = 0, pop_interior = 0, pop_trailing = 0, pop_lost = 0\<rparr>"
  by (simp add: match_streams_def merge_initial_def merge_match_def after_def merge_result_def)

lemma decimal_7: "decimal 7 = ''7''"
  by code_simp

lemma example_audit: "ground_audit (\<lambda>_. 0) (\<lambda>_. ''d'') example_parse (\<lambda>_. True) example_files 0 0 =
    Inr \<lparr>pop_vehicle = 1, pop_ground = 1, pop_leading = 0, pop_interior = 0, pop_trailing = 0, pop_lost = 0\<rparr>"
proof -
  let ?crc = "\<lambda>_ :: byte list. 0 :: 32 word" and ?sha = "\<lambda>_ :: byte list. ''d''"
  have frames: "recording_frames ?crc ?sha (header_bytes 6 a b @ concat [example_raw ?crc]) ''d'' =
      [Inr (0, 0, example_raw ?crc)]" if "int64_ok a" "int64_ok b" for a b
    using recording_frames_of [of ?crc "[example_raw ?crc]" a b ?sha] that
    by (simp add: example_control control_example)
  have sum: "read_json ?sha example_parse [] ''d'' = Inr example_summary"
    by (simp add: read_json_def MAX_REPORT_BYTES_def example_parse_def example_summary_def as_object_def)
  have rep: "read_json ?sha example_parse [1] ''d'' = Inr example_report"
    by (simp add: read_json_def MAX_REPORT_BYTES_def example_parse_def example_report_def as_object_def)
  have rx: "\<exists>c. check_receiver (\<lambda>_. True) example_report ''d'' = Inr (c, ''127.0.0.1:7'', 1) \<and> c ''recorded'' = 1"
    by (simp add: example_report_def check_receiver_def jget_def jitem_def link_boolean_def link_integer_def
        as_object_def CHECK_COUNTERS_def CHECK_DISPOSITIONS_def endpoint_def decimal_7)
  have vh: "\<exists>n. check_vehicle example_summary ''127.0.0.1:7'' = Inr (1, 1, n) \<and> n ''attempted'' = 1 \<and>
      n ''sent'' = 1 \<and> n ''send_errors'' = 0"
    by (simp add: example_summary_def check_vehicle_def jget_def jitem_def link_boolean_def link_integer_def as_object_def)
  have m: "jget example_summary ''mode'' = JString ''freerun''"
    "jget example_report ''format'' = JString ''tvc-ground-receiver-1''" "jget example_report ''source'' \<noteq> JNull"
    by (simp_all add: example_summary_def example_report_def jget_def)
  show ?thesis
    using rx vh
    by (auto simp: ground_audit_def example_files_def sum rep m link_integer_def frames [OF _ _, unfolded concat.simps append_Nil2]
        int64_ok_def example_match check_totals_def)
qed

lemma delivery_complete_identical_witness:
  "drop FILE_HEADER_SIZE (gf_ground_recording example_files) = drop FILE_HEADER_SIZE (gf_vehicle_recording example_files)"
  by (rule delivery_complete_identical [of "\<lambda>_. 0" "\<lambda>_. ''d''" example_parse "\<lambda>_. True" _ 0 0])
    (simp add: ground_check_def example_audit)

end
