(* ===== verification/Reports.thy ===== *)
theory Reports
  imports Lockstep
begin

text \<open>
  Evidence reports: JSON documents that the audits read without knowing their shape, and decoded
  control records. Python's subscripts, comparisons and integer operators on such values, with the
  exceptions they raise, and the audit as a state of error messages and named identities.
\<close>

section \<open>Values of unknown shape\<close>

text \<open>\<open>v[k]\<close> and \<open>v.get(k)\<close> for a string key.\<close>

definition item :: "json \<Rightarrow> string \<Rightarrow> json result" where
  "item v k =
     (case v of
        JObject d \<Rightarrow> (case map_of d k of None \<Rightarrow> Inl (KeyError k) | Some x \<Rightarrow> Inr x)
      | _ \<Rightarrow> Inl (TypeError ''not subscriptable by a string''))"

fun items :: "json \<Rightarrow> string list \<Rightarrow> json result" where
  "items v [] = Inr v"
| "items v (k # ks) = rbind (item v k) (\<lambda>x. items x ks)"

definition dict_get :: "json \<Rightarrow> string \<Rightarrow> json result" where
  "dict_get v k =
     (case v of
        JObject d \<Rightarrow> Inr (case map_of d k of None \<Rightarrow> JNull | Some x \<Rightarrow> x)
      | _ \<Rightarrow> Inl (AttributeError ''get''))"

fun truthy :: "json \<Rightarrow> bool" where
  "truthy JNull = False"
| "truthy (JBool b) = b"
| "truthy (JInt n) = (n \<noteq> 0)"
| "truthy (JFloat x) = (\<not> f_iszero x)"
| "truthy (JString s) = (s \<noteq> [])"
| "truthy (JList xs) = (xs \<noteq> [])"
| "truthy (JObject d) = (d \<noteq> [])"

text \<open>Numbers compare by value across \<open>bool\<close>, \<open>int\<close> and \<open>float\<close>, exactly.\<close>

datatype number = NInt int | NFlt f64

fun number_of :: "json \<Rightarrow> number option" where
  "number_of (JBool b) = Some (NInt (if b then 1 else 0))"
| "number_of (JInt n) = Some (NInt n)"
| "number_of (JFloat x) = Some (NFlt x)"
| "number_of _ = None"

fun num_eq :: "number \<Rightarrow> number \<Rightarrow> bool" where
  "num_eq (NInt a) (NInt b) = (a = b)"
| "num_eq (NFlt x) (NFlt y) = f_eq x y"
| "num_eq (NInt a) (NFlt y) = (f_finite y \<and> a * 2 ^ 1074 = f_scaled y (- 1074))"
| "num_eq (NFlt x) (NInt b) = (f_finite x \<and> f_scaled x (- 1074) = b * 2 ^ 1074)"

fun num_less :: "number \<Rightarrow> number \<Rightarrow> bool" where
  "num_less (NInt a) (NInt b) = (a < b)"
| "num_less (NFlt x) (NFlt y) = f_lt x y"
| "num_less (NInt a) (NFlt y) =
     (if f_finite y then a * 2 ^ 1074 < f_scaled y (- 1074) else f_isinf y \<and> \<not> f_neg y)"
| "num_less (NFlt x) (NInt b) =
     (if f_finite x then f_scaled x (- 1074) < b * 2 ^ 1074 else f_isinf x \<and> f_neg x)"

function (sequential) py_eq :: "json \<Rightarrow> json \<Rightarrow> bool"
  and py_eq_list :: "json list \<Rightarrow> json list \<Rightarrow> bool"
  and py_eq_dict :: "(string \<times> json) list \<Rightarrow> (string \<times> json) list \<Rightarrow> bool" where
  "py_eq (JList xs) (JList ys) = py_eq_list xs ys"
| "py_eq (JObject d) (JObject e) = (length d = length e \<and> py_eq_dict d e)"
| "py_eq (JString s) (JString t) = (s = t)"
| "py_eq JNull JNull = True"
| "py_eq v w = (case (number_of v, number_of w) of (Some a, Some b) \<Rightarrow> num_eq a b | _ \<Rightarrow> False)"
| "py_eq_list [] [] = True"
| "py_eq_list (x # xs) (y # ys) = (py_eq x y \<and> py_eq_list xs ys)"
| "py_eq_list xs ys = False"
| "py_eq_dict [] e = True"
| "py_eq_dict ((k, x) # d) e = ((case map_of e k of None \<Rightarrow> False | Some y \<Rightarrow> py_eq x y) \<and> py_eq_dict d e)"
  by pat_completeness auto
termination
  by (relation "measure (case_sum (\<lambda>(v, w). size v)
        (case_sum (\<lambda>(xs, ys). size_list size xs) (\<lambda>(d, e). size_list (size_prod (\<lambda>_. 0) size) d)))") auto

text \<open>\<open>v < n\<close>, \<open>v <= n\<close> and \<open>v > n\<close> against an integer.\<close>

definition compare_int :: "(number \<Rightarrow> number \<Rightarrow> bool) \<Rightarrow> json \<Rightarrow> int \<Rightarrow> bool result" where
  "compare_int r v n =
     (case number_of v of None \<Rightarrow> Inl (TypeError ''not supported between instances'') | Some a \<Rightarrow> Inr (r a (NInt n)))"

definition exceeds :: "json \<Rightarrow> int \<Rightarrow> bool result" where
  "exceeds = compare_int (\<lambda>a b. num_less b a)"

definition at_most :: "json \<Rightarrow> int \<Rightarrow> bool result" where
  "at_most = compare_int (\<lambda>a b. num_less a b \<or> num_eq a b)"

text \<open>An operand of \<open>&\<close>, \<open>>>\<close> and of arithmetic that stays an integer.\<close>

definition int_operand :: "json \<Rightarrow> int result" where
  "int_operand v =
     (case v of JInt n \<Rightarrow> Inr n | JBool b \<Rightarrow> Inr (if b then 1 else 0)
      | _ \<Rightarrow> Inl (TypeError ''unsupported operand''))"

definition float_of :: "number \<Rightarrow> f64 result" where
  "float_of a =
     (case a of NFlt x \<Rightarrow> Inr x
      | NInt n \<Rightarrow> (case f_of_int n of None \<Rightarrow> Inl (OverflowError ''int too large'') | Some x \<Rightarrow> Inr x))"

text \<open>\<open>v + w\<close>.\<close>

definition py_add :: "json \<Rightarrow> json \<Rightarrow> json result" where
  "py_add v w =
     (case (v, w) of
        (JString s, JString t) \<Rightarrow> Inr (JString (s @ t))
      | (JList xs, JList ys) \<Rightarrow> Inr (JList (xs @ ys))
      | _ \<Rightarrow>
          (case (number_of v, number_of w) of
             (Some (NInt a), Some (NInt b)) \<Rightarrow> Inr (JInt (a + b))
           | (Some a, Some b) \<Rightarrow>
               rbind (float_of a) (\<lambda>x. rbind (float_of b) (\<lambda>y. Inr (JFloat (f_add x y))))
           | _ \<Rightarrow> Inl (TypeError ''unsupported operand'')))"

definition py_len :: "json \<Rightarrow> int result" where
  "py_len v =
     (case v of JList xs \<Rightarrow> Inr (int (length xs)) | JString s \<Rightarrow> Inr (int (length s))
      | JObject d \<Rightarrow> Inr (int (length d)) | _ \<Rightarrow> Inl (TypeError ''has no len()''))"

definition py_iter :: "json \<Rightarrow> json list result" where
  "py_iter v =
     (case v of JList xs \<Rightarrow> Inr xs | JString s \<Rightarrow> Inr (map (\<lambda>c. JString [c]) s)
      | JObject d \<Rightarrow> Inr (map (JString \<circ> fst) d) | _ \<Rightarrow> Inl (TypeError ''not iterable''))"

text \<open>\<open>struct.pack('<d', v)\<close>, as the pattern it packs: whatever has no \<open>float\<close> value, an \<open>int\<close> too large for one included,
  is refused with the same message.\<close>

definition packed :: "json \<Rightarrow> f64 result" where
  "packed v =
     (case number_of v of
        None \<Rightarrow> Inl (StructError ''required argument is not a float'')
      | Some a \<Rightarrow> (case float_of a of Inl e \<Rightarrow> Inl (StructError ''required argument is not a float'') | Inr x \<Rightarrow> Inr x))"

text \<open>Membership in a set of pairs of integers, which hashes both components.\<close>

definition hashable :: "json \<Rightarrow> bool" where
  "hashable v = (case v of JList xs \<Rightarrow> False | JObject d \<Rightarrow> False | _ \<Rightarrow> True)"

definition pair_in :: "json \<Rightarrow> json \<Rightarrow> (int \<times> int) list \<Rightarrow> bool result" where
  "pair_in v w ps =
     (if hashable v \<and> hashable w then Inr (list_ex (\<lambda>(a, b). py_eq v (JInt a) \<and> py_eq w (JInt b)) ps)
      else Inl (TypeError ''unhashable type''))"

section \<open>Hexadecimal literals\<close>

text \<open>\<open>int(s, 16)\<close>: blanks around, a sign, a prefix, single underscores between the digits.\<close>

definition hex_digit :: "char \<Rightarrow> int option" where
  "hex_digit c =
     (let n = of_char c :: int
      in if 48 \<le> n \<and> n \<le> 57 then Some (n - 48) else if 65 \<le> n \<and> n \<le> 70 then Some (n - 55)
         else if 97 \<le> n \<and> n \<le> 102 then Some (n - 87) else None)"

fun hex_digits :: "int \<Rightarrow> string \<Rightarrow> int option" where
  "hex_digits acc [] = Some acc"
| "hex_digits acc [c] = map_option (\<lambda>d. 16 * acc + d) (hex_digit c)"
| "hex_digits acc (c # c' # cs) =
     (case hex_digit c of
        None \<Rightarrow> None
      | Some d \<Rightarrow> if c' = CHR ''_'' then (if cs = [] then None else hex_digits (16 * acc + d) cs)
                  else hex_digits (16 * acc + d) (c' # cs))"

definition blank :: "char \<Rightarrow> bool" where
  "blank c \<longleftrightarrow> (let n = of_char c :: nat in n = 32 \<or> (9 \<le> n \<and> n \<le> 13) \<or> (28 \<le> n \<and> n \<le> 31))"

definition strip :: "string \<Rightarrow> string" where
  "strip s = rev (dropWhile blank (rev (dropWhile blank s)))"

definition hex_body :: "string \<Rightarrow> int option" where
  "hex_body s =
     (let s = (if take 2 s = ''0x'' \<or> take 2 s = ''0X'' then
                 (case List.drop 2 s of c # cs \<Rightarrow> if c = CHR ''_'' then cs else c # cs | [] \<Rightarrow> []) else s)
      in if s = [] then None else hex_digits 0 s)"

definition int_base16 :: "json \<Rightarrow> int result" where
  "int_base16 v =
     (case v of
        JString s \<Rightarrow>
          (let s = strip s;
               n = (case s of c # cs \<Rightarrow> if c = CHR ''-'' then map_option uminus (hex_body cs)
                      else if c = CHR ''+'' then hex_body cs else hex_body s | [] \<Rightarrow> None)
           in case n of None \<Rightarrow> Inl (ValueError ''invalid literal for int()'') | Some n \<Rightarrow> Inr n)
      | _ \<Rightarrow> Inl (TypeError ''int() can't convert non-string with explicit base''))"

section \<open>Decoded records\<close>

text \<open>The rows that \<open>read_typed_recording\<close> decodes from the sensor inputs and the control records.\<close>

record sensor_row =
  sr_tick :: int
  sr_t_send_ns :: int
  sr_theta :: f64
  sr_omega :: f64
  sr_flags :: int

definition sensor_row_of :: "fields \<Rightarrow> sensor_row" where
  "sensor_row_of F = \<lparr>sr_tick = int_at F ''tick'', sr_t_send_ns = int_at F ''t_send_ns'',
     sr_theta = flt_at F ''theta'', sr_omega = flt_at F ''omega'', sr_flags = int_at F ''flags''\<rparr>"

record control =
  ct_tick :: int
  ct_deadline_ns :: int
  ct_woke_ns :: int
  ct_done_ns :: int
  ct_sensor_send_ns :: int
  ct_rx_ns :: int
  ct_tx_ns :: int
  ct_sensor_tick :: int
  ct_theta :: f64
  ct_omega :: f64
  ct_cmd :: f64
  ct_drops :: int
  ct_staleness :: int
  ct_rx_count :: int
  ct_discarded_old :: int
  ct_discarded_superseded :: int
  ct_discarded_other :: int
  ct_state :: int
  ct_reason :: int
  ct_flags :: int
  ct_ack_status :: int

definition control_of :: "fields \<Rightarrow> control" where
  "control_of F = \<lparr>ct_tick = int_at F ''tick'', ct_deadline_ns = int_at F ''deadline_ns'',
     ct_woke_ns = int_at F ''woke_ns'', ct_done_ns = int_at F ''done_ns'',
     ct_sensor_send_ns = int_at F ''sensor_send_ns'', ct_rx_ns = int_at F ''rx_ns'', ct_tx_ns = int_at F ''tx_ns'',
     ct_sensor_tick = int_at F ''sensor_tick'', ct_theta = flt_at F ''theta'', ct_omega = flt_at F ''omega'',
     ct_cmd = flt_at F ''cmd'', ct_drops = int_at F ''drops'', ct_staleness = int_at F ''staleness'',
     ct_rx_count = int_at F ''rx_count'', ct_discarded_old = int_at F ''discarded_old'',
     ct_discarded_superseded = int_at F ''discarded_superseded'', ct_discarded_other = int_at F ''discarded_other'',
     ct_state = int_at F ''state'', ct_reason = int_at F ''reason'', ct_flags = int_at F ''flags'',
     ct_ack_status = int_at F ''ack_status''\<rparr>"

text \<open>Bit \<open>2 ^ k\<close> of a flags field.\<close>

definition flag_set :: "int \<Rightarrow> nat \<Rightarrow> bool" where
  "flag_set flags k \<longleftrightarrow> odd (flags div 2 ^ k)"

section \<open>Audits\<close>

text \<open>The messages of an audit, the identities it has named, and what it noted in its result.\<close>

record audit =
  au_errors :: "string list"
  au_identities :: "(string \<times> bool option) list"
  au_notes :: "(string \<times> json) list"

definition audit_empty :: audit where
  "audit_empty = \<lparr>au_errors = [], au_identities = [], au_notes = []\<rparr>"

definition report :: "string \<Rightarrow> (audit, unit) act" where
  "report e = modify (\<lambda>s. s\<lparr>au_errors := au_errors s @ [e]\<rparr>)"

text \<open>\<open>if cond: errors.append(e)\<close>, where the condition may raise, and \<open>check(name, cond)\<close>.\<close>

definition flag :: "bool result \<Rightarrow> string \<Rightarrow> (audit, unit) act" where
  "flag cond e = sbind (lift_result cond) (\<lambda>b. if b then report e else give ())"

definition check :: "string \<Rightarrow> bool result \<Rightarrow> (audit, unit) act" where
  "check name cond =
     sbind (lift_result cond) (\<lambda>b.
       modify (\<lambda>s. s\<lparr>au_identities := au_identities s @ [(name, Some b)],
         au_errors := au_errors s @ (if b then [] else [name])\<rparr>))"

definition note_value :: "string \<Rightarrow> json \<Rightarrow> (audit, unit) act" where
  "note_value k v = modify (\<lambda>s. s\<lparr>au_notes := au_notes s @ [(k, v)]\<rparr>)"

text \<open>\<open>and\<close>, \<open>or\<close> and \<open>any\<close>, which stop at the first operand that decides.\<close>

definition both :: "bool result \<Rightarrow> bool result \<Rightarrow> bool result" where
  "both a b = rbind a (\<lambda>x. if x then b else Inr False)"

definition either :: "bool result \<Rightarrow> bool result \<Rightarrow> bool result" where
  "either a b = rbind a (\<lambda>x. if x then Inr True else b)"

fun any_of :: "bool result list \<Rightarrow> bool result" where
  "any_of [] = Inr False"
| "any_of (c # cs) = either c (any_of cs)"

definition differs :: "json \<Rightarrow> json \<Rightarrow> bool" where
  "differs v w \<longleftrightarrow> \<not> py_eq v w"

text \<open>\<open>any(e in s ...)\<close> for a substring.\<close>

fun contains :: "string \<Rightarrow> string \<Rightarrow> bool" where
  "contains p [] \<longleftrightarrow> p = []"
| "contains p (c # cs) \<longleftrightarrow> take (length p) (c # cs) = p \<or> contains p cs"

text \<open>What the audits' \<open>except (KeyError, TypeError, ValueError, OverflowError)\<close> catches, and \<open>IndexError\<close>
  where it is listed.\<close>

fun evidence_exn :: "exn \<Rightarrow> bool" where
  "evidence_exn (KeyError k) = True"
| "evidence_exn (TypeError m) = True"
| "evidence_exn (ValueError m) = True"
| "evidence_exn (OverflowError m) = True"
| "evidence_exn _ = False"

text \<open>\<open>natural\<close> of \<open>scripts/latency.py\<close>: only a nonnegative \<open>int\<close>, never a \<open>bool\<close>.\<close>

definition natural :: "json \<Rightarrow> int result" where
  "natural v = (case v of JInt n \<Rightarrow> ensure (0 \<le> n) ''invalid nonnegative counter'' (Inr n)
     | _ \<Rightarrow> Inl (ValueError ''invalid nonnegative counter''))"

definition natural_at :: "json \<Rightarrow> string list \<Rightarrow> int result" where
  "natural_at v ks = rbind (items v ks) natural"

fun naturals :: "json \<Rightarrow> string list \<Rightarrow> int list result" where
  "naturals v [] = Inr []"
| "naturals v (k # ks) = rbind (natural_at v [k]) (\<lambda>n. rbind (naturals v ks) (\<lambda>ns. Inr (n # ns)))"

section \<open>Triples for audits\<close>

lemma keeps_option [steps_intro]:
  "keeps I m \<Longrightarrow> (\<And>a. keeps I (f a)) \<Longrightarrow> keeps I (case x of None \<Rightarrow> m | Some a \<Rightarrow> f a)"
  by (cases x) simp_all

lemma report_tainted: "keeps (\<lambda>s. au_errors s \<noteq> []) (report e)"
  unfolding report_def by (rule keeps_modify) simp

section \<open>Which exceptions\<close>

text \<open>The exceptions of the dynamic operations: the evidence classes, and two that no audit catches.\<close>

fun dynamic_exn :: "exn \<Rightarrow> bool" where
  "dynamic_exn (AttributeError m) = True"
| "dynamic_exn (StructError m) = True"
| "dynamic_exn e = evidence_exn e"

definition dynamic :: "'a result \<Rightarrow> bool" where
  "dynamic r \<longleftrightarrow> (\<forall>e. r = Inl e \<longrightarrow> dynamic_exn e)"

definition dynamic_act :: "('s, 'a) act \<Rightarrow> bool" where
  "dynamic_act m \<longleftrightarrow> (\<forall>s s' e. m s = (s', Inl e) \<longrightarrow> dynamic_exn e)"

named_theorems dynamic_intro \<open>only dynamic exceptions\<close>

lemma dynamic_Inr [dynamic_intro]: "dynamic (Inr a)"
  by (simp add: dynamic_def)

lemma dynamic_rbind [dynamic_intro]: "dynamic m \<Longrightarrow> (\<And>a. dynamic (f a)) \<Longrightarrow> dynamic (rbind m f)"
  by (cases m) (auto simp: dynamic_def)

lemma dynamic_if [dynamic_intro]: "dynamic a \<Longrightarrow> dynamic b \<Longrightarrow> dynamic (if c then a else b)"
  by simp

lemma dynamic_either [dynamic_intro]: "dynamic a \<Longrightarrow> dynamic b \<Longrightarrow> dynamic (either a b)"
  unfolding either_def by (intro dynamic_intro)

lemma dynamic_both [dynamic_intro]: "dynamic a \<Longrightarrow> dynamic b \<Longrightarrow> dynamic (both a b)"
  unfolding both_def by (intro dynamic_intro)

lemma dynamic_any_of [dynamic_intro]: "list_all dynamic cs \<Longrightarrow> dynamic (any_of cs)"
  by (induction cs) (auto intro!: dynamic_intro)

lemma dynamic_item [dynamic_intro]: "dynamic (item v k)" "dynamic (dict_get v k)" "dynamic (items v ks)"
proof -
  show item: "dynamic (item v k)" for v k by (auto simp: dynamic_def item_def split: json.splits option.splits)
  show "dynamic (dict_get v k)" by (auto simp: dynamic_def dict_get_def split: json.splits)
  show "dynamic (items v ks)" by (induction ks arbitrary: v) (auto intro!: dynamic_intro item)
qed

lemma dynamic_float_of [dynamic_intro]: "dynamic (float_of a)"
  by (auto simp: dynamic_def float_of_def split: number.splits option.splits)

lemma dynamic_ops [dynamic_intro]: "dynamic (compare_int r v n)" "dynamic (int_operand v)" "dynamic (py_len v)"
  "dynamic (py_iter v)" "dynamic (pair_in v w ps)" "dynamic (int_base16 v)" "dynamic (natural v)"
  by (auto simp: dynamic_def compare_int_def int_operand_def py_len_def py_iter_def pair_in_def int_base16_def Let_def
      natural_def ensure_def split: option.splits json.splits if_splits)

lemma dynamic_packed [dynamic_intro]: "dynamic (packed v)"
  by (auto simp: dynamic_def packed_def split: option.splits sum.splits)

lemma dynamic_py_add [dynamic_intro]: "dynamic (py_add v w)"
proof -
  have "dynamic (case (number_of v, number_of w) of
      (Some (NInt a), Some (NInt b)) \<Rightarrow> Inr (JInt (a + b))
    | (Some a, Some b) \<Rightarrow> rbind (float_of a) (\<lambda>x. rbind (float_of b) (\<lambda>y. Inr (JFloat (f_add x y))))
    | _ \<Rightarrow> Inl (TypeError ''unsupported operand''))"
    by (auto intro!: dynamic_rbind dynamic_float_of dynamic_Inr simp: dynamic_def [of "Inl e" for e]
        split: option.split number.split)
  then show ?thesis by (cases v; cases w) (auto simp: py_add_def dynamic_Inr)
qed

lemma dynamic_lift [dynamic_intro]: "dynamic r \<Longrightarrow> dynamic_act (lift_result r)"
  by (simp add: dynamic_def dynamic_act_def lift_result_def)

lemma dynamic_modify [dynamic_intro]: "dynamic_act (modify f)" "dynamic_act (gets g)"
  by (simp_all add: dynamic_act_def modify_def gets_def)

lemma dynamic_sbind [dynamic_intro]: "dynamic_act m \<Longrightarrow> (\<And>a. dynamic_act (f a)) \<Longrightarrow> dynamic_act (sbind m f)"
  by (fastforce simp: dynamic_act_def sbind_def split: prod.splits sum.splits)

lemma dynamic_act_if [dynamic_intro]: "dynamic_act m \<Longrightarrow> dynamic_act m' \<Longrightarrow> dynamic_act (if c then m else m')"
  by simp

lemma dynamic_option [dynamic_intro]:
  "dynamic_act m \<Longrightarrow> (\<And>a. dynamic_act (f a)) \<Longrightarrow> dynamic_act (case x of None \<Rightarrow> m | Some a \<Rightarrow> f a)"
  by (cases x) simp_all

lemma dynamic_audit [dynamic_intro]: "dynamic_act (report e)" "dynamic_act (note_value k v)"
  "dynamic c \<Longrightarrow> dynamic_act (flag c e)" "dynamic c \<Longrightarrow> dynamic_act (check e c)"
  unfolding report_def note_value_def flag_def check_def report_def by (intro dynamic_intro; assumption)+

end
