(* ===== verification/Reconcile.thy ===== *)
theory Reconcile
  imports Reports
begin

text \<open>
  The lockstep reconciliation of \<open>scripts/reconcile.py\<close>: the two owners' reports and the two
  recordings against each other. A report is JSON of unknown shape; the recordings are decoded rows.
\<close>

section \<open>Counters\<close>

definition SEND_FIELDS :: "string list" where
  "SEND_FIELDS = [''generated'', ''original_attempts'', ''retry_attempts'', ''not_attempted'', ''send_attempts'',
     ''send_pending'', ''tx_fail'', ''transmitted'', ''first_transmitted'', ''additional_copies'', ''never_transmitted'']"

text \<open>A counter: a nonnegative \<open>int\<close> of a \<open>dict\<close>.\<close>

definition counter :: "json \<Rightarrow> string \<Rightarrow> int option" where
  "counter c k =
     (case c of
        JObject d \<Rightarrow> (case map_of d k of Some (JInt n) \<Rightarrow> if 0 \<le> n then Some n else None | _ \<Rightarrow> None)
      | _ \<Rightarrow> None)"

definition counters_ok :: "json \<Rightarrow> string list \<Rightarrow> bool" where
  "counters_ok c ks \<longleftrightarrow> list_all (\<lambda>k. counter c k \<noteq> None) ks"

definition n_of :: "json \<Rightarrow> string \<Rightarrow> int" where
  "n_of c k = (case counter c k of None \<Rightarrow> 0 | Some n \<Rightarrow> n)"

definition sender_errors :: "json \<Rightarrow> string list" where
  "sender_errors c =
     (if \<not> counters_ok c SEND_FIELDS then [''missing or invalid sender counter'']
      else map fst (filter (\<lambda>(name, left, right). left \<noteq> right)
        [(''generation'', n_of c ''generated'', n_of c ''original_attempts'' + n_of c ''not_attempted''),
         (''attempts'', n_of c ''send_attempts'', n_of c ''original_attempts'' + n_of c ''retry_attempts''),
         (''send outcomes'', n_of c ''send_attempts'',
            n_of c ''tx_fail'' + n_of c ''transmitted'' + n_of c ''send_pending''),
         (''successful copies'', n_of c ''transmitted'', n_of c ''first_transmitted'' + n_of c ''additional_copies''),
         (''first success'', n_of c ''generated'', n_of c ''first_transmitted'' + n_of c ''never_transmitted'')]))"

definition RECEIVE_FIELDS :: "string list" where
  "RECEIVE_FIELDS = [''received_raw'', ''malformed'', ''received'', ''decode_pending'', ''logical_received'',
     ''discarded_duplicate'', ''rejected_received'', ''classification_pending'']"

definition receive_extra :: "bool \<Rightarrow> string list" where
  "receive_extra sensor = (if sensor then [''admitted'', ''sample_invalid'', ''sample_nonfinite'', ''admission_pending'']
     else [''modeled_command_loss'', ''forwarded_to_delay'', ''disposition_pending''])"

definition receiver_errors :: "json \<Rightarrow> bool \<Rightarrow> string list" where
  "receiver_errors c sensor =
     (if \<not> counters_ok c (RECEIVE_FIELDS @ receive_extra sensor) then [''missing or invalid receiver counter'']
      else
        (if n_of c ''received_raw'' \<noteq> n_of c ''malformed'' + n_of c ''received'' + n_of c ''decode_pending''
           then [''raw receipt''] else []) @
        (if n_of c ''received'' \<noteq> sum_list (map (n_of c) (List.drop 4 RECEIVE_FIELDS)) then [''receipt disposition''] else []) @
        (if n_of c ''logical_received'' \<noteq> sum_list (map (n_of c) (receive_extra sensor)) then [''logical disposition''] else []))"

text \<open>One direction: the counters of sender and receiver; \<open>False\<close> stops the reconciliation.\<close>

definition report_all :: "string list \<Rightarrow> (audit, unit) act" where
  "report_all es = modify (\<lambda>s. s\<lparr>au_errors := au_errors s @ es\<rparr>)"

definition unobserved :: "json \<Rightarrow> json \<Rightarrow> int" where
  "unobserved tx rx = n_of tx ''transmitted'' - n_of rx ''received_raw''"

definition link_problems :: "string \<Rightarrow> json \<Rightarrow> json \<Rightarrow> string list" where
  "link_problems name tx rx =
     map (\<lambda>e. name @ '': '' @ e) (sender_errors tx @ receiver_errors rx (name = ''uplink''))"

definition link_findings :: "string \<Rightarrow> json \<Rightarrow> json \<Rightarrow> string list" where
  "link_findings name tx rx =
     (if unobserved tx rx \<noteq> 0 then [name @ '': unexplained observed-send/receipt discrepancy''] else []) @
     map (\<lambda>k. name @ '': incomplete '' @ k)
       (filter (\<lambda>k. n_of tx k \<noteq> 0) [''not_attempted'', ''never_transmitted'', ''send_pending'']) @
     map (\<lambda>k. name @ '': incomplete or invalid '' @ k)
       (filter (\<lambda>k. n_of rx k \<noteq> 0) [''decode_pending'', ''classification_pending'', ''malformed'',
          if name = ''uplink'' then ''admission_pending'' else ''disposition_pending''])"

definition link_note :: "json \<Rightarrow> json \<Rightarrow> json" where
  "link_note tx rx =
     (let entries = (\<lambda>c. case c of JObject d \<Rightarrow> d | _ \<Rightarrow> [])
      in JObject ((''unobserved'', JInt (unobserved tx rx)) # entries rx @ entries tx))"

definition reconcile_link :: "string \<Rightarrow> json \<Rightarrow> json \<Rightarrow> (audit, bool) act" where
  "reconcile_link name tx rx =
     sbind (report_all (link_problems name tx rx)) (\<lambda>_.
       if link_problems name tx rx \<noteq> [] then give False
       else
         sbind (note_value name (link_note tx rx)) (\<lambda>_.
         sbind (report_all (link_findings name tx rx)) (\<lambda>_. give True)))"

section \<open>The vehicle's events\<close>

definition EVENT_FIELDS :: "string list" where
  "EVENT_FIELDS = [''episode_transitions'', ''pid_calls'', ''record_attempts'', ''records_pushed'', ''ring_drops'', ''record_pending'']"

definition bad_counter :: "json \<Rightarrow> bool" where
  "bad_counter v = (case v of JInt n \<Rightarrow> n < 0 | _ \<Rightarrow> True)"

definition reconcile_failures :: "json \<Rightarrow> control list \<Rightarrow> (audit, unit) act" where
  "reconcile_failures down_tx controls =
     (let failed = dict_get down_tx ''original_tx_fail''
      in sbind (flag (rbind failed (\<lambda>v. Inr (bad_counter v)))
           ''missing or invalid original actuator failure counter'') (\<lambda>_.
         sbind (flag (rbind (item down_tx ''original_tx_fail'') (\<lambda>v. Inr (truthy v)))
           ''original actuator send failed'') (\<lambda>_.
         flag (rbind (item down_tx ''original_tx_fail'')
             (\<lambda>v. Inr (differs (JInt (int (length (filter (\<lambda>r. \<not> flag_set (ct_flags r) 1) controls)))) v)))
           ''TX_OK disagrees with original send outcomes'')))"

definition eq_items :: "json \<Rightarrow> string list \<Rightarrow> json \<Rightarrow> string list \<Rightarrow> bool result" where
  "eq_items v ks w ls = rbind (items v ks) (\<lambda>a. rbind (items w ls) (\<lambda>b. Inr (py_eq a b)))"

definition negate :: "bool result \<Rightarrow> bool result" where
  "negate r = rbind r (\<lambda>b. Inr (\<not> b))"

definition reconcile_events :: "json \<Rightarrow> json \<Rightarrow> int \<Rightarrow> (audit, unit) act" where
  "reconcile_events summary events admitted =
     sbind (flag (any_of (map (\<lambda>k. rbind (dict_get events k) (\<lambda>v. Inr (bad_counter v))) EVENT_FIELDS))
       ''missing or invalid vehicle event counter'') (\<lambda>_.
     sbind (flag (either
         (negate (eq_items events [''episode_transitions''] summary [''total_cycles'']))
         (rbind (item events ''episode_transitions'') (\<lambda>t.
            rbind (item events ''record_attempts'') (\<lambda>a. rbind (item events ''record_pending'') (\<lambda>p.
              rbind (py_add a p) (\<lambda>n. Inr (differs t n)))))))
       ''transition/record attempt identity'') (\<lambda>_.
     sbind (flag (rbind (item events ''record_attempts'') (\<lambda>t.
            rbind (item events ''records_pushed'') (\<lambda>a. rbind (item events ''ring_drops'') (\<lambda>p.
              rbind (py_add a p) (\<lambda>n. Inr (differs t n))))))
       ''record push identity'') (\<lambda>_.
     sbind (flag (either (rbind (item events ''record_pending'') (\<lambda>v. Inr (truthy v)))
         (either (negate (eq_items events [''ring_drops''] summary [''telemetry'', ''dropped'']))
           (negate (eq_items events [''records_pushed''] summary [''telemetry'', ''records'']))))
       ''incomplete record population'') (\<lambda>_.
     flag (rbind (item events ''pid_calls'') (\<lambda>v. exceeds v admitted)) ''PID calls exceed admitted samples''))))"

section \<open>The rows\<close>

text \<open>The last fresh sample, and how many samples were admitted, marked lost and nonfinite.\<close>

record row_audit =
  ra_held :: "sensor_row option"
  ra_admitted :: int
  ra_invalid :: int
  ra_nonfinite :: int

definition fresh_sample :: "sensor_row \<Rightarrow> bool" where
  "fresh_sample r \<longleftrightarrow> flag_set (sr_flags r) 0 \<and> f_finite (sr_theta r) \<and> f_finite (sr_omega r)"

definition admit :: "sensor_row \<Rightarrow> row_audit \<Rightarrow> row_audit" where
  "admit r a =
     (if fresh_sample r then a\<lparr>ra_held := Some r, ra_admitted := ra_admitted a + 1\<rparr>
      else if \<not> flag_set (sr_flags r) 0 then a\<lparr>ra_invalid := ra_invalid a + 1\<rparr>
      else a\<lparr>ra_nonfinite := ra_nonfinite a + 1\<rparr>)"

definition held_age :: "int \<Rightarrow> sensor_row option \<Rightarrow> int" where
  "held_age tick held = min (case held of None \<Rightarrow> tick + 1 | Some h \<Rightarrow> tick - sr_tick h) 0xffffffff"

definition held_tick :: "sensor_row option \<Rightarrow> int" where
  "held_tick held = (case held of None \<Rightarrow> 0xffffffffffffffff | Some h \<Rightarrow> sr_tick h)"

definition admission_mismatch :: "sensor_row \<Rightarrow> control \<Rightarrow> int \<Rightarrow> sensor_row option \<Rightarrow> bool" where
  "admission_mismatch r c tick held \<longleftrightarrow>
     ct_sensor_tick c \<noteq> held_tick held \<or> ct_staleness c \<noteq> held_age tick held \<or> flag_set (ct_flags c) 0 \<noteq> fresh_sample r"

definition observation_mismatch :: "control \<Rightarrow> sensor_row option \<Rightarrow> bool" where
  "observation_mismatch c held \<longleftrightarrow>
     ct_theta c \<noteq> (case held of None \<Rightarrow> 0 | Some h \<Rightarrow> sr_theta h) \<or>
     ct_omega c \<noteq> (case held of None \<Rightarrow> 0 | Some h \<Rightarrow> sr_omega h)"

definition reply_mismatch :: "json \<Rightarrow> control \<Rightarrow> int \<Rightarrow> bool result" where
  "reply_mismatch reply c age =
     rbind (item reply ''status'') (\<lambda>status. rbind (int_operand status) (\<lambda>n.
       either (Inr (n mod 256 \<noteq> ct_state c)) (either (Inr (n div 2 ^ 8 mod 256 \<noteq> ct_reason c))
         (either (rbind (item reply ''delta'') (\<lambda>d. rbind (packed d) (\<lambda>x. Inr (x \<noteq> ct_cmd c))))
           (rbind (item reply ''staleness'') (\<lambda>v. Inr (differs v (JInt age))))))))"

definition ack_mismatch :: "json \<Rightarrow> control \<Rightarrow> bool result" where
  "ack_mismatch reply c =
     rbind (item reply ''status'') (\<lambda>status. rbind (int_operand status) (\<lambda>n.
       Inr (n div 2 ^ 24 \<noteq> (if flag_set (ct_flags c) 6 then 128 OR ct_ack_status c else 0))))"

definition diagnostics_leak :: "control \<Rightarrow> bool" where
  "diagnostics_leak c \<longleftrightarrow> ct_rx_count c \<noteq> 1 \<or> ct_discarded_old c \<noteq> 0 \<or> ct_discarded_superseded c \<noteq> 0 \<or> flag_set (ct_flags c) 5"

definition timestamps_nonzero :: "sensor_row \<Rightarrow> control \<Rightarrow> bool" where
  "timestamps_nonzero r c \<longleftrightarrow> list_ex (\<lambda>n. n \<noteq> 0) [ct_deadline_ns c, ct_woke_ns c, ct_done_ns c, ct_sensor_send_ns c,
     ct_rx_ns c, ct_tx_ns c, sr_t_send_ns r]"

definition tick_mismatch :: "int \<Rightarrow> sensor_row \<Rightarrow> control \<Rightarrow> json \<Rightarrow> json \<Rightarrow> bool result" where
  "tick_mismatch tick r c reply row =
     (let other = (\<lambda>v k. rbind (item v k) (\<lambda>x. Inr (differs x (JInt tick))))
      in any_of [Inr (sr_tick r \<noteq> tick), Inr (ct_tick c \<noteq> tick), other reply ''tick'', other row ''tick'',
           other reply ''veh_tick''])"

text \<open>The checks of one row in order; the first that fails is the message.\<close>

fun first_failure :: "(bool result \<times> string) list \<Rightarrow> string option result" where
  "first_failure [] = Inr None"
| "first_failure ((c, e) # cs) = rbind c (\<lambda>b. if b then Inr (Some e) else first_failure cs)"

definition row_failure :: "int \<Rightarrow> sensor_row option \<Rightarrow> sensor_row \<Rightarrow> control \<Rightarrow> json \<Rightarrow> string option result" where
  "row_failure tick held r c reply =
     first_failure
       [(Inr (admission_mismatch r c tick held), ''admission history or staleness mismatch''),
        (Inr (observation_mismatch c held), ''held observation mismatch''),
        (reply_mismatch reply c (held_age tick held), ''actuator/control record mismatch''),
        (ack_mismatch reply c, ''ACK projection mismatch''),
        (Inr (diagnostics_leak c), ''physical diagnostics leaked into logical record''),
        (Inr (ct_discarded_other c \<noteq> (if flag_set (sr_flags r) 0 \<and> \<not> fresh_sample r then 1 else 0)),
           ''logical nonfinite count mismatch''),
        (Inr (timestamps_nonzero r c), ''nonzero lockstep timestamp'')]"

fun reconcile_rows ::
  "int \<Rightarrow> row_audit \<Rightarrow> sensor_row list \<Rightarrow> control list \<Rightarrow> json list \<Rightarrow> json list \<Rightarrow> (audit, row_audit) act" where
  "reconcile_rows tick a (r # rs) (c # cs) (reply # replies) (row # rows) =
     sbind (lift_result (tick_mismatch tick r c reply row)) (\<lambda>bad.
       if bad then sbind (report ''noncontiguous logical tick'') (\<lambda>_. give a)
       else
         (let a = admit r a
          in sbind (lift_result (row_failure tick (ra_held a) r c reply)) (\<lambda>failure.
               case failure of
                 Some e \<Rightarrow> sbind (report e) (\<lambda>_. give a)
               | None \<Rightarrow> reconcile_rows (tick + 1) a rs cs replies rows)))"
| "reconcile_rows tick a rs cs replies rows = give a"
section \<open>Random streams and terminal reasons\<close>

definition stream_mismatch :: "json \<Rightarrow> int \<Rightarrow> string \<Rightarrow> int \<Rightarrow> bool result" where
  "stream_mismatch replay i name generated =
     rbind (items replay [''rng'', ''streams'', name]) (\<lambda>stream.
     rbind (item replay ''seed'') (\<lambda>seed. rbind (int_operand seed) (\<lambda>seed.
     rbind (stream_state seed name) (\<lambda>start.
       any_of
         [rbind (item stream ''index'') (\<lambda>v. Inr (differs v (JInt i))),
          rbind (item stream ''draws'') (\<lambda>v. Inr (differs v (JInt generated))),
          rbind (item stream ''start_state'') (\<lambda>v. rbind (int_base16 v) (\<lambda>n. Inr (n \<noteq> uint start))),
          rbind (item stream ''final_state'') (\<lambda>v. rbind (int_base16 v) (\<lambda>n.
            rbind (item stream ''draws'') (\<lambda>d. rbind (int_operand d) (\<lambda>d.
              Inr (n \<noteq> uint (start + GOLDEN * word_of_int d))))))]))))"

definition LOCKSTEP_PAIRS :: "(int \<times> int) list" where
  "LOCKSTEP_PAIRS = [(1, 1), (1, 7), (2, 2), (3, 2), (4, 2), (4, 3), (4, 4)]"

text \<open>\<open>v in (1, 2, 3)\<close>.\<close>

definition among :: "json \<Rightarrow> int list \<Rightarrow> bool" where
  "among v ns \<longleftrightarrow> list_ex (\<lambda>n. py_eq v (JInt n)) ns"

definition terminal_record_mismatch :: "control list \<Rightarrow> json \<Rightarrow> json \<Rightarrow> bool result" where
  "terminal_record_mismatch controls reason ep =
     (if controls = [] then Inr True
      else
        (let c = last controls
         in any_of [Inr (ct_state c \<noteq> 3), Inr (differs (JInt (ct_reason c)) reason),
              rbind (item ep ''reason_tick'') (\<lambda>v. Inr (differs v (JInt (ct_tick c))))]))"

definition expected_pair :: "json \<Rightarrow> json \<Rightarrow> control list \<Rightarrow> bool result" where
  "expected_pair sim_reason reason controls =
     rbind (pair_in sim_reason reason LOCKSTEP_PAIRS) (\<lambda>e.
       Inr (if py_eq sim_reason (JInt 1) \<and> py_eq reason (JInt 4)
            then controls \<noteq> [] \<and> 21 \<le> ct_staleness (last controls) else e))"

text \<open>A terminal check: its failure is a message and takes the pairing back.\<close>

definition demand :: "bool result \<Rightarrow> string \<Rightarrow> bool \<Rightarrow> (audit, bool) act" where
  "demand bad e expected =
     sbind (lift_result bad) (\<lambda>b. if b then sbind (report e) (\<lambda>_. give False) else give expected)"

definition reconcile_terminal :: "json \<Rightarrow> json \<Rightarrow> control list \<Rightarrow> (audit, unit) act" where
  "reconcile_terminal summary replay controls =
     sbind (lift_result (item replay ''sim_reason'')) (\<lambda>sim_reason.
     sbind (lift_result (item summary ''episode'')) (\<lambda>ep.
     sbind (lift_result (item ep ''vehicle_reason'')) (\<lambda>reason.
     sbind (lift_result (item ep ''reason_tick'')) (\<lambda>reason_tick.
     sbind (note_value ''sim_reason'' sim_reason) (\<lambda>_.
     sbind (note_value ''vehicle_reason'' reason) (\<lambda>_.
     sbind (note_value ''reason_tick'' reason_tick) (\<lambda>_.
     sbind (lift_result (expected_pair sim_reason reason controls)) (\<lambda>expected.
     sbind (demand (terminal_record_mismatch controls reason ep) ''terminal tick or record mismatch'' expected) (\<lambda>expected.
     sbind (demand (if among sim_reason [1, 2, 3]
             then rbind (item ep ''sim_reason_seen'') (\<lambda>v. Inr (differs v sim_reason)) else Inr False)
         ''simulator reason observation mismatch'' expected) (\<lambda>expected.
     sbind (demand (if py_eq sim_reason (JInt 4)
             then rbind (item ep ''sim_reason_seen'') (\<lambda>v. Inr (v \<noteq> JNull)) else Inr False)
         ''invented simulator observation'' expected) (\<lambda>expected.
     sbind (demand (rbind (item replay ''vehicle_reason_seen'') (\<lambda>v. Inr (differs v reason)))
         ''vehicle reason observation mismatch'' expected) (\<lambda>expected.
     sbind (gets (\<lambda>s. expected \<and>
         \<not> list_ex (\<lambda>e. contains ''admission'' e \<or> contains ''staleness'' e) (au_errors s))) (\<lambda>agreement.
     sbind (note_value ''terminal_agreement'' (JBool agreement)) (\<lambda>_.
       if expected then give () else report ''unexpected terminal pairing''))))))))))))))"

section \<open>The reconciliation\<close>

definition reconcile_mode :: "json \<Rightarrow> (audit, unit) act" where
  "reconcile_mode summary =
     sbind (flag (either (rbind (item summary ''mode'') (\<lambda>v. Inr (differs v (JString ''lockstep''))))
           (rbind (item summary ''timing_valid'') (\<lambda>v. Inr (v \<noteq> JBool False))))
       ''invalid lockstep mode/timing validity'') (\<lambda>_.
     flag (rbind (items summary [''telemetry'', ''dropped'']) (\<lambda>v. Inr (differs v (JInt 0)))) ''ring drops'')"

definition reconcile_lengths ::
  "json \<Rightarrow> json \<Rightarrow> json \<Rightarrow> json \<Rightarrow> json \<Rightarrow> json \<Rightarrow> json \<Rightarrow> json \<Rightarrow> nat \<Rightarrow> nat \<Rightarrow> (audit, unit) act" where
  "reconcile_lengths summary cycles replies rows up_tx up_rx down_tx down_rx sensors controls =
     flag (rbind (py_len replies) (\<lambda>m. rbind (py_len rows) (\<lambda>n.
         rbind (items summary [''telemetry'', ''records'']) (\<lambda>records.
           either (at_most cycles 0)
             (Inr (list_ex (\<lambda>v. differs v cycles)
               [JInt (int sensors), JInt (int controls), JInt m, JInt n, records,
                JInt (n_of up_tx ''generated''), JInt (n_of up_tx ''first_transmitted''),
                JInt (n_of up_rx ''logical_received''), JInt (n_of down_tx ''generated''),
                JInt (n_of down_rx ''logical_received'')]))))))
       ''incomplete logical artifacts''"

text \<open>The body of the \<open>try\<close>; \<open>False\<close> is the early return.\<close>

definition reconcile_body :: "json \<Rightarrow> json \<Rightarrow> sensor_row list \<Rightarrow> control list \<Rightarrow> (audit, bool) act" where
  "reconcile_body summary replay sensors controls =
     sbind (lift_result (item replay ''transmission'')) (\<lambda>up_tx.
     sbind (lift_result (item summary ''link'')) (\<lambda>up_rx.
     sbind (lift_result (item summary ''actuator'')) (\<lambda>down_tx.
     sbind (lift_result (item replay ''actuator_receipt'')) (\<lambda>down_rx.
     sbind (reconcile_link ''uplink'' up_tx up_rx) (\<lambda>proceed. if \<not> proceed then give False else
     sbind (reconcile_link ''downlink'' down_tx down_rx) (\<lambda>proceed. if \<not> proceed then give False else
     sbind (reconcile_failures down_tx controls) (\<lambda>_.
     sbind (reconcile_mode summary) (\<lambda>_.
     sbind (lift_result (item summary ''total_cycles'')) (\<lambda>cycles.
     sbind (lift_result (item replay ''actuator_replies'')) (\<lambda>replies.
     sbind (lift_result (item replay ''rows'')) (\<lambda>rows.
     sbind (lift_result (item summary ''events'')) (\<lambda>events.
     sbind (reconcile_events summary events (n_of up_rx ''admitted'')) (\<lambda>_.
     sbind (reconcile_lengths summary cycles replies rows up_tx up_rx down_tx down_rx
              (length sensors) (length controls)) (\<lambda>_.
     sbind (lift_result (py_iter replies)) (\<lambda>reply_list.
     sbind (lift_result (py_iter rows)) (\<lambda>row_list.
     sbind (reconcile_rows 0 \<lparr>ra_held = None, ra_admitted = 0, ra_invalid = 0, ra_nonfinite = 0\<rparr>
              sensors controls reply_list row_list) (\<lambda>a.
     sbind (flag (Inr ((ra_admitted a, ra_invalid a, ra_nonfinite a) \<noteq>
              (n_of up_rx ''admitted'', n_of up_rx ''sample_invalid'', n_of up_rx ''sample_nonfinite'')))
            ''sample disposition totals mismatch'') (\<lambda>_.
     sbind (flag (stream_mismatch replay 0 ''link.loss.up'' (n_of up_tx ''generated'')) ''RNG ownership mismatch'') (\<lambda>_.
     sbind (flag (stream_mismatch replay 1 ''link.loss.down'' (n_of up_tx ''generated'')) ''RNG ownership mismatch'') (\<lambda>_.
     sbind (reconcile_terminal summary replay controls) (\<lambda>_.
       give True)))))))))))))))))))))"

record verdict =
  vd_errors :: "string list"
  vd_notes :: "(string \<times> json) list"
  vd_eligible :: bool

definition is_dict :: "json \<Rightarrow> bool" where
  "is_dict v = (case v of JObject d \<Rightarrow> True | _ \<Rightarrow> False)"

text \<open>\<open>reconcile\<close> in lockstep mode. An exception outside the evidence classes escapes.\<close>

definition reconcile_lockstep :: "json \<Rightarrow> json \<Rightarrow> sensor_row list \<Rightarrow> control list \<Rightarrow> verdict result" where
  "reconcile_lockstep summary replay sensors controls =
     (if \<not> is_dict summary \<or> \<not> is_dict replay then
        Inr \<lparr>vd_errors = [''missing owner report''], vd_notes = [], vd_eligible = False\<rparr>
      else
        (case reconcile_body summary replay sensors controls audit_empty of
           (s, Inr finished) \<Rightarrow>
             Inr \<lparr>vd_errors = au_errors s, vd_notes = au_notes s, vd_eligible = (finished \<and> au_errors s = [])\<rparr>
         | (s, Inl e) \<Rightarrow>
             if evidence_exn e then
               Inr \<lparr>vd_errors = au_errors s @ [''incomplete or invalid evidence''], vd_notes = au_notes s, vd_eligible = False\<rparr>
             else Inl e))"

section \<open>Audits without messages\<close>

text \<open>What it means for each part that no message was appended.\<close>

lemma flag_Inr: "flag c e s = (t, Inr u) \<longleftrightarrow> (\<exists>b. c = Inr b \<and> t = (if b then s\<lparr>au_errors := au_errors s @ [e]\<rparr> else s))"
  by (auto simp: flag_def report_def sbind_def modify_def lift_result_def split: sum.splits)

lemma flag_clean:
  assumes "flag c e s = (t, Inr u)" "au_errors t = []"
  shows "c = Inr False \<and> t = s"
proof -
  obtain b where b: "c = Inr b" "t = (if b then s\<lparr>au_errors := au_errors s @ [e]\<rparr> else s)"
    using assms(1) by (auto simp: flag_Inr)
  then have "\<not> b" using assms(2) by auto
  then show ?thesis using b by simp
qed

lemma note_value_Inr: "note_value k v s = (t, r) \<longleftrightarrow> r = Inr () \<and> t = s\<lparr>au_notes := au_notes s @ [(k, v)]\<rparr>"
  by (auto simp: note_value_def modify_def)

lemma reconcile_link_clean:
  assumes "reconcile_link name tx rx s = (t, Inr b)" "au_errors t = []"
  shows "b \<and> au_errors s = [] \<and> sender_errors tx = [] \<and> receiver_errors rx (name = ''uplink'') = [] \<and>
    link_findings name tx rx = []"
proof -
  have ok: "link_problems name tx rx = []"
    using assms by (auto simp: reconcile_link_def report_all_def lift_result_def split: if_splits)
  then have "b \<and> t = s\<lparr>au_errors := au_errors s @ link_findings name tx rx, au_notes := au_notes s @ [(name, link_note tx rx)]\<rparr>"
    using assms(1) by (auto simp: reconcile_link_def report_all_def note_value_def lift_result_def)
  then show ?thesis using assms(2) ok by (auto simp: link_problems_def)
qed

text \<open>Both directions of the link, one and the same account: what its sender says and what its receiver says add up, nothing
  is left open on either side, and every one of the \<open>n\<close> frames generated has been sent and has arrived.\<close>

definition link_accounted :: "bool \<Rightarrow> json \<Rightarrow> json \<Rightarrow> int \<Rightarrow> bool" where
  "link_accounted sensor tx rx n \<longleftrightarrow>
     sender_errors tx = [] \<and> receiver_errors rx sensor = [] \<and> n_of tx ''transmitted'' = n_of rx ''received_raw'' \<and>
     list_all (\<lambda>k. n_of tx k = 0) [''not_attempted'', ''never_transmitted'', ''send_pending''] \<and>
     list_all (\<lambda>k. n_of rx k = 0) [''malformed'', ''decode_pending'', ''classification_pending'',
       if sensor then ''admission_pending'' else ''disposition_pending''] \<and>
     n_of tx ''generated'' = n \<and> n_of tx ''first_transmitted'' = n \<and> n_of rx ''logical_received'' = n"

lemma link_findings_none:
  assumes "sender_errors tx = []" "receiver_errors rx (name = ''uplink'') = []" "link_findings name tx rx = []"
    and "n_of tx ''generated'' = n" "n_of rx ''logical_received'' = n"
  shows "link_accounted (name = ''uplink'') tx rx n"
proof -
  have zero: "n_of tx ''transmitted'' = n_of rx ''received_raw''" "n_of tx ''not_attempted'' = 0" "n_of tx ''never_transmitted'' = 0"
    "n_of tx ''send_pending'' = 0" "n_of rx ''malformed'' = 0" "n_of rx ''decode_pending'' = 0" "n_of rx ''classification_pending'' = 0"
    "n_of rx (if name = ''uplink'' then ''admission_pending'' else ''disposition_pending'') = 0"
    using assms(3) by (simp_all add: link_findings_def unobserved_def filter_empty_conv split: if_splits)
  have "n_of tx ''generated'' = n_of tx ''first_transmitted'' + n_of tx ''never_transmitted''"
    using assms(1) by (simp add: sender_errors_def split: if_splits)
  then show ?thesis using assms(1,2,4,5) zero by (simp add: link_accounted_def)
qed

lemma py_eq_int_unique: "py_eq (JInt a) v \<Longrightarrow> py_eq (JInt b) v \<Longrightarrow> a = b"
  by (cases v) (auto split: if_splits)

text \<open>The vehicle's own event counters, for \<open>n\<close> cycles of which \<open>admitted\<close> had a fresh sample: every cycle has its record.\<close>

definition events_accounted :: "json \<Rightarrow> int \<Rightarrow> int \<Rightarrow> bool" where
  "events_accounted events n admitted \<longleftrightarrow> counters_ok events EVENT_FIELDS \<and>
     n_of events ''episode_transitions'' = n \<and> n_of events ''record_attempts'' = n \<and> n_of events ''record_pending'' = 0 \<and>
     n_of events ''records_pushed'' = n \<and> n_of events ''ring_drops'' = 0 \<and> n_of events ''pid_calls'' \<le> admitted"

lemma counter_item:
  assumes "dict_get c k = Inr v" "\<not> bad_counter v"
  shows "counter c k = Some (n_of c k) \<and> item c k = Inr (JInt (n_of c k))"
  using assms by (auto simp: dict_get_def bad_counter_def counter_def n_of_def item_def split: json.splits option.splits)

lemma counters_item:
  assumes "any_of (map (\<lambda>k. rbind (dict_get c k) (\<lambda>v. Inr (bad_counter v))) ks) = Inr False"
  shows "counters_ok c ks \<and> list_all (\<lambda>k. item c k = Inr (JInt (n_of c k))) ks"
  using assms by (induction ks) (auto simp: counters_ok_def either_def rbind_eq_Inr dest: counter_item split: if_splits)

lemma py_eq_zero: "py_eq (JInt n) x \<Longrightarrow> py_eq x (JInt 0) \<Longrightarrow> n = 0"
  by (cases x) (auto split: if_splits)

lemma flag_firstE:
  assumes "sbind (flag c e) (\<lambda>_. m) s = (t, Inr u)"
  obtains s' where "flag c e s = (s', Inr ())" "m s' = (t, Inr u)"
  using assms by (auto simp: sbind_Inr)

lemma reconcile_events_clean:
  assumes "reconcile_events summary events admitted s = (t, Inr u)" "au_errors t = []"
  shows "t = s"
  using assms by (auto simp: reconcile_events_def sbind_Inr dest!: flag_clean)

lemma reconcile_events_facts:
  assumes "reconcile_events summary events admitted s = (t, Inr u)" "au_errors t = []"
    and "rbind (items summary [''telemetry'', ''dropped'']) (\<lambda>v. Inr (differs v (JInt 0))) = Inr False"
    and "item summary ''total_cycles'' = Inr cycles" "py_eq (JInt n) cycles"
  shows "events_accounted events n admitted"
proof -
  obtain s1 s2 s3 s4 where steps:
    "flag (any_of (map (\<lambda>k. rbind (dict_get events k) (\<lambda>v. Inr (bad_counter v))) EVENT_FIELDS))
       ''missing or invalid vehicle event counter'' s = (s1, Inr ())"
    "flag (either (negate (eq_items events [''episode_transitions''] summary [''total_cycles'']))
         (rbind (item events ''episode_transitions'') (\<lambda>t. rbind (item events ''record_attempts'') (\<lambda>a.
            rbind (item events ''record_pending'') (\<lambda>p. rbind (py_add a p) (\<lambda>n. Inr (differs t n)))))))
       ''transition/record attempt identity'' s1 = (s2, Inr ())"
    "flag (rbind (item events ''record_attempts'') (\<lambda>t. rbind (item events ''records_pushed'') (\<lambda>a.
            rbind (item events ''ring_drops'') (\<lambda>p. rbind (py_add a p) (\<lambda>n. Inr (differs t n))))))
       ''record push identity'' s2 = (s3, Inr ())"
    "flag (either (rbind (item events ''record_pending'') (\<lambda>v. Inr (truthy v)))
         (either (negate (eq_items events [''ring_drops''] summary [''telemetry'', ''dropped'']))
           (negate (eq_items events [''records_pushed''] summary [''telemetry'', ''records'']))))
       ''incomplete record population'' s3 = (s4, Inr ())"
    "flag (rbind (item events ''pid_calls'') (\<lambda>v. exceeds v admitted)) ''PID calls exceed admitted samples'' s4 = (t, Inr u)"
    using assms(1) unfolding reconcile_events_def by (elim flag_firstE) blast
  note c5 = flag_clean [OF steps(5) assms(2)]
  with assms(2) have e4: "au_errors s4 = []" by simp
  note c4 = flag_clean [OF steps(4) e4]
  with e4 have e3: "au_errors s3 = []" by simp
  note c3 = flag_clean [OF steps(3) e3]
  with e3 have e2: "au_errors s2 = []" by simp
  note c2 = flag_clean [OF steps(2) e2]
  with e2 have e1: "au_errors s1 = []" by simp
  note c1 = flag_clean [OF steps(1) e1]
  from counters_item [OF c1 [THEN conjunct1]] have ok: "counters_ok events EVENT_FIELDS"
    and get: "list_all (\<lambda>k. item events k = Inr (JInt (n_of events k))) EVENT_FIELDS" by simp_all
  then have get: "item events ''episode_transitions'' = Inr (JInt (n_of events ''episode_transitions''))"
    "item events ''pid_calls'' = Inr (JInt (n_of events ''pid_calls''))" "item events ''record_attempts'' = Inr (JInt (n_of events ''record_attempts''))"
    "item events ''records_pushed'' = Inr (JInt (n_of events ''records_pushed''))" "item events ''ring_drops'' = Inr (JInt (n_of events ''ring_drops''))"
    "item events ''record_pending'' = Inr (JInt (n_of events ''record_pending''))" by (simp_all add: EVENT_FIELDS_def)
  have "py_eq (JInt (n_of events ''episode_transitions'')) cycles"
    using c2 assms(4) by (auto simp: either_def rbind_eq_Inr negate_def eq_items_def get simp del: py_eq.simps split: if_splits)
  then have "n_of events ''episode_transitions'' = n" using py_eq_int_unique assms(5) by blast
  moreover have "n_of events ''record_pending'' = 0" using c4 by (auto simp: either_def rbind_eq_Inr get split: if_splits)
  moreover obtain dropped where dropped: "items summary [''telemetry'', ''dropped''] = Inr dropped" "py_eq dropped (JInt 0)"
    using assms(3) by (auto simp: rbind_eq_Inr differs_def simp del: py_eq.simps)
  have "py_eq (JInt (n_of events ''ring_drops'')) dropped"
    using c4 dropped(1) by (auto simp: either_def rbind_eq_Inr negate_def eq_items_def get simp del: py_eq.simps split: if_splits)
  then have "n_of events ''ring_drops'' = 0" using py_eq_zero dropped(2) by blast
  moreover have "n_of events ''episode_transitions'' = n_of events ''record_attempts'' + n_of events ''record_pending''"
    using c2 by (auto simp: either_def rbind_eq_Inr get differs_def py_add_def split: if_splits)
  moreover have "n_of events ''record_attempts'' = n_of events ''records_pushed'' + n_of events ''ring_drops''"
    using c3 by (auto simp: rbind_eq_Inr get differs_def py_add_def)
  moreover have "n_of events ''pid_calls'' \<le> admitted"
    using c5 by (auto simp: rbind_eq_Inr get exceeds_def compare_int_def)
  ultimately show ?thesis using ok by (simp add: events_accounted_def)
qed

lemma reconcile_failures_facts:
  assumes "reconcile_failures down_tx controls s = (t, Inr u)" "au_errors t = []"
  shows "t = s \<and> item down_tx ''original_tx_fail'' = Inr (JInt 0) \<and> list_all (\<lambda>c. flag_set (ct_flags c) 1) controls"
proof -
  obtain s1 s2 where steps:
    "flag (rbind (dict_get down_tx ''original_tx_fail'') (\<lambda>v. Inr (bad_counter v))) ''missing or invalid original actuator failure counter'' s = (s1, Inr ())"
    "flag (rbind (item down_tx ''original_tx_fail'') (\<lambda>v. Inr (truthy v))) ''original actuator send failed'' s1 = (s2, Inr ())"
    "flag (rbind (item down_tx ''original_tx_fail'')
             (\<lambda>v. Inr (differs (JInt (int (length (filter (\<lambda>r. \<not> flag_set (ct_flags r) 1) controls)))) v)))
           ''TX_OK disagrees with original send outcomes'' s2 = (t, Inr u)"
    using assms(1) unfolding reconcile_failures_def Let_def by (elim flag_firstE) blast
  note c3 = flag_clean [OF steps(3) assms(2)]
  with assms(2) have e2: "au_errors s2 = []" by simp
  note c2 = flag_clean [OF steps(2) e2]
  with e2 have e1: "au_errors s1 = []" by simp
  note c1 = flag_clean [OF steps(1) e1]
  obtain v where "dict_get down_tx ''original_tx_fail'' = Inr v" "\<not> bad_counter v" using c1 by (auto simp: rbind_eq_Inr)
  from counter_item [OF this] have get: "item down_tx ''original_tx_fail'' = Inr (JInt (n_of down_tx ''original_tx_fail''))" ..
  then have zero: "n_of down_tx ''original_tx_fail'' = 0" using c2 by (simp add: rbind_eq_Inr)
  then have "filter (\<lambda>r. \<not> flag_set (ct_flags r) 1) controls = []" using c3 get by (simp add: rbind_eq_Inr differs_def)
  then show ?thesis using get zero c1 c2 c3 by (simp add: filter_empty_conv list_all_iff)
qed

lemma reconcile_mode_facts:
  assumes "reconcile_mode summary s = (t, Inr u)" "au_errors t = []"
  shows "t = s \<and> item summary ''mode'' = Inr (JString ''lockstep'') \<and> item summary ''timing_valid'' = Inr (JBool False) \<and>
    rbind (items summary [''telemetry'', ''dropped'']) (\<lambda>v. Inr (differs v (JInt 0))) = Inr False"
proof -
  obtain s1 where steps: "flag (either (rbind (item summary ''mode'') (\<lambda>v. Inr (differs v (JString ''lockstep''))))
           (rbind (item summary ''timing_valid'') (\<lambda>v. Inr (v \<noteq> JBool False)))) ''invalid lockstep mode/timing validity'' s = (s1, Inr ())"
    "flag (rbind (items summary [''telemetry'', ''dropped'']) (\<lambda>v. Inr (differs v (JInt 0)))) ''ring drops'' s1 = (t, Inr u)"
    using assms(1) unfolding reconcile_mode_def by (elim flag_firstE) blast
  note c2 = flag_clean [OF steps(2) assms(2)]
  with assms(2) have e1: "au_errors s1 = []" by simp
  have eq: "py_eq m (JString x) \<Longrightarrow> m = JString x" for m x by (cases m) simp_all
  show ?thesis
    using c2 flag_clean [OF steps(1) e1] by (auto simp: either_def rbind_eq_Inr differs_def dest: eq simp del: py_eq.simps split: if_splits)
qed

text \<open>A random stream was consumed by the run alone: it started where the seed puts it and advanced once for each of \<open>n\<close> samples.\<close>

definition stream_owned :: "json \<Rightarrow> int \<Rightarrow> string \<Rightarrow> int \<Rightarrow> bool" where
  "stream_owned replay i name n \<longleftrightarrow>
     (\<exists>stream seed start a b final j draws d. items replay [''rng'', ''streams'', name] = Inr stream \<and> item replay ''seed'' = Inr seed \<and>
       rbind (int_operand seed) (\<lambda>s. stream_state s name) = Inr start \<and>
       item stream ''index'' = Inr j \<and> py_eq j (JInt i) \<and> item stream ''draws'' = Inr draws \<and> py_eq draws (JInt n) \<and>
       item stream ''start_state'' = Inr a \<and> int_base16 a = Inr (uint start) \<and> int_operand draws = Inr d \<and>
       item stream ''final_state'' = Inr b \<and> int_base16 b = Inr final \<and> final = uint (start + GOLDEN * word_of_int d))"

lemma stream_mismatch_owned: "stream_mismatch replay i name n = Inr False \<Longrightarrow> stream_owned replay i name n"
  unfolding stream_mismatch_def stream_owned_def
  by (auto simp: rbind_eq_Inr either_def differs_def simp del: py_eq.simps split: if_splits)

lemma py_eq_JInt [simp]: "py_eq (JInt a) (JInt b) \<longleftrightarrow> a = b"
  by simp

lemma reconcile_lengths_facts:
  assumes "reconcile_lengths summary cycles replies rows up_tx up_rx down_tx down_rx ns nc s = (t, Inr u)" "au_errors t = []"
  shows "t = s \<and> (\<exists>m k. py_len replies = Inr m \<and> py_len rows = Inr k \<and>
    list_all (\<lambda>n. py_eq (JInt n) cycles) [int ns, int nc, m, k, n_of up_tx ''generated'', n_of up_rx ''logical_received'',
      n_of down_tx ''generated'', n_of down_rx ''logical_received''])"
  using assms
  by (auto simp: reconcile_lengths_def rbind_eq_Inr either_def differs_def simp del: py_eq.simps split: if_splits dest!: flag_clean)

section \<open>The admission history\<close>

text \<open>The last fresh sample of a prefix, or none.\<close>

definition last_fresh :: "sensor_row list \<Rightarrow> sensor_row option" where
  "last_fresh rs = (case filter fresh_sample rs of [] \<Rightarrow> None | ys \<Rightarrow> Some (last ys))"

lemma last_fresh_snoc: "last_fresh (rs @ [r]) = (if fresh_sample r then Some r else last_fresh rs)"
  by (cases "filter fresh_sample rs") (simp_all add: last_fresh_def)

definition row_audit_of :: "sensor_row list \<Rightarrow> row_audit" where
  "row_audit_of rs = \<lparr>ra_held = last_fresh rs, ra_admitted = int (length (filter fresh_sample rs)),
     ra_invalid = int (length (filter (\<lambda>r. \<not> flag_set (sr_flags r) 0) rs)),
     ra_nonfinite = int (length (filter (\<lambda>r. flag_set (sr_flags r) 0 \<and> \<not> fresh_sample r) rs))\<rparr>"

lemma admit_row_audit: "admit r (row_audit_of rs) = row_audit_of (rs @ [r])"
  by (auto simp: admit_def row_audit_of_def last_fresh_snoc fresh_sample_def)

definition row_agrees :: "int \<Rightarrow> sensor_row option \<Rightarrow> sensor_row \<Rightarrow> control \<Rightarrow> bool" where
  "row_agrees tick held r c \<longleftrightarrow>
     sr_tick r = tick \<and> ct_tick c = tick \<and> \<not> admission_mismatch r c tick held \<and> \<not> observation_mismatch c held \<and>
     \<not> diagnostics_leak c \<and> \<not> timestamps_nonzero r c \<and>
     ct_discarded_other c = (if flag_set (sr_flags r) 0 \<and> \<not> fresh_sample r then 1 else 0)"

definition row_ticked :: "int \<Rightarrow> json \<Rightarrow> bool" where
  "row_ticked tick row = (case item row ''tick'' of Inl e \<Rightarrow> False | Inr v \<Rightarrow> py_eq v (JInt tick))"

lemma tick_mismatch_ticked: "tick_mismatch tick r c reply row = Inr False \<Longrightarrow> row_ticked tick row"
  by (auto simp: tick_mismatch_def Let_def either_def row_ticked_def rbind_eq_Inr differs_def split: if_splits sum.splits)

lemma row_failure_None:
  "row_failure tick held r c reply = Inr None \<Longrightarrow> tick_mismatch tick r c reply row = Inr False \<Longrightarrow> row_agrees tick held r c"
  by (auto simp: row_failure_def rbind_eq_Inr row_agrees_def tick_mismatch_def Let_def either_def split: if_splits)

text \<open>A reply and the control record of its tick: state, reason and acknowledgement in the status word, the command to the bit, and
  the staleness.\<close>

definition reply_agrees :: "int \<Rightarrow> int \<Rightarrow> json \<Rightarrow> control \<Rightarrow> bool" where
  "reply_agrees tick age reply c \<longleftrightarrow>
     (\<exists>t v status n d stale. item reply ''tick'' = Inr t \<and> py_eq t (JInt tick) \<and> item reply ''veh_tick'' = Inr v \<and> py_eq v (JInt tick) \<and>
       item reply ''status'' = Inr status \<and> int_operand status = Inr n \<and>
       n mod 256 = ct_state c \<and> n div 2 ^ 8 mod 256 = ct_reason c \<and>
       n div 2 ^ 24 = (if flag_set (ct_flags c) 6 then 128 OR ct_ack_status c else 0) \<and>
       item reply ''delta'' = Inr d \<and> packed d = Inr (ct_cmd c) \<and> item reply ''staleness'' = Inr stale \<and> py_eq stale (JInt age))"

lemma reply_mismatch_agrees:
  assumes "tick_mismatch tick r c reply row = Inr False" "reply_mismatch reply c age = Inr False" "ack_mismatch reply c = Inr False"
  shows "reply_agrees tick age reply c"
  using assms unfolding tick_mismatch_def reply_mismatch_def ack_mismatch_def reply_agrees_def Let_def
  by (auto simp: rbind_eq_Inr either_def differs_def simp del: py_eq.simps split: if_splits)

lemma row_failure_replies:
  "row_failure tick held r c reply = Inr None \<Longrightarrow> tick_mismatch tick r c reply row = Inr False \<Longrightarrow>
     reply_agrees tick (held_age tick held) reply c"
  by (rule reply_mismatch_agrees) (auto simp: row_failure_def rbind_eq_Inr split: if_splits)

lemma reconcile_rows_clean:
  assumes "reconcile_rows (int (length seen)) (row_audit_of seen) rs cs replies rows s = (t, Inr a)" "au_errors t = []"
    "length cs = length rs" "length replies = length rs" "length rows = length rs"
  shows "t = s \<and> a = row_audit_of (seen @ rs) \<and>
    (\<forall>i < length rs. row_agrees (int (length seen + i)) (last_fresh (seen @ take (Suc i) rs)) (rs ! i) (cs ! i) \<and>
       row_ticked (int (length seen + i)) (rows ! i) \<and>
       reply_agrees (int (length seen + i)) (held_age (int (length seen + i)) (last_fresh (seen @ take (Suc i) rs))) (replies ! i) (cs ! i))"
  using assms
proof (induction rs arbitrary: seen cs replies rows)
  case Nil
  then show ?case by (simp add: lift_result_def)
next
  case (Cons r rs)
  obtain c cs' reply replies' row rows' where split: "cs = c # cs'" "replies = reply # replies'" "rows = row # rows'"
    using Cons.prems(3-5) by (cases cs; cases replies; cases rows) auto
  let ?tick = "int (length seen)"
  have bad: "tick_mismatch ?tick r c reply row = Inr False"
    using Cons.prems(1,2) unfolding split by (auto simp: sbind_Inr lift_result_def report_def modify_def split: if_splits)
  have step: "sbind (lift_result (row_failure ?tick (ra_held (row_audit_of (seen @ [r]))) r c reply)) (\<lambda>failure.
       case failure of Some e \<Rightarrow> sbind (report e) (\<lambda>_. give (row_audit_of (seen @ [r])))
       | None \<Rightarrow> reconcile_rows (?tick + 1) (row_audit_of (seen @ [r])) rs cs' replies' rows') s = (t, Inr a)"
    using Cons.prems(1) unfolding split
    by (simp add: bad admit_row_audit Let_def)
  then obtain failure where failure: "row_failure ?tick (ra_held (row_audit_of (seen @ [r]))) r c reply = Inr failure"
    by (cases "row_failure ?tick (ra_held (row_audit_of (seen @ [r]))) r c reply") (simp_all add: sbind_def lift_result_def)
  have "failure = None"
    using step Cons.prems(2) by (cases failure) (auto simp: failure report_def lift_result_def)
  then have ok: "row_failure ?tick (ra_held (row_audit_of (seen @ [r]))) r c reply = Inr None"
    and rest: "reconcile_rows (int (length (seen @ [r]))) (row_audit_of (seen @ [r])) rs cs' replies' rows' s = (t, Inr a)"
    using step failure by (simp_all add: add.commute)
  have first: "row_agrees ?tick (last_fresh (seen @ [r])) r c \<and> row_ticked ?tick row \<and>
      reply_agrees ?tick (held_age ?tick (last_fresh (seen @ [r]))) reply c"
    using row_failure_None [OF ok bad] tick_mismatch_ticked [OF bad] row_failure_replies [OF ok bad] by (simp add: row_audit_of_def)
  have IH: "t = s \<and> a = row_audit_of ((seen @ [r]) @ rs) \<and> (\<forall>i < length rs.
      row_agrees (int (length (seen @ [r]) + i)) (last_fresh ((seen @ [r]) @ take (Suc i) rs)) (rs ! i) (cs' ! i) \<and>
      row_ticked (int (length (seen @ [r]) + i)) (rows' ! i) \<and>
      reply_agrees (int (length (seen @ [r]) + i)) (held_age (int (length (seen @ [r]) + i)) (last_fresh ((seen @ [r]) @ take (Suc i) rs)))
        (replies' ! i) (cs' ! i))"
    by (rule Cons.IH [OF rest Cons.prems(2)]) (use Cons.prems(3-5) split in simp_all)
  have "row_agrees (int (length seen + i)) (last_fresh (seen @ take (Suc i) (r # rs))) ((r # rs) ! i) (cs ! i) \<and>
      row_ticked (int (length seen + i)) (rows ! i) \<and>
      reply_agrees (int (length seen + i)) (held_age (int (length seen + i)) (last_fresh (seen @ take (Suc i) (r # rs)))) (replies ! i) (cs ! i)"
    if "i < length (r # rs)" for i
    using first IH that by (cases i) (simp_all add: split)
  with IH show ?case by simp
qed

section \<open>What an eligible verdict means\<close>

lemma demand_clean:
  assumes "demand bad e x s = (t, Inr y)" "au_errors t = []"
  shows "bad = Inr False \<and> y = x \<and> t = s"
proof -
  obtain b where b: "bad = Inr b"
    using assms(1) by (cases bad) (simp_all add: demand_def sbind_def lift_result_def)
  have "\<not> b" using assms b by (auto simp: demand_def lift_result_def report_def)
  then show ?thesis using assms(1) b by (simp add: demand_def lift_result_def)
qed

text \<open>The two terminations, and the last record: the pair of reasons is an expected one, both owners name the same reasons, and the last
  control record is the terminal one, of that reason and tick.\<close>

definition terminal_agrees :: "json \<Rightarrow> json \<Rightarrow> control list \<Rightarrow> bool" where
  "terminal_agrees summary replay controls \<longleftrightarrow>
     (\<exists>sim ep reason tick seen sim_seen. item replay ''sim_reason'' = Inr sim \<and> item summary ''episode'' = Inr ep \<and>
       item ep ''vehicle_reason'' = Inr reason \<and> expected_pair sim reason controls = Inr True \<and>
       controls \<noteq> [] \<and> ct_state (last controls) = 3 \<and> py_eq (JInt (ct_reason (last controls))) reason \<and>
       item ep ''reason_tick'' = Inr tick \<and> py_eq tick (JInt (ct_tick (last controls))) \<and>
       item replay ''vehicle_reason_seen'' = Inr seen \<and> py_eq seen reason \<and>
       (if among sim [1, 2, 3] then item ep ''sim_reason_seen'' = Inr sim_seen \<and> py_eq sim_seen sim
        else py_eq sim (JInt 4) \<longrightarrow> item ep ''sim_reason_seen'' = Inr JNull))"

lemma reconcile_terminal_agrees:
  assumes "reconcile_terminal summary replay controls s = (t, Inr u)" "au_errors t = []"
  shows "au_errors s = [] \<and> terminal_agrees summary replay controls"
proof -
  obtain sim_reason ep reason tick expected where read: "item replay ''sim_reason'' = Inr sim_reason"
    "item summary ''episode'' = Inr ep" "item ep ''vehicle_reason'' = Inr reason" "item ep ''reason_tick'' = Inr tick"
    "expected_pair sim_reason reason controls = Inr expected"
    using assms(1) by (auto simp: reconcile_terminal_def sbind_Inr lift_result_def)
  let ?s = "s\<lparr>au_notes := ((au_notes s @ [(''sim_reason'', sim_reason)]) @ [(''vehicle_reason'', reason)]) @ [(''reason_tick'', tick)]\<rparr>"
  obtain s1 e1 s2 e2 s3 e3 s4 e4 a where steps:
    "demand (terminal_record_mismatch controls reason ep) ''terminal tick or record mismatch'' expected ?s = (s1, Inr e1)"
    "demand (if among sim_reason [1, 2, 3] then rbind (item ep ''sim_reason_seen'') (\<lambda>v. Inr (differs v sim_reason))
       else Inr False) ''simulator reason observation mismatch'' e1 s1 = (s2, Inr e2)"
    "demand (if py_eq sim_reason (JInt 4) then rbind (item ep ''sim_reason_seen'') (\<lambda>v. Inr (v \<noteq> JNull)) else Inr False)
       ''invented simulator observation'' e2 s2 = (s3, Inr e3)"
    "demand (rbind (item replay ''vehicle_reason_seen'') (\<lambda>v. Inr (differs v reason)))
       ''vehicle reason observation mismatch'' e3 s3 = (s4, Inr e4)"
    "(if e4 then give () else report ''unexpected terminal pairing'') (s4\<lparr>au_notes := au_notes s4 @ [(''terminal_agreement'', JBool a)]\<rparr>) = (t, Inr u)"
    using assms(1) read by (simp add: reconcile_terminal_def note_value_def sbind_Inr gets_def modify_def) blast
  have e4: e4 "au_errors s4 = []"
    using steps(5) assms(2) by (auto simp: lift_result_def report_def modify_def split: if_splits)
  note d4 = demand_clean [OF steps(4) e4(2)]
  with e4 have c3: "au_errors s3 = []" e3 by simp_all
  note d3 = demand_clean [OF steps(3) c3(1)]
  with c3 have c2: "au_errors s2 = []" e2 by simp_all
  note d2 = demand_clean [OF steps(2) c2(1)]
  with c2 have c1: "au_errors s1 = []" e1 by simp_all
  note d1 = demand_clean [OF steps(1) c1(1)]
  have ending: "controls \<noteq> []" "ct_state (last controls) = 3" "py_eq (JInt (ct_reason (last controls))) reason"
    "py_eq tick (JInt (ct_tick (last controls)))"
    using d1 read(4) by (auto simp: terminal_record_mismatch_def Let_def either_def differs_def rbind_eq_Inr simp del: py_eq.simps split: if_splits)
  obtain seen where seen: "item replay ''vehicle_reason_seen'' = Inr seen" "py_eq seen reason"
    using d4 by (auto simp: rbind_eq_Inr differs_def simp del: py_eq.simps)
  obtain sim_seen where "if among sim_reason [1, 2, 3] then item ep ''sim_reason_seen'' = Inr sim_seen \<and> py_eq sim_seen sim_reason
      else py_eq sim_reason (JInt 4) \<longrightarrow> item ep ''sim_reason_seen'' = Inr JNull"
    using d2 d3 by (auto simp: rbind_eq_Inr differs_def simp del: py_eq.simps split: if_splits)
  moreover have "expected_pair sim_reason reason controls = Inr True" "au_errors s = []" using d1 c1 read(5) by simp_all
  ultimately show ?thesis using read(1-4) ending seen unfolding terminal_agrees_def by blast
qed

lemma reconcile_rows_tainted: "keeps (\<lambda>s. au_errors s \<noteq> []) (reconcile_rows tick a rs cs replies rows)"
proof (induction rs arbitrary: tick a cs replies rows)
  case (Cons r rs)
  show ?case
  proof (cases "cs = [] \<or> replies = [] \<or> rows = []")
    case True
    then show ?thesis by (cases cs; cases replies; cases rows) (simp_all add: keeps_lift)
  next
    case False
    then obtain c cs' reply replies' row rows' where "cs = c # cs'" "replies = reply # replies'" "rows = row # rows'"
      by (cases cs; cases replies; cases rows) auto
    then show ?thesis
      unfolding Let_def reconcile_rows.simps
      by (auto intro!: keeps_sbind keeps_if keeps_lift keeps_option report_tainted Cons.IH simp only: Let_def reconcile_rows.simps)
  qed
qed (simp add: keeps_lift)

lemma py_iter_length: "py_len v = Inr n \<Longrightarrow> py_iter v = Inr xs \<Longrightarrow> n = int (length xs)"
  by (cases v) (auto simp: py_len_def py_iter_def)

lemma eligible_facts:
  assumes "reconcile_lockstep summary replay sensors controls = Inr v" "vd_eligible v"
  shows "controls \<noteq> [] \<and> length sensors = length controls \<and> ct_state (last controls) = 3 \<and>
    (\<forall>i < length controls. row_agrees (int i) (last_fresh (take (Suc i) sensors)) (sensors ! i) (controls ! i)) \<and>
    (\<exists>tx rx. item replay ''transmission'' = Inr tx \<and> item summary ''link'' = Inr rx \<and>
      link_accounted True tx rx (int (length controls)) \<and>
      n_of rx ''admitted'' = int (length (filter fresh_sample sensors)) \<and>
      n_of rx ''sample_invalid'' = int (length (filter (\<lambda>r. \<not> flag_set (sr_flags r) 0) sensors)) \<and>
      n_of rx ''sample_nonfinite'' = int (length (filter (\<lambda>r. flag_set (sr_flags r) 0 \<and> \<not> fresh_sample r) sensors))) \<and>
    (\<exists>tx rx. item summary ''actuator'' = Inr tx \<and> item replay ''actuator_receipt'' = Inr rx \<and>
      link_accounted False tx rx (int (length controls)) \<and>
      item tx ''original_tx_fail'' = Inr (JInt 0) \<and> list_all (\<lambda>c. flag_set (ct_flags c) 1) controls) \<and>
    (\<exists>replies reply_list. item replay ''actuator_replies'' = Inr replies \<and> py_iter replies = Inr reply_list \<and>
      length reply_list = length controls \<and>
      (\<forall>i < length controls. reply_agrees (int i) (held_age (int i) (last_fresh (take (Suc i) sensors))) (reply_list ! i) (controls ! i))) \<and>
    (\<exists>rows row_list. item replay ''rows'' = Inr rows \<and> py_iter rows = Inr row_list \<and> length row_list = length controls \<and>
      (\<forall>i < length controls. row_ticked (int i) (row_list ! i))) \<and>
    (\<exists>events. item summary ''events'' = Inr events \<and>
      events_accounted events (int (length controls)) (int (length (filter fresh_sample sensors)))) \<and>
    item summary ''mode'' = Inr (JString ''lockstep'') \<and> item summary ''timing_valid'' = Inr (JBool False) \<and>
    stream_owned replay 0 ''link.loss.up'' (int (length controls)) \<and> stream_owned replay 1 ''link.loss.down'' (int (length controls)) \<and>
    terminal_agrees summary replay controls"
proof -
  obtain s where run: "reconcile_body summary replay sensors controls audit_empty = (s, Inr True)" "au_errors s = []"
    using assms by (auto simp: reconcile_lockstep_def split: if_splits prod.splits sum.splits)
  obtain up_tx up_rx down_tx down_rx cycles replies rows events reply_list row_list
      s1 s2 s3 s4 s5 s6 s7 s8 s9 s10 a where read:
    "item replay ''transmission'' = Inr up_tx" "item summary ''link'' = Inr up_rx" "item replay ''rows'' = Inr rows"
    "py_iter replies = Inr reply_list" "py_iter rows = Inr row_list" "item summary ''actuator'' = Inr down_tx"
    "item replay ''actuator_receipt'' = Inr down_rx" "item replay ''actuator_replies'' = Inr replies"
    "item summary ''events'' = Inr events" "item summary ''total_cycles'' = Inr cycles" and steps:
    "reconcile_link ''uplink'' up_tx up_rx audit_empty = (s1, Inr True)"
    "reconcile_link ''downlink'' down_tx down_rx s1 = (s2, Inr True)"
    "reconcile_failures down_tx controls s2 = (s3, Inr ())" "reconcile_mode summary s3 = (s4, Inr ())"
    "reconcile_events summary events (n_of up_rx ''admitted'') s4 = (s5, Inr ())"
    "reconcile_lengths summary cycles replies rows up_tx up_rx down_tx down_rx
       (length sensors) (length controls) s5 = (s6, Inr ())"
    "reconcile_rows 0 \<lparr>ra_held = None, ra_admitted = 0, ra_invalid = 0, ra_nonfinite = 0\<rparr>
       sensors controls reply_list row_list s6 = (s7, Inr a)"
    "flag (Inr ((ra_admitted a, ra_invalid a, ra_nonfinite a) \<noteq>
       (n_of up_rx ''admitted'', n_of up_rx ''sample_invalid'', n_of up_rx ''sample_nonfinite'')))
       ''sample disposition totals mismatch'' s7 = (s8, Inr ())"
    "flag (stream_mismatch replay 0 ''link.loss.up'' (n_of up_tx ''generated'')) ''RNG ownership mismatch'' s8 = (s9, Inr ())"
    "flag (stream_mismatch replay 1 ''link.loss.down'' (n_of up_tx ''generated'')) ''RNG ownership mismatch'' s9 = (s10, Inr ())"
    "reconcile_terminal summary replay controls s10 = (s, Inr ())"
    using run(1) by (auto simp: reconcile_body_def sbind_Inr lift_result_def split: if_splits)
  note t11 = reconcile_terminal_agrees [OF steps(11) run(2)]
  then have e10: "au_errors s10 = []" by blast
  note t10 = flag_clean [OF steps(10) e10]
  with e10 have e9: "au_errors s9 = []" by simp
  note t9 = flag_clean [OF steps(9) e9]
  with e9 have e8: "au_errors s8 = []" by simp
  note t8 = flag_clean [OF steps(8) e8]
  with e8 have e7: "au_errors s7 = []" by simp
  have e6: "au_errors s6 = []" using keepsD [OF reconcile_rows_tainted _ steps(7)] e7 by blast
  note t6 = reconcile_lengths_facts [OF steps(6) e6]
  with e6 have e5: "au_errors s5 = []" by simp
  obtain m k where lens: "py_len replies = Inr m" "py_len rows = Inr k"
    "list_all (\<lambda>n. py_eq (JInt n) cycles) [int (length sensors), int (length controls), m, k, n_of up_tx ''generated'',
       n_of up_rx ''logical_received'', n_of down_tx ''generated'', n_of down_rx ''logical_received'']"
    using t6 by blast
  have cycles: "py_eq (JInt (int (length controls))) cycles" using lens(3) by simp
  have same: "n = int (length controls)" if "py_eq (JInt n) cycles" for n using py_eq_int_unique [OF that cycles] .
  have lengths: "length controls = length sensors" "length reply_list = length sensors" "length row_list = length sensors"
    and counts: "n_of up_tx ''generated'' = int (length controls)" "n_of up_rx ''logical_received'' = int (length controls)"
    "n_of down_tx ''generated'' = int (length controls)" "n_of down_rx ''logical_received'' = int (length controls)"
    using lens(3) same [of "int (length sensors)"] same [of m] same [of k] py_iter_length [OF lens(1) read(4)] py_iter_length [OF lens(2) read(5)]
    by (auto intro: same simp del: py_eq.simps)
  have "reconcile_rows (int (length [])) (row_audit_of []) sensors controls reply_list row_list s6 = (s7, Inr a)"
    using steps(7) by (simp add: row_audit_of_def last_fresh_def)
  note rows = reconcile_rows_clean [OF this e7 lengths(1-3)]
  have totals: "n_of up_rx ''admitted'' = int (length (filter fresh_sample sensors))"
    "n_of up_rx ''sample_invalid'' = int (length (filter (\<lambda>r. \<not> flag_set (sr_flags r) 0) sensors))"
    "n_of up_rx ''sample_nonfinite'' = int (length (filter (\<lambda>r. flag_set (sr_flags r) 0 \<and> \<not> fresh_sample r) sensors))"
    using t8 rows by (simp_all add: row_audit_of_def)
  note t5 = reconcile_events_clean [OF steps(5) e5]
  with e5 have e4: "au_errors s4 = []" by simp
  note t4 = reconcile_mode_facts [OF steps(4) e4]
  with e4 have e3: "au_errors s3 = []" by simp
  note t3 = reconcile_failures_facts [OF steps(3) e3]
  with e3 have e2: "au_errors s2 = []" by simp
  note t2 = reconcile_link_clean [OF steps(2) e2]
  then have e1: "au_errors s1 = []" by blast
  note t1 = reconcile_link_clean [OF steps(1) e1]
  have up: "link_accounted True up_tx up_rx (int (length controls))"
    using link_findings_none [where name = "''uplink''"] t1 counts(1,2) by simp
  have down: "link_accounted False down_tx down_rx (int (length controls))"
    using link_findings_none [where name = "''downlink''"] t2 counts(3,4) by simp
  have events: "events_accounted events (int (length controls)) (int (length (filter fresh_sample sensors)))"
    using reconcile_events_facts [OF steps(5) e5 _ read(10) cycles] t4 totals(1) by simp
  have streams: "stream_owned replay 0 ''link.loss.up'' (int (length controls))" "stream_owned replay 1 ''link.loss.down'' (int (length controls))"
    using t9 t10 stream_mismatch_owned counts(1) by auto
  have rows': "row_agrees (int i) (last_fresh (take (Suc i) sensors)) (sensors ! i) (controls ! i) \<and> row_ticked (int i) (row_list ! i) \<and>
      reply_agrees (int i) (held_age (int i) (last_fresh (take (Suc i) sensors))) (reply_list ! i) (controls ! i)" if "i < length controls" for i
    using rows that lengths(1) by simp
  have ending: "controls \<noteq> []" "ct_state (last controls) = 3" using t11 by (auto simp: terminal_agrees_def)
  have replies: "\<exists>replies reply_list. item replay ''actuator_replies'' = Inr replies \<and> py_iter replies = Inr reply_list \<and>
      length reply_list = length controls \<and>
      (\<forall>i < length controls. reply_agrees (int i) (held_age (int i) (last_fresh (take (Suc i) sensors))) (reply_list ! i) (controls ! i))"
    using read(4,8) lengths rows' by auto
  have ticked: "\<exists>rows row_list. item replay ''rows'' = Inr rows \<and> py_iter rows = Inr row_list \<and> length row_list = length controls \<and>
      (\<forall>i < length controls. row_ticked (int i) (row_list ! i))"
    using read(3,5) lengths rows' by auto
  show ?thesis
    using ending lengths(1) rows' read(1,2,6,7,9) up down totals t3 t4 replies ticked events streams t11 by (intro conjI) auto
qed

text \<open>C5. An eligible lockstep verdict is trustworthy. The recorded samples and control records are as many as the samples generated and
  agree row by row with the admission history: the sample held is the last fresh one of the prefix, its age and its bits are what
  the record says. In both directions every counter is balanced, nothing is pending, malformed or never sent, and every frame transmitted
  has been received: as many as there are ticks. The samples admitted, marked lost and nonfinite are counted as recorded. Every reply
  received carries the state, the reason, the acknowledgement, the staleness and, to the bit, the command of its control record, and
  none of them failed to be sent. The vehicle made one record per cycle and no controller call without a sample. Both random streams
  advanced once per tick from the seed's states. The two terminations form an expected pair, as both owners and the last record tell it.\<close>

theorem reconcile_eligible_sound:
  assumes "reconcile_lockstep summary replay sensors controls = Inr v" "vd_eligible v"
  shows "controls \<noteq> [] \<and> length sensors = length controls \<and> ct_state (last controls) = 3 \<and>
    (\<forall>i < length controls. row_agrees (int i) (last_fresh (take (Suc i) sensors)) (sensors ! i) (controls ! i)) \<and>
    (\<exists>tx rx. item replay ''transmission'' = Inr tx \<and> item summary ''link'' = Inr rx \<and>
      link_accounted True tx rx (int (length controls)) \<and>
      n_of rx ''admitted'' = int (length (filter fresh_sample sensors)) \<and>
      n_of rx ''sample_invalid'' = int (length (filter (\<lambda>r. \<not> flag_set (sr_flags r) 0) sensors)) \<and>
      n_of rx ''sample_nonfinite'' = int (length (filter (\<lambda>r. flag_set (sr_flags r) 0 \<and> \<not> fresh_sample r) sensors))) \<and>
    (\<exists>tx rx. item summary ''actuator'' = Inr tx \<and> item replay ''actuator_receipt'' = Inr rx \<and>
      link_accounted False tx rx (int (length controls)) \<and>
      item tx ''original_tx_fail'' = Inr (JInt 0) \<and> list_all (\<lambda>c. flag_set (ct_flags c) 1) controls) \<and>
    (\<exists>replies reply_list. item replay ''actuator_replies'' = Inr replies \<and> py_iter replies = Inr reply_list \<and>
      length reply_list = length controls \<and>
      (\<forall>i < length controls. reply_agrees (int i) (held_age (int i) (last_fresh (take (Suc i) sensors))) (reply_list ! i) (controls ! i))) \<and>
    (\<exists>events. item summary ''events'' = Inr events \<and>
      events_accounted events (int (length controls)) (int (length (filter fresh_sample sensors)))) \<and>
    item summary ''mode'' = Inr (JString ''lockstep'') \<and> item summary ''timing_valid'' = Inr (JBool False) \<and>
    stream_owned replay 0 ''link.loss.up'' (int (length controls)) \<and> stream_owned replay 1 ''link.loss.down'' (int (length controls)) \<and>
    terminal_agrees summary replay controls"
  using eligible_facts [OF assms] by blast

section \<open>A concrete run\<close>

definition example_counts :: "(string \<times> int) list \<Rightarrow> json" where
  "example_counts kvs = JObject (map (\<lambda>(k, n). (k, JInt n)) kvs)"

text \<open>One tick, sent and received once in both directions, ending at the horizon.\<close>

definition example_tx :: json where
  "example_tx = example_counts [(''generated'', 1), (''original_attempts'', 1), (''retry_attempts'', 0),
     (''not_attempted'', 0), (''send_attempts'', 1), (''send_pending'', 0), (''tx_fail'', 0), (''transmitted'', 1),
     (''first_transmitted'', 1), (''additional_copies'', 0), (''never_transmitted'', 0), (''original_tx_fail'', 0)]"

definition example_rx :: json where
  "example_rx = example_counts [(''received_raw'', 1), (''malformed'', 0), (''received'', 1), (''decode_pending'', 0),
     (''logical_received'', 1), (''discarded_duplicate'', 0), (''rejected_received'', 0),
     (''classification_pending'', 0), (''admitted'', 1), (''sample_invalid'', 0), (''sample_nonfinite'', 0),
     (''admission_pending'', 0), (''modeled_command_loss'', 0), (''forwarded_to_delay'', 1), (''disposition_pending'', 0)]"

definition example_events :: json where
  "example_events = example_counts [(''episode_transitions'', 1), (''pid_calls'', 1), (''record_attempts'', 1),
     (''records_pushed'', 1), (''ring_drops'', 0), (''record_pending'', 0)]"

definition example_summary :: "json \<Rightarrow> json" where
  "example_summary events = JObject [(''mode'', JString ''lockstep''), (''timing_valid'', JBool False),
     (''telemetry'', example_counts [(''dropped'', 0), (''records'', 1)]), (''total_cycles'', JInt 1),
     (''link'', example_rx), (''actuator'', example_tx), (''events'', events),
     (''episode'', example_counts [(''vehicle_reason'', 1), (''reason_tick'', 0), (''sim_reason_seen'', 1)])]"

definition example_stream :: "int \<Rightarrow> string \<Rightarrow> string \<Rightarrow> json" where
  "example_stream i start final = JObject [(''index'', JInt i), (''draws'', JInt 1),
     (''start_state'', JString start), (''final_state'', JString final)]"

definition example_replay :: json where
  "example_replay = JObject [(''transmission'', example_tx), (''actuator_receipt'', example_rx), (''seed'', JInt 1),
     (''actuator_replies'', JList [JObject [(''tick'', JInt 0), (''veh_tick'', JInt 0), (''status'', JInt 259),
        (''delta'', JFloat 0), (''staleness'', JInt 0)]]),
     (''rows'', JList [example_counts [(''tick'', 0)]]), (''sim_reason'', JInt 1), (''vehicle_reason_seen'', JInt 1),
     (''rng'', JObject [(''streams'', JObject [
        (''link.loss.up'', example_stream 0 ''0x910a2dec89025cc1'' ''0x2f41a7a6084cd8d6''),
        (''link.loss.down'', example_stream 1 ''0xbeeb8da1658eec67'' ''0x5d23075ae4d9687c'')])])]"

definition example_sample :: sensor_row where
  "example_sample = \<lparr>sr_tick = 0, sr_t_send_ns = 0, sr_theta = 0, sr_omega = 0, sr_flags = 3\<rparr>"

definition example_control :: control where
  "example_control = \<lparr>ct_tick = 0, ct_deadline_ns = 0, ct_woke_ns = 0, ct_done_ns = 0, ct_sensor_send_ns = 0,
     ct_rx_ns = 0, ct_tx_ns = 0, ct_sensor_tick = 0, ct_theta = 0, ct_omega = 0, ct_cmd = 0, ct_drops = 0,
     ct_staleness = 0, ct_rx_count = 1, ct_discarded_old = 0, ct_discarded_superseded = 0, ct_discarded_other = 0,
     ct_state = 3, ct_reason = 1, ct_flags = 3, ct_ack_status = 0\<rparr>"

definition eligible_result :: "verdict result \<Rightarrow> bool" where
  "eligible_result r = (case r of Inl e \<Rightarrow> False | Inr v \<Rightarrow> vd_eligible v)"

lemma example_eligible:
  "eligible_result (reconcile_lockstep (example_summary example_events) example_replay [example_sample] [example_control])"
  by code_simp

lemma reconcile_eligible_sound_witness:
  "\<exists>v. reconcile_lockstep (example_summary example_events) example_replay [example_sample] [example_control] = Inr v \<and>
     vd_eligible v \<and> row_agrees 0 (Some example_sample) example_sample example_control"
proof -
  obtain v where v: "reconcile_lockstep (example_summary example_events) example_replay [example_sample] [example_control] = Inr v"
    "vd_eligible v"
    using example_eligible by (auto simp: eligible_result_def split: sum.splits)
  have "fresh_sample example_sample"
    by (simp add: fresh_sample_def example_sample_def flag_set_def f_finite_def f_expo_def)
  then have "last_fresh (take (Suc 0) [example_sample]) = Some example_sample" by (simp add: last_fresh_def)
  with reconcile_eligible_sound [OF v] show ?thesis using v by auto
qed

section \<open>Exceptions that escape\<close>

lemma dynamic_stream_state [dynamic_intro]: "dynamic (stream_state seed name)"
  by (auto simp: dynamic_def stream_state_def split: option.splits)

lemma dynamic_reconcile_rows [dynamic_intro]: "dynamic_act (reconcile_rows tick a rs cs replies rows)"
proof (induction tick a rs cs replies rows rule: reconcile_rows.induct)
  case (1 tick a r rs c cs reply replies row rows)
  have mismatch: "dynamic (tick_mismatch tick r c reply row)"
    unfolding tick_mismatch_def Let_def by (intro dynamic_intro) (simp add: dynamic_intro)
  have first: "list_all (\<lambda>(c, e). dynamic c) cs \<Longrightarrow> dynamic (first_failure cs)" for cs
    by (induction cs) (auto intro!: dynamic_intro)
  have failure: "dynamic (row_failure tick held r c reply)" for held
    unfolding row_failure_def reply_mismatch_def ack_mismatch_def
    by (rule first) (auto intro!: dynamic_intro)
  have IH: "\<not> bad \<Longrightarrow> dynamic_act (reconcile_rows (tick + 1) (admit r a) rs cs replies rows)" for bad
    using "1.IH" by blast
  show ?case
    unfolding reconcile_rows.simps Let_def
    by (intro dynamic_intro mismatch failure) (use IH in blast)
qed (simp_all add: dynamic_intro)

lemma dynamic_reconcile_body: "dynamic_act (reconcile_body summary replay sensors controls)"
proof -
  have link: "dynamic_act (reconcile_link name tx rx)" for name tx rx
    unfolding reconcile_link_def report_all_def by (intro dynamic_intro)
  have failures: "dynamic_act (reconcile_failures tx controls)" for tx
    unfolding reconcile_failures_def Let_def by (intro dynamic_intro)
  have mode: "dynamic_act (reconcile_mode summary)"
    unfolding reconcile_mode_def by (intro dynamic_intro)
  have events: "dynamic_act (reconcile_events summary ev n)" for ev n
    unfolding reconcile_events_def eq_items_def negate_def exceeds_def
    by (intro dynamic_intro) (simp add: list_all_iff dynamic_intro)
  have lengths: "dynamic_act (reconcile_lengths summary cy rp rw a b c d m n)" for cy rp rw a b c d m n
    unfolding reconcile_lengths_def at_most_def by (intro dynamic_intro)
  have stream: "dynamic (stream_mismatch replay i name n)" for i name n
    unfolding stream_mismatch_def by (intro dynamic_intro) (simp add: dynamic_intro)
  have terminal: "dynamic_act (reconcile_terminal summary replay controls)"
    unfolding reconcile_terminal_def demand_def expected_pair_def terminal_record_mismatch_def Let_def
    by (intro dynamic_intro) (simp_all add: dynamic_intro)
  show ?thesis
    unfolding reconcile_body_def
    by (intro dynamic_intro link failures mode events lengths stream terminal)
qed

text \<open>C35. Whatever two JSON documents and recordings it is given, the lockstep reconciliation returns a
  verdict, or escapes with an \<open>AttributeError\<close> or a \<open>struct.error\<close>. A summary
  whose events are no object does escape: it is not turned into an ineligible verdict.\<close>

theorem reconcile_escapes:
  "reconcile_lockstep summary replay sensors controls \<in> range Inr \<union> Inl ` (range AttributeError \<union> range StructError) \<and>
   reconcile_lockstep (example_summary (JList [])) example_replay [example_sample] [example_control] =
     Inl (AttributeError ''get'')"
proof (rule conjI)
  show "reconcile_lockstep summary replay sensors controls \<in> range Inr \<union> Inl ` (range AttributeError \<union> range StructError)"
  proof (cases "reconcile_lockstep summary replay sensors controls")
    case (Inl e)
    then obtain s where "reconcile_body summary replay sensors controls audit_empty = (s, Inl e)" "\<not> evidence_exn e"
      by (auto simp: reconcile_lockstep_def split: if_splits prod.splits sum.splits)
    then have "dynamic_exn e" "\<not> evidence_exn e" using dynamic_reconcile_body by (auto simp: dynamic_act_def)
    then show ?thesis using Inl by (cases e) simp_all
  qed simp
next
  show "reconcile_lockstep (example_summary (JList [])) example_replay [example_sample] [example_control] =
      Inl (AttributeError ''get'')"
    by code_simp
qed

end
