(* ===== verification/Audited.thy ===== *)
theory Audited
  imports Reconcile
begin

text \<open>
  The report the lockstep simulator writes (\<open>sim/run_sim.py\<close>), and that the reconciliation's checks
  of its owner accept it: the counters it reports are balanced and the random streams it reports are
  where the draws it reports put them.
\<close>

section \<open>Words in hexadecimal\<close>

definition hex_char :: "nat \<Rightarrow> char" where
  "hex_char d = char_of (if d < 10 then 48 + d else 87 + d)"

definition hex_word_digits :: "nat \<Rightarrow> nat \<Rightarrow> string" where
  "hex_word_digits k n = map (\<lambda>i. hex_char (n div 16 ^ i mod 16)) (rev [0..<k])"

text \<open>\<open>f'0x{w:016x}'\<close>.\<close>

definition hex_word :: "64 word \<Rightarrow> string" where
  "hex_word w = ''0x'' @ hex_word_digits 16 (unat w)"

lemma hex_char_digit:
  assumes "d < 16"
  shows "hex_digit (hex_char d) = Some (int d) \<and> hex_char d \<noteq> CHR ''_'' \<and> \<not> blank (hex_char d)"
proof -
  have "list_all (\<lambda>d. hex_digit (hex_char d) = Some (int d) \<and> hex_char d \<noteq> CHR ''_'' \<and> \<not> blank (hex_char d)) [0..<16]"
    by code_simp
  then show ?thesis using assms by (simp add: list_all_iff del: upt_rec_numeral)
qed

lemma hex_digits_map:
  "(\<And>d. d \<in> set ds \<Longrightarrow> d < 16) \<Longrightarrow> hex_digits acc (map hex_char ds) = Some (foldl (\<lambda>a d. 16 * a + int d) acc ds)"
proof (induction ds arbitrary: acc)
  case (Cons d ds)
  then have d: "hex_digit (hex_char d) = Some (int d)" by (simp add: hex_char_digit)
  show ?case
  proof (cases ds)
    case Nil
    then show ?thesis by (simp add: d)
  next
    case (Cons e es)
    then have "hex_char e \<noteq> CHR ''_''" using Cons.prems by (simp add: hex_char_digit)
    then show ?thesis using Cons.IH [of "16 * acc + int d"] Cons.prems \<open>ds = e # es\<close> d by simp
  qed
qed simp

lemma foldl_digits:
  "foldl (\<lambda>a d. 16 * a + int d) acc (map (\<lambda>i. n div 16 ^ i mod 16) (rev [0..<k])) = acc * 16 ^ k + int (n mod 16 ^ k)"
proof (induction k arbitrary: acc)
  case (Suc k)
  have "n mod 16 ^ Suc k = 16 ^ k * (n div 16 ^ k mod 16) + n mod 16 ^ k"
    by (metis mod_mult2_eq mult.commute power_Suc)
  then have split: "int (n mod 16 ^ Suc k) = 16 ^ k * int (n div 16 ^ k mod 16) + int (n mod 16 ^ k)" by simp
  have "foldl (\<lambda>a d. 16 * a + int d) acc (map (\<lambda>i. n div 16 ^ i mod 16) (rev [0..<Suc k])) =
    foldl (\<lambda>a d. 16 * a + int d) (16 * acc + int (n div 16 ^ k mod 16)) (map (\<lambda>i. n div 16 ^ i mod 16) (rev [0..<k]))"
    by simp
  also have "\<dots> = (16 * acc + int (n div 16 ^ k mod 16)) * 16 ^ k + int (n mod 16 ^ k)" by (rule Suc.IH)
  also have "\<dots> = acc * 16 ^ Suc k + int (n mod 16 ^ Suc k)" unfolding split by (simp add: algebra_simps)
  finally show ?case .
qed simp

lemma hex_word_digits_value: "hex_digits acc (hex_word_digits k n) = Some (acc * 16 ^ k + int (n mod 16 ^ k))"
proof -
  have "hex_word_digits k n = map hex_char (map (\<lambda>i. n div 16 ^ i mod 16) (rev [0..<k]))"
    by (simp add: hex_word_digits_def)
  moreover have "hex_digits acc (map hex_char (map (\<lambda>i. n div 16 ^ i mod 16) (rev [0..<k]))) =
      Some (foldl (\<lambda>a d. 16 * a + int d) acc (map (\<lambda>i. n div 16 ^ i mod 16) (rev [0..<k])))"
    by (rule hex_digits_map) auto
  ultimately show ?thesis by (simp only: foldl_digits)
qed

lemma int_base16_hex_word: "int_base16 (JString (hex_word w)) = Inr (uint w)"
proof -
  have blank: "\<not> blank c" if "c \<in> set (hex_word_digits 16 (unat w))" for c
    using that by (auto simp: hex_word_digits_def hex_char_digit simp del: upt_rec_numeral)
  have first: "[0..<16] = [0..<15] @ [15 :: nat]" using upt_Suc_append [of 0 15] by (simp del: upt_rec_numeral)
  obtain c cs where c: "hex_word_digits 16 (unat w) = c # cs" "c \<noteq> CHR ''_''"
    unfolding hex_word_digits_def first by (auto simp: hex_char_digit simp del: upt_rec_numeral)
  then have ne: "hex_word_digits 16 (unat w) \<noteq> []" by simp
  have strip: "strip (hex_word w) = hex_word w"
  proof -
    have start: "dropWhile blank (hex_word w) = hex_word w" by (simp add: hex_word_def blank_def)
    have "\<not> blank (hd (rev (hex_word w)))"
      using blank ne by (simp add: hex_word_def hd_rev)
    then have "dropWhile blank (rev (hex_word w)) = rev (hex_word w)"
      by (cases "rev (hex_word w)") simp_all
    then show ?thesis by (simp add: strip_def start)
  qed
  have "hex_body (hex_word w) = hex_digits 0 (hex_word_digits 16 (unat w))"
    using c by (simp add: hex_body_def hex_word_def Let_def)
  also have "\<dots> = Some (int (unat w))"
    using unsigned_less [of w, where ?'a = nat] by (simp add: hex_word_digits_value)
  finally have body: "hex_body (hex_word w) = Some (uint w)" by simp
  then show ?thesis
    unfolding int_base16_def json.case strip Let_def by (simp add: hex_word_def)
qed

section \<open>The report\<close>

definition sender_json :: "sender \<Rightarrow> json" where
  "sender_json u = JObject [(''generated'', JInt (sn_generated u)), (''original_attempts'', JInt (sn_original_attempts u)),
     (''retry_attempts'', JInt (sn_retry_attempts u)), (''not_attempted'', JInt (sn_not_attempted u)),
     (''send_attempts'', JInt (sn_send_attempts u)), (''send_pending'', JInt (sn_send_pending u)),
     (''tx_fail'', JInt (sn_tx_fail u)), (''transmitted'', JInt (sn_transmitted u)),
     (''first_transmitted'', JInt (sn_first_transmitted u)), (''additional_copies'', JInt (sn_additional_copies u)),
     (''never_transmitted'', JInt (sn_never_transmitted u)), (''modeled_sample_loss'', JInt (sn_sample_loss u)),
     (''first_tick'', case sn_first_tick u of None \<Rightarrow> JNull | Some t \<Rightarrow> JInt t),
     (''last_tick'', case sn_last_tick u of None \<Rightarrow> JNull | Some t \<Rightarrow> JInt t)]"

definition receipt_json :: "receipt \<Rightarrow> json" where
  "receipt_json c = JObject [(''received_raw'', JInt (rc_received_raw c)), (''malformed'', JInt (rc_malformed c)),
     (''received'', JInt (rc_received c)), (''decode_pending'', JInt (rc_decode_pending c)),
     (''logical_received'', JInt (rc_logical_received c)), (''discarded_duplicate'', JInt (rc_discarded_duplicate c)),
     (''rejected_received'', JInt (rc_rejected_received c)), (''classification_pending'', JInt (rc_classification_pending c)),
     (''modeled_command_loss'', JInt (rc_modeled_command_loss c)), (''forwarded_to_delay'', JInt (rc_forwarded_to_delay c)),
     (''disposition_pending'', JInt (rc_disposition_pending c)), (''test_discarded'', JInt (rc_test_discarded c)),
     (''discarded_old'', JInt (rc_discarded_old c))]"

definition bits_json :: "f64 \<Rightarrow> json" where
  "bits_json x = JString (hex_word x)"

definition row_json :: "lrow \<Rightarrow> json" where
  "row_json r = JObject [(''tick'', JInt (lr_tick r)), (''has_sample'', JInt (if lr_has_sample r then 1 else 0)),
     (''applied'', JInt (if lr_applied r then 1 else 0)), (''theta_bits'', bits_json (lr_theta r)),
     (''omega_bits'', bits_json (lr_omega r)), (''cmd_applied_bits'', bits_json (lr_cmd_applied r))]"

definition reply_json :: "reply \<Rightarrow> json" where
  "reply_json a = JObject [(''tick'', JInt (rp_tick a)), (''veh_tick'', JInt (rp_veh_tick a)),
     (''t_sensor_send_ns'', JInt (rp_sensor_send_ns a)), (''t_veh_send_ns'', JInt (rp_veh_send_ns a)),
     (''delta'', JFloat (rp_delta a)), (''status'', JInt (rp_status a)), (''staleness'', JInt (rp_staleness a))]"

definition stream_json :: "int \<Rightarrow> u64 \<Rightarrow> int \<Rightarrow> splitmix \<Rightarrow> json" where
  "stream_json i start draws g = JObject [(''index'', JInt i), (''start_state'', JString (hex_word start)),
     (''final_state'', JString (hex_word (sm_state g))), (''draws'', JInt draws)]"

text \<open>The names of the two reason enumerations; a value that is none of theirs raises.\<close>

definition enum_name :: "(int \<times> string) list \<Rightarrow> int \<Rightarrow> json result" where
  "enum_name names n =
     (case map_of names n of None \<Rightarrow> Inl (ValueError ''is not a valid enumeration value'') | Some s \<Rightarrow> Inr (JString s))"

definition SIM_REASON_NAMES :: "(int \<times> string) list" where
  "SIM_REASON_NAMES = [(0, ''SIM_NONE''), (1, ''SIM_HORIZON''), (2, ''SIM_LOC_ANGLE''), (3, ''SIM_LOC_NONFINITE''),
     (4, ''SIM_VEHICLE_TERMINAL''), (6, ''SIM_PEER_LOST'')]"

definition REASON_NAMES :: "(int \<times> string) list" where
  "REASON_NAMES = [(0, ''NONE''), (1, ''STABILIZED''), (2, ''DIVERGED''), (3, ''GROUND_ABORT''), (4, ''SENSOR_LOST''),
     (5, ''PEER_LOST''), (6, ''SIGNAL''), (7, ''NOT_SETTLED''), (8, ''INTERNAL'')]"

definition state_json :: "truth_state \<Rightarrow> json" where
  "state_json t = JObject [(''theta_bits'', bits_json (truth_theta t)), (''omega_bits'', bits_json (truth_omega t))]"

definition parameters_json :: "scenario \<Rightarrow> json" where
  "parameters_json sc = JObject [(''J'', JFloat J_inertia), (''F'', JFloat (f_lit 60 1)), (''L'', JFloat (f_lit 45 100)),
     (''FL'', JFloat FL), (''k_a'', JFloat (k_a environment_fixed)), (''delta_max'', JFloat DELTA_MAX),
     (''dt_bits'', bits_json DT), (''p_up'', JFloat (sc_loss_up sc)), (''p_down'', JFloat (sc_loss_down sc))]"

definition optional_json :: "int option \<Rightarrow> json" where
  "optional_json x = (case x of None \<Rightarrow> JNull | Some n \<Rightarrow> JInt n)"

text \<open>The report of a run that ended in \<open>s\<close>; \<open>error\<close> is the message of what it raised.\<close>

definition lock_report :: "scenario \<Rightarrow> int \<Rightarrow> nat \<Rightarrow> lock \<Rightarrow> json \<Rightarrow> json result" where
  "lock_report sc seed delay_ticks s error =
     rbind (stream_state seed ''link.loss.up'') (\<lambda>up.
     rbind (stream_state seed ''link.loss.down'') (\<lambda>down.
     rbind (enum_name SIM_REASON_NAMES (lk_final_reason s)) (\<lambda>reason_name.
     rbind (case lk_vehicle_seen s of None \<Rightarrow> Inr JNull | Some r \<Rightarrow> enum_name REASON_NAMES r) (\<lambda>seen_name.
       Inr (JObject
         [(''mode'', JString ''lockstep''), (''seed'', JInt seed), (''delay_ticks'', JInt (int delay_ticks)),
          (''ticks_declared'', JInt (sc_ticks sc)), (''ticks_resolved'', JInt (sc_ticks sc)),
          (''rate_hz'', JFloat (f_lit 500 1)), (''period_ns'', JInt 2000000), (''latency_roundtrip_us'', JNull),
          (''terminal_handshake'', JString ''not applicable in lockstep''),
          (''rows'', JList (map row_json (lk_rows s))), (''actuator_replies'', JList (map reply_json (lk_replies s))),
          (''transmission'', sender_json (lk_up s)), (''actuator_receipt'', receipt_json (lk_down s)),
          (''sim_reason'', JInt (lk_final_reason s)), (''sim_reason_name'', reason_name),
          (''vehicle_reason_seen'', optional_json (lk_vehicle_seen s)), (''vehicle_reason_seen_name'', seen_name),
          (''error'', error), (''parameters'', parameters_json sc), (''initial_state'', state_json (sc_initial sc)),
          (''final_state'', state_json (lk_truth s)),
          (''rng'', JObject [(''seed'', JInt seed), (''streams'', JObject
             [(''link.loss.up'', stream_json 0 up (lk_draws s) (lk_stream_up s)),
              (''link.loss.down'', stream_json 1 down (lk_draws s) (lk_stream_down s))])])])))))"

section \<open>Balanced counters are accepted\<close>

lemma counter_JObject: "counter (JObject d) k = (case map_of d k of Some (JInt n) \<Rightarrow> if 0 \<le> n then Some n else None | _ \<Rightarrow> None)"
  by (simp add: counter_def)

lemma sender_json_accepted:
  assumes "sender_balanced u"
  shows "sender_errors (sender_json u) = [] \<and> n_of (sender_json u) ''generated'' = sn_generated u"
proof -
  have "0 \<le> sn_generated u" "0 \<le> sn_send_attempts u" "0 \<le> sn_transmitted u" "sn_send_pending u = 0"
    using assms by (auto simp: sender_balanced_def)
  then have pos: "counters_ok (sender_json u) SEND_FIELDS"
    using assms by (simp add: counters_ok_def SEND_FIELDS_def sender_json_def counter_JObject sender_balanced_def)
  show ?thesis
    using assms pos by (simp add: sender_errors_def n_of_def sender_json_def counter_JObject sender_balanced_def)
qed

lemma receipt_json_accepted:
  assumes "receipt_balanced 0 c"
  shows "receiver_errors (receipt_json c) False = []"
proof -
  have "0 \<le> rc_received c" "0 \<le> rc_logical_received c" "0 \<le> rc_received_raw c"
    using assms by (auto simp: receipt_balanced_def)
  then have pos: "counters_ok (receipt_json c) (RECEIVE_FIELDS @ receive_extra False)"
    using assms
    by (simp add: counters_ok_def RECEIVE_FIELDS_def receive_extra_def receipt_json_def counter_JObject receipt_balanced_def)
  show ?thesis
    using assms pos
    by (simp add: receiver_errors_def n_of_def RECEIVE_FIELDS_def receive_extra_def receipt_json_def counter_JObject
        receipt_balanced_def)
qed

section \<open>The random streams are where the draws put them\<close>

definition streams_at :: "u64 \<Rightarrow> u64 \<Rightarrow> int \<Rightarrow> lock \<Rightarrow> bool" where
  "streams_at up down ahead s \<longleftrightarrow>
     sm_state (lk_stream_up s) = up + of_int (lk_draws s) * GOLDEN \<and>
     sm_state (lk_stream_down s) = down + of_int (lk_draws s) * GOLDEN \<and>
     lk_draws s = sn_generated (lk_up s) + ahead"

definition stream_part :: "lock \<Rightarrow> splitmix \<times> splitmix \<times> int \<times> int" where
  "stream_part s = (lk_stream_up s, lk_stream_down s, lk_draws s, sn_generated (lk_up s))"

lemma streams_at_cong: "stream_part s = stream_part t \<Longrightarrow> streams_at up down p s = streams_at up down p t"
  by (simp add: stream_part_def streams_at_def)

lemma sensor_frame_streams: "keeps (\<lambda>s. stream_part s = c) (sensor_frame crc sc tick up_drop)"
  unfolding sensor_frame_def
  by (intro steps_intro keeps_modify) (auto simp: stream_part_def intro!: steps_intro keeps_modify split: option.split)

lemma lock_sample_streams:
  assumes "lock_sample crc sc tick s = (t, Inr a)" "streams_at up down 0 s"
  shows "streams_at up down 1 t"
proof -
  obtain raw_up s1 raw_down s2 s3 frame ud where run:
    "draw_up (sc_loss_up sc) s = (s1, Inr raw_up)" "draw_down (sc_loss_down sc) s1 = (s2, Inr raw_down)"
    "s3 = s2\<lparr>lk_draws := lk_draws s2 + 1,
       lk_up := (lk_up s2)\<lparr>sn_sample_loss := sn_sample_loss (lk_up s2) + (if ud then 1 else 0)\<rparr>\<rparr>"
    "sensor_frame crc sc tick ud s3 = (t, Inr frame)"
    using assms(1)
    by (auto simp: lock_sample_def sbind_Inr Let_def modify_def gets_def lift_result_def)
  have "streams_at up down 1 s3"
    using run(1-3) assms(2)
    by (auto simp: streams_at_def draw_up_def draw_down_def draw_drop_Inr splitmix_advance_def algebra_simps
        split: sum.splits prod.splits)
  moreover have "stream_part t = stream_part s3" using keepsD [OF sensor_frame_streams _ run(4)] by blast
  ultimately show ?thesis using streams_at_cong by blast
qed

lemma attempts_streams: "keeps (\<lambda>s. stream_part s = c) (attempts crc fs da script tick frame as logged)"
proof (induction as arbitrary: logged)
  case (Cons a as)
  have "stream_part t = stream_part s" if "same_but_receipt s t" for s t
    using that by (cases s; cases t) (simp add: same_but_receipt_def stream_part_def)
  then have "keeps (\<lambda>s. stream_part s = c) (await_reply crc da tick evs)" for evs
    by (intro keepsI) (metis await_reply_frame)
  then show ?case
    unfolding attempts.simps Let_def
    by (intro steps_intro keeps_modify Cons.IH)
      (simp_all add: send_frame_def stream_part_def count_sent_def count_attempt_def Let_def)
qed (simp add: steps_intro)

lemma lock_exchange_streams:
  assumes "lock_exchange crc fs da script tick sample s = (t, Inr b)" "streams_at up down 1 s"
  shows "streams_at up down 0 t"
proof -
  obtain ud dd d sr frame where sample: "sample = (ud, dd, d, sr, frame)" by (cases sample) auto
  let ?s = "s\<lparr>lk_up := count_generated tick (lk_up s)\<rparr>"
  obtain u ans where u: "attempts crc fs da script tick frame [0..<26] False ?s = (u, Inr ans)"
    "(case ans of None \<Rightarrow> raise (TimeoutError ''no actuator reply after 25 retries'')
      | Some a \<Rightarrow> (\<lambda>s. case advance_model sr d a (apply_reply tick ud dd a s) of (s', b) \<Rightarrow> (s', Inr b))) u = (t, Inr b)"
    using assms(1) sample by (auto simp: lock_exchange_def sbind_Inr modify_def simp del: upt_rec_numeral)
  have "\<exists>a. t = fst (advance_model sr d a (apply_reply tick ud dd a u))"
    using u(2) by (cases ans) (auto simp: lift_result_def split: prod.splits intro: exI [where x = "the ans"])
  then obtain a where a: "t = fst (advance_model sr d a (apply_reply tick ud dd a u))" by blast
  have "stream_part u = stream_part ?s" using keepsD [OF attempts_streams _ u(1)] by blast
  moreover have "stream_part t = stream_part u"
    by (simp add: a stream_part_def advance_model_def apply_reply_def Let_def split: option.split prod.split)
  moreover have "streams_at up down 0 ?s"
    using assms(2) by (simp add: streams_at_def count_generated_def)
  ultimately show ?thesis using streams_at_cong by metis
qed

lemma lock_loop_streams:
  assumes "lock_loop crc sc fs da script ts s = (t, Inr u)" "streams_at up down 0 s"
  shows "streams_at up down 0 t"
  using assms
proof (induction ts arbitrary: s)
  case Nil
  then show ?case by (simp add: lift_result_def)
next
  case (Cons k ks)
  obtain s1 b where s1: "lock_tick crc sc fs da (script k) k s = (s1, Inr b)"
    "(if b then lock_loop crc sc fs da script ks else give ()) s1 = (t, Inr u)"
    using Cons.prems(1) by (auto simp: sbind_Inr)
  obtain s2 sample where "lock_sample crc sc k s = (s2, Inr sample)"
    "lock_exchange crc fs da (script k) k sample s2 = (s1, Inr b)"
    using s1(1) by (auto simp: lock_tick_def sbind_Inr)
  then have "streams_at up down 0 s1"
    using lock_exchange_streams [OF _ lock_sample_streams] Cons.prems(2) by blast
  then show ?case using s1(2) Cons.IH by (cases b) (auto simp: lift_result_def)
qed

section \<open>The reconciliation accepts the simulator's report\<close>

lemma stream_json_items: "item (stream_json i start n g) ''index'' = Inr (JInt i)"
  "item (stream_json i start n g) ''draws'' = Inr (JInt n)"
  "item (stream_json i start n g) ''start_state'' = Inr (JString (hex_word start))"
  "item (stream_json i start n g) ''final_state'' = Inr (JString (hex_word (sm_state g)))"
  by (simp_all add: stream_json_def item_def)

lemma lock_initial_streams:
  assumes "lock_initial sc seed delay = Inr s" "stream_state seed ''link.loss.up'' = Inr u"
    "stream_state seed ''link.loss.down'' = Inr d"
  shows "streams_at u d 0 s"
  using assms by (auto simp: lock_initial_def streams_at_def sender_counts_def splitmix_init_def)

text \<open>C22. Whatever the socket did and however the lockstep run ended, the counters the simulator reports
  pass the reconciliation's checks of its owner; and if nothing was raised, so do the random streams:
  their reported final states are the start states advanced by as many draws as samples were generated.\<close>

theorem lock_report_accepted:
  assumes "lock_execute crc sc seed delay fail_sensor drop_actuator script = Inr (s, r)"
    and "lock_report sc seed delay s error = Inr rep"
  shows "\<exists>tx rx. item rep ''transmission'' = Inr tx \<and> item rep ''actuator_receipt'' = Inr rx \<and>
    sender_errors tx = [] \<and> receiver_errors rx False = [] \<and>
    (case r of Inl e \<Rightarrow> True
     | Inr u \<Rightarrow> stream_mismatch rep 0 ''link.loss.up'' (n_of tx ''generated'') = Inr False \<and>
         stream_mismatch rep 1 ''link.loss.down'' (n_of tx ''generated'') = Inr False)"
proof -
  obtain s0 where s0: "lock_initial sc seed delay = Inr s0"
    "lock_loop crc sc fail_sensor drop_actuator script [0..sc_ticks sc - 1] s0 = (s, r)"
    using assms(1) by (auto simp: lock_execute_def rbind_eq_Inr)
  have bal: "sender_balanced (lk_up s)" "receipt_balanced 0 (lk_down s)"
    using keepsD [OF lock_loop_balanced lock_initial_balanced [OF s0(1)] s0(2)] by (simp_all add: lock_balanced_def)
  obtain up down where ud: "stream_state seed ''link.loss.up'' = Inr up" "stream_state seed ''link.loss.down'' = Inr down"
    using lockstep_streams by blast
  obtain a b where rep: "item rep ''transmission'' = Inr (sender_json (lk_up s))"
    "item rep ''actuator_receipt'' = Inr (receipt_json (lk_down s))" "item rep ''seed'' = Inr (JInt seed)"
    "items rep [''rng'', ''streams'', ''link.loss.up''] = Inr (stream_json 0 up (lk_draws s) (lk_stream_up s))"
    "items rep [''rng'', ''streams'', ''link.loss.down''] = Inr (stream_json 1 down (lk_draws s) (lk_stream_down s))"
    using assms(2) ud by (auto simp: lock_report_def rbind_eq_Inr item_def)
  have stream: "stream_mismatch rep 0 ''link.loss.up'' (sn_generated (lk_up s)) = Inr False \<and>
      stream_mismatch rep 1 ''link.loss.down'' (sn_generated (lk_up s)) = Inr False" if "r = Inr ()"
  proof -
    have "streams_at up down 0 s"
      using lock_loop_streams [OF _ lock_initial_streams [OF s0(1) ud]] s0(2) that by blast
    then have "sm_state (lk_stream_up s) = up + GOLDEN * word_of_int (lk_draws s)"
      "sm_state (lk_stream_down s) = down + GOLDEN * word_of_int (lk_draws s)" "lk_draws s = sn_generated (lk_up s)"
      by (simp_all add: streams_at_def mult.commute)
    then show ?thesis
      by (simp add: stream_mismatch_def rep ud int_operand_def stream_json_items int_base16_hex_word
          either_def differs_def del: items.simps)
  qed
  show ?thesis
    using rep(1,2) bal sender_json_accepted [OF bal(1)] receipt_json_accepted [OF bal(2)] stream
    by (cases r) auto
qed

text \<open>A vehicle that never answers: the run times out, and its report is still accepted.\<close>

definition silent_script :: "int \<Rightarrow> nat \<Rightarrow> attempt_script" where
  "silent_script tick a = \<lparr>at_send = Sent 58, at_events = []\<rparr>"

definition unanswered :: "lock \<Rightarrow> bool" where
  "unanswered s \<longleftrightarrow> lk_final_reason s = SIM_PEER_LOST \<and> lk_vehicle_seen s = None"

lemma silent_attempts:
  "unanswered s \<Longrightarrow> \<exists>t. attempts crc fs da (silent_script tick) tick frame as logged s = (t, Inr None) \<and> unanswered t"
proof (induction as arbitrary: s logged)
  case (Cons a as)
  have "unanswered (send_frame a frame b logged s)" for b using Cons.prems by (simp add: unanswered_def send_frame_def)
  then show ?case using Cons.IH by (simp add: silent_script_def [of tick a] sbind_def [of "give None"] modify_def lift_result_def Let_def)
qed (simp add: lift_result_def)

lemma silent_run:
  "\<exists>s r. lock_execute crc example_scenario seed delay fs da silent_script = Inr (s, r) \<and> unanswered s"
proof -
  obtain s0 where s0: "lock_initial example_scenario seed delay = Inr s0" "unanswered s0"
    using lockstep_streams [of seed] by (auto simp: lock_initial_def unanswered_def)
  obtain s1 x where s1: "lock_sample crc example_scenario 0 s0 = (s1, x)" by (cases "lock_sample crc example_scenario 0 s0")
  have "keeps unanswered (lock_sample crc example_scenario 0)"
    by (rule lock_sample_keeps) (simp_all add: unanswered_def)
  from keepsD [OF this s0(2) s1] have "unanswered s1" .
  then have "unanswered (s1\<lparr>lk_up := count_generated 0 (lk_up s1)\<rparr>)" by (simp add: unanswered_def)
  note silent = silent_attempts [OF this]
  have "\<exists>t e. lock_tick crc example_scenario fs da (silent_script 0) 0 s0 = (t, Inl e) \<and> unanswered t"
  proof (cases x)
    case (Inl e)
    then show ?thesis using s1 \<open>unanswered s1\<close> by (simp add: lock_tick_def sbind_def)
  next
    case (Inr sample)
    obtain ud dd d sr frame where sample: "sample = (ud, dd, d, sr, frame)" by (cases sample) auto
    obtain t where "attempts crc fs da (silent_script 0) 0 frame [0..<26] False
        (s1\<lparr>lk_up := count_generated 0 (lk_up s1)\<rparr>) = (t, Inr None)" "unanswered t"
      using silent by blast
    then have "lock_exchange crc fs da (silent_script 0) 0 sample s1 =
        (t, Inl (TimeoutError ''no actuator reply after 25 retries'')) \<and> unanswered t"
      by (simp add: lock_exchange_def sample sbind_def modify_def lift_result_def del: upt_rec_numeral)
    then show ?thesis using s1 Inr by (auto simp: lock_tick_def sbind_def)
  qed
  then obtain t e where t: "lock_tick crc example_scenario fs da (silent_script 0) 0 s0 = (t, Inl e)" "unanswered t"
    by blast
  have "[0..sc_ticks example_scenario - 1] = 0 # [1..9]" by (simp add: example_scenario_def upto_rec1)
  then have "lock_loop crc example_scenario fs da silent_script [0..sc_ticks example_scenario - 1] s0 = (t, Inl e)"
    using t by (simp add: sbind_def)
  then show ?thesis using s0 t by (simp add: lock_execute_def)
qed

lemma lock_report_accepted_witness:
  "\<exists>s r rep tx rx. lock_execute (\<lambda>_. 0) example_scenario 1 1 None None silent_script = Inr (s, r) \<and>
    lock_report example_scenario 1 1 s JNull = Inr rep \<and> item rep ''transmission'' = Inr tx \<and>
    item rep ''actuator_receipt'' = Inr rx \<and> sender_errors tx = [] \<and> receiver_errors rx False = []"
proof -
  obtain s r where s: "lock_execute (\<lambda>_. 0) example_scenario 1 1 None None silent_script = Inr (s, r)" "unanswered s"
    using silent_run by blast
  obtain rep where rep: "lock_report example_scenario 1 1 s JNull = Inr rep"
    using lockstep_streams [of 1] s(2)
    by (auto simp: lock_report_def unanswered_def enum_name_def SIM_REASON_NAMES_def SIM_PEER_LOST_def)
  from lock_report_accepted [OF s(1) rep] show ?thesis using s(1) rep by blast
qed

end
