(* ===== verification/Latency.thy ===== *)
theory Latency
  imports Reconcile
begin

text \<open>
  The audit of a free-running vehicle's measurement (\<open>scripts/latency.py\<close>): \<open>validate\<close> holds the
  vehicle's summary against its control records, \<open>validate_roundtrip\<close> holds the simulator's round
  trips against their statistics, and \<open>recorded_statistics\<close> recomputes the histogram's percentiles.
\<close>

section \<open>Sequences of checks\<close>

fun run_checks :: "(string \<times> bool result) list \<Rightarrow> (audit, unit) act" where
  "run_checks [] = give ()"
| "run_checks ((name, cond) # cs) = sbind (check name cond) (\<lambda>_. run_checks cs)"

fun all_of :: "bool result list \<Rightarrow> bool result" where
  "all_of [] = Inr True"
| "all_of (c # cs) = both c (all_of cs)"

definition natural_eq :: "json \<Rightarrow> string list \<Rightarrow> int \<Rightarrow> bool result" where
  "natural_eq v ks n = rbind (natural_at v ks) (\<lambda>m. Inr (m = n))"

lemma check_clean:
  assumes "check name c s = (t, Inr u)" "au_errors t = []"
  shows "c = Inr True \<and> au_errors s = []"
proof -
  obtain b where b: "c = Inr b" using assms(1) by (cases c) (simp_all add: check_def sbind_def lift_result_def)
  then have "au_errors t = au_errors s @ (if b then [] else [name])"
    using assms(1) by (auto simp: check_def modify_def lift_result_def)
  then show ?thesis using assms(2) b by (simp split: if_splits)
qed

lemma run_checks_clean:
  "run_checks cs s = (t, Inr u) \<Longrightarrow> au_errors t = [] \<Longrightarrow> au_errors s = [] \<and> list_all (\<lambda>(n, c). c = Inr True) cs"
proof (induction cs arbitrary: s)
  case (Cons x cs)
  obtain name cond where x: "x = (name, cond)" by (cases x)
  obtain s1 u1 where s1: "check name cond s = (s1, Inr u1)" "run_checks cs s1 = (t, Inr u)"
    using Cons.prems(1) by (auto simp: x sbind_Inr)
  from Cons.IH [OF s1(2) Cons.prems(2)] check_clean [OF s1(1)] show ?case by (simp add: x)
qed (simp add: lift_result_def)

lemma all_of_True [simp]: "all_of cs = Inr True \<longleftrightarrow> list_all (\<lambda>c. c = Inr True) cs"
  by (induction cs) (auto simp: both_def rbind_eq_Inr)

lemma both_True [simp]: "both a b = Inr True \<longleftrightarrow> a = Inr True \<and> b = Inr True"
  by (auto simp: both_def rbind_eq_Inr)

section \<open>The vehicle's measurement\<close>

definition DISPOSITIONS :: "string list" where
  "DISPOSITIONS = [''consumed'', ''discarded_old'', ''discarded_superseded'', ''discarded_nonfinite'',
     ''discarded_skew_excess'', ''discarded_duplicate'', ''discarded_tick_conflict'', ''discarded_invalid'', ''future_expired'']"

definition BAD :: "string list" where
  "BAD = [''bad_sync'', ''bad_version'', ''bad_type'', ''bad_length'', ''bad_crc'']"

definition LADDER :: "string list" where
  "LADDER = [''fresh'', ''coast'', ''neutral'', ''lost'']"

definition COUNTERS :: "string list" where
  "COUNTERS = [''received''] @ DISPOSITIONS @ BAD @ LADDER @ [''actuator_transmitted'', ''actuator_tx_fail'', ''served'']"

definition sum_of :: "json \<Rightarrow> string list \<Rightarrow> int" where
  "sum_of c ks = sum_list (map (n_of c) ks)"

definition count_of :: "('a \<Rightarrow> bool) \<Rightarrow> 'a list \<Rightarrow> int" where
  "count_of p xs = int (length (filter p xs))"

definition window_checks :: "json \<Rightarrow> control list \<Rightarrow> int \<Rightarrow> int \<Rightarrow> (string \<times> bool result) list" where
  "window_checks summary controls total_cycles cycles =
     [(''actual recorded window'', natural_eq summary [''cycles''] cycles),
      (''recording count'', both (Inr (int (length controls) = total_cycles))
         (natural_eq summary [''telemetry'', ''records''] total_cycles)),
      (''recording drops'', both (natural_eq summary [''telemetry'', ''dropped''] 0)
         (Inr (list_all (\<lambda>r. ct_drops r = 0) controls))),
      (''record ownership'', all_of (map (\<lambda>k. natural_eq summary [''events'', k] total_cycles)
         [''episode_transitions'', ''record_attempts'', ''records_pushed'']))]"

text \<open>The recorded window: what was parked at its start, received and disposed of balances.\<close>

definition validate_window :: "json \<Rightarrow> json \<Rightarrow> int \<Rightarrow> int \<Rightarrow> (audit, unit) act" where
  "validate_window rec_link initial final cycles =
     (if cycles \<noteq> 0 then
        sbind (lift_result (natural initial)) (\<lambda>parked.
          run_checks [(''T4'', Inr (n_of rec_link ''received'' + parked = sum_of rec_link DISPOSITIONS + final))])
      else
        sbind (modify (\<lambda>s. s\<lparr>au_identities := au_identities s @ [(''T4'', None)]\<rparr>)) (\<lambda>_.
          run_checks [(''unopened window'',
            Inr (initial = JNull \<and> list_all (\<lambda>k. n_of rec_link k = 0) COUNTERS))]))"

definition ladder_checks :: "json \<Rightarrow> json \<Rightarrow> int \<Rightarrow> int \<Rightarrow> int \<Rightarrow> (string \<times> bool result) list" where
  "ladder_checks link rec_link final total_cycles cycles =
     [(''E3'', Inr (n_of link ''received'' = sum_of link DISPOSITIONS + final)),
      (''E2'', Inr (sum_of link LADDER = total_cycles)),
      (''recorded ladder'', Inr (sum_of rec_link LADDER = cycles))]"

text \<open>The terminal cycle and its first send.\<close>

definition first_send_ok :: "json \<Rightarrow> json \<Rightarrow> control list \<Rightarrow> int \<Rightarrow> bool result" where
  "first_send_ok first_ok terminal_part controls terminal_cycle =
     (if terminal_cycle \<noteq> 0 then
        (case first_ok of
           JBool b \<Rightarrow>
             (if controls = [] then Inl (IndexError ''list index out of range'')
              else Inr (b = flag_set (ct_flags (last controls)) 1 \<and>
                (if b then 1 else 0) \<le> n_of terminal_part ''down_transmitted'' \<and>
                (if b then 0 else 1) \<le> n_of terminal_part ''down_tx_fail''))
         | _ \<Rightarrow> Inr False)
      else Inr (first_ok = JNull))"

definition terminal_checks :: "json \<Rightarrow> json \<Rightarrow> control list \<Rightarrow> int \<Rightarrow> (string \<times> bool result) list" where
  "terminal_checks summary terminal_part controls terminal_cycle =
     [(''terminal cycle'', Inr (terminal_cycle = count_of (\<lambda>r. ct_state r = 3) controls \<and> terminal_cycle \<le> 1)),
      (''terminal partition'',
         rbind (natural_at terminal_part [''down_attempts'']) (\<lambda>a.
         rbind (natural_at terminal_part [''down_transmitted'']) (\<lambda>t.
         rbind (natural_at terminal_part [''down_tx_fail'']) (\<lambda>f.
           Inr (a = t + f \<and> (if terminal_cycle \<noteq> 0 then 1 \<le> a else a = 0))))))]"

definition actuator_checks :: "json \<Rightarrow> json \<Rightarrow> int \<Rightarrow> (string \<times> bool result) list" where
  "actuator_checks summary link ordinary =
     [(''E1'', Inr (n_of link ''actuator_transmitted'' + n_of link ''actuator_tx_fail'' = ordinary)),
      (''actuator totals'', rbind (item summary ''actuator'') (\<lambda>v. Inr (py_eq v (JObject
         [(''generated'', JInt ordinary), (''transmitted'', JInt (n_of link ''actuator_transmitted'')),
          (''tx_fail'', JInt (n_of link ''actuator_tx_fail''))]))))]"

section \<open>Record order\<close>

fun record_ticks :: "json \<Rightarrow> int \<Rightarrow> int \<Rightarrow> control list \<Rightarrow> bool result" where
  "record_ticks summary base n [] = Inr True"
| "record_ticks summary base n (r # rs) =
     (if ct_tick r \<noteq> base + n then Inr False
      else
        rbind (item summary ''origin_ns'') (\<lambda>origin. rbind (py_add origin (JInt (n * 2000000))) (\<lambda>deadline.
          if py_eq (JInt (ct_deadline_ns r)) deadline then record_ticks summary base (n + 1) rs else Inr False)))"

definition stamps_ordered :: "control \<Rightarrow> bool" where
  "stamps_ordered r \<longleftrightarrow> 0 \<le> ct_woke_ns r \<and> ct_woke_ns r \<le> ct_rx_ns r \<and> ct_rx_ns r \<le> ct_tx_ns r \<and> ct_tx_ns r \<le> ct_done_ns r"

fun receives_bounded :: "nat \<Rightarrow> control list \<Rightarrow> bool" where
  "receives_bounded n [] = True"
| "receives_bounded n (r # rs) \<longleftrightarrow>
     0 \<le> ct_rx_count r \<and> ct_rx_count r \<le> (if n = 0 then 9 else 8) \<and> receives_bounded (Suc n) rs"

text \<open>The observation held: its tick and send stamp, the last ones admitted.\<close>

fun observation_history :: "int option \<Rightarrow> int \<Rightarrow> int \<Rightarrow> control list \<Rightarrow> bool" where
  "observation_history held stamp n [] = True"
| "observation_history held stamp n (r # rs) =
     (let fresh = flag_set (ct_flags r) 0;
          ok = (fresh \<longrightarrow> (case held of None \<Rightarrow> True | Some t \<Rightarrow> t < ct_sensor_tick r) \<and> ct_sensor_tick r \<le> ct_tick r);
          held' = (if fresh then Some (ct_sensor_tick r) else held);
          stamp' = (if fresh then ct_sensor_send_ns r else stamp);
          age = (case held' of None \<Rightarrow> n + 1 | Some t \<Rightarrow> ct_tick r - t);
          now = (ct_staleness r = min 0xffffffff age \<and>
                 ct_sensor_tick r = (case held' of None \<Rightarrow> 0xffffffffffffffff | Some t \<Rightarrow> t) \<and> ct_sensor_send_ns r = stamp')
      in observation_history held' stamp' (n + 1) rs \<and> ok \<and> now)"

definition record_checks :: "json \<Rightarrow> int \<Rightarrow> control list \<Rightarrow> (string \<times> bool result) list" where
  "record_checks summary base controls =
     [(''record ticks'', record_ticks summary base 0 controls),
      (''timestamp order'', Inr (list_all stamps_ordered controls)),
      (''receive bounds'', Inr (receives_bounded 0 controls)),
      (''admitted observation history'', Inr (observation_history None 0 0 controls))]"

section \<open>Populations\<close>

definition rung :: "control \<Rightarrow> nat" where
  "rung r = (if 21 \<le> ct_staleness r then 3 else if flag_set (ct_flags r) 0 then 0 else if ct_staleness r \<le> 8 then 1 else 2)"

definition is_served :: "control \<Rightarrow> bool" where
  "is_served r \<longleftrightarrow> flag_set (ct_flags r) 0 \<and> flag_set (ct_flags r) 1"

definition population_checks :: "string \<Rightarrow> json \<Rightarrow> control list \<Rightarrow> int \<Rightarrow> (string \<times> bool result) list" where
  "population_checks name c rows terminal_rx =
     (let total_of = (\<lambda>f. sum_list (map f rows))
      in [(name @ '' ladder flags'',
             Inr (map (\<lambda>k. count_of (\<lambda>r. rung r = k) rows) [0..<4] = map (n_of c) LADDER)),
          (name @ '' consumption'', Inr (n_of c ''consumed'' = count_of (\<lambda>r. flag_set (ct_flags r) 0) rows)),
          (name @ '' served'', Inr (n_of c ''served'' = count_of is_served rows)),
          (name @ '' ordinary send'',
             Inr (n_of c ''actuator_transmitted'' = count_of (\<lambda>r. ct_state r \<noteq> 3 \<and> flag_set (ct_flags r) 1) rows)),
          (name @ '' ordinary failure'',
             Inr (n_of c ''actuator_tx_fail'' = count_of (\<lambda>r. ct_state r \<noteq> 3 \<and> \<not> flag_set (ct_flags r) 1) rows)),
          (name @ '' discarded_old'', Inr (n_of c ''discarded_old'' = total_of ct_discarded_old)),
          (name @ '' discarded_superseded'', Inr (n_of c ''discarded_superseded'' = total_of ct_discarded_superseded)),
          (name @ '' discarded_other'',
             Inr (n_of c ''discarded_nonfinite'' + n_of c ''discarded_skew_excess'' = total_of ct_discarded_other)),
          (name @ '' raw receipt'',
             Inr (total_of ct_rx_count = n_of c ''received'' + sum_of c BAD + terminal_rx))])"

text \<open>The raw receipt count of the terminal part is read just before its check, after the others.\<close>

definition validate_population :: "json \<Rightarrow> string \<Rightarrow> string \<Rightarrow> json \<Rightarrow> control list \<Rightarrow> (audit, unit) act" where
  "validate_population terminal_part key name c rows =
     sbind (run_checks (take 8 (population_checks name c rows 0))) (\<lambda>_.
     sbind (lift_result (natural_at terminal_part [key])) (\<lambda>terminal_rx.
       run_checks (List.drop 8 (population_checks name c rows terminal_rx))))"

definition interval_checks :: "json \<Rightarrow> string \<Rightarrow> int list \<Rightarrow> (string \<times> bool result) list" where
  "interval_checks d key intervals =
     [(key @ '' population'', natural_eq d [''count''] (int (length intervals))),
      (key @ '' formula'', both (natural_eq d [''sum_ns''] (sum_list intervals))
         (Inr (list_all (\<lambda>v. 0 \<le> v \<and> v \<le> 10000000000) intervals))),
      (key @ '' drops'', natural_eq d [''dropped''] 0)]"

definition served_interval :: "string \<Rightarrow> control \<Rightarrow> int" where
  "served_interval key r =
     (if key = ''latency_us'' then ct_tx_ns r - ct_sensor_send_ns r
      else if key = ''uplink_wait_us'' then ct_rx_ns r - ct_sensor_send_ns r
      else ct_tx_ns r - ct_rx_ns r)"

fun validate_intervals :: "json \<Rightarrow> control list \<Rightarrow> string list \<Rightarrow> (audit, unit) act" where
  "validate_intervals summary served [] = give ()"
| "validate_intervals summary served (key # keys) =
     sbind (lift_result (item summary key)) (\<lambda>d.
     sbind (run_checks (interval_checks d key (map (served_interval key) served))) (\<lambda>_.
       validate_intervals summary served keys))"

definition histogram_checks :: "json \<Rightarrow> json \<Rightarrow> int \<Rightarrow> (string \<times> bool result) list" where
  "histogram_checks summary rec_link cycles =
     [(''T1'', rbind (natural_at summary [''jitter_us'', ''count'']) (\<lambda>j.
         rbind (natural_at summary [''exec_us'', ''count'']) (\<lambda>x.
           if j \<noteq> x then Inr False
           else rbind (item summary ''cycles'') (\<lambda>c.
             if \<not> py_eq (JInt x) c \<or> \<not> py_eq c (JInt cycles) then Inr False
             else natural_eq summary [''dropped_samples''] 0)))),
      (''T2'', rbind (items summary [''latency_us'', ''count'']) (\<lambda>v. Inr (py_eq v (JInt (n_of rec_link ''served''))))),
      (''T3'', natural_eq summary [''discard_age_us'', ''count''] (sum_of rec_link
         [''discarded_old'', ''discarded_superseded'', ''discarded_nonfinite'', ''discarded_skew_excess''])),
      (''discard histogram drops'', natural_eq summary [''discard_age_us'', ''dropped''] 0)] @
     (if cycles = 0 then [(''empty discard population'', natural_eq summary [''discard_age_us'', ''sum_ns''] 0)] else [])"

text \<open>\<open>n / d\<close> of two naturals.\<close>

definition ratio :: "int \<Rightarrow> int \<Rightarrow> f64 result" where
  "ratio n d =
     (let x = f_round False (nat n) (nat d) 0
      in if f_finite x then Inr x else Inl (OverflowError ''integer division result too large for a float''))"

definition validate_checks :: "json \<Rightarrow> control list \<Rightarrow> (audit, json \<times> int) act" where
  "validate_checks summary controls =
     sbind (lift_result (rbind (item summary ''mode'')
       (\<lambda>m. ensure (py_eq m (JString ''freerun'')) ''freerun mode required'' (Inr ())))) (\<lambda>_.
     sbind (lift_result (natural_at summary [''total_cycles''])) (\<lambda>total_cycles.
     sbind (lift_result (natural_at summary [''warmup''])) (\<lambda>warmup.
     let cycles = max 0 (total_cycles - warmup); window = List.drop (nat warmup) controls;
         served = filter is_served window in
     sbind (run_checks (window_checks summary controls total_cycles cycles)) (\<lambda>_.
     sbind (lift_result (item summary ''link'')) (\<lambda>link.
     sbind (lift_result (item summary ''link_recorded'')) (\<lambda>rec_link.
     sbind (lift_result (rbind (naturals link COUNTERS) (\<lambda>_. naturals rec_link COUNTERS))) (\<lambda>_.
     sbind (lift_result (natural_at summary [''future_parked_at_end''])) (\<lambda>final.
     sbind (lift_result (item summary ''future_parked_at_warmup'')) (\<lambda>initial.
     sbind (validate_window rec_link initial final cycles) (\<lambda>_.
     sbind (run_checks (ladder_checks link rec_link final total_cycles cycles)) (\<lambda>_.
     sbind (lift_result (item summary ''terminal'')) (\<lambda>terminal_part.
     sbind (lift_result (natural_at terminal_part [''cycle''])) (\<lambda>terminal_cycle.
     sbind (run_checks (terminal_checks summary terminal_part controls terminal_cycle)) (\<lambda>_.
     sbind (lift_result (item terminal_part ''first_tx_ok'')) (\<lambda>first_ok.
     sbind (run_checks [(''terminal first send'', first_send_ok first_ok terminal_part controls terminal_cycle)]) (\<lambda>_.
     sbind (run_checks (actuator_checks summary link (total_cycles - terminal_cycle))) (\<lambda>_.
     sbind (lift_result (natural_at summary [''episode'', ''tick_base''])) (\<lambda>base.
     sbind (run_checks (record_checks summary base controls)) (\<lambda>_.
     sbind (validate_population terminal_part ''up_received_raw'' ''episode'' link controls) (\<lambda>_.
     sbind (validate_population terminal_part ''up_received_raw_recorded'' ''recorded'' rec_link window) (\<lambda>_.
     sbind (note_value ''served_ns'' (JList (map (\<lambda>r. JInt (served_interval ''latency_us'' r)) served))) (\<lambda>_.
     sbind (validate_intervals summary served [''latency_us'', ''uplink_wait_us'', ''vehicle_compute_us'']) (\<lambda>_.
     sbind (run_checks (histogram_checks summary rec_link cycles)) (\<lambda>_.
       give (rec_link, cycles)))))))))))))))))))))))))"

text \<open>The coverages, over the recorded cycles.\<close>

definition validate_coverage :: "json \<Rightarrow> int \<Rightarrow> (audit, unit) act" where
  "validate_coverage rec_link cycles =
     (if cycles = 0 then give ()
      else
        sbind (lift_result (ratio (n_of rec_link ''consumed'') cycles)) (\<lambda>observation.
        sbind (note_value ''observation_coverage'' (JFloat observation)) (\<lambda>_.
        sbind (lift_result (ratio (n_of rec_link ''served'') cycles)) (\<lambda>coverage.
          note_value ''served_coverage'' (JFloat coverage)))))"

definition validate_body :: "json \<Rightarrow> control list \<Rightarrow> (audit, unit) act" where
  "validate_body summary controls =
     sbind (validate_checks summary controls) (\<lambda>(rec_link, cycles). validate_coverage rec_link cycles)"

text \<open>\<open>validate\<close>; an \<open>IndexError\<close> is evidence here.\<close>

definition measured_exn :: "exn \<Rightarrow> bool" where
  "measured_exn e \<longleftrightarrow> evidence_exn e \<or> (case e of IndexError m \<Rightarrow> True | _ \<Rightarrow> False)"

definition validate :: "json \<Rightarrow> control list \<Rightarrow> audit result" where
  "validate summary controls =
     (case validate_body summary controls audit_empty of
        (s, Inr u) \<Rightarrow> Inr s
      | (s, Inl e) \<Rightarrow>
          if measured_exn e then Inr (s\<lparr>au_errors := au_errors s @ [''incomplete or invalid measurement evidence'']\<rparr>)
          else Inl e)"

section \<open>The admitted observation, declaratively\<close>

definition admitted_record :: "control \<Rightarrow> bool" where
  "admitted_record r \<longleftrightarrow> flag_set (ct_flags r) 0"

definition last_admitted :: "control list \<Rightarrow> control option" where
  "last_admitted rs = (case filter admitted_record rs of [] \<Rightarrow> None | ys \<Rightarrow> Some (last ys))"

lemma last_admitted_snoc: "last_admitted (rs @ [r]) = (if admitted_record r then Some r else last_admitted rs)"
  by (cases "filter admitted_record rs") (simp_all add: last_admitted_def)

text \<open>A record shows the observation held at its cycle: its tick, its stamp and its age.\<close>

definition shows_held :: "int \<Rightarrow> control option \<Rightarrow> control \<Rightarrow> bool" where
  "shows_held n held r \<longleftrightarrow>
     ct_sensor_tick r = (case held of None \<Rightarrow> 0xffffffffffffffff | Some h \<Rightarrow> ct_sensor_tick h) \<and>
     ct_sensor_send_ns r = (case held of None \<Rightarrow> 0 | Some h \<Rightarrow> ct_sensor_send_ns h) \<and>
     ct_staleness r = min 0xffffffff (case held of None \<Rightarrow> n + 1 | Some h \<Rightarrow> ct_tick r - ct_sensor_tick h)"

definition admitted_ticks :: "control list \<Rightarrow> int list" where
  "admitted_ticks rs = map ct_sensor_tick (filter admitted_record rs)"

lemma last_admitted_ticks: "last_admitted rs = Some h \<Longrightarrow> admitted_ticks rs \<noteq> [] \<and> last (admitted_ticks rs) = ct_sensor_tick h"
  by (cases "filter admitted_record rs") (auto simp: last_admitted_def admitted_ticks_def last_map)

lemma last_admitted_None: "last_admitted rs = None \<Longrightarrow> admitted_ticks rs = []"
  by (cases "filter admitted_record rs") (simp_all add: last_admitted_def admitted_ticks_def)

lemma admitted_ticks_snoc:
  "admitted_ticks (rs @ [r]) = admitted_ticks rs @ (if admitted_record r then [ct_sensor_tick r] else [])"
  by (simp add: admitted_ticks_def)

lemma sorted_wrt_snoc: "sorted_wrt (<) (xs @ [x :: int]) \<longleftrightarrow> sorted_wrt (<) xs \<and> (xs \<noteq> [] \<longrightarrow> last xs < x)"
proof (induction xs)
  case (Cons a xs)
  then show ?case by (cases xs rule: rev_cases) (auto simp: sorted_wrt_append)
qed simp

lemma observation_history_Cons:
  assumes "observation_history held stamp n (r # rs)"
  shows "observation_history (if flag_set (ct_flags r) 0 then Some (ct_sensor_tick r) else held)
      (if flag_set (ct_flags r) 0 then ct_sensor_send_ns r else stamp) (n + 1) rs"
    and "flag_set (ct_flags r) 0 \<longrightarrow> (case held of None \<Rightarrow> True | Some t \<Rightarrow> t < ct_sensor_tick r)"
    and "\<not> flag_set (ct_flags r) 0 \<longrightarrow> ct_sensor_tick r = (case held of None \<Rightarrow> 0xffffffffffffffff | Some t \<Rightarrow> t) \<and>
      ct_sensor_send_ns r = stamp \<and>
      ct_staleness r = min 0xffffffff (case held of None \<Rightarrow> n + 1 | Some t \<Rightarrow> ct_tick r - t)"
    and "flag_set (ct_flags r) 0 \<longrightarrow> ct_staleness r = min 0xffffffff (ct_tick r - ct_sensor_tick r)"
  using assms by (auto simp: Let_def)

lemma observation_history_sound:
  assumes "observation_history (map_option ct_sensor_tick (last_admitted pre))
      (case last_admitted pre of None \<Rightarrow> 0 | Some h \<Rightarrow> ct_sensor_send_ns h) (int (length pre)) rs"
    and "sorted_wrt (<) (admitted_ticks pre)"
  shows "(\<forall>i < length rs. shows_held (int (length pre + i)) (last_admitted (pre @ take (Suc i) rs)) (rs ! i)) \<and>
    sorted_wrt (<) (admitted_ticks (pre @ rs))"
  using assms
proof (induction rs arbitrary: pre)
  case Nil
  then show ?case by simp
next
  case (Cons r rs)
  let ?pre = "pre @ [r]"
  have next_held: "map_option ct_sensor_tick (last_admitted ?pre) =
      (if flag_set (ct_flags r) 0 then Some (ct_sensor_tick r) else map_option ct_sensor_tick (last_admitted pre))"
    "(case last_admitted ?pre of None \<Rightarrow> 0 | Some h \<Rightarrow> ct_sensor_send_ns h) =
      (if flag_set (ct_flags r) 0 then ct_sensor_send_ns r
       else case last_admitted pre of None \<Rightarrow> 0 | Some h \<Rightarrow> ct_sensor_send_ns h)"
    by (simp_all add: last_admitted_snoc admitted_record_def)
  have rest: "observation_history (map_option ct_sensor_tick (last_admitted ?pre))
      (case last_admitted ?pre of None \<Rightarrow> 0 | Some h \<Rightarrow> ct_sensor_send_ns h) (int (length ?pre)) rs"
    using observation_history_Cons(1) [OF Cons.prems(1)] unfolding next_held by (simp add: add.commute)
  have held: "shows_held (int (length pre)) (last_admitted ?pre) r"
  proof (cases "flag_set (ct_flags r) 0")
    case True
    then show ?thesis
      using observation_history_Cons(4) [OF Cons.prems(1)] by (simp add: shows_held_def last_admitted_snoc admitted_record_def)
  next
    case False
    then show ?thesis
      using observation_history_Cons(3) [OF Cons.prems(1)]
      by (cases "last_admitted pre") (simp_all add: shows_held_def last_admitted_snoc admitted_record_def)
  qed
  have "flag_set (ct_flags r) 0 \<longrightarrow> (case map_option ct_sensor_tick (last_admitted pre) of None \<Rightarrow> True | Some t \<Rightarrow> t < ct_sensor_tick r)"
    by (rule observation_history_Cons(2) [OF Cons.prems(1)])
  then have "admitted_record r \<longrightarrow> admitted_ticks pre \<noteq> [] \<longrightarrow> last (admitted_ticks pre) < ct_sensor_tick r"
    using last_admitted_ticks [of pre] last_admitted_None [of pre] by (cases "last_admitted pre") (auto simp: admitted_record_def)
  then have "sorted_wrt (<) (admitted_ticks ?pre)"
    using Cons.prems(2) sorted_wrt_snoc [of "admitted_ticks pre" "ct_sensor_tick r"]
    by (cases "admitted_record r") (simp_all add: admitted_ticks_snoc)
  from Cons.IH [OF rest this] held
  have IH: "\<forall>i < length rs. shows_held (int (length ?pre + i)) (last_admitted (?pre @ take (Suc i) rs)) (rs ! i)"
    "sorted_wrt (<) (admitted_ticks (?pre @ rs))" by simp_all
  have "shows_held (int (length pre + i)) (last_admitted (pre @ take (Suc i) (r # rs))) ((r # rs) ! i)"
    if "i < length (r # rs)" for i
    using held IH(1) that by (cases i) simp_all
  then show ?case using IH(2) by simp
qed

lemma record_ticks_sound:
  "record_ticks summary base n rs = Inr True \<Longrightarrow> i < length rs \<Longrightarrow> ct_tick (rs ! i) = base + n + int i"
proof (induction rs arbitrary: n i)
  case (Cons r rs)
  then have "ct_tick r = base + n" "record_ticks summary base (n + 1) rs = Inr True"
    by (auto simp: rbind_eq_Inr split: if_splits)
  then show ?case using Cons.IH [of "n + 1" "i - 1"] Cons.prems(2) by (cases i) auto
qed simp

section \<open>What a valid measurement means\<close>

lemma validate_window_clean:
  assumes "validate_window rec_link initial final cycles s = (t, Inr u)" "au_errors t = []"
  shows "au_errors s = []"
proof -
  obtain s1 cs u1 where "run_checks cs s1 = (t, Inr u1)" "au_errors s1 = au_errors s"
    using assms(1)
    by (auto simp: validate_window_def sbind_Inr lift_result_def modify_def simp del: run_checks.simps split: if_splits)
  then show ?thesis using run_checks_clean assms(2) by metis
qed

lemma validate_population_clean:
  assumes "validate_population tp key name c rows s = (t, Inr u)" "au_errors t = []"
  shows "au_errors s = [] \<and> n_of c ''served'' = count_of is_served rows \<and>
    n_of c ''consumed'' = count_of (\<lambda>r. flag_set (ct_flags r) 0) rows \<and>
    map (\<lambda>k. count_of (\<lambda>r. rung r = k) rows) [0..<4] = map (n_of c) LADDER"
proof -
  obtain s1 u1 x where run: "run_checks (take 8 (population_checks name c rows 0)) s = (s1, Inr u1)"
    "run_checks (List.drop 8 (population_checks name c rows x)) s1 = (t, Inr u)"
    using assms(1) by (auto simp: validate_population_def sbind_Inr lift_result_def)
  have "au_errors s1 = []" using run_checks_clean [OF run(2) assms(2)] by blast
  from run_checks_clean [OF run(1) this] show ?thesis
    by (simp add: population_checks_def Let_def)
qed

lemma validate_intervals_clean:
  "validate_intervals summary served keys s = (t, Inr u) \<Longrightarrow> au_errors t = [] \<Longrightarrow> au_errors s = [] \<and>
     (\<forall>key \<in> set keys. \<exists>d. item summary key = Inr d \<and> natural_eq d [''count''] (int (length served)) = Inr True \<and>
        natural_eq d [''sum_ns''] (sum_list (map (served_interval key) served)) = Inr True)"
proof (induction keys arbitrary: s)
  case (Cons key keys)
  obtain d s1 u1 where run: "item summary key = Inr d"
    "run_checks (interval_checks d key (map (served_interval key) served)) s = (s1, Inr u1)"
    "validate_intervals summary served keys s1 = (t, Inr u)"
    using Cons.prems(1) by (auto simp: sbind_Inr lift_result_def)
  note IH = Cons.IH [OF run(3) Cons.prems(2)]
  from run_checks_clean [OF run(2)] IH run(1) show ?case by (auto simp: interval_checks_def)
qed (simp add: lift_result_def)

text \<open>C6. A measurement that validates without a message is what the control records show: they are one
  per cycle at consecutive ticks, each showing the last admitted observation with its stamp and age, the
  observations strictly newer each time; every received sample has a disposition; the ladder counts the records on each of
  its four rungs, over the episode and over the recorded window; and the served count and the latency sum are
  those of the records after the warmup.\<close>

theorem validate_sound:
  assumes "validate summary controls = Inr s" "au_errors s = []"
  shows "\<exists>link rec_link base warmup final latency. natural_at summary [''total_cycles''] = Inr (int (length controls)) \<and>
    item summary ''link'' = Inr link \<and> item summary ''link_recorded'' = Inr rec_link \<and>
    natural_at summary [''episode'', ''tick_base''] = Inr base \<and> natural_at summary [''warmup''] = Inr warmup \<and>
    natural_at summary [''future_parked_at_end''] = Inr final \<and> item summary ''latency_us'' = Inr latency \<and>
    (\<forall>i < length controls. ct_tick (controls ! i) = base + int i \<and> stamps_ordered (controls ! i) \<and>
       shows_held (int i) (last_admitted (take (Suc i) controls)) (controls ! i)) \<and>
    sorted_wrt (<) (admitted_ticks controls) \<and>
    n_of link ''received'' = sum_of link DISPOSITIONS + final \<and>
    map (n_of link) LADDER = map (\<lambda>k. count_of (\<lambda>r. rung r = k) controls) [0..<4] \<and>
    map (n_of rec_link) LADDER = map (\<lambda>k. count_of (\<lambda>r. rung r = k) (List.drop (nat warmup) controls)) [0..<4] \<and>
    (let served = filter is_served (List.drop (nat warmup) controls)
     in n_of rec_link ''served'' = int (length served) \<and>
        natural_eq latency [''sum_ns''] (sum_list (map (\<lambda>r. ct_tx_ns r - ct_sensor_send_ns r) served)) = Inr True)"
proof -
  have run: "validate_body summary controls audit_empty = (s, Inr ())"
    using assms by (auto simp: validate_def split: prod.splits sum.splits if_splits)
  obtain total_cycles warmup link rec_link final initial terminal_part terminal_cycle first_ok base
      s1 s2 s3 s4 s5 s6 s7 s8 s9 s10 s11 where read:
    "natural_at summary [''total_cycles''] = Inr total_cycles" "natural_at summary [''warmup''] = Inr warmup"
    "item summary ''link'' = Inr link" "item summary ''link_recorded'' = Inr rec_link"
    "natural_at summary [''future_parked_at_end''] = Inr final" "natural_at summary [''episode'', ''tick_base''] = Inr base"
    and steps: "run_checks (window_checks summary controls total_cycles (max 0 (total_cycles - warmup))) audit_empty = (s1, Inr ())"
    "validate_window rec_link initial final (max 0 (total_cycles - warmup)) s1 = (s2, Inr ())"
    "run_checks (ladder_checks link rec_link final total_cycles (max 0 (total_cycles - warmup))) s2 = (s3, Inr ())"
    "run_checks (terminal_checks summary terminal_part controls terminal_cycle) s3 = (s4, Inr ())"
    "run_checks [(''terminal first send'', first_send_ok first_ok terminal_part controls terminal_cycle)] s4 = (s5, Inr ())"
    "run_checks (actuator_checks summary link (total_cycles - terminal_cycle)) s5 = (s6, Inr ())"
    "run_checks (record_checks summary base controls) s6 = (s7, Inr ())"
    "validate_population terminal_part ''up_received_raw'' ''episode'' link controls s7 = (s8, Inr ())"
    "validate_population terminal_part ''up_received_raw_recorded'' ''recorded'' rec_link
       (List.drop (nat warmup) controls) s8 = (s9, Inr ())"
    "validate_intervals summary (filter is_served (List.drop (nat warmup) controls))
       [''latency_us'', ''uplink_wait_us'', ''vehicle_compute_us''] (s9\<lparr>au_notes := au_notes s9 @
         [(''served_ns'', JList (map (\<lambda>r. JInt (served_interval ''latency_us'' r))
            (filter is_served (List.drop (nat warmup) controls))))]\<rparr>) = (s10, Inr ())"
    "run_checks (histogram_checks summary rec_link (max 0 (total_cycles - warmup))) s10 = (s11, Inr ())"
    "au_errors s11 = au_errors s"
    using run
    by (auto simp: validate_body_def validate_checks_def validate_coverage_def sbind_Inr lift_result_def Let_def note_value_def modify_def
        simp del: run_checks.simps validate_intervals.simps split: if_splits)
  have e11: "au_errors s11 = []" using steps(12) assms(2) by simp
  have e10: "au_errors s10 = []" using run_checks_clean [OF steps(11) e11] by blast
  note t10 = validate_intervals_clean [OF steps(10) e10]
  then have e9: "au_errors s9 = []" by simp
  note t9 = validate_population_clean [OF steps(9) e9]
  then have e8: "au_errors s8 = []" by blast
  note t8 = validate_population_clean [OF steps(8) e8]
  then have e7: "au_errors s7 = []" by blast
  note t7 = run_checks_clean [OF steps(7) e7]
  then have e6: "au_errors s6 = []" by blast
  have e5: "au_errors s5 = []" using run_checks_clean [OF steps(6) e6] by blast
  have e4: "au_errors s4 = []" using run_checks_clean [OF steps(5) e5] by blast
  have e3: "au_errors s3 = []" using run_checks_clean [OF steps(4) e4] by blast
  note t3 = run_checks_clean [OF steps(3) e3]
  then have e2: "au_errors s2 = []" by blast
  have e1: "au_errors s1 = []" by (rule validate_window_clean [OF steps(2) e2])
  note t1 = run_checks_clean [OF steps(1) e1]
  have "int (length controls) = total_cycles" using t1 by (simp add: window_checks_def)
  moreover have ticks: "record_ticks summary base 0 controls = Inr True" "list_all stamps_ordered controls"
    "observation_history None 0 0 controls"
    using t7 by (simp_all add: record_checks_def)
  have history: "(\<forall>i < length controls. shows_held (int i) (last_admitted (take (Suc i) controls)) (controls ! i)) \<and>
      sorted_wrt (<) (admitted_ticks controls)"
    using observation_history_sound [of "[]" controls] ticks(3) by (simp add: last_admitted_def admitted_ticks_def)
  moreover have "\<forall>i < length controls. ct_tick (controls ! i) = base + int i \<and> stamps_ordered (controls ! i)"
    using record_ticks_sound [OF ticks(1)] ticks(2) by (auto simp: list_all_length)
  moreover have "n_of link ''received'' = sum_of link DISPOSITIONS + final"
    using t3 by (simp add: ladder_checks_def)
  moreover have "n_of rec_link ''served'' = int (length (filter is_served (List.drop (nat warmup) controls)))"
    using t9 by (simp add: count_of_def)
  moreover have "map (n_of link) LADDER = map (\<lambda>k. count_of (\<lambda>r. rung r = k) controls) [0..<4]"
    "map (n_of rec_link) LADDER = map (\<lambda>k. count_of (\<lambda>r. rung r = k) (List.drop (nat warmup) controls)) [0..<4]"
    using t8 t9 by simp_all
  moreover obtain d where "item summary ''latency_us'' = Inr d" "natural_eq d [''sum_ns''] (sum_list (map (served_interval ''latency_us'')
      (filter is_served (List.drop (nat warmup) controls)))) = Inr True"
    using t10 by auto
  moreover have "served_interval ''latency_us'' = (\<lambda>r. ct_tx_ns r - ct_sensor_send_ns r)"
    by (rule ext) (simp add: served_interval_def)
  ultimately show ?thesis using read by (auto simp: Let_def)
qed

section \<open>A concrete measurement\<close>

text \<open>One recorded cycle whose fresh sample is served after 3 ns.\<close>

definition measured_link :: json where
  "measured_link = example_counts (map (\<lambda>k. (k, if k \<in> {''received'', ''consumed'', ''fresh'', ''actuator_transmitted'', ''served''}
     then 1 else 0)) COUNTERS)"

definition measured_interval :: "int \<Rightarrow> json" where
  "measured_interval n = example_counts [(''count'', 1), (''sum_ns'', n), (''dropped'', 0)]"

definition measured_summary :: json where
  "measured_summary = JObject [(''mode'', JString ''freerun''), (''total_cycles'', JInt 1), (''warmup'', JInt 0),
     (''cycles'', JInt 1), (''telemetry'', example_counts [(''records'', 1), (''dropped'', 0)]),
     (''events'', example_counts [(''episode_transitions'', 1), (''record_attempts'', 1), (''records_pushed'', 1)]),
     (''link'', measured_link), (''link_recorded'', measured_link), (''future_parked_at_end'', JInt 0),
     (''future_parked_at_warmup'', JInt 0),
     (''terminal'', JObject [(''cycle'', JInt 0), (''down_attempts'', JInt 0), (''down_transmitted'', JInt 0),
        (''down_tx_fail'', JInt 0), (''first_tx_ok'', JNull), (''up_received_raw'', JInt 0), (''up_received_raw_recorded'', JInt 0)]),
     (''actuator'', example_counts [(''generated'', 1), (''transmitted'', 1), (''tx_fail'', 0)]),
     (''episode'', example_counts [(''tick_base'', 5)]), (''origin_ns'', JInt 100),
     (''latency_us'', measured_interval 3), (''uplink_wait_us'', measured_interval 2),
     (''vehicle_compute_us'', measured_interval 1), (''jitter_us'', measured_interval 0), (''exec_us'', measured_interval 0),
     (''dropped_samples'', JInt 0),
     (''discard_age_us'', example_counts [(''count'', 0), (''sum_ns'', 0), (''dropped'', 0)])]"

definition measured_control :: control where
  "measured_control = example_control\<lparr>ct_tick := 5, ct_deadline_ns := 100, ct_woke_ns := 101, ct_rx_ns := 112,
     ct_tx_ns := 113, ct_done_ns := 114, ct_sensor_tick := 5, ct_sensor_send_ns := 110, ct_state := 2\<rparr>"

definition clean_window :: "json \<Rightarrow> int \<Rightarrow> audit \<times> (json \<times> int) result \<Rightarrow> bool" where
  "clean_window l n p = (case p of (s, Inr (l', n')) \<Rightarrow> au_errors s = [] \<and> l' = l \<and> n' = n | _ \<Rightarrow> False)"

lemma measured_checks: "clean_window measured_link 1 (validate_checks measured_summary [measured_control] audit_empty)"
  by code_simp

lemma ratio_one: "ratio 1 1 = Inr 0x3ff0000000000000"
  by (simp add: ratio_def f_eval f_field_defs)

lemma measured_valid: "\<exists>s. validate measured_summary [measured_control] = Inr s \<and> au_errors s = []"
proof -
  obtain s where s: "validate_checks measured_summary [measured_control] audit_empty = (s, Inr (measured_link, 1))" "au_errors s = []"
    using measured_checks by (auto simp: clean_window_def split: prod.splits sum.splits)
  have one: "n_of measured_link ''consumed'' = 1" "n_of measured_link ''served'' = 1" by code_simp+
  show ?thesis
    using s by (simp add: validate_def validate_body_def validate_coverage_def sbind_def lift_result_def note_value_def modify_def one ratio_one)
qed

lemma validate_sound_witness:
  "\<exists>s. validate measured_summary [measured_control] = Inr s \<and> au_errors s = [] \<and>
    shows_held 0 (last_admitted [measured_control]) measured_control \<and> stamps_ordered measured_control"
proof -
  obtain s where s: "validate measured_summary [measured_control] = Inr s" "au_errors s = []"
    using measured_valid by blast
  from validate_sound [OF s] show ?thesis using s by auto
qed

section \<open>Round trips\<close>

text \<open>One round-trip row; \<open>status\<close> is read as an unsigned word.\<close>

definition roundtrip_value :: "json \<Rightarrow> int result" where
  "roundtrip_value row =
     rbind (natural_at row [''sensor_send_ns'']) (\<lambda>start.
     rbind (natural_at row [''received_ns'']) (\<lambda>end_ns.
     rbind (natural_at row [''status'']) (\<lambda>status.
       ensure (\<not> (start = 0 \<or> end_ns < start \<or> status mod 256 = 3 \<or> status div 2 ^ 16 mod 256 \<noteq> 0))
         ''ineligible round-trip observation'' (Inr (end_ns - start)))))"

fun roundtrip_values :: "json list \<Rightarrow> int list result" where
  "roundtrip_values [] = Inr []"
| "roundtrip_values (r # rs) = rbind (roundtrip_value r) (\<lambda>v. rbind (roundtrip_values rs) (\<lambda>vs. Inr (v # vs)))"

text \<open>\<open>math.ceil\<close> of a finite float, and the percentiles' rank \<open>max(0, math.ceil(p * n) - 1)\<close>.\<close>

definition f_ceil :: "f64 \<Rightarrow> int" where
  "f_ceil y = (if 0 \<le> f_ulp y then f_scaled y 0 else - ((- f_scaled y (f_ulp y)) div 2 ^ nat (- f_ulp y)))"

definition percentile_rank :: "f64 \<Rightarrow> nat \<Rightarrow> nat result" where
  "percentile_rank p n =
     rbind (float_of (NInt (int n))) (\<lambda>x. Inr (nat (max 0 (f_ceil (f_mul p x) - 1))))"

definition percentile_json :: "f64 \<Rightarrow> int list \<Rightarrow> json result" where
  "percentile_json p ordered =
     (if ordered = [] then Inr (JInt 0)
      else
        rbind (percentile_rank p (length ordered)) (\<lambda>i.
          if i < length ordered then rbind (ratio (ordered ! i) 1000) (\<lambda>x. Inr (JFloat x))
          else Inl (IndexError ''list index out of range'')))"

text \<open>The statistics the simulator reports (\<open>diagnostic_distribution\<close>), as the audit expects them.\<close>

definition roundtrip_statistics :: "int list \<Rightarrow> json result" where
  "roundtrip_statistics intervals =
     rbind (ratio (if intervals = [] then 0 else Max (set intervals)) 1000) (\<lambda>largest.
     rbind (percentile_json (f_lit 1 2) (sort intervals)) (\<lambda>p50.
     rbind (percentile_json (f_lit 999 1000) (sort intervals)) (\<lambda>p999.
       Inr (JObject [(''count'', JInt (int (length intervals))), (''sum_ns'', JInt (sum_list intervals)),
         (''max'', JFloat largest), (''p50'', p50), (''p99.9'', p999)]))))"

definition roundtrip_audit :: "json \<Rightarrow> unit result" where
  "roundtrip_audit evidence =
     rbind (item evidence ''roundtrip_samples'') (\<lambda>rows. rbind (py_iter rows) (\<lambda>rows.
     rbind (roundtrip_values rows) (\<lambda>intervals.
     rbind (item evidence ''latency_roundtrip_ns'') (\<lambda>reported.
     rbind (if \<not> py_eq (JList (map JInt intervals)) reported then Inr True
            else rbind (natural_at evidence [''actuator_receipt'', ''received'']) (\<lambda>n. Inr (n < int (length intervals))))
       (\<lambda>bad. ensure (\<not> bad) ''round-trip endpoint or receipt mismatch''
     (rbind (item evidence ''latency_roundtrip_us'') (\<lambda>d.
      rbind (roundtrip_statistics intervals) (\<lambda>expected.
        ensure (py_eq d expected) ''round-trip summary mismatch'' (Inr ())))))))))"

definition validate_roundtrip :: "json \<Rightarrow> string list result" where
  "validate_roundtrip evidence =
     (case roundtrip_audit evidence of
        Inr u \<Rightarrow> Inr []
      | Inl e \<Rightarrow> if measured_exn e then Inr [''invalid round-trip evidence''] else Inl e)"

section \<open>Histogram buckets\<close>

text \<open>The upper end of the bucket of \<open>value\<close>: eleven significant bits.\<close>

definition bucket_shift :: "int \<Rightarrow> nat" where
  "bucket_shift v = nat (max 0 (bitlen (nat v) - 11))"

definition bucket_high :: "int \<Rightarrow> int" where
  "bucket_high v = (v div 2 ^ bucket_shift v + 1) * 2 ^ bucket_shift v - 1"

text \<open>\<open>float(format(x, '.6g'))\<close> is a parameter. The rank of the 99.9th percentile is
  \<open>max(1, int((99.9 / 100) * n + 0.5))\<close> in floats.\<close>

definition f_trunc :: "f64 \<Rightarrow> int" where
  "f_trunc y = (if 0 \<le> f_ulp y then f_scaled y 0 else
     (let q = int (f_sig y) div 2 ^ nat (- f_ulp y) in if f_neg y then - q else q))"

definition rank_of :: "nat \<Rightarrow> nat result" where
  "rank_of n =
     rbind (float_of (NInt (int n))) (\<lambda>x.
       Inr (nat (max 1 (f_trunc (f_add (f_mul (f_div (f_lit 999 10) (f_lit 100 1)) x) (f_lit 1 2))))))"

fun all_natural :: "json list \<Rightarrow> int list result" where
  "all_natural [] = Inr []"
| "all_natural (v # vs) = rbind (natural v) (\<lambda>n. rbind (all_natural vs) (\<lambda>ns. Inr (n # ns)))"

definition recorded_statistics :: "(f64 \<Rightarrow> f64) \<Rightarrow> json list \<Rightarrow> (f64 \<times> f64) result" where
  "recorded_statistics six_digits values_in =
     rbind (all_natural values_in) (\<lambda>ns.
       let ordered = sort ns;
           reported = (\<lambda>v. rbind (float_of (NInt (bucket_high v))) (\<lambda>x. Inr (six_digits (f_div x (f_lit 1000 1)))))
       in if ordered = [] then Inr (f_zero False, f_zero False)
          else
            ensure (last ordered \<le> 10000000000) ''recorded latency outside histogram range''
              (rbind (rank_of (length ordered)) (\<lambda>rank.
                 if length ordered < rank then Inl (IndexError ''list index out of range'')
                 else
                   rbind (reported (ordered ! (rank - 1))) (\<lambda>p999. rbind (reported (last ordered)) (\<lambda>largest.
                     Inr (p999, largest))))))"

text \<open>\<open>metric\<close>: a finite nonnegative number, not a \<open>bool\<close>.\<close>

definition metric :: "json \<Rightarrow> string \<Rightarrow> number result" where
  "metric v name =
     (case v of
        JInt n \<Rightarrow> rbind (float_of (NInt n)) (\<lambda>x. ensure (0 \<le> n) ''invalid metric'' (Inr (NInt n)))
      | JFloat x \<Rightarrow> ensure (f_finite x \<and> \<not> f_lt x 0) ''invalid metric'' (Inr (NFlt x))
      | _ \<Rightarrow> Inl (ValueError ''invalid metric''))"

lemma bitlen_range: "0 < n \<Longrightarrow> 2 ^ nat (bitlen n - 1) \<le> n \<and> n < 2 ^ nat (bitlen n) \<and> 1 \<le> bitlen n"
proof (induction n rule: bitlen.induct)
  case (1 n)
  show ?case
  proof (cases "n div 2 = 0")
    case True
    then have "n = 1" using "1.prems" by auto
    then show ?thesis by (simp add: bitlen.simps)
  next
    case False
    let ?k = "bitlen (n div 2)"
    have IH: "2 ^ nat (?k - 1) \<le> n div 2" "n div 2 < 2 ^ nat ?k" "1 \<le> ?k" using "1.IH" "1.prems" False by auto
    have b: "bitlen n = 1 + ?k" using "1.prems" by (subst bitlen.simps) simp
    have "nat ?k = Suc (nat (?k - 1))" "nat (1 + ?k) = Suc (nat ?k)" using IH(3) by linarith+
    then have "(2 :: nat) ^ nat ?k = 2 * 2 ^ nat (?k - 1)" "(2 :: nat) ^ nat (1 + ?k) = 2 * 2 ^ nat ?k" by simp_all
    moreover have "2 * (n div 2) \<le> n" "n < 2 * (n div 2) + 2" by simp_all
    ultimately have "2 ^ nat ?k \<le> n" "n < 2 ^ nat (1 + ?k)" using IH by linarith+
    then show ?thesis using IH(3) unfolding b by simp
  qed
qed

lemma bucket_bounds:
  assumes "0 \<le> v"
  shows "v \<le> bucket_high v" "(bucket_high v - v) * 1024 \<le> v" "v < 2048 \<Longrightarrow> bucket_high v = v"
proof -
  let ?q = "2 ^ bucket_shift v :: int"
  have q: "0 < ?q" by simp
  have div_mod: "v div ?q * ?q + v mod ?q = v" by (rule div_mult_mod_eq)
  have range: "0 \<le> v mod ?q" "v mod ?q < ?q" using q by simp_all
  have high: "bucket_high v - v = ?q - 1 - v mod ?q"
    using div_mod by (simp add: bucket_high_def algebra_simps)
  then show "v \<le> bucket_high v" using range by linarith
  have small: "bucket_shift v = 0" if "v < 2048"
  proof (cases "v = 0")
    case True
    then show ?thesis by (simp add: bucket_shift_def bitlen.simps)
  next
    case False
    then have "2 ^ nat (bitlen (nat v) - 1) \<le> nat v" using bitlen_range [of "nat v"] assms by simp
    also have "nat v < 2 ^ 11" using that by simp
    finally have "nat (bitlen (nat v) - 1) < 11" by (rule power_less_imp_less_exp [rotated]) simp
    then show ?thesis by (simp add: bucket_shift_def)
  qed
  then show "bucket_high v = v" if "v < 2048" using that by (simp add: bucket_high_def)
  show "(bucket_high v - v) * 1024 \<le> v"
  proof (cases "bucket_shift v = 0")
    case True
    then show ?thesis using assms by (simp add: bucket_high_def)
  next
    case False
    then have b: "bitlen (nat v) = 11 + int (bucket_shift v)" by (simp add: bucket_shift_def split: if_splits)
    have "0 < nat v" using False b bitlen.simps [of "nat v"] by (auto split: if_splits)
    then have "2 ^ nat (bitlen (nat v) - 1) \<le> nat v" using bitlen_range by blast
    moreover have "nat (bitlen (nat v) - 1) = 10 + bucket_shift v" using b by simp
    ultimately have "2 ^ (10 + bucket_shift v) \<le> nat v" by simp
    then have "int (2 ^ (10 + bucket_shift v)) \<le> v" using assms by linarith
    then have "1024 * ?q \<le> v" by (simp add: power_add)
    moreover have "(q - 1 - r) * 1024 \<le> v" if "1024 * q \<le> v" "0 \<le> r" for q r :: int
      using that by (simp add: algebra_simps)
    ultimately show ?thesis unfolding high using range(1) by blast
  qed
qed

text \<open>The latency a histogram bucket reports never understates the recorded value and overstates it by
  at most one part in 1024, below 2048 ns not at all; larger values report larger or equal latencies
  within one bucket width.\<close>

theorem bucket_high_bounds:
  assumes "0 \<le> v"
  shows "v \<le> bucket_high v \<and> (bucket_high v - v) * 1024 \<le> v \<and> (if v < 2048 then bucket_high v = v else True) \<and>
    bucket_high (bucket_high v) = bucket_high v"
proof -
  have "bucket_high (bucket_high v) = bucket_high v"
  proof (cases "bucket_shift v = 0")
    case True
    then show ?thesis by (simp add: bucket_high_def)
  next
    case False
    let ?s = "bucket_shift v"
    have b: "bitlen (nat v) = 11 + int ?s" using False by (simp add: bucket_shift_def split: if_splits)
    then have "0 < nat v" using bitlen.simps [of "nat v"] by (auto split: if_splits)
    from bitlen_range [OF this] have "nat v < 2 ^ nat (11 + int ?s)" "2 ^ nat (10 + int ?s) \<le> nat v" unfolding b by simp_all
    then have range: "nat v < 2 ^ (11 + ?s)" "2 ^ (10 + ?s) \<le> nat v" by (simp_all add: nat_add_distrib)
    let ?q = "2 ^ ?s :: int"
    have "v < int (2 ^ (11 + ?s))" using range(1) assms by linarith
    then have "v < 2048 * ?q" by (simp add: power_add)
    moreover have "?q * (v div ?q) \<le> v" using mult_div_mod_eq [of ?q v] by (simp add: minus_mod_eq_mult_div [symmetric])
    moreover have "n < 2048" if "v < 2048 * q" "q * n \<le> v" "0 < q" for q n :: int
    proof (rule ccontr)
      assume "\<not> n < 2048"
      then have "q * 2048 \<le> q * n" using that(3) by (intro mult_left_mono) simp_all
      then show False using that(1,2) by simp
    qed
    ultimately have "v div ?q < 2048" by (metis zero_less_numeral zero_less_power)
    then have "(v div ?q + 1) * ?q \<le> 2048 * ?q" by (intro mult_right_mono) simp_all
    then have high: "bucket_high v < 2048 * ?q" unfolding bucket_high_def by linarith
    have low: "v \<le> bucket_high v" using bucket_bounds(1) [OF assms] .
    let ?h = "nat (bucket_high v)"
    have "bitlen ?h = 11 + int ?s"
    proof -
      have h: "0 < ?h" "2 ^ (10 + ?s) \<le> ?h" using low \<open>0 < nat v\<close> range(2) by linarith+
      have "int ?h < int (2 ^ (11 + ?s))" using high low assms by (simp add: power_add)
      then have up: "?h < 2 ^ (11 + ?s)" by (simp only: of_nat_less_iff)
      note len = bitlen_range [OF h(1)]
      then have l: "2 ^ nat (bitlen ?h - 1) \<le> ?h" "?h < 2 ^ nat (bitlen ?h)" "1 \<le> bitlen ?h" by blast+
      have "nat (bitlen ?h - 1) < 11 + ?s"
        by (rule power_less_imp_less_exp [OF _ le_less_trans [OF l(1) up]]) simp
      moreover have "10 + ?s < nat (bitlen ?h)"
        by (rule power_less_imp_less_exp [OF _ le_less_trans [OF h(2) l(2)]]) simp
      ultimately show ?thesis using l(3) by linarith
    qed
    then have "bucket_shift (bucket_high v) = ?s" by (simp add: bucket_shift_def)
    moreover have "bucket_high v div ?q = v div ?q"
    proof -
      have "bucket_high v = (?q - 1) + v div ?q * ?q" by (simp add: bucket_high_def algebra_simps)
      then show ?thesis by simp
    qed
    ultimately have "bucket_high (bucket_high v) = (v div ?q + 1) * ?q - 1" by (simp only: bucket_high_def [of "bucket_high v"])
    then show ?thesis by (simp only: bucket_high_def [of v])
  qed
  then show ?thesis using bucket_bounds [OF assms] by simp
qed

lemma bucket_high_bounds_witness:
  "(123456 :: int) \<le> bucket_high 123456 \<and> (bucket_high 123456 - 123456) * 1024 \<le> 123456 \<and>
    bucket_high (bucket_high 123456) = bucket_high 123456"
  using bucket_high_bounds [of 123456] by simp

end
