(* ===== verification/FreeReconcile.thy ===== *)
theory FreeReconcile
  imports Latency
begin

text \<open>
  The free-running reconciliation of \<open>scripts/reconcile.py\<close>: the measurement's audit, both links within
  the window that both owners observed, the order of the two terminations, and what each terminal leg
  is required to have delivered.
\<close>

section \<open>Terminal legs\<close>

text \<open>\<open>required\<close> is \<open>None\<close> where the order of the terminations is unknown.\<close>

definition needed :: "bool option \<Rightarrow> bool" where
  "needed required \<longleftrightarrow> required = Some True"

definition terminal_residual ::
  "int \<Rightarrow> int \<Rightarrow> json \<Rightarrow> json \<Rightarrow> json \<Rightarrow> json \<Rightarrow> bool option \<Rightarrow> bool \<Rightarrow> (int \<times> string) result" where
  "terminal_residual sent got first_send last_send receive_open receive_closed required was_answered =
     rbind (natural (JInt sent)) (\<lambda>sent. rbind (natural (JInt got)) (\<lambda>got.
     rbind (natural first_send) (\<lambda>first_send. rbind (natural last_send) (\<lambda>last_send.
     rbind (natural receive_open) (\<lambda>receive_open. rbind (natural receive_closed) (\<lambda>receive_closed.
     ensure (\<not> sent < got) ''terminal receipts exceed successful sends''
     (ensure (\<not> (receive_closed < receive_open \<or> last_send < first_send)) ''invalid terminal lifetime''
     (rbind (if \<not> needed required then Inr ''not_evaluated''
         else if sent - got = 0 then Inr ''zero''
         else if first_send = 0 \<or> last_send = 0 then Inl (ValueError ''missing terminal send lifetime'')
         else if receive_closed < first_send then Inr ''trailing''
         else if receive_open \<le> first_send \<and> last_send \<le> receive_closed \<and> \<not> was_answered then Inr ''unexplained''
         else Inr ''unresolved'') (\<lambda>resolution. Inr (sent - got, resolution))))))))))"

datatype order = Vehicle_first | Sim_first

definition positive_int :: "json \<Rightarrow> bool" where
  "positive_int v = (case v of JInt n \<Rightarrow> 0 < n | _ \<Rightarrow> False)"

definition int_of :: "json \<Rightarrow> int" where
  "int_of v = (case v of JInt n \<Rightarrow> n | _ \<Rightarrow> 0)"

text \<open>The order that two termination intervals on one clock prove.\<close>

definition interval_order :: "int \<Rightarrow> int \<Rightarrow> int \<Rightarrow> int \<Rightarrow> order option" where
  "interval_order a begin_a b begin_b =
     (if a < begin_b then Some Vehicle_first else if b < begin_a then Some Sim_first else None)"

definition terminal_order :: "json \<Rightarrow> json \<Rightarrow> order option result" where
  "terminal_order vehicle simulator =
     rbind (dict_get simulator ''termination_source'') (\<lambda>ss.
     rbind (dict_get vehicle ''termination_source'') (\<lambda>vs.
     let causal_vehicle = py_eq ss (JString ''vehicle''); causal_sim = py_eq vs (JString ''simulator'') in
     ensure (\<not> (causal_vehicle \<and> causal_sim)) ''contradictory terminal causality''
     (let causal = (if causal_vehicle then Some Vehicle_first else if causal_sim then Some Sim_first else None) in
      rbind (dict_get vehicle ''clock_domain'') (\<lambda>vc. rbind (dict_get simulator ''clock_domain'') (\<lambda>sc.
      if \<not> (truthy vc \<and> py_eq vc sc) then Inr causal
      else
        rbind (dict_get vehicle ''termination_ns'') (\<lambda>a. rbind (dict_get simulator ''termination_ns'') (\<lambda>b.
        rbind (dict_get vehicle ''termination_before_ns'') (\<lambda>begin_a.
        rbind (dict_get simulator ''termination_before_ns'') (\<lambda>begin_b.
          if \<not> list_all positive_int [a, b, begin_a, begin_b] then Inr causal
          else
            ensure (\<not> (int_of a < int_of begin_a \<or> int_of b < int_of begin_b)) ''invalid termination interval''
            (let order = interval_order (int_of a) (int_of begin_a) (int_of b) (int_of begin_b) in
             ensure (causal = None \<or> order = None \<or> causal = order) ''terminal causality contradicts shared-clock order''
               (Inr (if causal = None then order else causal))))))))))))"

record leg =
  leg_attempts :: int
  leg_intentionally_lost :: int
  leg_tx_fail :: int
  leg_transmitted :: int
  leg_received_raw :: int
  leg_required :: "bool option"
  leg_complete :: bool
  leg_opportunities :: int
  leg_budget :: number
  leg_unobserved :: int
  leg_residual :: string

definition num_at_least :: "number \<Rightarrow> number \<Rightarrow> bool" where
  "num_at_least a b \<longleftrightarrow> num_less b a \<or> num_eq a b"

definition terminal_causes :: "leg list \<Rightarrow> string list" where
  "terminal_causes legs =
     (let failed = filter (\<lambda>l. needed (leg_required l) \<and> \<not> leg_complete l) legs;
          causes =
            (if list_ex (\<lambda>l. leg_tx_fail l \<noteq> 0) failed then [''send_failure''] else []) @
            (if list_ex (\<lambda>l. num_less (NInt (leg_opportunities l)) (leg_budget l)) failed then [''opportunity_shortfall''] else []) @
            (if list_ex (\<lambda>l. leg_residual l = ''unexplained'') failed then [''unexplained_transport_loss''] else [])
      in if failed = [] then []
         else if causes = [] \<and> list_all (\<lambda>l. num_at_least (NInt (leg_opportunities l)) (leg_budget l) \<and>
                leg_tx_fail l = 0 \<and> leg_intentionally_lost l = leg_opportunities l) failed
         then [''impairment_model''] else causes)"

section \<open>Links within the observed window\<close>

text \<open>\<open>last in ticks\<close>, and \<open>sum(base <= tick <= last for tick in ticks)\<close>.\<close>

definition tick_in :: "json \<Rightarrow> int list \<Rightarrow> bool" where
  "tick_in v ticks \<longleftrightarrow> list_ex (\<lambda>t. py_eq (JInt t) v) ticks"

definition at_least :: "json \<Rightarrow> int \<Rightarrow> bool result" where
  "at_least = compare_int (\<lambda>a b. num_less b a \<or> num_eq a b)"

fun count_inside :: "json \<Rightarrow> json \<Rightarrow> int list \<Rightarrow> int result" where
  "count_inside base last_tick [] = Inr 0"
| "count_inside base last_tick (t # ts) =
     rbind (both (at_most base t) (at_least last_tick t)) (\<lambda>b.
       rbind (count_inside base last_tick ts) (\<lambda>n. Inr ((if b then 1 else 0) + n)))"

definition window_count :: "json \<Rightarrow> json \<Rightarrow> int list \<Rightarrow> int result" where
  "window_count base last_tick ticks = (if last_tick = JNull then Inr 0 else count_inside base last_tick ticks)"

text \<open>\<open>n - v\<close>.\<close>

definition int_minus :: "int \<Rightarrow> json \<Rightarrow> json result" where
  "int_minus n v =
     (case number_of v of
        None \<Rightarrow> Inl (TypeError ''unsupported operand'')
      | Some (NInt m) \<Rightarrow> Inr (JInt (n - m))
      | Some (NFlt x) \<Rightarrow> rbind (float_of (NInt n)) (\<lambda>y. Inr (JFloat (f_sub y x))))"

definition entries_of :: "json \<Rightarrow> (string \<times> json) list" where
  "entries_of c = (case c of JObject d \<Rightarrow> d | _ \<Rightarrow> [])"

definition UP_KEYS :: "string list" where
  "UP_KEYS = [''generated'', ''intentionally_lost'', ''transmitted'', ''sensor_tx_fail'']"

definition DOWN_KEYS :: "string list" where
  "DOWN_KEYS = [''received'', ''actuator_selected'', ''intentionally_lost'', ''superseded'', ''malformed'', ''invalid'']"

definition SIM_TERMINAL_KEYS :: "string list" where
  "SIM_TERMINAL_KEYS = [''up_attempts'', ''up_intentionally_lost'', ''up_tx_fail'', ''up_transmitted'',
     ''down_received_raw'', ''down_intentionally_lost'', ''down_survived'']"

definition VEHICLE_TERMINAL_KEYS :: "string list" where
  "VEHICLE_TERMINAL_KEYS = [''down_attempts'', ''down_tx_fail'', ''down_transmitted'', ''up_received_raw'',
     ''up_tick_conflict'', ''up_illegal_reason'', ''up_future_expired'', ''up_skew_excess'']"

text \<open>The samples: those recorded, and those of the window between the base tick and the last received.\<close>

definition ordinary_ticks :: "sensor_row list \<Rightarrow> int list" where
  "ordinary_ticks sensors = map sr_tick (filter (\<lambda>r. \<not> flag_set (sr_flags r) 1) sensors)"

definition reconcile_uplink :: "json \<Rightarrow> json \<Rightarrow> json \<Rightarrow> sensor_row list \<Rightarrow> (audit, json) act" where
  "reconcile_uplink summary up sim_terminal sensors =
     (let normal = ordinary_ticks sensors in
      sbind (check ''uplink generation'' (Inr (n_of up ''generated'' =
        n_of up ''intentionally_lost'' + n_of up ''transmitted'' + n_of up ''sensor_tx_fail''))) (\<lambda>_.
      sbind (check ''input recording membership'' (Inr (distinct normal \<and> int (length normal) = n_of up ''transmitted'' \<and>
        count_of (\<lambda>r. flag_set (sr_flags r) 1) sensors = (if 0 < n_of sim_terminal ''up_transmitted'' then 1 else 0)))) (\<lambda>_.
      sbind (lift_result (item summary ''last_received_tick'')) (\<lambda>last_tick.
      sbind (lift_result (items summary [''episode'', ''tick_base''])) (\<lambda>base.
      sbind (lift_result (items summary [''link'', ''received''])) (\<lambda>got.
      sbind (check ''uplink observed boundary'' (Inr (if truthy got then tick_in last_tick normal else last_tick = JNull))) (\<lambda>_.
      sbind (lift_result (window_count base last_tick normal)) (\<lambda>inside.
      sbind (lift_result (int_minus inside got)) (\<lambda>missing.
      sbind (note_value ''uplink'' (JObject ([(''transmitted_in_window'', JInt inside), (''received'', got),
        (''trailing_transmitted'', JInt (n_of up ''transmitted'' - inside)), (''unexplained_missing'', missing)] @ entries_of up))) (\<lambda>_.
      sbind (check ''uplink receipt'' (Inr (py_eq missing (JInt 0)))) (\<lambda>_.
        give base)))))))))))"

definition sent_ticks :: "control list \<Rightarrow> int list" where
  "sent_ticks controls = map ct_tick (filter (\<lambda>r. ct_state r \<noteq> 3 \<and> flag_set (ct_flags r) 1) controls)"

definition reconcile_downlink :: "json \<Rightarrow> json \<Rightarrow> control list \<Rightarrow> (audit, unit) act" where
  "reconcile_downlink base down controls =
     (let sent = sent_ticks controls in
      sbind (lift_result (item down ''last_received_tick'')) (\<lambda>last_tick.
      sbind (lift_result (ensure (\<not> (last_tick = JNull \<and> sent \<noteq> [])) ''ordinary downlink overlap unestablished'' (Inr ()))) (\<lambda>_.
      sbind (check ''downlink observed boundary''
        (Inr (if n_of down ''received'' \<noteq> 0 then tick_in last_tick sent else last_tick = JNull))) (\<lambda>_.
      sbind (lift_result (window_count base last_tick sent)) (\<lambda>inside.
      let missing = inside - n_of down ''received'' in
      sbind (note_value ''downlink'' (JObject ([(''transmitted'', JInt (int (length sent))), (''transmitted_in_window'', JInt inside),
        (''trailing_actuator_transmitted'', JInt (int (length sent) - inside)), (''unexplained_missing'', JInt missing)] @ entries_of down))) (\<lambda>_.
      sbind (check ''downlink receipt'' (Inr (missing = 0))) (\<lambda>_.
      check ''downlink disposition'' (Inr (n_of down ''received'' =
        n_of down ''actuator_selected'' + n_of down ''intentionally_lost'' + n_of down ''superseded'')))))))))"

text \<open>\<open>not any(link[k] for k in keys)\<close>.\<close>

fun none_truthy :: "json \<Rightarrow> string list \<Rightarrow> bool result" where
  "none_truthy v [] = Inr True"
| "none_truthy v (k # ks) = rbind (item v k) (\<lambda>x. if truthy x then Inr False else none_truthy v ks)"

definition reconcile_integrity :: "json \<Rightarrow> json \<Rightarrow> json \<Rightarrow> json \<Rightarrow> (audit, unit) act" where
  "reconcile_integrity summary down sim_terminal vehicle_terminal =
     sbind (lift_result (item summary ''link'')) (\<lambda>link.
     sbind (check ''link integrity''
       (both (none_truthy link (BAD @ [''discarded_tick_conflict'', ''discarded_skew_excess'', ''future_expired'']))
         (Inr (n_of down ''malformed'' = 0 \<and> n_of down ''invalid'' = 0 \<and>
            list_all (\<lambda>k. n_of vehicle_terminal k = 0)
              [''up_tick_conflict'', ''up_illegal_reason'', ''up_future_expired'', ''up_skew_excess''])))) (\<lambda>_.
     sbind (check ''terminal up'' (Inr (n_of sim_terminal ''up_attempts'' =
       n_of sim_terminal ''up_intentionally_lost'' + n_of sim_terminal ''up_tx_fail'' + n_of sim_terminal ''up_transmitted''))) (\<lambda>_.
     sbind (check ''terminal down'' (Inr (n_of vehicle_terminal ''down_attempts'' =
         n_of vehicle_terminal ''down_tx_fail'' + n_of vehicle_terminal ''down_transmitted'' \<and>
       n_of sim_terminal ''down_received_raw'' =
         n_of sim_terminal ''down_intentionally_lost'' + n_of sim_terminal ''down_survived''))) (\<lambda>_.
     check ''terminal first attempt'' (rbind (item vehicle_terminal ''cycle'')
       (\<lambda>v. at_most v (n_of vehicle_terminal ''down_attempts'')))))))"

section \<open>The terminal exchange\<close>

definition leg_outcome ::
  "bool \<Rightarrow> int \<Rightarrow> int \<Rightarrow> json \<Rightarrow> json \<Rightarrow> json \<Rightarrow> json \<Rightarrow> bool option \<Rightarrow> bool \<Rightarrow> (int \<times> string) result" where
  "leg_outcome shared sent got first_send last_send opened shut required was_answered =
     (if shared then terminal_residual sent got first_send last_send opened shut required was_answered
      else ensure (\<not> sent < got) ''terminal receipts exceed sends''
        (Inr (sent - got, if \<not> needed required then ''not_evaluated'' else if sent = got then ''zero'' else ''unresolved'')))"

definition up_required :: "order option \<Rightarrow> bool option" where
  "up_required order = map_option (\<lambda>o'. o' = Sim_first) order"

definition down_required :: "order option \<Rightarrow> int \<Rightarrow> bool option" where
  "down_required order up_received = map_option (\<lambda>o'. o' = Vehicle_first \<or> up_received \<noteq> 0) order"

definition terminal_path :: "order option \<Rightarrow> int \<Rightarrow> json" where
  "terminal_path order up_received =
     (case order of
        None \<Rightarrow> JNull
      | Some Vehicle_first \<Rightarrow> JString ''vehicle_first''
      | Some Sim_first \<Rightarrow> JString (if up_received \<noteq> 0 then ''sim_first_up_delivered'' else ''sim_first_up_not_delivered''))"

definition make_leg :: "int \<Rightarrow> int \<Rightarrow> int \<Rightarrow> int \<Rightarrow> int \<Rightarrow> bool option \<Rightarrow> bool \<Rightarrow> int \<Rightarrow> number \<Rightarrow> int \<times> string \<Rightarrow> leg" where
  "make_leg tried lost_count fail sent got required finished opportunities budget outcome =
     \<lparr>leg_attempts = tried, leg_intentionally_lost = lost_count, leg_tx_fail = fail, leg_transmitted = sent,
       leg_received_raw = got, leg_required = required, leg_complete = finished, leg_opportunities = opportunities,
       leg_budget = budget, leg_unobserved = fst outcome, leg_residual = snd outcome\<rparr>"

definition number_result :: "json \<Rightarrow> number result" where
  "number_result v = (case number_of v of None \<Rightarrow> Inl (TypeError ''not supported between instances'') | Some a \<Rightarrow> Inr a)"

text \<open>\<open>min(v, 14)\<close>.\<close>

definition down_budget :: "number \<Rightarrow> number" where
  "down_budget a = (if num_less (NInt 14) a then NInt 14 else a)"

definition terminal_legs :: "json \<Rightarrow> json \<Rightarrow> json \<Rightarrow> json \<Rightarrow> order option \<Rightarrow> bool \<Rightarrow> (leg \<times> leg) result" where
  "terminal_legs summary replay vt st order shared =
     (let up_got = n_of vt ''up_received_raw''; up_complete = 0 < up_got; down_complete = 0 < n_of st ''down_survived''
      in rbind (item summary ''terminal_copies'') (\<lambda>copies.
         rbind (item replay ''terminal_send_first_ns'') (\<lambda>f1. rbind (item replay ''terminal_send_last_ns'') (\<lambda>l1.
         rbind (item vt ''receive_open_ns'') (\<lambda>o1. rbind (item vt ''receive_closed_ns'') (\<lambda>c1.
         rbind (leg_outcome shared (n_of st ''up_transmitted'') up_got f1 l1 o1 c1 (up_required order) up_complete) (\<lambda>up_out.
         rbind (number_result copies) (\<lambda>budget.
         rbind (item vt ''send_first_ns'') (\<lambda>f2. rbind (item vt ''send_last_ns'') (\<lambda>l2.
         rbind (item replay ''receive_open_ns'') (\<lambda>o2. rbind (item replay ''receive_closed_ns'') (\<lambda>c2.
         rbind (leg_outcome shared (n_of vt ''down_transmitted'') (n_of st ''down_received_raw'') f2 l2 o2 c2
                  (down_required order up_got) down_complete) (\<lambda>down_out.
           Inr (make_leg (n_of st ''up_attempts'') (n_of st ''up_intentionally_lost'') (n_of st ''up_tx_fail'')
                  (n_of st ''up_transmitted'') up_got (up_required order) up_complete (n_of st ''up_attempts'') budget up_out,
                make_leg (n_of vt ''down_attempts'') (n_of st ''down_intentionally_lost'') (n_of vt ''down_tx_fail'')
                  (n_of vt ''down_transmitted'') (n_of st ''down_received_raw'') (down_required order up_got) down_complete
                  (n_of st ''down_received_raw'') (down_budget budget) down_out))))))))))))))"

definition reconcile_legs :: "json \<Rightarrow> json \<Rightarrow> json \<Rightarrow> json \<Rightarrow> (audit, unit) act" where
  "reconcile_legs summary replay vt st =
     sbind (lift_result (terminal_order summary replay)) (\<lambda>order.
     sbind (lift_result (rbind (dict_get summary ''clock_domain'') (\<lambda>a. rbind (dict_get replay ''clock_domain'') (\<lambda>b.
       Inr (truthy a \<and> py_eq a b))))) (\<lambda>shared.
     sbind (lift_result (terminal_legs summary replay vt st order shared)) (\<lambda>(up_leg, down_leg).
     let all_complete = list_all (\<lambda>l. needed (leg_required l) \<longrightarrow> leg_complete l) [up_leg, down_leg];
         causes = (if order = None then [] else terminal_causes [up_leg, down_leg]) in
     sbind (lift_result (item replay ''terminal_handshake'')) (\<lambda>handshake.
     sbind (note_value ''terminal'' (JObject
       [(''path'', terminal_path order (n_of vt ''up_received_raw'')),
        (''required_legs_complete'', if order = None then JNull else JBool all_complete),
        (''causes'', JList (map JString causes)), (''handshake'', handshake)])) (\<lambda>_.
     sbind (if order = None then report ''terminal ordering unresolved'' else give ()) (\<lambda>_.
     sbind (check ''terminal up unexplained'' (Inr (\<not> needed (leg_required up_leg) \<or> leg_residual up_leg \<noteq> ''unexplained''))) (\<lambda>_.
     sbind (check ''terminal down unexplained'' (Inr (\<not> needed (leg_required down_leg) \<or> leg_residual down_leg \<noteq> ''unexplained''))) (\<lambda>_.
     sbind (check ''terminal answer observation'' (rbind (item replay ''vehicle_reason_seen'')
       (\<lambda>v. Inr ((v \<noteq> JNull) = (n_of st ''down_survived'' \<noteq> 0))))) (\<lambda>_.
     check ''terminal handshake'' (Inr (py_eq handshake (JString ''answered'') = (n_of st ''down_survived'' \<noteq> 0))))))))))))"

definition FREERUN_PAIRS :: "(int \<times> int) list" where
  "FREERUN_PAIRS = [(1, 1), (1, 7), (1, 4), (2, 2), (3, 2), (2, 4), (3, 4), (4, 1), (4, 7), (4, 2), (4, 3), (4, 4)]"

definition reconcile_pairing :: "json \<Rightarrow> bool \<Rightarrow> (audit, unit) act" where
  "reconcile_pairing vr expected =
     (if among vr [5, 6, 8] then
        sbind (note_value ''terminal_agreement'' JNull) (\<lambda>_.
          report ''terminal outcome produces no evidence; pairing not evaluated'')
      else
        sbind (note_value ''terminal_agreement'' (JBool expected)) (\<lambda>_. check ''terminal agreement'' (Inr expected)))"

definition reconcile_reasons :: "json \<Rightarrow> json \<Rightarrow> json \<Rightarrow> control list \<Rightarrow> (audit, unit) act" where
  "reconcile_reasons summary replay vt controls =
     sbind (lift_result (item replay ''sim_reason'')) (\<lambda>sr.
     sbind (lift_result (item summary ''episode'')) (\<lambda>ep.
     sbind (lift_result (item ep ''vehicle_reason'')) (\<lambda>vr.
     sbind (lift_result (pair_in sr vr FREERUN_PAIRS)) (\<lambda>expected.
     sbind (lift_result (item ep ''sim_reason_seen'')) (\<lambda>sim_seen.
     sbind (if sim_seen = JNull then give ()
       else check ''simulator observation'' (Inr (py_eq sim_seen sr \<and> 0 < n_of vt ''up_received_raw''))) (\<lambda>_.
     sbind (lift_result (item replay ''vehicle_reason_seen'')) (\<lambda>vehicle_seen.
     sbind (if vehicle_seen = JNull then give () else check ''vehicle observation'' (Inr (py_eq vehicle_seen vr))) (\<lambda>_.
     sbind (check ''terminal record'' (negate (terminal_record_mismatch controls vr ep))) (\<lambda>_.
     sbind (note_value ''sim_reason'' sr) (\<lambda>_. sbind (note_value ''vehicle_reason'' vr) (\<lambda>_.
       reconcile_pairing vr expected)))))))))))"

section \<open>The reconciliation\<close>

definition reconcile_measurement :: "json \<Rightarrow> json \<Rightarrow> control list \<Rightarrow> (audit, unit) act" where
  "reconcile_measurement summary replay controls =
     sbind (lift_result (rbind (item summary ''mode'') (\<lambda>a. if \<not> py_eq a (JString ''freerun'') then Inr True
       else rbind (item replay ''mode'') (\<lambda>b. Inr (\<not> py_eq b (JString ''freerun'')))))) (\<lambda>wrong.
     sbind (lift_result (ensure (\<not> wrong) ''owner mode mismatch'' (Inr ()))) (\<lambda>_.
     sbind (lift_result (validate summary controls)) (\<lambda>measured.
     sbind (report_all (au_errors measured)) (\<lambda>_.
     sbind (lift_result (validate_roundtrip replay)) (\<lambda>problems.
     sbind (report_all problems) (\<lambda>_.
     check ''shared sensor clock'' (rbind (dict_get summary ''clock_domain'') (\<lambda>a.
       if \<not> truthy a then Inr False else rbind (dict_get replay ''clock_domain'') (\<lambda>b. Inr (py_eq a b))))))))))"

definition reconcile_owners :: "json \<Rightarrow> json \<Rightarrow> sensor_row list \<Rightarrow> control list \<Rightarrow> (audit, unit) act" where
  "reconcile_owners summary replay sensors controls =
     sbind (lift_result (item replay ''transmission'')) (\<lambda>up.
     sbind (lift_result (item replay ''actuator_receipt'')) (\<lambda>down.
     sbind (lift_result (item summary ''terminal'')) (\<lambda>vt.
     sbind (lift_result (item replay ''terminal'')) (\<lambda>st.
     sbind (lift_result (rbind (naturals up UP_KEYS) (\<lambda>_. rbind (naturals down DOWN_KEYS) (\<lambda>_.
       rbind (naturals st SIM_TERMINAL_KEYS) (\<lambda>_. naturals vt VEHICLE_TERMINAL_KEYS))))) (\<lambda>_.
     sbind (reconcile_uplink summary up st sensors) (\<lambda>base.
     sbind (reconcile_downlink base down controls) (\<lambda>_.
     sbind (reconcile_integrity summary down st vt) (\<lambda>_.
     sbind (reconcile_legs summary replay vt st) (\<lambda>_.
       reconcile_reasons summary replay vt controls)))))))))"

definition reconcile_free_body :: "json \<Rightarrow> json \<Rightarrow> sensor_row list \<Rightarrow> control list \<Rightarrow> (audit, unit) act" where
  "reconcile_free_body summary replay sensors controls =
     sbind (reconcile_measurement summary replay controls) (\<lambda>_. reconcile_owners summary replay sensors controls)"

definition reconcile_freerun :: "json \<Rightarrow> json \<Rightarrow> sensor_row list \<Rightarrow> control list \<Rightarrow> verdict result" where
  "reconcile_freerun summary replay sensors controls =
     (case reconcile_free_body summary replay sensors controls audit_empty of
        (s, Inr u) \<Rightarrow> Inr \<lparr>vd_errors = au_errors s, vd_notes = au_notes s, vd_eligible = (au_errors s = [])\<rparr>
      | (s, Inl e) \<Rightarrow>
          if evidence_exn e then
            Inr \<lparr>vd_errors = au_errors s @ [''incomplete or invalid evidence''], vd_notes = au_notes s, vd_eligible = False\<rparr>
          else Inl e)"

text \<open>\<open>reconcile\<close> on the mode it is asked for.\<close>

definition reconcile :: "json \<Rightarrow> json \<Rightarrow> string \<Rightarrow> sensor_row list \<Rightarrow> control list \<Rightarrow> verdict result" where
  "reconcile summary replay mode sensors controls =
     (if mode = ''freerun'' then reconcile_freerun summary replay sensors controls
      else if mode \<noteq> ''lockstep'' then
        Inr \<lparr>vd_errors = [''only lockstep reconciliation is implemented''], vd_notes = [], vd_eligible = False\<rparr>
      else reconcile_lockstep summary replay sensors controls)"

section \<open>What an eligible free run means\<close>

lemma report_all_clean: "report_all es s = (t, r) \<Longrightarrow> au_errors t = [] \<Longrightarrow> es = [] \<and> au_errors s = []"
  by (auto simp: report_all_def modify_def)

lemma report_not_clean: "report e s = (t, r) \<Longrightarrow> au_errors t \<noteq> []"
  by (auto simp: report_def modify_def)

lemma reconcile_uplink_clean:
  assumes "reconcile_uplink summary up st sensors s = (t, Inr base)" "au_errors t = []"
  shows "au_errors s = []"
proof -
  obtain s1 s2 s3 s4 b c n k where run:
    "check ''uplink generation'' (Inr (n_of up ''generated'' =
        n_of up ''intentionally_lost'' + n_of up ''transmitted'' + n_of up ''sensor_tx_fail'')) s = (s1, Inr ())"
    "check ''input recording membership'' (Inr (distinct (ordinary_ticks sensors) \<and>
        int (length (ordinary_ticks sensors)) = n_of up ''transmitted'' \<and>
        count_of (\<lambda>r. flag_set (sr_flags r) 1) sensors = (if 0 < n_of st ''up_transmitted'' then 1 else 0))) s1 = (s2, Inr ())"
    "check ''uplink observed boundary'' b s2 = (s3, Inr ())" "note_value ''uplink'' n s3 = (s4, Inr ())"
    "check ''uplink receipt'' c s4 = (t, Inr ())"
    using assms(1) by (auto simp: reconcile_uplink_def Let_def sbind_Inr lift_result_def)
  have "au_errors s4 = []" using check_clean [OF run(5) assms(2)] by blast
  then have "au_errors s3 = []" using run(4) by (simp add: note_value_Inr)
  then have "au_errors s2 = []" using check_clean [OF run(3)] by blast
  from check_clean [OF run(2) this] check_clean [OF run(1)] show ?thesis by auto
qed

lemma reconcile_downlink_clean:
  assumes "reconcile_downlink base down controls s = (t, Inr u)" "au_errors t = []"
  shows "au_errors s = []"
proof -
  obtain s1 s2 s3 b c n where run:
    "check ''downlink observed boundary'' b s = (s1, Inr ())" "note_value ''downlink'' n s1 = (s2, Inr ())"
    "check ''downlink receipt'' c s2 = (s3, Inr ())"
    "check ''downlink disposition'' (Inr (n_of down ''received'' =
        n_of down ''actuator_selected'' + n_of down ''intentionally_lost'' + n_of down ''superseded'')) s3 = (t, Inr u)"
    using assms(1) by (auto simp: reconcile_downlink_def Let_def sbind_Inr lift_result_def)
  note last_check = check_clean [OF run(4) assms(2)]
  then have "au_errors s2 = []" using check_clean [OF run(3)] by blast
  then have "au_errors s1 = []" using run(2) by (simp add: note_value_Inr)
  then show ?thesis using check_clean [OF run(1)] last_check by blast
qed

lemma reconcile_integrity_clean:
  assumes "reconcile_integrity summary down st vt s = (t, Inr u)" "au_errors t = []"
  shows "au_errors s = []"
proof -
  obtain s1 s2 s3 a b c d where run: "check ''link integrity'' a s = (s1, Inr ())" "check ''terminal up'' b s1 = (s2, Inr ())"
    "check ''terminal down'' c s2 = (s3, Inr ())" "check ''terminal first attempt'' d s3 = (t, Inr u)"
    using assms(1) by (auto simp: reconcile_integrity_def sbind_Inr lift_result_def)
  show ?thesis using check_clean run assms(2) by metis
qed

lemma reconcile_legs_clean:
  assumes "reconcile_legs summary replay vt st s = (t, Inr u)" "au_errors t = []"
  shows "au_errors s = [] \<and> (\<exists>o'. terminal_order summary replay = Inr (Some o'))"
proof -
  obtain order s1 s2 s3 s4 s5 n a b c d where run: "terminal_order summary replay = Inr order"
    "note_value ''terminal'' n s = (s1, Inr ())"
    "(if order = None then report ''terminal ordering unresolved'' else give ()) s1 = (s2, Inr ())"
    "check ''terminal up unexplained'' a s2 = (s3, Inr ())" "check ''terminal down unexplained'' b s3 = (s4, Inr ())"
    "check ''terminal answer observation'' c s4 = (s5, Inr ())" "check ''terminal handshake'' d s5 = (t, Inr u)"
    using assms(1) by (auto simp: reconcile_legs_def sbind_Inr lift_result_def Let_def)
  have e2: "au_errors s2 = []" using check_clean run(4-7) assms(2) by metis
  then have order: "order \<noteq> None" using report_not_clean run(3) by (auto split: if_splits)
  then have "s2 = s1" using run(3) by (auto simp: lift_result_def)
  then show ?thesis using e2 run(1,2) order by (auto simp: note_value_Inr)
qed

text \<open>A counter read by \<open>natural\<close> is the counter that \<open>n_of\<close> reads.\<close>

lemma natural_at_item:
  assumes "natural_at v [k] = Inr n"
  shows "item v k = Inr (JInt n) \<and> n_of v k = n \<and> 0 \<le> n"
proof -
  obtain x where x: "item v k = Inr x" "natural x = Inr n" using assms by (auto simp: natural_at_def rbind_eq_Inr)
  then have "x = JInt n" "0 \<le> n" by (auto simp: natural_def ensure_eq_Inr split: json.splits)
  with x(1) show ?thesis by (auto simp: item_def n_of_def counter_def split: json.splits option.splits)
qed

lemma naturals_items: "naturals v ks = Inr ns \<Longrightarrow> list_all (\<lambda>k. item v k = Inr (JInt (n_of v k)) \<and> 0 \<le> n_of v k) ks"
  by (induction ks arbitrary: ns) (auto simp: rbind_eq_Inr dest: natural_at_item)

lemma validated_parts:
  assumes "validate summary controls = Inr a" "au_errors a = []"
  shows "\<exists>link base. item summary ''link'' = Inr link \<and> list_all (\<lambda>k. item link k = Inr (JInt (n_of link k)) \<and> 0 \<le> n_of link k) COUNTERS \<and>
    items summary [''episode'', ''tick_base''] = Inr (JInt base)"
proof -
  have "validate_body summary controls audit_empty = (a, Inr ())"
    using assms by (auto simp: validate_def split: prod.splits sum.splits if_splits)
  then obtain link rec_link ns base where link: "item summary ''link'' = Inr link" "naturals link COUNTERS = Inr ns"
    "natural_at summary [''episode'', ''tick_base''] = Inr base"
    by (auto simp: validate_body_def validate_checks_def sbind_Inr lift_result_def Let_def rbind_eq_Inr
        simp del: run_checks.simps validate_intervals.simps naturals.simps)
  obtain x where "items summary [''episode'', ''tick_base''] = Inr x" "natural x = Inr base"
    using link(3) by (auto simp: natural_at_def rbind_eq_Inr simp del: items.simps)
  moreover from this have "x = JInt base" by (auto simp: natural_def ensure_eq_Inr split: json.splits)
  ultimately show ?thesis using link(1) naturals_items [OF link(2)] by blast
qed

section \<open>The window both owners observed\<close>

text \<open>How many of the ticks lie between the base and the last one received, which is one of them; none where nothing was received.\<close>

definition window_received :: "json \<Rightarrow> int \<Rightarrow> int list \<Rightarrow> int \<Rightarrow> bool" where
  "window_received last_tick base ticks n \<longleftrightarrow>
     (if n = 0 then last_tick = JNull
      else \<exists>l \<in> set ticks. py_eq (JInt l) last_tick \<and> n = int (length (filter (\<lambda>t. base \<le> t \<and> t \<le> l) ticks)))"

lemma at_most_int: "at_most (JInt b) t = Inr (b \<le> t)"
  by (auto simp: at_most_def compare_int_def)

lemma at_least_equal:
  assumes "py_eq (JInt l) v"
  shows "at_least v t = Inr (t \<le> l)"
proof (cases v)
  case (JFloat x)
  then have x: "f_finite x" "l * 2 ^ 1074 = f_scaled x (- 1074)" using assms by simp_all
  have "(2 :: int) ^ 1074 > 0" by (rule zero_less_power) simp
  then have "t * 2 ^ 1074 \<le> l * 2 ^ 1074 \<longleftrightarrow> t \<le> l" by (simp only: mult_le_cancel_right) simp
  then have "t * 2 ^ 1074 < f_scaled x (- 1074) \<or> f_scaled x (- 1074) = t * 2 ^ 1074 \<longleftrightarrow> t \<le> l"
    unfolding x(2) [symmetric] by linarith
  then show ?thesis using x(1) JFloat by (auto simp: at_least_def compare_int_def)
qed (use assms in \<open>auto simp: at_least_def compare_int_def split: if_splits\<close>)

lemma count_inside_length:
  assumes "py_eq (JInt l) v"
  shows "count_inside (JInt b) v ts = Inr (int (length (filter (\<lambda>t. b \<le> t \<and> t \<le> l) ts)))"
  by (induction ts) (auto simp: at_most_int at_least_equal [OF assms] both_def)

lemma window_count_received:
  assumes "window_count (JInt base) last_tick ticks = Inr n" "if n \<noteq> 0 then tick_in last_tick ticks else last_tick = JNull"
  shows "window_received last_tick base ticks n"
  using assms
  by (auto simp: window_received_def window_count_def tick_in_def list_ex_iff count_inside_length simp del: py_eq.simps split: if_splits)

section \<open>What each part has established\<close>

lemma check_firstE:
  assumes "sbind (check name c) (\<lambda>_. m) s = (t, Inr u)"
  obtains s' where "check name c s = (s', Inr ())" "m s' = (t, Inr u)"
  using assms by (auto simp: sbind_Inr)

text \<open>The uplink: the simulator's account of its samples, and the recording of those it sent.\<close>

definition uplink_accounted :: "json \<Rightarrow> json \<Rightarrow> sensor_row list \<Rightarrow> bool" where
  "uplink_accounted up sim_terminal sensors \<longleftrightarrow>
     n_of up ''generated'' = n_of up ''intentionally_lost'' + n_of up ''transmitted'' + n_of up ''sensor_tx_fail'' \<and>
     distinct (ordinary_ticks sensors) \<and> int (length (ordinary_ticks sensors)) = n_of up ''transmitted'' \<and>
     count_of (\<lambda>r. flag_set (sr_flags r) 1) sensors = (if 0 < n_of sim_terminal ''up_transmitted'' then 1 else 0)"

lemma reconcile_uplink_facts:
  assumes "reconcile_uplink summary up st sensors s = (t, Inr base)" "au_errors t = []"
    and "item summary ''link'' = Inr link" "item link ''received'' = Inr (JInt got)"
    and "items summary [''episode'', ''tick_base''] = Inr (JInt b)"
  shows "au_errors s = [] \<and> base = JInt b \<and> (\<exists>last_tick. item summary ''last_received_tick'' = Inr last_tick \<and>
    uplink_accounted up st sensors \<and> window_received last_tick b (ordinary_ticks sensors) got)"
proof -
  have read_got: "items summary [''link'', ''received''] = Inr (JInt got)" using assms(3,4) by simp
  obtain last_tick inside s1 s2 s3 s4 n where run: "item summary ''last_received_tick'' = Inr last_tick" "base = JInt b"
    "check ''uplink generation'' (Inr (n_of up ''generated'' =
        n_of up ''intentionally_lost'' + n_of up ''transmitted'' + n_of up ''sensor_tx_fail'')) s = (s1, Inr ())"
    "check ''input recording membership'' (Inr (distinct (ordinary_ticks sensors) \<and>
        int (length (ordinary_ticks sensors)) = n_of up ''transmitted'' \<and>
        count_of (\<lambda>r. flag_set (sr_flags r) 1) sensors = (if 0 < n_of st ''up_transmitted'' then 1 else 0))) s1 = (s2, Inr ())"
    "check ''uplink observed boundary'' (Inr (if got \<noteq> 0 then tick_in last_tick (ordinary_ticks sensors) else last_tick = JNull)) s2 = (s3, Inr ())"
    "window_count (JInt b) last_tick (ordinary_ticks sensors) = Inr inside" "note_value ''uplink'' n s3 = (s4, Inr ())"
    "check ''uplink receipt'' (Inr (py_eq (JInt (inside - got)) (JInt 0))) s4 = (t, Inr ())"
    using assms(1) unfolding reconcile_uplink_def Let_def
    by (auto simp: sbind_Inr lift_result_def read_got assms(5) int_minus_def simp del: items.simps py_eq.simps)
  note c4 = check_clean [OF run(8) assms(2)]
  then have "au_errors s3 = []" using run(7) by (simp add: note_value_Inr)
  note c3 = check_clean [OF run(5) this]
  then have "au_errors s2 = []" by blast
  note c2 = check_clean [OF run(4) this]
  then have "au_errors s1 = []" by blast
  note c1 = check_clean [OF run(3) this]
  have "inside = got" using c4 by simp
  then have "window_received last_tick b (ordinary_ticks sensors) got"
    using window_count_received [OF run(6)] c3 by simp
  then show ?thesis using run(1,2) c1 c2 by (simp add: uplink_accounted_def)
qed

lemma reconcile_downlink_facts:
  assumes "reconcile_downlink (JInt b) down controls s = (t, Inr u)" "au_errors t = []"
  shows "au_errors s = [] \<and>
    n_of down ''received'' = n_of down ''actuator_selected'' + n_of down ''intentionally_lost'' + n_of down ''superseded'' \<and>
    (\<exists>last_tick. item down ''last_received_tick'' = Inr last_tick \<and> (last_tick = JNull \<longrightarrow> sent_ticks controls = []) \<and>
      window_received last_tick b (sent_ticks controls) (n_of down ''received''))"
proof -
  obtain last_tick inside s1 s2 s3 n where run: "item down ''last_received_tick'' = Inr last_tick"
    "last_tick = JNull \<longrightarrow> sent_ticks controls = []"
    "check ''downlink observed boundary''
        (Inr (if n_of down ''received'' \<noteq> 0 then tick_in last_tick (sent_ticks controls) else last_tick = JNull)) s = (s1, Inr ())"
    "window_count (JInt b) last_tick (sent_ticks controls) = Inr inside" "note_value ''downlink'' n s1 = (s2, Inr ())"
    "check ''downlink receipt'' (Inr (inside - n_of down ''received'' = 0)) s2 = (s3, Inr ())"
    "check ''downlink disposition'' (Inr (n_of down ''received'' =
        n_of down ''actuator_selected'' + n_of down ''intentionally_lost'' + n_of down ''superseded'')) s3 = (t, Inr u)"
    using assms(1) unfolding reconcile_downlink_def Let_def by (auto simp: sbind_Inr lift_result_def ensure_eq_Inr)
  note c4 = check_clean [OF run(7) assms(2)]
  then have "au_errors s3 = []" by blast
  note c3 = check_clean [OF run(6) this]
  then have "au_errors s1 = []" using run(5) by (simp add: note_value_Inr)
  note c1 = check_clean [OF run(3) this]
  have "inside = n_of down ''received''" using c3 by simp
  then have "window_received last_tick b (sent_ticks controls) (n_of down ''received'')"
    using window_count_received [OF run(4)] c1 by simp
  then show ?thesis using run(1,2) c1 c4 by simp
qed

lemma none_truthy_all: "none_truthy v ks = Inr True \<longleftrightarrow> list_all (\<lambda>k. \<exists>x. item v k = Inr x \<and> \<not> truthy x) ks"
  by (induction ks) (auto simp: rbind_eq_Inr split: if_splits)

text \<open>Nothing malformed, conflicting or out of the legal window on either side, and both halves of the terminal exchange balanced.\<close>

definition exchange_accounted :: "json \<Rightarrow> json \<Rightarrow> json \<Rightarrow> json \<Rightarrow> bool" where
  "exchange_accounted link down st vt \<longleftrightarrow>
     list_all (\<lambda>k. \<exists>x. item link k = Inr x \<and> \<not> truthy x) (BAD @ [''discarded_tick_conflict'', ''discarded_skew_excess'', ''future_expired'']) \<and>
     n_of down ''malformed'' = 0 \<and> n_of down ''invalid'' = 0 \<and>
     list_all (\<lambda>k. n_of vt k = 0) [''up_tick_conflict'', ''up_illegal_reason'', ''up_future_expired'', ''up_skew_excess''] \<and>
     n_of st ''up_attempts'' = n_of st ''up_intentionally_lost'' + n_of st ''up_tx_fail'' + n_of st ''up_transmitted'' \<and>
     n_of vt ''down_attempts'' = n_of vt ''down_tx_fail'' + n_of vt ''down_transmitted'' \<and>
     n_of st ''down_received_raw'' = n_of st ''down_intentionally_lost'' + n_of st ''down_survived'' \<and>
     (\<exists>cycle. item vt ''cycle'' = Inr cycle \<and> at_most cycle (n_of vt ''down_attempts'') = Inr True)"

lemma reconcile_integrity_facts:
  assumes "reconcile_integrity summary down st vt s = (t, Inr u)" "au_errors t = []" "item summary ''link'' = Inr link"
  shows "au_errors s = [] \<and> exchange_accounted link down st vt"
proof -
  obtain s1 s2 s3 where run:
    "check ''link integrity''
       (both (none_truthy link (BAD @ [''discarded_tick_conflict'', ''discarded_skew_excess'', ''future_expired'']))
         (Inr (n_of down ''malformed'' = 0 \<and> n_of down ''invalid'' = 0 \<and>
            list_all (\<lambda>k. n_of vt k = 0) [''up_tick_conflict'', ''up_illegal_reason'', ''up_future_expired'', ''up_skew_excess'']))) s = (s1, Inr ())"
    "check ''terminal up'' (Inr (n_of st ''up_attempts'' = n_of st ''up_intentionally_lost'' + n_of st ''up_tx_fail'' + n_of st ''up_transmitted''))
       s1 = (s2, Inr ())"
    "check ''terminal down'' (Inr (n_of vt ''down_attempts'' = n_of vt ''down_tx_fail'' + n_of vt ''down_transmitted'' \<and>
       n_of st ''down_received_raw'' = n_of st ''down_intentionally_lost'' + n_of st ''down_survived'')) s2 = (s3, Inr ())"
    "check ''terminal first attempt'' (rbind (item vt ''cycle'') (\<lambda>v. at_most v (n_of vt ''down_attempts''))) s3 = (t, Inr u)"
    using assms(1) unfolding reconcile_integrity_def by (simp add: sbind_Inr lift_result_def assms(3)) blast
  note c4 = check_clean [OF run(4) assms(2)]
  then have "au_errors s3 = []" by blast
  note c3 = check_clean [OF run(3) this]
  then have "au_errors s2 = []" by blast
  note c2 = check_clean [OF run(2) this]
  then have "au_errors s1 = []" by blast
  note c1 = check_clean [OF run(1) this]
  show ?thesis
    using c1 c2 c3 c4 unfolding exchange_accounted_def both_True none_truthy_all rbind_eq_Inr sum.inject by blast
qed

text \<open>The two terminations: their order is known, no required leg lost its frames without a cause, and the simulator saw an answer exactly
  when one survived.\<close>

definition legs_resolved :: "json \<Rightarrow> json \<Rightarrow> json \<Rightarrow> json \<Rightarrow> bool" where
  "legs_resolved summary replay vt st \<longleftrightarrow>
     (\<exists>o' up down seen handshake. terminal_order summary replay = Inr (Some o') \<and>
       terminal_legs summary replay vt st (Some o') True = Inr (up, down) \<and>
       (needed (leg_required up) \<longrightarrow> leg_residual up \<noteq> ''unexplained'') \<and> (needed (leg_required down) \<longrightarrow> leg_residual down \<noteq> ''unexplained'') \<and>
       item replay ''vehicle_reason_seen'' = Inr seen \<and> (seen \<noteq> JNull \<longleftrightarrow> n_of st ''down_survived'' \<noteq> 0) \<and>
       item replay ''terminal_handshake'' = Inr handshake \<and>
       (py_eq handshake (JString ''answered'') \<longleftrightarrow> n_of st ''down_survived'' \<noteq> 0))"

lemma reconcile_legs_facts:
  assumes "reconcile_legs summary replay vt st s = (t, Inr u)" "au_errors t = []"
    and "dict_get summary ''clock_domain'' = Inr a" "dict_get replay ''clock_domain'' = Inr b" "truthy a" "py_eq a b"
  shows "au_errors s = [] \<and> legs_resolved summary replay vt st"
proof -
  obtain order up down handshake n s1 s2 s3 s4 s5 where run: "terminal_order summary replay = Inr order"
    "terminal_legs summary replay vt st order True = Inr (up, down)" "item replay ''terminal_handshake'' = Inr handshake"
    "note_value ''terminal'' n s = (s1, Inr ())"
    "(if order = None then report ''terminal ordering unresolved'' else give ()) s1 = (s2, Inr ())"
    "check ''terminal up unexplained'' (Inr (\<not> needed (leg_required up) \<or> leg_residual up \<noteq> ''unexplained'')) s2 = (s3, Inr ())"
    "check ''terminal down unexplained'' (Inr (\<not> needed (leg_required down) \<or> leg_residual down \<noteq> ''unexplained'')) s3 = (s4, Inr ())"
    "check ''terminal answer observation'' (rbind (item replay ''vehicle_reason_seen'')
       (\<lambda>v. Inr ((v \<noteq> JNull) = (n_of st ''down_survived'' \<noteq> 0)))) s4 = (s5, Inr ())"
    "check ''terminal handshake'' (Inr (py_eq handshake (JString ''answered'') = (n_of st ''down_survived'' \<noteq> 0))) s5 = (t, Inr u)"
    using assms(1,3-6) by (auto simp: reconcile_legs_def sbind_Inr lift_result_def Let_def simp del: py_eq.simps split: prod.splits)
  note c5 = check_clean [OF run(9) assms(2)]
  then have "au_errors s5 = []" by blast
  note c4 = check_clean [OF run(8) this]
  then have "au_errors s4 = []" by blast
  note c3 = check_clean [OF run(7) this]
  then have "au_errors s3 = []" by blast
  note c2 = check_clean [OF run(6) this]
  then have e2: "au_errors s2 = []" by blast
  then obtain o' where order: "order = Some o'" using report_not_clean run(5) by (auto split: if_splits)
  then have "s2 = s1" using run(5) by (simp add: lift_result_def)
  then have "au_errors s = []" using e2 run(4) by (simp add: note_value_Inr)
  then show ?thesis using run(1-3) c2 c3 c4 c5 order unfolding legs_resolved_def rbind_eq_Inr sum.inject by blast
qed

text \<open>The reasons: the pair is an expected one that produces evidence, each owner saw the other's own reason if it saw one, and the last
  record is the terminal one.\<close>

definition reasons_agree :: "json \<Rightarrow> json \<Rightarrow> json \<Rightarrow> control list \<Rightarrow> bool" where
  "reasons_agree summary replay vt controls \<longleftrightarrow>
     (\<exists>sr ep vr sim_seen vehicle_seen. item replay ''sim_reason'' = Inr sr \<and> item summary ''episode'' = Inr ep \<and>
       item ep ''vehicle_reason'' = Inr vr \<and> pair_in sr vr FREERUN_PAIRS = Inr True \<and> \<not> among vr [5, 6, 8] \<and>
       item ep ''sim_reason_seen'' = Inr sim_seen \<and> (sim_seen \<noteq> JNull \<longrightarrow> py_eq sim_seen sr \<and> 0 < n_of vt ''up_received_raw'') \<and>
       item replay ''vehicle_reason_seen'' = Inr vehicle_seen \<and> (vehicle_seen \<noteq> JNull \<longrightarrow> py_eq vehicle_seen vr) \<and>
       terminal_record_mismatch controls vr ep = Inr False)"

lemma optional_check_facts:
  assumes "(if c then give () else check name b) s = (t, Inr ())" "au_errors t = []"
  shows "au_errors s = [] \<and> (\<not> c \<longrightarrow> b = Inr True)"
  using assms check_clean [of name b s t "()"] by (auto simp: lift_result_def split: if_splits)

lemma reconcile_reasons_facts:
  assumes "reconcile_reasons summary replay vt controls s = (t, Inr u)" "au_errors t = []"
  shows "au_errors s = [] \<and> reasons_agree summary replay vt controls"
proof -
  obtain sr ep vr expected sim_seen vehicle_seen s1 s2 s3 s4 s5 where run: "item replay ''sim_reason'' = Inr sr" "item summary ''episode'' = Inr ep"
    "item ep ''vehicle_reason'' = Inr vr" "pair_in sr vr FREERUN_PAIRS = Inr expected" "item ep ''sim_reason_seen'' = Inr sim_seen"
    "item replay ''vehicle_reason_seen'' = Inr vehicle_seen"
    "(if sim_seen = JNull then give () else check ''simulator observation'' (Inr (py_eq sim_seen sr \<and> 0 < n_of vt ''up_received_raw''))) s = (s1, Inr ())"
    "(if vehicle_seen = JNull then give () else check ''vehicle observation'' (Inr (py_eq vehicle_seen vr))) s1 = (s2, Inr ())"
    "check ''terminal record'' (negate (terminal_record_mismatch controls vr ep)) s2 = (s3, Inr ())"
    "note_value ''sim_reason'' sr s3 = (s4, Inr ())" "note_value ''vehicle_reason'' vr s4 = (s5, Inr ())"
    "reconcile_pairing vr expected s5 = (t, Inr u)"
    using assms(1) by (auto simp: reconcile_reasons_def sbind_Inr lift_result_def simp del: py_eq.simps split del: if_split)
  have pairing: "au_errors s5 = [] \<and> \<not> among vr [5, 6, 8] \<and> expected"
  proof (cases "among vr [5, 6, 8]")
    case True
    then show ?thesis using run(12) assms(2) report_not_clean by (fastforce simp: reconcile_pairing_def sbind_Inr)
  next
    case False
    then obtain s6 where "note_value ''terminal_agreement'' (JBool expected) s5 = (s6, Inr ())" "check ''terminal agreement'' (Inr expected) s6 = (t, Inr u)"
      using run(12) by (auto simp: reconcile_pairing_def sbind_Inr)
    with check_clean [OF this(2) assms(2)] False show ?thesis by (simp add: note_value_Inr)
  qed
  then have e3: "au_errors s3 = []" using run(10,11) by (simp add: note_value_Inr)
  note c3 = check_clean [OF run(9) e3]
  then have "au_errors s2 = []" by blast
  note c2 = optional_check_facts [OF run(8) this]
  then have "au_errors s1 = []" by blast
  note c1 = optional_check_facts [OF run(7) this]
  have "terminal_record_mismatch controls vr ep = Inr False" using c3 by (auto simp: negate_def rbind_eq_Inr)
  then show ?thesis using run(1-6) pairing c1 c2 unfolding reasons_agree_def by (auto simp del: py_eq.simps)
qed

lemma reconcile_measurement_facts:
  assumes "reconcile_measurement summary replay controls s = (t, Inr u)" "au_errors t = []"
  shows "au_errors s = [] \<and> (\<exists>a. validate summary controls = Inr a \<and> au_errors a = []) \<and> validate_roundtrip replay = Inr [] \<and>
    item summary ''mode'' = Inr (JString ''freerun'') \<and> item replay ''mode'' = Inr (JString ''freerun'') \<and>
    (\<exists>a b. dict_get summary ''clock_domain'' = Inr a \<and> dict_get replay ''clock_domain'' = Inr b \<and> truthy a \<and> py_eq a b)"
proof -
  have eq: "py_eq m (JString x) \<Longrightarrow> m = JString x" for m x by (cases m) simp_all
  obtain measured problems s1 s2 where run: "validate summary controls = Inr measured" "validate_roundtrip replay = Inr problems"
    "report_all (au_errors measured) s = (s1, Inr ())" "report_all problems s1 = (s2, Inr ())"
    "check ''shared sensor clock'' (rbind (dict_get summary ''clock_domain'') (\<lambda>a.
       if \<not> truthy a then Inr False else rbind (dict_get replay ''clock_domain'') (\<lambda>b. Inr (py_eq a b)))) s2 = (t, Inr u)"
    "item summary ''mode'' = Inr (JString ''freerun'')" "item replay ''mode'' = Inr (JString ''freerun'')"
    using assms(1)
    by (auto simp: reconcile_measurement_def sbind_Inr lift_result_def rbind_eq_Inr ensure_eq_Inr simp del: py_eq.simps split: if_splits
        dest!: eq)
  note c = check_clean [OF run(5) assms(2)]
  then have "au_errors s2 = []" by blast
  from report_all_clean [OF run(4) this] have clean: "problems = []" "au_errors s1 = []" by blast+
  obtain a b where "dict_get summary ''clock_domain'' = Inr a" "dict_get replay ''clock_domain'' = Inr b" "truthy a" "py_eq a b"
    using c by (auto simp: rbind_eq_Inr simp del: py_eq.simps split: if_splits)
  with clean report_all_clean [OF run(3)] run(1,2,6,7) show ?thesis by blast
qed

text \<open>C7. An eligible free-running verdict rests on the whole evidence, of both owners and across them. The vehicle's measurement
  validates without a message and so do the round trips, on one shared clock. The recorded samples are distinct and exactly those
  the simulator transmitted, and what it generated adds up; the samples the vehicle received are as many as were transmitted from its
  base tick to the last one received. The commands the simulator received are as many as the vehicle's records show sent in that same
  window, and each was selected, lost on purpose or superseded. Nothing was malformed, conflicting or out of the legal window, and
  both halves of the terminal exchange balance. The order of the two terminations is known, no required leg lost its frames without a
  cause, an answer was seen exactly when one survived, the reasons form an expected pair that both owners tell, and the last
  control record is the terminal one.\<close>

theorem free_eligible_sound:
  assumes "reconcile_freerun summary replay sensors controls = Inr v" "vd_eligible v"
  shows "(\<exists>a. validate summary controls = Inr a \<and> au_errors a = []) \<and> validate_roundtrip replay = Inr [] \<and>
    distinct (ordinary_ticks sensors) \<and> controls \<noteq> [] \<and> ct_state (last controls) = 3 \<and>
    (\<exists>o'. terminal_order summary replay = Inr (Some o')) \<and>
    item summary ''mode'' = Inr (JString ''freerun'') \<and> item replay ''mode'' = Inr (JString ''freerun'') \<and>
    (\<exists>a b. dict_get summary ''clock_domain'' = Inr a \<and> dict_get replay ''clock_domain'' = Inr b \<and> truthy a \<and> py_eq a b) \<and>
    (\<exists>up down vt st link base up_last down_last. item replay ''transmission'' = Inr up \<and> item replay ''actuator_receipt'' = Inr down \<and>
      item summary ''terminal'' = Inr vt \<and> item replay ''terminal'' = Inr st \<and> item summary ''link'' = Inr link \<and>
      items summary [''episode'', ''tick_base''] = Inr (JInt base) \<and>
      uplink_accounted up st sensors \<and> item link ''received'' = Inr (JInt (n_of link ''received'')) \<and>
      item summary ''last_received_tick'' = Inr up_last \<and> window_received up_last base (ordinary_ticks sensors) (n_of link ''received'') \<and>
      n_of down ''received'' = n_of down ''actuator_selected'' + n_of down ''intentionally_lost'' + n_of down ''superseded'' \<and>
      item down ''last_received_tick'' = Inr down_last \<and> window_received down_last base (sent_ticks controls) (n_of down ''received'') \<and>
      (down_last = JNull \<longrightarrow> sent_ticks controls = []) \<and>
      exchange_accounted link down st vt \<and> legs_resolved summary replay vt st \<and> reasons_agree summary replay vt controls)"
proof -
  obtain s u where run: "reconcile_free_body summary replay sensors controls audit_empty = (s, Inr u)" "au_errors s = []"
    using assms by (auto simp: reconcile_freerun_def split: prod.splits sum.splits if_splits)
  obtain up down vt st base s1 s2 s3 s4 s5 where read: "item replay ''transmission'' = Inr up" "item replay ''actuator_receipt'' = Inr down"
    "item summary ''terminal'' = Inr vt" "item replay ''terminal'' = Inr st"
    and steps: "reconcile_measurement summary replay controls audit_empty = (s1, Inr ())"
    "reconcile_uplink summary up st sensors s1 = (s2, Inr base)" "reconcile_downlink base down controls s2 = (s3, Inr ())"
    "reconcile_integrity summary down st vt s3 = (s4, Inr ())" "reconcile_legs summary replay vt st s4 = (s5, Inr ())"
    "reconcile_reasons summary replay vt controls s5 = (s, Inr u)"
    using run(1) by (auto simp: reconcile_free_body_def reconcile_owners_def sbind_Inr lift_result_def)
  note t6 = reconcile_reasons_facts [OF steps(6) run(2)]
  then have e5: "au_errors s5 = []" by blast
  have e4: "au_errors s4 = []" using reconcile_legs_clean [OF steps(5) e5] by blast
  have e3: "au_errors s3 = []" by (rule reconcile_integrity_clean [OF steps(4) e4])
  have e2: "au_errors s2 = []" by (rule reconcile_downlink_clean [OF steps(3) e3])
  have e1: "au_errors s1 = []" by (rule reconcile_uplink_clean [OF steps(2) e2])
  note t1 = reconcile_measurement_facts [OF steps(1) e1]
  then obtain a where a: "validate summary controls = Inr a" "au_errors a = []" by blast
  obtain link b where link: "item summary ''link'' = Inr link" "list_all (\<lambda>k. item link k = Inr (JInt (n_of link k)) \<and> 0 \<le> n_of link k) COUNTERS"
    "items summary [''episode'', ''tick_base''] = Inr (JInt b)" using validated_parts [OF a] by blast
  have got: "item link ''received'' = Inr (JInt (n_of link ''received''))" using link(2) by (simp add: COUNTERS_def)
  note t2 = reconcile_uplink_facts [OF steps(2) e2 link(1) got link(3)]
  then have base: "base = JInt b" by blast
  note t3 = reconcile_downlink_facts [OF steps(3) [unfolded base] e3]
  note t4 = reconcile_integrity_facts [OF steps(4) e4 link(1)]
  obtain c d where clock: "dict_get summary ''clock_domain'' = Inr c" "dict_get replay ''clock_domain'' = Inr d" "truthy c" "py_eq c d"
    using t1 by blast
  note t5 = reconcile_legs_facts [OF steps(5) e5 clock]
  have owners: "\<exists>up down vt st link base up_last down_last. item replay ''transmission'' = Inr up \<and> item replay ''actuator_receipt'' = Inr down \<and>
      item summary ''terminal'' = Inr vt \<and> item replay ''terminal'' = Inr st \<and> item summary ''link'' = Inr link \<and>
      items summary [''episode'', ''tick_base''] = Inr (JInt base) \<and>
      uplink_accounted up st sensors \<and> item link ''received'' = Inr (JInt (n_of link ''received'')) \<and>
      item summary ''last_received_tick'' = Inr up_last \<and> window_received up_last base (ordinary_ticks sensors) (n_of link ''received'') \<and>
      n_of down ''received'' = n_of down ''actuator_selected'' + n_of down ''intentionally_lost'' + n_of down ''superseded'' \<and>
      item down ''last_received_tick'' = Inr down_last \<and> window_received down_last base (sent_ticks controls) (n_of down ''received'') \<and>
      (down_last = JNull \<longrightarrow> sent_ticks controls = []) \<and>
      exchange_accounted link down st vt \<and> legs_resolved summary replay vt st \<and> reasons_agree summary replay vt controls"
    using read link(1,3) got t2 t3 t4 t5 t6 by blast
  have "distinct (ordinary_ticks sensors)" using t2 by (auto simp: uplink_accounted_def)
  moreover have "\<exists>o'. terminal_order summary replay = Inr (Some o')" using t5 by (auto simp: legs_resolved_def)
  moreover have "controls \<noteq> [] \<and> ct_state (last controls) = 3"
    using t6 by (auto simp: reasons_agree_def terminal_record_mismatch_def Let_def either_def rbind_eq_Inr split: if_splits)
  ultimately show ?thesis using t1 clock owners by blast
qed

section \<open>A concrete free run\<close>

text \<open>One cycle: its fresh sample is served and ends the episode; the simulator hears the terminal answer.\<close>

definition ended_link :: json where
  "ended_link = example_counts (map (\<lambda>k. (k, if k \<in> {''received'', ''consumed'', ''fresh'', ''served''} then 1 else 0)) COUNTERS)"

definition ended_summary :: json where
  "ended_summary = JObject [(''mode'', JString ''freerun''), (''clock_domain'', JString ''clock''), (''total_cycles'', JInt 1),
     (''warmup'', JInt 0), (''cycles'', JInt 1), (''telemetry'', example_counts [(''records'', 1), (''dropped'', 0)]),
     (''events'', example_counts [(''episode_transitions'', 1), (''record_attempts'', 1), (''records_pushed'', 1)]),
     (''link'', ended_link), (''link_recorded'', ended_link), (''future_parked_at_end'', JInt 0),
     (''future_parked_at_warmup'', JInt 0), (''last_received_tick'', JInt 5), (''terminal_copies'', JInt 12),
     (''terminal'', JObject [(''cycle'', JInt 1), (''down_attempts'', JInt 1), (''down_transmitted'', JInt 1),
        (''down_tx_fail'', JInt 0), (''first_tx_ok'', JBool True), (''up_received_raw'', JInt 0),
        (''up_received_raw_recorded'', JInt 0), (''up_tick_conflict'', JInt 0), (''up_illegal_reason'', JInt 0),
        (''up_future_expired'', JInt 0), (''up_skew_excess'', JInt 0), (''receive_open_ns'', JInt 1),
        (''receive_closed_ns'', JInt 200), (''send_first_ns'', JInt 113), (''send_last_ns'', JInt 113)]),
     (''actuator'', example_counts [(''generated'', 0), (''transmitted'', 0), (''tx_fail'', 0)]),
     (''episode'', JObject [(''tick_base'', JInt 5), (''vehicle_reason'', JInt 1), (''reason_tick'', JInt 5), (''sim_reason_seen'', JNull)]),
     (''origin_ns'', JInt 100), (''latency_us'', measured_interval 3), (''uplink_wait_us'', measured_interval 2),
     (''vehicle_compute_us'', measured_interval 1), (''jitter_us'', measured_interval 0), (''exec_us'', measured_interval 0),
     (''dropped_samples'', JInt 0), (''discard_age_us'', example_counts [(''count'', 0), (''sum_ns'', 0), (''dropped'', 0)])]"

definition ended_replay :: json where
  "ended_replay = JObject [(''mode'', JString ''freerun''), (''clock_domain'', JString ''clock''),
     (''termination_source'', JString ''vehicle''), (''terminal_handshake'', JString ''answered''),
     (''sim_reason'', JInt 4), (''vehicle_reason_seen'', JInt 1), (''receive_open_ns'', JInt 1), (''receive_closed_ns'', JInt 200),
     (''terminal_send_first_ns'', JInt 0), (''terminal_send_last_ns'', JInt 0),
     (''transmission'', example_counts [(''generated'', 1), (''intentionally_lost'', 0), (''transmitted'', 1), (''sensor_tx_fail'', 0)]),
     (''actuator_receipt'', JObject (map (\<lambda>k. (k, JInt 0)) DOWN_KEYS @ [(''last_received_tick'', JNull)])),
     (''terminal'', example_counts [(''up_attempts'', 0), (''up_intentionally_lost'', 0), (''up_tx_fail'', 0), (''up_transmitted'', 0),
        (''down_received_raw'', 1), (''down_intentionally_lost'', 0), (''down_survived'', 1)]),
     (''roundtrip_samples'', JList []), (''latency_roundtrip_ns'', JList []),
     (''latency_roundtrip_us'', JObject [(''count'', JInt 0), (''sum_ns'', JInt 0), (''p50'', JInt 0), (''p99.9'', JInt 0), (''max'', JInt 0)])]"

definition ended_control :: control where
  "ended_control = measured_control\<lparr>ct_state := 3\<rparr>"

definition ended_sample :: sensor_row where
  "ended_sample = example_sample\<lparr>sr_tick := 5, sr_t_send_ns := 110, sr_flags := 1\<rparr>"

lemma ended_checks: "clean_window ended_link 1 (validate_checks ended_summary [ended_control] audit_empty)"
  by code_simp

lemma ended_valid: "\<exists>a. validate ended_summary [ended_control] = Inr a \<and> au_errors a = []"
proof -
  obtain s where s: "validate_checks ended_summary [ended_control] audit_empty = (s, Inr (ended_link, 1))" "au_errors s = []"
    using ended_checks by (auto simp: clean_window_def split: prod.splits sum.splits)
  have one: "n_of ended_link ''consumed'' = 1" "n_of ended_link ''served'' = 1" by code_simp+
  show ?thesis
    using s by (simp add: validate_def validate_body_def validate_coverage_def sbind_def lift_result_def note_value_def modify_def one ratio_one)
qed

definition clock_checked :: audit where
  "clock_checked = \<lparr>au_errors = [], au_identities = [(''shared sensor clock'', Some True)], au_notes = []\<rparr>"

definition clean_end :: "audit \<times> unit result \<Rightarrow> bool" where
  "clean_end p = (case p of (s, Inr u) \<Rightarrow> au_errors s = [] | (s, Inl e) \<Rightarrow> False)"

lemma ended_roundtrip: "validate_roundtrip ended_replay = Inr []"
proof -
  have "ratio 0 1000 = Inr 0" by (simp add: ratio_def f_round_def f_zero_def f_field_defs)
  then have "roundtrip_statistics [] = Inr (JObject [(''count'', JInt 0), (''sum_ns'', JInt 0), (''max'', JFloat 0),
      (''p50'', JInt 0), (''p99.9'', JInt 0)])"
    by (simp add: roundtrip_statistics_def percentile_json_def)
  moreover have "num_eq (NInt 0) (NFlt 0)" by (simp add: f_field_defs f_scaled_def f_ulp_def f_sig_def)
  ultimately show ?thesis
    by (simp add: validate_roundtrip_def roundtrip_audit_def ended_replay_def item_def py_iter_def natural_at_def
        natural_def DOWN_KEYS_def example_counts_def del: num_eq.simps(3))
qed

lemma ended_owners: "clean_end (reconcile_owners ended_summary ended_replay [ended_sample] [ended_control] clock_checked)"
  by code_simp

lemma ended_eligible:
  "\<exists>v. reconcile_freerun ended_summary ended_replay [ended_sample] [ended_control] = Inr v \<and> vd_eligible v"
proof -
  obtain a where a: "validate ended_summary [ended_control] = Inr a" "au_errors a = []" using ended_valid by blast
  have "item ended_summary ''mode'' = Inr (JString ''freerun'')" "item ended_replay ''mode'' = Inr (JString ''freerun'')"
    "dict_get ended_summary ''clock_domain'' = Inr (JString ''clock'')"
    "dict_get ended_replay ''clock_domain'' = Inr (JString ''clock'')"
    by (simp_all add: ended_summary_def ended_replay_def item_def dict_get_def)
  then have measured: "reconcile_measurement ended_summary ended_replay [ended_control] audit_empty = (clock_checked, Inr ())"
    using a ended_roundtrip
    by (simp add: reconcile_measurement_def report_all_def check_def modify_def audit_empty_def clock_checked_def)
  obtain s where "reconcile_owners ended_summary ended_replay [ended_sample] [ended_control] clock_checked = (s, Inr ())"
    "au_errors s = []"
    using ended_owners by (auto simp: clean_end_def split: prod.splits sum.splits)
  then show ?thesis
    using measured by (simp add: reconcile_freerun_def reconcile_free_body_def sbind_def)
qed

lemma free_eligible_sound_witness:
  "\<exists>v. reconcile_freerun ended_summary ended_replay [ended_sample] [ended_control] = Inr v \<and> vd_eligible v \<and>
     window_received (JInt 5) 5 (ordinary_ticks [ended_sample]) 1 \<and> (\<exists>o'. terminal_order ended_summary ended_replay = Inr (Some o'))"
proof -
  obtain v where v: "reconcile_freerun ended_summary ended_replay [ended_sample] [ended_control] = Inr v" "vd_eligible v"
    using ended_eligible by blast
  obtain link base up_last where w: "item ended_summary ''link'' = Inr link" "items ended_summary [''episode'', ''tick_base''] = Inr (JInt base)"
    "item ended_summary ''last_received_tick'' = Inr up_last" "window_received up_last base (ordinary_ticks [ended_sample]) (n_of link ''received'')"
    and ending: "\<exists>o'. terminal_order ended_summary ended_replay = Inr (Some o')"
    using free_eligible_sound [OF v] by blast
  have "link = ended_link" "base = 5" "up_last = JInt 5" using w(1-3) by (simp_all add: ended_summary_def item_def)
  moreover have "n_of ended_link ''received'' = 1" by code_simp
  ultimately show ?thesis using v w(4) ending by simp
qed

end
