(* ===== verification/Text.thy ===== *)
theory Text
  imports Reports "HOL-Library.AList"
begin

text \<open>
  The text that the campaign programs take apart and build: separators, blanks, decimal numbers,
  and Python dictionaries with string keys as association lists.
\<close>

section \<open>Splitting\<close>

text \<open>\<open>s.split(c)\<close> for one character, \<open>s.partition(c)\<close>, and \<open>s.split()\<close>.\<close>

fun split_on :: "char \<Rightarrow> string \<Rightarrow> string list" where
  "split_on c [] = [[]]"
| "split_on c (x # xs) =
     (if x = c then [] # split_on c xs
      else case split_on c xs of w # ws \<Rightarrow> (x # w) # ws | [] \<Rightarrow> [[x]])"

definition head_of :: "char \<Rightarrow> string \<Rightarrow> string" where
  "head_of c s = takeWhile (\<lambda>x. x \<noteq> c) s"

definition tail_of :: "char \<Rightarrow> string \<Rightarrow> string" where
  "tail_of c s = List.drop 1 (dropWhile (\<lambda>x. x \<noteq> c) s)"

fun words_of :: "string \<Rightarrow> string \<Rightarrow> string list" where
  "words_of w [] = (if w = [] then [] else [rev w])"
| "words_of w (c # cs) =
     (if blank c then (if w = [] then [] else [rev w]) @ words_of [] cs else words_of (c # w) cs)"

text \<open>What follows the first and what follows the last occurrence of a separator.\<close>

fun after_first :: "string \<Rightarrow> string \<Rightarrow> string option" where
  "after_first p [] = (if p = [] then Some [] else None)"
| "after_first p (c # cs) =
     (if take (length p) (c # cs) = p then Some (List.drop (length p) (c # cs)) else after_first p cs)"

fun after_last :: "string \<Rightarrow> string \<Rightarrow> string option" where
  "after_last p [] = (if p = [] then Some [] else None)"
| "after_last p (c # cs) =
     (case after_last p cs of
        Some r \<Rightarrow> Some r
      | None \<Rightarrow> if take (length p) (c # cs) = p then Some (List.drop (length p) (c # cs)) else None)"

fun starts_with :: "string \<Rightarrow> string \<Rightarrow> bool" where
  "starts_with p s \<longleftrightarrow> take (length p) s = p"

text \<open>\<open>s.replace(p, r)\<close> at the first occurrence of a nonempty \<open>p\<close>.\<close>

fun replace_first :: "string \<Rightarrow> string \<Rightarrow> string \<Rightarrow> string" where
  "replace_first p r [] = []"
| "replace_first p r (c # cs) =
     (if take (length p) (c # cs) = p then r @ List.drop (length p) (c # cs) else c # replace_first p r cs)"

section \<open>Decimal numbers\<close>

definition digit_of :: "nat \<Rightarrow> char" where
  "digit_of d = char_of (48 + d)"

definition digit_value :: "char \<Rightarrow> int option" where
  "digit_value c = (let n = of_char c :: nat in if 48 \<le> n \<and> n \<le> 57 then Some (int n - 48) else None)"

fun dec :: "nat \<Rightarrow> string" where
  "dec n = (if n < 10 then [digit_of n] else dec (n div 10) @ [digit_of (n mod 10)])"

declare dec.simps [simp del]

definition dec_int :: "int \<Rightarrow> string" where
  "dec_int n = (if n < 0 then CHR ''-'' # dec (nat (- n)) else dec (nat n))"

text \<open>\<open>int(s)\<close>: blanks around, a sign, single underscores between the digits.\<close>

fun dec_digits :: "int \<Rightarrow> string \<Rightarrow> int option" where
  "dec_digits acc [] = Some acc"
| "dec_digits acc [c] = map_option (\<lambda>d. 10 * acc + d) (digit_value c)"
| "dec_digits acc (c # c' # cs) =
     (case digit_value c of
        None \<Rightarrow> None
      | Some d \<Rightarrow> if c' = CHR ''_'' then (if cs = [] then None else dec_digits (10 * acc + d) cs)
                  else dec_digits (10 * acc + d) (c' # cs))"

definition dec_body :: "string \<Rightarrow> int option" where
  "dec_body s = (if s = [] then None else dec_digits 0 s)"

definition parse_int :: "string \<Rightarrow> int result" where
  "parse_int s =
     (let s = strip s;
          n = (case s of
                 [] \<Rightarrow> None
               | c # cs \<Rightarrow> if c = CHR ''-'' then map_option uminus (dec_body cs)
                          else if c = CHR ''+'' then dec_body cs else dec_body s)
      in case n of None \<Rightarrow> Inl (ValueError ''invalid literal for int()'') | Some n \<Rightarrow> Inr n)"

text \<open>The patterns \<open>0|[1-9][0-9]*\<close> and \<open>[1-9][0-9]*\<close>.\<close>

definition is_digit :: "char \<Rightarrow> bool" where
  "is_digit c \<longleftrightarrow> (48 \<le> (of_char c :: nat) \<and> (of_char c :: nat) \<le> 57)"

definition positive_numeral :: "string \<Rightarrow> bool" where
  "positive_numeral s \<longleftrightarrow> s \<noteq> [] \<and> list_all is_digit s \<and> hd s \<noteq> CHR ''0''"

definition plain_numeral :: "string \<Rightarrow> bool" where
  "plain_numeral s \<longleftrightarrow> s = ''0'' \<or> positive_numeral s"

section \<open>Facts on decimal numbers\<close>

lemma non_digits [simp]: "\<not> is_digit CHR ''_''" "\<not> is_digit CHR ''-''" "\<not> is_digit CHR ''+''"
  "\<not> is_digit CHR ''.''" "\<not> is_digit CHR ''=''" "\<not> is_digit CHR '',''" "\<not> is_digit CHR '':''"
  "\<not> is_digit CHR ''p''" "\<not> is_digit CHR ''r''"
  by (simp_all add: is_digit_def)

lemma of_char_digit: "d < 10 \<Longrightarrow> (of_char (digit_of d) :: nat) = 48 + d"
  by (simp add: digit_of_def)

lemma is_digit_digit [simp]: "d < 10 \<Longrightarrow> is_digit (digit_of d)"
  by (simp add: is_digit_def of_char_digit)

lemma digit_value_digit: "d < 10 \<Longrightarrow> digit_value (digit_of d) = Some (int d)"
  by (simp add: digit_value_def of_char_digit)

lemma digit_of_inj: "d < 10 \<Longrightarrow> e < 10 \<Longrightarrow> digit_of d = digit_of e \<longleftrightarrow> d = e"
  using of_char_digit by (metis add_left_cancel)

lemma digit_chars:
  "digit_of 0 = CHR ''0''" "digit_of (Suc 0) = CHR ''1''" "digit_of 2 = CHR ''2''" "digit_of 3 = CHR ''3''" "digit_of 4 = CHR ''4''"
  "digit_of 5 = CHR ''5''" "digit_of 6 = CHR ''6''" "digit_of 7 = CHR ''7''" "digit_of 8 = CHR ''8''" "digit_of 9 = CHR ''9''"
  by (rule of_char_eq_iff [where 'a = nat, THEN iffD1], simp add: of_char_digit)+

lemma dec_Nil [simp]: "dec n \<noteq> []"
  by (subst dec.simps) simp

lemma dec_digits_only: "list_all is_digit (dec n)"
  by (induction n rule: dec.induct) (subst dec.simps, simp)

lemma dec_hd: "0 < n \<Longrightarrow> hd (dec n) \<noteq> CHR ''0''"
proof (induction n rule: dec.induct)
  case (1 n)
  have "CHR ''0'' = digit_of 0" by (simp add: digit_chars(1))
  with 1 digit_of_inj [of n 0] show ?case by (subst dec.simps) (auto simp: hd_append)
qed

lemma dec_zero: "dec 0 = ''0''"
  by (subst dec.simps) (simp add: digit_chars(1))

lemma dec_plain: "plain_numeral (dec n)" "0 < n \<Longrightarrow> positive_numeral (dec n)"
  using dec_digits_only [of n] dec_hd [of n]
  by (cases "n = 0"; simp add: plain_numeral_def positive_numeral_def dec_zero)+

lemma is_digit_blank: "is_digit c \<Longrightarrow> \<not> blank c"
  by (auto simp: is_digit_def blank_def Let_def)

lemma dec_digits_snoc:
  assumes "list_all is_digit s" "dec_digits acc s = Some n" "d < 10"
  shows "dec_digits acc (s @ [digit_of d]) = Some (10 * n + int d)"
  using assms
proof (induction acc s rule: dec_digits.induct)
  case (3 acc c c' cs)
  from "3.prems" have "c' \<noteq> CHR ''_''" by auto
  with 3 show ?case by (auto split: option.splits)
next
  case (2 acc c)
  from "2.prems"(3) have "digit_of d \<noteq> CHR ''_''" using is_digit_digit [of d] non_digits(1) by metis
  with 2 show ?case by (auto simp: digit_value_digit)
qed (simp add: digit_value_digit)

lemma dec_digits_dec: "dec_digits 0 (dec n) = Some (int n)"
proof (induction n rule: dec.induct)
  case (1 n)
  show ?case
  proof (cases "n < 10")
    case True
    then show ?thesis by (subst dec.simps) (simp add: digit_value_digit)
  next
    case False
    then have "dec_digits 0 (dec (n div 10) @ [digit_of (n mod 10)]) = Some (10 * int (n div 10) + int (n mod 10))"
      using 1 by (intro dec_digits_snoc dec_digits_only) simp_all
    moreover have "10 * int (n div 10) + int (n mod 10) = int n" by presburger
    ultimately show ?thesis using False by (subst dec.simps) simp
  qed
qed

lemma strip_digits: "list_all is_digit s \<Longrightarrow> strip s = s"
proof -
  assume s: "list_all is_digit s"
  have id: "dropWhile blank t = t" if "list_all is_digit t" for t
    using that is_digit_blank by (cases t) auto
  show ?thesis using s by (simp add: strip_def id list_all_iff)
qed

lemma parse_int_dec [simp]: "parse_int (dec n) = Inr (int n)"
proof -
  obtain c cs where c: "dec n = c # cs" by (cases "dec n") simp_all
  then have "is_digit c" using dec_digits_only [of n] by simp
  then have "c \<noteq> CHR ''-''" "c \<noteq> CHR ''+''" by auto
  then have "parse_int (c # cs) = Inr (int n)"
    using dec_digits_dec [of n] strip_digits [OF dec_digits_only [of n]] unfolding parse_int_def c
    by (simp add: dec_body_def)
  then show ?thesis by (simp only: c)
qed

lemma dec_inj: "dec m = dec n \<longleftrightarrow> m = n"
  by (metis dec_digits_dec of_nat_eq_iff option.inject)

section \<open>Facts on splitting\<close>

lemma head_of_append: "c \<notin> set s \<Longrightarrow> head_of c (s @ c # t) = s" "c \<notin> set s \<Longrightarrow> tail_of c (s @ c # t) = t"
  by (induction s) (auto simp: head_of_def tail_of_def)

lemma head_of_whole: "c \<notin> set s \<Longrightarrow> head_of c s = s" "c \<notin> set s \<Longrightarrow> tail_of c s = []"
  by (induction s) (auto simp: head_of_def tail_of_def)

end
