(* ===== verification/Sweep.thy ===== *)
theory Sweep
  imports Text
begin

text \<open>
  The determinism campaign of \<open>scripts/sweep.py\<close>: the levels and their cumulative plan, the runs with
  their labels, and which summaries may enter a table. A summary is JSON of unknown shape.
\<close>

section \<open>Levels\<close>

record level =
  lv_label :: string
  lv_description :: string
  lv_flags :: "string list"
  lv_peer :: "string option"

definition lv :: "string \<Rightarrow> string \<Rightarrow> string list \<Rightarrow> string option \<Rightarrow> level" where
  "lv label desc flags peer = \<lparr>lv_label = label, lv_description = desc, lv_flags = flags, lv_peer = peer\<rparr>"

definition LEVELS :: "level list" where
  "LEVELS =
     [lv ''L0'' ''baseline: sleep_for, allocating telemetry path'' [] None,
      lv ''L1'' ''absolute deadlines (clock_nanosleep TIMER_ABSTIME)'' [''--abs-deadline''] None,
      lv ''L2'' ''+ mlockall and pre-faulted stack and heap'' [''--mlock''] None,
      lv ''L3'' ''+ SCHED_FIFO priority 80'' [''--fifo=80''] None,
      lv ''L4'' ''+ pinned to an isolated core'' [''--cpu={cpu}''] None,
      lv ''L5'' ''+ allocation-free hot path'' [''--no-naive-log'', ''--alloc-guard=abort''] None,
      lv ''L6'' ''+ telemetry ring + drain thread'' [''--telemetry''] None,
      lv ''L7'' ''+ control record (128 B)'' [''--telemetry'', ''--record=control''] None,
      lv ''L8'' ''+ sensor and actuator sockets, PID, episode machine''
        [''--mode=freerun'', ''--auto-arm'', ''--telemetry'', ''--record=control''] (Some ''S1-hold'')]"

text \<open>The levels that can run, and whether the plan stopped before the end.\<close>

fun plan_levels :: "level list \<Rightarrow> int option \<Rightarrow> (level list \<times> string option) result" where
  "plan_levels [] cpu = Inr ([], None)"
| "plan_levels (l # ls) cpu =
     ensure (''--mode=lockstep'' \<notin> set (lv_flags l)) ''lockstep is not a sweep workload''
       (if list_ex (contains ''{cpu}'') (lv_flags l) \<and> cpu = None
        then Inr ([], Some (lv_label l @ '' needs --cpu; campaign stops here''))
        else rbind (plan_levels ls cpu) (\<lambda>(runnable, stopped). Inr (l # runnable, stopped)))"

section \<open>Runs\<close>

text \<open>The arguments of a campaign; \<open>None\<close> for an option that was not given.\<close>

record sweep_args =
  sa_cpu :: "int option"
  sa_rate :: f64
  sa_cycles :: int
  sa_warmup :: int
  sa_only :: "string list option"
  sa_repeat :: int
  sa_interleave :: bool
  sa_phase_us :: string
  sa_peer_cpu :: "int option"

record plan =
  pl_level :: string
  pl_description :: string
  pl_flags :: "string list"
  pl_phase :: "int option"
  pl_cycles :: int
  pl_warmup :: int
  pl_rate :: f64
  pl_peer_cpu :: "int option"

record run = plan +
  rn_repeat :: int
  rn_label :: string

definition QUALIFIED_CYCLES :: int where "QUALIFIED_CYCLES = 300000"

text \<open>\<open>flag.format(cpu=c)\<close>, where the flags hold no other field and at most one.\<close>

definition format_cpu :: "string \<Rightarrow> string \<Rightarrow> string" where
  "format_cpu cpu f = replace_first ''{cpu}'' cpu f"

definition cpu_text :: "int option \<Rightarrow> string" where
  "cpu_text c = (case c of None \<Rightarrow> ''None'' | Some n \<Rightarrow> dec_int n)"

text \<open>\<open>if args.only\<close>: an empty list selects everything.\<close>

definition selected :: "sweep_args \<Rightarrow> string \<Rightarrow> bool" where
  "selected a label \<longleftrightarrow> (case sa_only a of None \<Rightarrow> True | Some only \<Rightarrow> only = [] \<or> label \<in> set only)"

fun parse_ints :: "string list \<Rightarrow> int list result" where
  "parse_ints [] = Inr []"
| "parse_ints (s # ss) = rbind (parse_int s) (\<lambda>n. rbind (parse_ints ss) (\<lambda>ns. Inr (n # ns)))"

definition plan_phases :: "sweep_args \<Rightarrow> int list result" where
  "plan_phases a =
     rbind (case parse_ints (split_on CHR '','' (sa_phase_us a)) of
              Inl e \<Rightarrow> Inl (ValueError ''invalid phase'') | Inr ps \<Rightarrow> Inr ps) (\<lambda>phases.
     ensure (list_all (\<lambda>p. 0 < p \<and> p < 2000) phases) ''phase outside scheduling range'' (
     ensure (\<not> (1 < length phases \<and>
         (phases \<noteq> [200, 400, 800] \<or> sa_only a \<noteq> Some [''L8''] \<or> sa_repeat a \<noteq> 3 \<or> \<not> sa_interleave a)))
       ''phase grid requires 200,400,800, only L8, repeat 3 and interleave'' (Inr phases)))"

definition plan_at :: "sweep_args \<Rightarrow> level \<Rightarrow> string list \<Rightarrow> int option \<Rightarrow> plan" where
  "plan_at a l flags phase =
     \<lparr>pl_level = lv_label l, pl_description = lv_description l, pl_flags = flags, pl_phase = phase,
      pl_cycles = sa_cycles a, pl_warmup = sa_warmup a, pl_rate = sa_rate a,
      pl_peer_cpu = (if lv_label l = ''L8'' then sa_peer_cpu a else None)\<rparr>"

definition l8_schedulable :: "sweep_args \<Rightarrow> bool" where
  "l8_schedulable a \<longleftrightarrow> f_eq (sa_rate a) (f_lit 500 1) \<and> 1000 \<le> sa_cycles a \<and>
     sa_cycles a + sa_warmup a \<le> (2 ^ 63 - 1) div 2000000 - 64"

fun plan_all :: "sweep_args \<Rightarrow> int list \<Rightarrow> string list \<Rightarrow> level list \<Rightarrow> plan list result" where
  "plan_all a phases flags [] = Inr []"
| "plan_all a phases flags (l # ls) =
     (let flags' = flags @ map (format_cpu (cpu_text (sa_cpu a))) (lv_flags l) in
      if \<not> selected a (lv_label l) then plan_all a phases flags' ls
      else
        ensure (lv_label l = ''L8'' \<longrightarrow> l8_schedulable a)
          ''L8 requires rate 500 and cycles >= 1000 within scheduling range''
          (rbind (plan_all a phases flags' ls) (\<lambda>plans.
             Inr (map (plan_at a l flags') (if lv_label l = ''L8'' then map Some phases else [None]) @ plans))))"

definition run_label :: "bool \<Rightarrow> int \<Rightarrow> int \<Rightarrow> plan \<Rightarrow> string" where
  "run_label grid repeats n p =
     pl_level p @
     (if grid then ''.phase'' @ (case pl_phase p of None \<Rightarrow> ''None'' | Some u \<Rightarrow> dec_int u) else []) @
     (if 1 < repeats then ''.r'' @ dec_int n else [])"

definition run_of :: "bool \<Rightarrow> int \<Rightarrow> int \<times> plan \<Rightarrow> run" where
  "run_of grid repeats = (\<lambda>(n, p). plan.extend p \<lparr>rn_repeat = n, rn_label = run_label grid repeats n p\<rparr>)"

definition run_order :: "sweep_args \<Rightarrow> plan list \<Rightarrow> (int \<times> plan) list" where
  "run_order a plans =
     (if sa_interleave a then concat (map (\<lambda>r. map (Pair r) plans) [1..sa_repeat a])
      else concat (map (\<lambda>p. map (\<lambda>r. (r, p)) [1..sa_repeat a]) plans))"

definition plan_runs :: "sweep_args \<Rightarrow> (run list \<times> string option) result" where
  "plan_runs a =
     ensure (0 < sa_cycles a \<and> 0 \<le> sa_warmup a \<and> 0 < sa_repeat a \<and> f_finite (sa_rate a) \<and>
         \<not> f_le (sa_rate a) (f_zero False)) ''invalid cycles, warmup, repeats or rate'' (
     ensure (case sa_cpu a of None \<Rightarrow> True | Some c \<Rightarrow> 0 \<le> c) ''invalid CPU'' (
     ensure (case sa_only a of None \<Rightarrow> True
         | Some only \<Rightarrow> distinct only \<and> set only \<subseteq> set (map lv_label LEVELS)) ''unknown or duplicate level'' (
     rbind (plan_phases a) (\<lambda>phases.
     ensure (case sa_peer_cpu a of None \<Rightarrow> True | Some c \<Rightarrow> 0 \<le> c) ''invalid peer CPU'' (
     rbind (plan_levels LEVELS (sa_cpu a)) (\<lambda>(runnable, stopped).
     rbind (plan_all a phases [] runnable) (\<lambda>plans.
     let grid = 1 < length phases; planned_l8 = list_ex (\<lambda>p. pl_level p = ''L8'') plans in
     ensure (\<not> (sa_peer_cpu a = None \<and> planned_l8 \<and> (grid \<or> QUALIFIED_CYCLES \<le> sa_cycles a)))
       ''qualified L8 requires --peer-cpu'' (
     ensure (\<not> (sa_peer_cpu a \<noteq> None \<and> \<not> planned_l8)) ''--peer-cpu applies only to L8'' (
       Inr (map (run_of grid (sa_repeat a)) (run_order a plans), stopped))))))))))"

section \<open>Summaries\<close>

definition MODES :: "string list" where
  "MODES = [''harness'', ''lockstep'', ''freerun'']"

text \<open>The mode, or the reason why there is none.\<close>

definition summary_mode :: "json \<Rightarrow> bool \<Rightarrow> string option \<times> string option" where
  "summary_mode summary legacy_ok =
     (case summary of
        JObject d \<Rightarrow>
          (case map_of d ''mode'' of
             None \<Rightarrow> if legacy_ok then (Some ''harness'', None) else (None, Some ''summary has no mode field'')
           | Some (JString m) \<Rightarrow> if m \<in> set MODES then (Some m, None) else (None, Some ''unknown mode'')
           | _ \<Rightarrow> (None, Some ''unknown mode''))
      | _ \<Rightarrow> (None, Some ''summary is not an object''))"

definition level_mode :: "string list \<Rightarrow> string" where
  "level_mode flags = (if ''--mode=freerun'' \<in> set flags then ''freerun'' else ''harness'')"

type_synonym fields_of = "(string \<times> string) list"

fun config_tokens :: "fields_of \<Rightarrow> string list \<Rightarrow> fields_of result" where
  "config_tokens F [] = Inr F"
| "config_tokens F (tok # toks) =
     (let key = head_of CHR '':'' tok in
      ensure (key \<notin> fst ` set F) (''duplicate config '' @ key)
        (config_tokens (F @ [(key, tail_of CHR '':'' tok)]) toks))"

definition numeral_field :: "fields_of \<Rightarrow> string \<Rightarrow> bool" where
  "numeral_field F key \<longleftrightarrow> (case map_of F key of None \<Rightarrow> True | Some v \<Rightarrow> plain_numeral v)"

definition config_fields :: "json \<Rightarrow> fields_of result" where
  "config_fields summary =
     rbind (dict_get summary ''config'') (\<lambda>t.
       case t of
         JString s \<Rightarrow>
           ensure (strip s \<noteq> []) ''missing config'' (
           rbind (config_tokens [] (words_of [] s)) (\<lambda>F.
           ensure (numeral_field F ''cpu'') ''invalid config cpu'' (
           ensure (numeral_field F ''fifo'') ''invalid config fifo'' (Inr F))))
       | _ \<Rightarrow> Inl (ValueError ''missing config''))"

text \<open>\<open>d.get(k)\<close> on a dictionary.\<close>

definition get_key :: "(string \<times> json) list \<Rightarrow> string \<Rightarrow> json" where
  "get_key d k = (case map_of d k of None \<Rightarrow> JNull | Some v \<Rightarrow> v)"

definition entry :: "json \<Rightarrow> (string \<times> json) list" where
  "entry v = (case v of JObject d \<Rightarrow> d | _ \<Rightarrow> [])"

definition ground_problem :: "(string \<times> json) list \<Rightarrow> string option" where
  "ground_problem d =
     (let requested = get_key (entry (get_key d ''ground'')) ''requested'';
          done_map = get_key (entry (get_key d ''applied'')) ''ground''
      in case (requested, done_map) of
           (JBool r, JBool a) \<Rightarrow> if r = a then None else Some ''ground requested/applied mismatch or missing status''
         | _ \<Rightarrow> Some ''ground requested/applied mismatch or missing status'')"

definition incomplete_run :: string where
  "incomplete_run = ''incomplete run or pre-integrity summary format''"

definition cycles_problem :: "(string \<times> json) list \<Rightarrow> string option" where
  "cycles_problem d =
     (case (get_key d ''cycles'', get_key d ''cycles_requested'') of
        (JInt c, JInt q) \<Rightarrow> if q \<le> 0 \<or> c \<noteq> q then Some incomplete_run else None
      | _ \<Rightarrow> Some incomplete_run)"

text \<open>\<open>str(error)\<close>. A dictionary has a \<open>get\<close>, so \<open>config_fields\<close> raises nothing but \<open>ValueError\<close> here.\<close>

fun exn_text :: "exn \<Rightarrow> string" where
  "exn_text (ValueError m) = m"
| "exn_text (TypeError m) = m"
| "exn_text (KeyError m) = m"
| "exn_text (AttributeError m) = m"
| "exn_text (OverflowError m) = m"
| "exn_text (IndexError m) = m"
| "exn_text (StructError m) = m"
| "exn_text (TimeoutError m) = m"
| "exn_text (OSError n) = dec_int n"

text \<open>The free-running clause: the mitigations applied are exactly those of the configuration.\<close>

definition freerun_problem :: "(string \<times> json) list \<Rightarrow> (string \<times> json) list \<Rightarrow> string option" where
  "freerun_problem d done_map =
     (case config_fields (JObject d) of
        Inl e \<Rightarrow> Some (exn_text e)
      | Inr F \<Rightarrow>
          (case find (\<lambda>k. get_key done_map k \<noteq> JBool (k \<in> fst ` set F)) [''mlock'', ''fifo'', ''cpu''] of
             Some k \<Rightarrow> Some (''config was not applied: '' @ k)
           | None \<Rightarrow>
               if get_key done_map ''telemetry'' \<noteq> JBool True \<or> get_key done_map ''link'' \<noteq> JBool True
               then Some ''config was not applied: telemetry/link''
               else ground_problem d))"

definition harness_problem :: "(string \<times> json) list \<Rightarrow> bool \<Rightarrow> string option" where
  "harness_problem done_map legacy_ok =
     (if legacy_ok then
        (if list_all (truthy \<circ> snd) done_map then None else Some ''config was not applied'')
      else if list_ex (\<lambda>k. get_key done_map k \<noteq> JBool True) [''mlock'', ''fifo'', ''cpu''] \<or>
          (case map_of done_map ''telemetry'' of None \<Rightarrow> False | Some v \<Rightarrow> v \<noteq> JBool True)
        then Some ''config was not applied''
      else None)"

definition or_else :: "'a option \<Rightarrow> 'a option \<Rightarrow> 'a option" where
  "or_else a b = (case a of None \<Rightarrow> b | Some x \<Rightarrow> Some x)"

definition row_problem :: "json \<Rightarrow> bool \<Rightarrow> string option" where
  "row_problem summary legacy_ok =
     (case summary_mode summary legacy_ok of
        (m, Some problem) \<Rightarrow> Some problem
      | (m, None) \<Rightarrow>
          if m = Some ''lockstep'' then Some ''lockstep has no timing evidence''
          else
            (case get_key (entry summary) ''applied'' of
               JObject done_map \<Rightarrow>
                 or_else (if m = Some ''freerun'' then freerun_problem (entry summary) done_map
                          else harness_problem done_map legacy_ok)
                   (cycles_problem (entry summary))
             | _ \<Rightarrow> Some ''config was not applied''))"

definition row_ok :: "json \<Rightarrow> bool" where
  "row_ok summary \<longleftrightarrow> row_problem summary False = None"

section \<open>Machine state\<close>

text \<open>\<open>parse_cpu_list\<close>: the CPUs of a sysfs list.\<close>

fun cpu_parts :: "string list \<Rightarrow> int set result" where
  "cpu_parts [] = Inr {}"
| "cpu_parts (part # parts) =
     (let part = strip part in
      if part = [] then cpu_parts parts
      else if CHR ''-'' \<in> set part then
        rbind (parse_int (head_of CHR ''-'' part)) (\<lambda>lo. rbind (parse_int (tail_of CHR ''-'' part)) (\<lambda>hi.
          rbind (cpu_parts parts) (\<lambda>cpus. Inr (set [lo..hi] \<union> cpus))))
      else rbind (parse_int part) (\<lambda>n. rbind (cpu_parts parts) (\<lambda>cpus. Inr (insert n cpus))))"

definition parse_cpu_list :: "string \<Rightarrow> int set result" where
  "parse_cpu_list s = cpu_parts (split_on CHR '','' s)"

definition affinity_problem :: "int set \<Rightarrow> int set \<Rightarrow> int set \<Rightarrow> string option" where
  "affinity_problem affinity online isolated =
     (if online - affinity = {} then None
      else Some (''inherited CPU affinity is missing online CPUs'' @
        (if affinity - isolated = {} then ''; every allowed CPU is isolated'' else [])))"

text \<open>The state of the machine that \<open>peer_cpu_problem\<close> reads from sysfs.\<close>

record machine_state =
  ms_online :: "int set"
  ms_isolated :: "int set"
  ms_siblings :: "int \<Rightarrow> int set option"
  ms_idle :: "int \<Rightarrow> (string \<times> int) list"

definition peer_cpu_problem :: "machine_state \<Rightarrow> int \<Rightarrow> int option \<Rightarrow> int set \<Rightarrow> string option" where
  "peer_cpu_problem ms cpu vehicle_cpu affinity =
     (if cpu < 0 then Some ''invalid peer CPU''
      else if cpu \<notin> ms_online ms then Some ''peer CPU is not online''
      else if cpu \<notin> affinity then Some ''peer CPU is outside the inherited affinity''
      else case vehicle_cpu of
        None \<Rightarrow> Some ''a peer CPU requires a pinned vehicle CPU (--cpu)''
      | Some v \<Rightarrow>
          if cpu = v then Some ''peer CPU is the vehicle CPU''
          else (case ms_siblings ms v of
            None \<Rightarrow> Some ''cannot read the SMT siblings of vehicle CPU''
          | Some siblings \<Rightarrow>
              if cpu \<in> siblings then Some ''peer CPU is an SMT sibling of vehicle CPU''
              else if cpu \<in> ms_isolated ms then Some ''peer CPU is isolated''
              else if ms_idle ms cpu = [] then Some ''no cpuidle states visible for peer CPU''
              else if list_all (\<lambda>(name, disable). disable = 1) (ms_idle ms cpu) then None
              else Some ''idle state of peer CPU is enabled''))"

section \<open>What a plan holds\<close>

definition level_flags :: "sweep_args \<Rightarrow> nat \<Rightarrow> string list" where
  "level_flags a i = map (format_cpu (cpu_text (sa_cpu a))) (concat (map lv_flags (take (Suc i) LEVELS)))"

lemma or_else_None [simp]: "or_else a b = None \<longleftrightarrow> a = None \<and> b = None"
  by (cases a) (simp_all add: or_else_def)

lemma plan_all_spec:
  assumes "plan_all a phases pre ls = Inr plans" "p \<in> set plans"
  shows "\<exists>i < length ls. \<exists>phase. selected a (lv_label (ls ! i)) \<and>
    p = plan_at a (ls ! i) (pre @ map (format_cpu (cpu_text (sa_cpu a))) (concat (map lv_flags (take (Suc i) ls)))) phase \<and>
    (if lv_label (ls ! i) = ''L8'' then phase \<in> Some ` set phases \<and> l8_schedulable a else phase = None)"
  using assms
proof (induction ls arbitrary: pre plans)
  case (Cons l ls)
  let ?pre = "pre @ map (format_cpu (cpu_text (sa_cpu a))) (lv_flags l)"
  have step: "?case" if "plan_all a phases ?pre ls = Inr ps" "p \<in> set ps" for ps
  proof -
    from Cons.IH [OF that] obtain i phase where "i < length ls"
      "selected a (lv_label (ls ! i)) \<and>
       p = plan_at a (ls ! i) (?pre @ map (format_cpu (cpu_text (sa_cpu a))) (concat (map lv_flags (take (Suc i) ls)))) phase \<and>
       (if lv_label (ls ! i) = ''L8'' then phase \<in> Some ` set phases \<and> l8_schedulable a else phase = None)"
      by blast
    then show ?thesis by (intro exI [of _ "Suc i"] conjI exI [of _ phase]; simp)
  qed
  show ?case
  proof (cases "selected a (lv_label l)")
    case False
    then show ?thesis using Cons.prems step by (simp add: Let_def)
  next
    case True
    with Cons.prems(1) obtain ps where ps: "plan_all a phases ?pre ls = Inr ps" "lv_label l = ''L8'' \<longrightarrow> l8_schedulable a"
      "plans = map (plan_at a l ?pre) (if lv_label l = ''L8'' then map Some phases else [None]) @ ps"
      by (auto simp: Let_def ensure_eq_Inr rbind_eq_Inr)
    with Cons.prems(2) consider "p \<in> set ps" | phase where "p = plan_at a l ?pre phase"
      "if lv_label l = ''L8'' then phase \<in> Some ` set phases else phase = None"
      by (auto split: if_splits)
    then show ?thesis
    proof cases
      case 1
      then show ?thesis using step ps(1) by blast
    next
      case 2
      then show ?thesis using True ps(2) by (intro exI [of _ 0]) (auto split: if_splits)
    qed
  qed
qed simp

lemma plan_levels_LEVELS: "plan_levels LEVELS cpu =
  Inr (case cpu of None \<Rightarrow> (take 4 LEVELS, Some ''L4 needs --cpu; campaign stops here'') | Some c \<Rightarrow> (LEVELS, None))"
  by (cases cpu) (simp_all add: LEVELS_def lv_def eval_nat_numeral)

text \<open>What every run of a plan is.\<close>

definition planned :: "sweep_args \<Rightarrow> int list \<Rightarrow> nat \<Rightarrow> int option \<Rightarrow> int \<Rightarrow> run" where
  "planned a phases i phase n = run_of (1 < length phases) (sa_repeat a) (n, plan_at a (LEVELS ! i) (level_flags a i) phase)"

lemma planned_settings:
  "pl_flags (planned a phases i phase n) = level_flags a i" "pl_cycles (planned a phases i phase n) = sa_cycles a"
  "pl_warmup (planned a phases i phase n) = sa_warmup a" "pl_rate (planned a phases i phase n) = sa_rate a"
  by (simp_all add: planned_def run_of_def plan.extend_def plan_at_def)

lemma plan_runs_unfold:
  assumes "plan_runs a = Inr (runs, stopped)"
  obtains phases runnable plans where
    "0 < sa_cycles a" "0 \<le> sa_warmup a" "0 < sa_repeat a" "f_finite (sa_rate a)" "\<not> f_le (sa_rate a) (f_zero False)"
    "plan_phases a = Inr phases" "plan_levels LEVELS (sa_cpu a) = Inr (runnable, stopped)"
    "plan_all a phases [] runnable = Inr plans" "runs = map (run_of (1 < length phases) (sa_repeat a)) (run_order a plans)"
    "case sa_cpu a of None \<Rightarrow> True | Some c \<Rightarrow> 0 \<le> c"
  using assms unfolding plan_runs_def
  by (auto simp: ensure_eq_Inr rbind_eq_Inr Let_def split: prod.splits)

lemma run_order_set: "set (run_order a plans) = set [1..sa_repeat a] \<times> set plans"
  by (auto simp: run_order_def)

lemma less_nine: "i < (9 :: nat) \<longleftrightarrow> i \<in> {0, 1, 2, 3, 4, 5, 6, 7, 8}"
  by auto

lemma LEVELS_length [simp]: "length LEVELS = 9"
  by (simp add: LEVELS_def)

lemma LEVELS_label: "i < 9 \<Longrightarrow> lv_label (LEVELS ! i) \<in> (\<lambda>d. [CHR ''L'', d]) ` set ''012345678''"
  unfolding less_nine by (auto simp: LEVELS_def lv_def)

lemma LEVELS_L8: "i < 9 \<Longrightarrow> lv_label (LEVELS ! i) = ''L8'' \<longleftrightarrow> i = 8"
  unfolding less_nine by (auto simp: LEVELS_def lv_def)

lemma LEVELS_distinct: "distinct (map lv_label LEVELS)"
  by (simp add: LEVELS_def lv_def)

lemma plan_runs_planned:
  assumes "plan_runs a = Inr (runs, stopped)" "r \<in> set runs"
  obtains phases i phase n where "plan_phases a = Inr phases" "i < 9" "sa_cpu a = None \<Longrightarrow> i < 4"
    "1 \<le> n" "n \<le> sa_repeat a" "r = planned a phases i phase n" "selected a (lv_label (LEVELS ! i))"
    "if i = 8 then phase \<in> Some ` set phases \<and> l8_schedulable a else phase = None"
proof -
  from assms(1) obtain phases runnable plans where p: "plan_phases a = Inr phases"
    "plan_levels LEVELS (sa_cpu a) = Inr (runnable, stopped)" "plan_all a phases [] runnable = Inr plans"
    "runs = map (run_of (1 < length phases) (sa_repeat a)) (run_order a plans)"
    by (elim plan_runs_unfold)
  from assms(2) obtain n q where q: "1 \<le> n" "n \<le> sa_repeat a" "q \<in> set plans"
    "r = run_of (1 < length phases) (sa_repeat a) (n, q)"
    by (auto simp: p(4) run_order_set)
  define k :: nat where "k = (if sa_cpu a = None then 4 else 9)"
  have "(runnable, stopped) = (case sa_cpu a of None \<Rightarrow> (take 4 LEVELS, Some ''L4 needs --cpu; campaign stops here'') | Some c \<Rightarrow> (LEVELS, None))"
    using p(2) unfolding plan_levels_LEVELS by (rule sum.inject(2) [THEN iffD1, symmetric])
  then have "runnable = fst (case sa_cpu a of None \<Rightarrow> (take 4 LEVELS, Some ''L4 needs --cpu; campaign stops here'') | Some c \<Rightarrow> (LEVELS, None))"
    by (metis fst_conv)
  moreover have "take 9 LEVELS = LEVELS" by simp
  ultimately have k: "runnable = take k LEVELS" "k \<le> 9" "sa_cpu a = None \<Longrightarrow> k = 4"
    by (simp_all add: k_def split: option.splits)
  from plan_all_spec [OF p(3) q(3)] obtain i phase where i: "i < length runnable" "selected a (lv_label (runnable ! i))"
    "q = plan_at a (runnable ! i) ([] @ map (format_cpu (cpu_text (sa_cpu a))) (concat (map lv_flags (take (Suc i) runnable)))) phase"
    "if lv_label (runnable ! i) = ''L8'' then phase \<in> Some ` set phases \<and> l8_schedulable a else phase = None"
    by blast
  from i(1) k have ik: "i < k" "i < 9" by simp_all
  then have "take (Suc i) runnable = take (Suc i) LEVELS" "runnable ! i = LEVELS ! i" by (simp_all add: k(1) min_def)
  with i ik q k(3) LEVELS_L8 [of i] show ?thesis
    by (intro that [of phases i n phase] p(1)) (auto simp: planned_def level_flags_def)
qed

lemma plan_phases_grid:
  assumes "plan_phases a = Inr phases"
  shows "list_all (\<lambda>p. 0 < p \<and> p < 2000) phases"
    and "1 < length phases \<Longrightarrow> phases = [200, 400, 800] \<and> sa_only a = Some [''L8'']"
  using assms by (auto simp: plan_phases_def rbind_eq_Inr ensure_eq_Inr)

text \<open>The runs of a plan differ in level, phase or repeat.\<close>

lemma plan_all_distinct:
  assumes "plan_all a phases pre ls = Inr plans" "distinct (map lv_label ls)" "distinct phases"
  shows "distinct (map (\<lambda>p. (pl_level p, pl_phase p)) plans) \<and> pl_level ` set plans \<subseteq> lv_label ` set ls"
  using assms
proof (induction ls arbitrary: pre plans)
  case (Cons l ls)
  let ?pre = "pre @ map (format_cpu (cpu_text (sa_cpu a))) (lv_flags l)"
  show ?case
  proof (cases "selected a (lv_label l)")
    case False
    then have "plan_all a phases ?pre ls = Inr plans" using Cons.prems(1) by (simp add: Let_def)
    from Cons.IH [OF this] Cons.prems(2,3) show ?thesis by auto
  next
    case True
    with Cons.prems(1) obtain ps where ps: "plan_all a phases ?pre ls = Inr ps"
      "plans = map (plan_at a l ?pre) (if lv_label l = ''L8'' then map Some phases else [None]) @ ps"
      by (auto simp: Let_def ensure_eq_Inr rbind_eq_Inr)
    have IH: "distinct (map (\<lambda>p. (pl_level p, pl_phase p)) ps)" "pl_level ` set ps \<subseteq> lv_label ` set ls"
      using Cons.IH [OF ps(1)] Cons.prems by simp_all
    moreover have "lv_label l \<notin> pl_level ` set ps" using IH(2) Cons.prems(2) by auto
    ultimately show ?thesis
      using Cons.prems(3) by (auto simp: ps(2) plan_at_def distinct_map inj_on_def image_iff)
  qed
qed simp

lemma distinct_pairs:
  assumes "distinct (map f ys)" "distinct xs"
  shows "distinct (map (\<lambda>(x, y). (x, f y)) (concat (map (\<lambda>x. map (Pair x) ys) xs)))"
    and "distinct (map (\<lambda>(x, y). (x, f y)) (concat (map (\<lambda>y. map (\<lambda>x. (x, y)) xs) ys)))"
proof -
  show "distinct (map (\<lambda>(x, y). (x, f y)) (concat (map (\<lambda>x. map (Pair x) ys) xs)))"
    using assms(2) by (induction xs) (use assms(1) in \<open>auto simp: distinct_map inj_on_def\<close>)
  show "distinct (map (\<lambda>(x, y). (x, f y)) (concat (map (\<lambda>y. map (\<lambda>x. (x, y)) xs) ys)))"
    using assms(1) by (induction ys) (use assms(2) in \<open>auto simp: distinct_map inj_on_def\<close>)
qed

definition run_key :: "run \<Rightarrow> int \<times> string \<times> int option" where
  "run_key r = (rn_repeat r, pl_level r, pl_phase r)"

lemma plan_runs_distinct:
  assumes "plan_runs a = Inr (runs, stopped)"
  shows "distinct (map run_key runs)"
proof -
  from assms obtain phases runnable plans where p: "plan_phases a = Inr phases"
    "plan_levels LEVELS (sa_cpu a) = Inr (runnable, stopped)" "plan_all a phases [] runnable = Inr plans"
    "runs = map (run_of (1 < length phases) (sa_repeat a)) (run_order a plans)"
    by (elim plan_runs_unfold)
  have "distinct phases"
  proof (cases "1 < length phases")
    case True
    then show ?thesis using plan_phases_grid(2) [OF p(1)] by simp
  next
    case False
    then show ?thesis by (cases phases) simp_all
  qed
  moreover have "distinct (map lv_label runnable)"
    using p(2) LEVELS_distinct by (cases "sa_cpu a") (auto simp: plan_levels_LEVELS take_map [symmetric])
  ultimately have "distinct (map (\<lambda>p. (pl_level p, pl_phase p)) plans)" using plan_all_distinct [OF p(3)] by simp
  then have "distinct (map (\<lambda>(n, p). (n, pl_level p, pl_phase p)) (run_order a plans))"
    unfolding run_order_def by (auto intro: distinct_pairs)
  moreover have "run_key \<circ> run_of g k = (\<lambda>(n, p). (n, pl_level p, pl_phase p))" for g k
    by (auto simp: run_key_def run_of_def plan.extend_def)
  ultimately show ?thesis by (simp add: p(4))
qed

end
