(* ===== verification/Roster.thy ===== *)
theory Roster
  imports Sweep FreeReconcile
begin

text \<open>
  The roster of a campaign (\<open>scripts/sweep.py\<close>): the arguments the processes were started with, the
  configuration each run must show, the declared peer CPU, and the row of a roster that a summary
  belongs to. Rows, summaries and replays are JSON of unknown shape; \<open>doc\<close> is \<open>read_json\<close> of a name in
  the results directory.
\<close>

section \<open>Checks that may raise\<close>

definition need :: "bool result \<Rightarrow> string \<Rightarrow> 'a result \<Rightarrow> 'a result" where
  "need c msg k = rbind c (\<lambda>b. ensure b msg k)"

lemma need_Inr [result_simps]: "need c msg k = Inr x \<longleftrightarrow> c = Inr True \<and> k = Inr x"
  by (auto simp: need_def ensure_def rbind_eq_Inr)

lemma need_True [simp]: "need (Inr True) msg k = k"
  by (simp add: need_def)

text \<open>\<open>v.get(k) == w\<close>, \<open>type(v.get(k)) is int\<close>, and the entry of a row as an \<open>int\<close>.\<close>

definition get_eq :: "json \<Rightarrow> string \<Rightarrow> json \<Rightarrow> bool result" where
  "get_eq v k w = rbind (dict_get v k) (\<lambda>x. Inr (py_eq x w))"

definition is_int :: "json \<Rightarrow> bool" where
  "is_int v = (case v of JInt n \<Rightarrow> True | _ \<Rightarrow> False)"

definition is_true :: "json \<Rightarrow> bool" where
  "is_true v \<longleftrightarrow> v = JBool True"

definition is_string :: "json \<Rightarrow> bool" where
  "is_string v = (case v of JString s \<Rightarrow> True | _ \<Rightarrow> False)"

definition string_of :: "json \<Rightarrow> string" where
  "string_of v = (case v of JString s \<Rightarrow> s | _ \<Rightarrow> [])"

definition is_object :: "json \<Rightarrow> bool" where
  "is_object v = (case v of JObject d \<Rightarrow> True | _ \<Rightarrow> False)"

definition has_key :: "string \<Rightarrow> json \<Rightarrow> bool" where
  "has_key k v \<longleftrightarrow> map_of (entry v) k \<noteq> None"

section \<open>Arguments\<close>

type_synonym options = "(string \<times> string option) list"

definition argument_value :: "string \<Rightarrow> string option" where
  "argument_value arg = (if CHR ''='' \<in> set arg then Some (tail_of CHR ''='' arg) else None)"

fun options_of :: "options \<Rightarrow> string list \<Rightarrow> options result" where
  "options_of opts [] = Inr opts"
| "options_of opts (arg # args) =
     (let key = head_of CHR ''='' arg; value = argument_value arg in
      ensure (starts_with ''--'' key \<and> value \<noteq> Some []) ''invalid resolved argument''
        (case map_of opts key of
           None \<Rightarrow> options_of (opts @ [(key, value)]) args
         | Some value' \<Rightarrow> ensure (value' = value) ''conflicting resolved argument'' (options_of opts args)))"

definition argv_options :: "json \<Rightarrow> nat \<Rightarrow> options result" where
  "argv_options argv start =
     (case argv of
        JList xs \<Rightarrow>
          ensure (start < length xs \<and> list_all (\<lambda>a. is_string a \<and> string_of a \<noteq> []) xs) ''missing or invalid resolved argv''
            (options_of [] (map string_of (List.drop start xs)))
      | _ \<Rightarrow> Inl (ValueError ''missing or invalid resolved argv''))"

definition opt_keys :: "options \<Rightarrow> string set" where
  "opt_keys opts = fst ` set opts"

definition opts_agree :: "options \<Rightarrow> options \<Rightarrow> bool" where
  "opts_agree wanted opts \<longleftrightarrow> list_all (\<lambda>k. map_of opts k = map_of wanted k) (map fst wanted)"

text \<open>\<open>options.get(k)\<close>, \<open>None\<close> both where the key is absent and where it has no value.\<close>

definition opt_get :: "options \<Rightarrow> string \<Rightarrow> string option" where
  "opt_get opts k = (case map_of opts k of None \<Rightarrow> None | Some v \<Rightarrow> v)"

definition opt_given :: "options \<Rightarrow> string \<Rightarrow> bool" where
  "opt_given opts k \<longleftrightarrow> opt_get opts k \<noteq> None \<and> opt_get opts k \<noteq> Some []"

section \<open>The declared peer CPU\<close>

definition idle_state_ok :: "json \<Rightarrow> bool" where
  "idle_state_ok s \<longleftrightarrow> is_object s \<and> is_string (get_key (entry s) ''name'') \<and> py_eq (get_key (entry s) ''disable'') (JInt 1)"

definition list_of :: "json \<Rightarrow> json list option" where
  "list_of v = (case v of JList xs \<Rightarrow> Some xs | _ \<Rightarrow> None)"

definition peer_record_problem :: "json \<Rightarrow> json \<Rightarrow> string option" where
  "peer_record_problem cpu rec =
     (case (cpu, rec) of
        (JInt c, JObject d) \<Rightarrow>
          if c < 0 then Some ''invalid peer provenance''
          else if \<not> py_eq (get_key d ''cpu'') (JInt c) \<or> \<not> py_eq (get_key d ''affinity'') (JList [JInt c]) \<or>
              \<not> py_eq (get_key d ''policy'') (JString ''SCHED_OTHER'') \<or>
              \<not> (case list_of (get_key d ''idle_states'') of None \<Rightarrow> False
                 | Some states \<Rightarrow> states \<noteq> [] \<and> list_all idle_state_ok states)
            then Some ''peer CPU discipline not verified''
          else if \<not> (case list_of (get_key d ''siblings'') of None \<Rightarrow> False | Some xs \<Rightarrow> list_all is_int xs)
            then Some ''invalid peer siblings''
          else None
      | _ \<Rightarrow> Some ''invalid peer provenance'')"

definition sibling :: "int \<Rightarrow> json \<Rightarrow> bool" where
  "sibling n rec = (case list_of (get_key (entry rec) ''siblings'') of None \<Rightarrow> False | Some xs \<Rightarrow> list_ex (\<lambda>x. py_eq x (JInt n)) xs)"

definition peer_discipline :: "json \<Rightarrow> json \<Rightarrow> string option \<Rightarrow> unit result" where
  "peer_discipline row replay vehicle_cpu =
     ensure (has_key ''peer_cpu'' row \<and> has_key ''peer'' row) ''missing peer provenance'' (
     ensure (list_all (\<lambda>k. has_key k replay \<and> py_eq (get_key (entry replay) k) (get_key (entry row) k)) [''peer_cpu'', ''peer''])
       ''peer provenance does not match replay'' (
     let cpu = get_key (entry row) ''peer_cpu''; rec = get_key (entry row) ''peer'' in
     if cpu = JNull then
       ensure (rec = JNull) ''peer provenance without a declared peer CPU'' (
       need (rbind (item row ''cycles'') (\<lambda>c. rbind (at_least c QUALIFIED_CYCLES) (\<lambda>b. Inr (\<not> b))))
         ''qualified L8 run without a declared peer CPU'' (Inr ()))
     else
       (case peer_record_problem cpu rec of
          Some problem \<Rightarrow> Inl (ValueError problem)
        | None \<Rightarrow>
            (case vehicle_cpu of
               None \<Rightarrow> Inr ()
             | Some v \<Rightarrow> rbind (parse_int v) (\<lambda>n.
                 ensure (\<not> py_eq cpu (JInt n) \<and> \<not> sibling n rec) ''peer CPU shares the vehicle core'' (Inr ()))))))"

text \<open>The peer CPU that a session declares: the one of all its L8 rows.\<close>

definition l8_rows :: "json list \<Rightarrow> json list" where
  "l8_rows = filter (\<lambda>r. py_eq (get_key (entry r) ''level'') (JString ''L8''))"

definition declared_cpu :: "json \<Rightarrow> json" where
  "declared_cpu r = get_key (entry r) ''peer_cpu''"

definition cpu_or_none :: "json \<Rightarrow> bool" where
  "cpu_or_none v = (case v of JNull \<Rightarrow> True | JInt c \<Rightarrow> 0 \<le> c | _ \<Rightarrow> False)"

fun records_verified :: "json \<Rightarrow> json list \<Rightarrow> unit result" where
  "records_verified cpu [] = Inr ()"
| "records_verified cpu (r # rs) =
     (case peer_record_problem cpu (get_key (entry r) ''peer'') of
        Some problem \<Rightarrow> Inl (ValueError problem)
      | None \<Rightarrow> records_verified cpu rs)"

definition roster_runs :: "json \<Rightarrow> json list option" where
  "roster_runs roster = (case roster of JObject d \<Rightarrow> list_of (get_key d ''runs'') | _ \<Rightarrow> None)"

definition session_peer_cpu :: "json \<Rightarrow> json result" where
  "session_peer_cpu roster =
     (case roster_runs roster of
        None \<Rightarrow> Inl (ValueError ''invalid sweep roster'')
      | Some runs \<Rightarrow>
          ensure (list_all is_object runs) ''invalid sweep roster'' (
          let rows = l8_rows runs in
          ensure (list_all (\<lambda>r. cpu_or_none (declared_cpu r)) rows) ''invalid peer CPU declaration'' (
          case remdups (map declared_cpu rows) of
            [] \<Rightarrow> Inr JNull
          | [cpu] \<Rightarrow> if cpu = JNull then Inr JNull else rbind (records_verified cpu rows) (\<lambda>_. Inr cpu)
          | _ \<Rightarrow> Inl (ValueError ''inconsistent peer CPU declaration across the session''))))"

text \<open>Each declared row's own result and replay carry the same provenance.\<close>

fun corroborated :: "(string \<Rightarrow> json result) \<Rightarrow> (json \<Rightarrow> string) \<Rightarrow> json list \<Rightarrow> unit result" where
  "corroborated doc text_of [] = Inr ()"
| "corroborated doc text_of (r # rs) =
     (let base = text_of (get_key (entry r) ''label'') in
      rbind (doc (base @ ''.replay.json'')) (\<lambda>replay. rbind (doc (base @ ''.result.json'')) (\<lambda>result.
      if \<not> py_eq r result \<or> \<not> is_object replay then
        Inl (ValueError ''peer declaration not corroborated by the row artifacts'')
      else
        need (rbind (item r ''peer_cpu'') (\<lambda>c. if \<not> py_eq (get_key (entry replay) ''peer_cpu'') c then Inr False
            else rbind (item r ''peer'') (\<lambda>p. Inr (py_eq (get_key (entry replay) ''peer'') p))))
          ''peer declaration not corroborated by the row artifacts'' (corroborated doc text_of rs))))"

definition session_peer :: "(string \<Rightarrow> json result) \<Rightarrow> (string \<Rightarrow> bool) \<Rightarrow> (json \<Rightarrow> string) \<Rightarrow> json result" where
  "session_peer doc is_file text_of =
     (if \<not> is_file ''sweep.json'' then Inr JNull
      else
        rbind (doc ''sweep.json'') (\<lambda>roster. rbind (session_peer_cpu roster) (\<lambda>cpu.
          if cpu = JNull then Inr JNull
          else rbind (corroborated doc text_of (l8_rows (case roster_runs roster of None \<Rightarrow> [] | Some runs \<Rightarrow> runs)))
            (\<lambda>_. Inr cpu))))"

section \<open>The configuration of an L8 row\<close>

definition row_string :: "json \<Rightarrow> string \<Rightarrow> string result" where
  "row_string row k = rbind (item row k) (\<lambda>v. if is_string v then Inr (string_of v) else Inl (TypeError ''not a string''))"

definition row_int :: "json \<Rightarrow> string \<Rightarrow> int result" where
  "row_int row k = (case get_key (entry row) k of JInt n \<Rightarrow> Inr n | _ \<Rightarrow> Inl (ValueError ''missing or invalid run''))"

definition is_number :: "json \<Rightarrow> bool" where
  "is_number v = (case v of JInt n \<Rightarrow> True | JFloat x \<Rightarrow> True | _ \<Rightarrow> False)"

definition mitigation_options :: "fields_of \<Rightarrow> options" where
  "mitigation_options F =
     concat (map (\<lambda>key. case map_of F key of None \<Rightarrow> []
         | Some v \<Rightarrow> [(''--'' @ key, if key = ''mlock'' then None else Some v)]) [''mlock'', ''cpu'', ''fifo''])"

definition mitigations_declared :: "fields_of \<Rightarrow> options \<Rightarrow> bool" where
  "mitigations_declared F vehicle \<longleftrightarrow>
     list_all (\<lambda>key. map_of F key \<noteq> None \<or> ''--'' @ key \<notin> opt_keys vehicle) [''mlock'', ''cpu'', ''fifo'']"

definition l8_expected :: "fields_of \<Rightarrow> int \<Rightarrow> int \<Rightarrow> int \<Rightarrow> string \<Rightarrow> options" where
  "l8_expected F cycles warmup phase label =
     [(''--mode'', Some ''freerun''), (''--auto-arm'', None), (''--abs-deadline'', None), (''--telemetry'', None),
      (''--record'', Some ''control''), (''--alloc-guard'', Some ''abort''), (''--cycles'', Some (dec_int cycles)),
      (''--warmup'', Some (dec_int warmup)), (''--phase-us'', Some (dec_int phase)), (''--sensor-port'', Some ''0''),
      (''--skew-max-ticks'', Some ''4''), (''--terminal-copies'', Some ''12''), (''--label'', Some label)] @
     mitigation_options F"

definition l8_vehicle_argv :: "fields_of \<Rightarrow> int \<Rightarrow> int \<Rightarrow> int \<Rightarrow> string \<Rightarrow> options \<Rightarrow> unit result" where
  "l8_vehicle_argv F cycles warmup phase label vehicle =
     ensure (mitigations_declared F vehicle) ''argv mitigation absent from summary'' (
     ensure (opt_keys vehicle \<subseteq> opt_keys (l8_expected F cycles warmup phase label) \<union> {''--rate'', ''--out'', ''--no-naive-log''} \<and>
         opts_agree (l8_expected F cycles warmup phase label) vehicle) ''unexpected L8 vehicle argv'' (
     ensure (opt_get vehicle ''--rate'' \<in> {Some ''500'', Some ''500.0''} \<and> opt_given vehicle ''--out'')
       ''missing L8 rate/output argv'' (Inr ())))"

text \<open>\<open>pathlib.Path(p).name\<close>.\<close>

definition path_name :: "string \<Rightarrow> string" where
  "path_name p =
     (case rev (filter (\<lambda>c. c \<noteq> [] \<and> c \<noteq> ''.'') (split_on CHR ''/'' p)) of [] \<Rightarrow> [] | c # cs \<Rightarrow> c)"

definition endpoint_port :: "string option \<Rightarrow> string option" where
  "endpoint_port v =
     (case v of None \<Rightarrow> None
      | Some s \<Rightarrow> if starts_with ''127.0.0.1:'' s \<and> positive_numeral (List.drop 10 s) then Some (List.drop 10 s) else None)"

definition l8_peer_expected :: "int \<Rightarrow> string \<Rightarrow> string option \<Rightarrow> options" where
  "l8_peer_expected ticks label out =
     [(''--mode'', Some ''freerun''), (''--seed'', Some ''1''), (''--loss'', Some ''0.0''), (''--delay-ticks'', Some ''1''),
      (''--ticks'', Some (dec_int ticks)), (''--bind-port'', Some ''0''), (''--terminal-copies'', Some ''12''),
      (''--label'', Some label), (''--out'', out)]"

text \<open>The peer's arguments; the port that it was sent to.\<close>

definition l8_peer_argv :: "int \<Rightarrow> string \<Rightarrow> options \<Rightarrow> options \<Rightarrow> string result" where
  "l8_peer_argv ticks label vehicle peer =
     ensure (opt_keys peer = opt_keys (l8_peer_expected ticks label (opt_get vehicle ''--out'')) \<union> {''--scenario'', ''--vehicle''} \<and>
         list_all (\<lambda>(k, v). opt_get peer k = v) (l8_peer_expected ticks label (opt_get vehicle ''--out'')))
       ''unexpected L8 peer argv'' (
     case endpoint_port (opt_get peer ''--vehicle'') of
       None \<Rightarrow> Inl (ValueError ''invalid resolved peer endpoint/scenario'')
     | Some port \<Rightarrow>
         rbind (parse_int port) (\<lambda>n.
         ensure (n \<le> 65535 \<and> path_name (case opt_get peer ''--scenario'' of None \<Rightarrow> [] | Some p \<Rightarrow> p) = ''S1-hold.json'')
           ''invalid resolved peer endpoint/scenario'' (Inr port)))"

definition ready_ok :: "json \<Rightarrow> string \<Rightarrow> bool" where
  "ready_ok ready port \<longleftrightarrow> is_object ready \<and>
     list_all (\<lambda>(k, v). py_eq (get_key (entry ready) k) (JString v))
       [(''mode'', ''freerun''), (''command_port'', ''0''), (''consts'', ''0xe77201ca''), (''sensor_port'', port)]"

definition same_type :: "json \<Rightarrow> json \<Rightarrow> bool" where
  "same_type v w =
     (case (v, w) of (JInt m, JInt n) \<Rightarrow> True | (JString s, JString t) \<Rightarrow> True | (JObject d, JObject e) \<Rightarrow> True | _ \<Rightarrow> False)"

definition replay_expected :: "int \<Rightarrow> (string \<times> json) list" where
  "replay_expected ticks =
     [(''seed'', JInt 1), (''delay_ticks'', JInt 1), (''ticks'', JInt ticks), (''ticks_declared'', JInt 10000),
      (''ticks_resolved'', JInt ticks), (''scenario'', JString ''S1-hold''), (''rate_hz'', JInt 500), (''period_ns'', JInt 2000000),
      (''loss'', JObject [(''p_up'', JFloat (f_zero False)), (''p_down'', JFloat (f_zero False))])]"

definition replay_ok :: "int \<Rightarrow> json \<Rightarrow> bool" where
  "replay_ok ticks replay \<longleftrightarrow>
     list_all (\<lambda>(k, v). case map_of (entry replay) k of None \<Rightarrow> False | Some w \<Rightarrow> same_type w v \<and> py_eq w v) (replay_expected ticks)"

definition argv_shared :: "json \<Rightarrow> json \<Rightarrow> string \<Rightarrow> bool" where
  "argv_shared row replay key \<longleftrightarrow>
     has_key key replay \<and> has_key key row \<and> py_eq (get_key (entry replay) key) (get_key (entry row) key)"

definition module_start :: "json \<Rightarrow> bool" where
  "module_start argv = (case argv of JList xs \<Rightarrow> take 3 (List.drop 1 xs) = [JString ''-B'', JString ''-m'', JString ''sim.run_sim''] | _ \<Rightarrow> False)"

definition l8_window :: "json \<Rightarrow> (int \<times> int \<times> int) result" where
  "l8_window row =
     rbind (row_int row ''cycles'') (\<lambda>cycles. rbind (row_int row ''warmup'') (\<lambda>warmup.
     rbind (row_int row ''phase_us'') (\<lambda>phase. rbind (row_int row ''repeat'') (\<lambda>repeat.
     ensure (1000 \<le> cycles \<and> 0 \<le> warmup \<and> 1 \<le> repeat \<and> 0 < phase \<and> phase < 2000 \<and>
         is_number (get_key (entry row) ''rate'') \<and> py_eq (get_key (entry row) ''rate'') (JInt 500))
       ''invalid L8 run configuration'' (Inr (cycles, warmup, phase))))))"

definition summary_matches :: "json \<Rightarrow> (string \<times> json) list \<Rightarrow> bool result" where
  "summary_matches summary wanted =
     (if is_object summary then Inr (list_all (\<lambda>(k, v). py_eq (get_key (entry summary) k) v) wanted)
      else Inl (AttributeError ''get''))"

definition l8_configuration :: "json \<Rightarrow> json \<Rightarrow> json \<Rightarrow> unit result" where
  "l8_configuration row summary replay =
     ensure (is_object replay) ''invalid replay metadata'' (
     ensure (argv_shared row replay ''vehicle_argv'') ''missing or mismatched vehicle_argv'' (
     ensure (argv_shared row replay ''sim_argv'') ''missing or mismatched sim_argv'' (
     rbind (argv_options (get_key (entry row) ''vehicle_argv'') 1) (\<lambda>vehicle.
     rbind (argv_options (get_key (entry row) ''sim_argv'') 4) (\<lambda>peer.
     ensure (module_start (get_key (entry row) ''sim_argv'')) ''unexpected simulator invocation'' (
     rbind (l8_window row) (\<lambda>(cycles, warmup, phase).
     rbind (dict_get summary ''label'') (\<lambda>_. rbind (item row ''label'') (\<lambda>label.
     need (summary_matches summary [(''label'', label), (''cycles_requested'', JInt cycles), (''warmup'', JInt warmup),
         (''phase_us'', JInt phase), (''period_us'', JInt 2000)]) ''run configuration does not match summary'' (
     rbind (config_fields summary) (\<lambda>F.
     rbind (l8_vehicle_argv F cycles warmup phase (string_of label) vehicle) (\<lambda>_.
     rbind (l8_peer_argv (cycles + warmup + 33) (string_of label) vehicle peer) (\<lambda>port.
     ensure (ready_ok (get_key (entry row) ''ready'') port) ''peer endpoint does not match bound ready state'' (
     ensure (replay_ok (cycles + warmup + 33) replay) ''resolved peer configuration does not match replay'' (
       peer_discipline row replay (map_of F ''cpu''))))))))))))))))"

section \<open>The configuration of a harness row\<close>

text \<open>Parameters: \<open>shown\<close> is \<open>repr\<close> of a float.\<close>

definition number_text :: "(f64 \<Rightarrow> string) \<Rightarrow> number \<Rightarrow> string" where
  "number_text shown a = (case a of NInt n \<Rightarrow> dec_int n | NFlt x \<Rightarrow> shown x)"

definition rate_number :: "json \<Rightarrow> number result" where
  "rate_number v =
     (if is_number v then
        (case number_of v of
           None \<Rightarrow> Inl (ValueError ''invalid harness rate'')
         | Some a \<Rightarrow> rbind (float_of a) (\<lambda>x.
             ensure (f_finite x \<and> num_less (NInt 0) a) ''invalid harness rate'' (Inr a)))
      else Inl (ValueError ''invalid harness rate''))"

definition slice_to :: "int \<Rightarrow> 'a list \<Rightarrow> 'a list" where
  "slice_to n xs = take (nat (if 0 \<le> n then n else int (length xs) + n)) xs"

definition flag_option :: "string \<Rightarrow> string \<times> string option" where
  "flag_option f = (head_of CHR ''='' f, argument_value f)"

definition level_options :: "fields_of \<Rightarrow> int \<Rightarrow> options" where
  "level_options F number =
     map (\<lambda>f. flag_option (format_cpu (case map_of F ''cpu'' of None \<Rightarrow> ''None'' | Some c \<Rightarrow> c) f))
       (concat (map lv_flags (slice_to (number + 1) LEVELS)))"

definition update_all :: "options \<Rightarrow> options \<Rightarrow> options" where
  "update_all new opts = fold (\<lambda>(k, v). AList.update k v) new opts"

definition harness_int :: "json \<Rightarrow> string \<Rightarrow> int \<Rightarrow> int result" where
  "harness_int row k least =
     (case get_key (entry row) k of
        JInt n \<Rightarrow> ensure (least \<le> n) ''invalid harness run'' (Inr n)
      | _ \<Rightarrow> Inl (ValueError ''invalid harness run''))"

definition level_number :: "json \<Rightarrow> int result" where
  "level_number row = rbind (row_string row ''level'') (\<lambda>s. parse_int (List.drop 1 s))"

definition harness_configuration :: "(f64 \<Rightarrow> string) \<Rightarrow> json \<Rightarrow> json \<Rightarrow> unit result" where
  "harness_configuration shown row summary =
     rbind (argv_options (get_key (entry row) ''vehicle_argv'') 1) (\<lambda>opts.
     rbind (config_fields summary) (\<lambda>F.
     rbind (harness_int row ''cycles'' 1) (\<lambda>cycles. rbind (harness_int row ''warmup'' 0) (\<lambda>warmup.
     rbind (harness_int row ''repeat'' 1) (\<lambda>_.
     rbind (rate_number (get_key (entry row) ''rate'')) (\<lambda>rate.
     rbind (item row ''label'') (\<lambda>label.
     rbind (level_number row) (\<lambda>number.
     rbind (float_of rate) (\<lambda>x.
     let expected = update_all (level_options F number)
       [(''--label'', Some (string_of label)), (''--cycles'', Some (dec_int cycles)), (''--warmup'', Some (dec_int warmup))] in
     ensure (opt_keys opts = opt_keys expected \<union> {''--rate'', ''--out''} \<and> opt_given opts ''--out'' \<and>
         opts_agree expected opts \<and>
         opt_get opts ''--rate'' \<in> {Some (number_text shown rate), Some (shown x)} \<and>
         summary_matches summary [(''cycles_requested'', JInt cycles), (''label'', label)] = Inr True)
       ''harness invocation does not match experiment configuration'' (Inr ()))))))))))"

section \<open>Labels\<close>

text \<open>The pattern of a run label, its level, its phase and its repeat.\<close>

definition repeat_suffix :: "string \<Rightarrow> bool" where
  "repeat_suffix s \<longleftrightarrow> s = [] \<or> starts_with ''.r'' s \<and> positive_numeral (List.drop 2 s)"

definition phase_suffix :: "string \<Rightarrow> bool" where
  "phase_suffix s \<longleftrightarrow>
     starts_with ''.phase'' s \<and> take 3 (List.drop 6 s) \<in> {''200'', ''400'', ''800''} \<and> repeat_suffix (List.drop 9 s)"

definition label_ok :: "string \<Rightarrow> bool" where
  "label_ok s \<longleftrightarrow>
     (case s of
        c # d # rest \<Rightarrow> c = CHR ''L'' \<and> d \<in> set ''012345678'' \<and> (repeat_suffix rest \<or> phase_suffix rest)
      | _ \<Rightarrow> False)"

definition label_level :: "string \<Rightarrow> string" where
  "label_level s = head_of CHR ''.'' s"

definition label_repeat :: "string \<Rightarrow> int result" where
  "label_repeat s = (case after_last ''.r'' s of None \<Rightarrow> Inr 1 | Some t \<Rightarrow> parse_int t)"

definition label_phase :: "string \<Rightarrow> int option result" where
  "label_phase s =
     (case after_first ''.phase'' s of
        None \<Rightarrow> Inr None
      | Some t \<Rightarrow> rbind (parse_int (head_of CHR ''.'' t)) (\<lambda>p. Inr (Some p)))"

section \<open>The roster\<close>

definition exit_zero :: "json \<Rightarrow> bool" where
  "exit_zero v \<longleftrightarrow> v = JInt 0"

text \<open>The label of a row that is complete and named as its level, repeat and phase say.\<close>

definition row_identity :: "string list \<Rightarrow> json \<Rightarrow> string result" where
  "row_identity seen row =
     ensure (is_object row \<and> is_true (get_key (entry row) ''complete'')) ''incomplete roster row'' (
     let label = get_key (entry row) ''label''; s = string_of label in
     ensure (is_string label \<and> label_ok s \<and> s \<notin> set seen) ''invalid or duplicate roster label'' (
     ensure (py_eq (get_key (entry row) ''level'') (JString (label_level s))) ''roster level/label mismatch'' (
     rbind (label_repeat s) (\<lambda>n.
     ensure (get_key (entry row) ''repeat'' = JInt n) ''roster repeat/label mismatch'' (
     rbind (label_phase s) (\<lambda>p.
     ensure (case p of None \<Rightarrow> True | Some u \<Rightarrow> py_eq (get_key (entry row) ''phase_us'') (JInt u))
       ''roster phase/label mismatch'' (Inr s)))))))"

definition row_evidence :: "(f64 \<Rightarrow> string) \<Rightarrow> (string \<Rightarrow> json result) \<Rightarrow> (string \<Rightarrow> bool) \<Rightarrow> string \<Rightarrow> json \<Rightarrow> unit result" where
  "row_evidence shown doc is_file label row =
     ensure (is_file (label @ ''.summary.json'')) ''missing roster summary'' (
     rbind (doc (label @ ''.result.json'')) (\<lambda>result.
     ensure (py_eq row result) ''roster does not match process result'' (
     ensure (exit_zero (get_key (entry row) ''vehicle_exit'')) ''failed vehicle in roster'' (
     if py_eq (get_key (entry row) ''level'') (JString ''L8'') then
       ensure (exit_zero (get_key (entry row) ''sim_exit'')) ''failed peer in roster'' (
       rbind (doc (label @ ''.replay.json'')) (\<lambda>replay.
       rbind (doc (label @ ''.summary.json'')) (\<lambda>summary. l8_configuration row summary replay)))
     else
       rbind (doc (label @ ''.summary.json'')) (\<lambda>summary. harness_configuration shown row summary)))))"

fun roster_rows ::
  "(f64 \<Rightarrow> string) \<Rightarrow> (string \<Rightarrow> json result) \<Rightarrow> (string \<Rightarrow> bool) \<Rightarrow> string \<Rightarrow> string list \<Rightarrow> json option \<Rightarrow> json list \<Rightarrow> json option result" where
  "roster_rows shown doc is_file name seen found [] = Inr found"
| "roster_rows shown doc is_file name seen found (row # rows) =
     rbind (row_identity seen row) (\<lambda>label.
     rbind (row_evidence shown doc is_file label row) (\<lambda>_.
       roster_rows shown doc is_file name (label # seen) (if label = name then Some row else found) rows))"

definition roster_row ::
  "(f64 \<Rightarrow> string) \<Rightarrow> (string \<Rightarrow> json result) \<Rightarrow> (string \<Rightarrow> bool) \<Rightarrow> string \<Rightarrow> json result" where
  "roster_row shown doc is_file name =
     rbind (doc ''sweep.json'') (\<lambda>roster.
     ensure (is_object roster \<and> py_eq (get_key (entry roster) ''format'') (JString ''tvc-sweep-1'') \<and>
         is_true (get_key (entry roster) ''complete'')) ''incomplete sweep roster'' (
     case roster_runs roster of
       None \<Rightarrow> Inl (ValueError ''empty sweep roster'')
     | Some runs \<Rightarrow>
         ensure (runs \<noteq> []) ''empty sweep roster'' (
         rbind (roster_rows shown doc is_file name [] None runs) (\<lambda>found.
         case found of None \<Rightarrow> Inl (ValueError ''summary absent from sweep roster'') | Some row \<Rightarrow> Inr row))))"

section \<open>Planned labels\<close>

lemma after_first_absent: "p \<noteq> [] \<Longrightarrow> \<not> set p \<subseteq> set s \<Longrightarrow> after_first p s = None"
proof (induction s)
  case (Cons c cs)
  have "set (take (length p) (c # cs)) \<subseteq> set (c # cs)" by (rule set_take_subset)
  with Cons.prems have "take (length p) (c # cs) \<noteq> p" by auto
  moreover have "after_first p cs = None" using Cons.prems by (intro Cons.IH) auto
  ultimately show ?case by simp
qed simp

lemma after_last_absent: "p \<noteq> [] \<Longrightarrow> \<not> set p \<subseteq> set s \<Longrightarrow> after_last p s = None"
proof (induction s)
  case (Cons c cs)
  have "set (take (length p) (c # cs)) \<subseteq> set (c # cs)" by (rule set_take_subset)
  with Cons.prems have "take (length p) (c # cs) \<noteq> p" by auto
  moreover have "after_last p cs = None" using Cons.prems by (intro Cons.IH) auto
  ultimately show ?case by simp
qed simp

lemma after_last_repeat: "CHR ''r'' \<notin> set t \<Longrightarrow> after_last ''.r'' (s @ ''.r'' @ t) = Some t"
proof (induction s)
  case Nil
  then have "after_last ''.r'' (CHR ''r'' # t) = None"
    using after_last_absent [of "''.r''" t] by simp
  then show ?case by simp
qed simp

lemma digits_no: "list_all is_digit s \<Longrightarrow> \<not> is_digit c \<Longrightarrow> c \<notin> set s"
  by (auto simp: list_all_iff)

lemma dec_int_nonneg: "0 \<le> n \<Longrightarrow> dec_int n = dec (nat n)"
  by (simp add: dec_int_def)

lemma repeat_part:
  fixes repeats :: int
  assumes "1 \<le> n" "suffix = (if 1 < repeats then ''.r'' @ dec_int n else [])" "CHR ''r'' \<notin> set s" "repeats \<le> 1 \<Longrightarrow> n = 1"
  shows "repeat_suffix suffix" "label_repeat (s @ suffix) = Inr n"
proof -
  have n: "dec_int n = dec (nat n)" "0 < nat n" using assms(1) by (simp_all add: dec_int_nonneg)
  show "repeat_suffix suffix" using n by (simp add: assms(2) repeat_suffix_def dec_plain(2))
  show "label_repeat (s @ suffix) = Inr n"
  proof (cases "1 < repeats")
    case True
    have "CHR ''r'' \<notin> set (dec (nat n))" by (rule digits_no [OF dec_digits_only]) simp
    from after_last_repeat [OF this, of s] n True assms(1) show ?thesis by (simp add: assms(2) label_repeat_def)
  next
    case False
    have "after_last ''.r'' s = None" using assms(3) after_last_absent [of "''.r''" s] by simp
    moreover have "n = 1" by (rule assms(4)) (use False in simp)
    ultimately show ?thesis using False by (simp add: assms(2) label_repeat_def)
  qed
qed

text \<open>A planned label passes the roster's tests of it, which recover the level, the repeat and the phase.\<close>

lemma planned_label:
  assumes "plan_phases a = Inr phases" "i < 9" "1 \<le> n" "n \<le> sa_repeat a" "selected a (lv_label (LEVELS ! i))"
    "if i = 8 then phase \<in> Some ` set phases \<and> l8_schedulable a else phase = None" "r = planned a phases i phase n"
  shows "label_ok (rn_label r)" "label_level (rn_label r) = pl_level r" "label_repeat (rn_label r) = Inr (rn_repeat r)"
    "label_phase (rn_label r) = Inr (if 1 < length phases then pl_phase r else None)" "rn_repeat r = n"
    "pl_level r = lv_label (LEVELS ! i)" "pl_phase r = phase"
proof -
  obtain d where d: "lv_label (LEVELS ! i) = [CHR ''L'', d]" "d \<in> set ''012345678''"
    using LEVELS_label [OF assms(2)] by auto
  have nd: "d \<noteq> CHR ''.''" "d \<noteq> CHR ''r''" "d \<noteq> CHR ''p''" using d(2) by auto
  define suffix where "suffix = (if 1 < sa_repeat a then ''.r'' @ dec_int n else [])"
  have one: "sa_repeat a \<le> 1 \<Longrightarrow> n = 1" using assms(3,4) by simp
  show r: "rn_repeat r = n" "pl_level r = lv_label (LEVELS ! i)" "pl_phase r = phase"
    by (simp_all add: assms(7) planned_def run_of_def plan.extend_def plan_at_def)
  define grid where "grid = (1 < length phases)"
  have label: "rn_label r = run_label grid (sa_repeat a) n (plan_at a (LEVELS ! i) (level_flags a i) phase)"
    by (simp add: assms(7) planned_def run_of_def plan.extend_def grid_def)
  have "\<exists>mid. rn_label r = [CHR ''L'', d] @ mid @ suffix \<and>
    (if grid then \<exists>u \<in> {200, 400, 800}. phase = Some u \<and> mid = ''.phase'' @ dec_int u else mid = [])"
  proof (cases grid)
    case True
    with plan_phases_grid(2) [OF assms(1)] have g: "phases = [200, 400, 800]" "sa_only a = Some [''L8'']"
      by (simp_all add: grid_def)
    with assms(5) LEVELS_L8 [OF assms(2)] have "i = 8" by (simp add: selected_def)
    with assms(6) g(1) have "\<exists>u \<in> {200, 400, 800}. phase = Some u" by auto
    with True show ?thesis by (auto simp: label run_label_def plan_at_def d(1) suffix_def)
  next
    case False
    then show ?thesis by (simp add: label run_label_def plan_at_def d(1) suffix_def)
  qed
  then obtain mid where mid: "rn_label r = [CHR ''L'', d] @ mid @ suffix"
    "if grid then \<exists>u \<in> {200, 400, 800}. phase = Some u \<and> mid = ''.phase'' @ dec_int u else mid = []" by blast
  have three: "dec_int 200 = ''200''" "dec_int 400 = ''400''" "dec_int 800 = ''800''"
    by (simp_all add: dec_int_def dec.simps digit_chars)
  have suf: "suffix = [] \<or> (\<exists>t. suffix = CHR ''.'' # CHR ''r'' # dec t)"
    using assms(3) by (auto simp: suffix_def dec_int_def)
  have mids: "mid \<in> {[], ''.phase200'', ''.phase400'', ''.phase800''}"
    using mid(2) three by (auto split: if_splits)
  have nor: "CHR ''r'' \<notin> set ([CHR ''L'', d] @ mid)" using mids nd(2) by auto
  note rp = repeat_part [OF assms(3) suffix_def nor one]
  show "label_repeat (rn_label r) = Inr (rn_repeat r)" using rp(2) by (simp add: mid(1) r)
  show "label_ok (rn_label r)"
    using rp(1) mids d(2) by (auto simp: mid(1) label_ok_def phase_suffix_def)
  show "label_level (rn_label r) = pl_level r"
    using mids suf nd(1) by (auto simp: mid(1) r d(1) label_level_def head_of_def)
  have "label_phase (rn_label r) = Inr (if grid then phase else None)"
  proof (cases grid)
    case True
    then obtain u where u: "u \<in> {200, 400, 800}" "phase = Some u" "mid = ''.phase'' @ dec_int u" using mid(2) by auto
    have h: "head_of CHR ''.'' (dec_int u @ suffix) = dec_int u"
    proof -
      have "CHR ''.'' \<notin> set (dec_int u)" using u(1) three by auto
      then show ?thesis using suf head_of_append(1) [of "CHR ''.''" "dec_int u"] head_of_whole(1) [of "CHR ''.''" "dec_int u"] by auto
    qed
    have "after_first ''.phase'' (rn_label r) = Some (dec_int u @ suffix)"
      using nd(1) by (simp add: mid(1) u(3))
    moreover have "parse_int (dec_int u) = Inr u" using u(1) by (auto simp: dec_int_nonneg)
    ultimately show ?thesis using True by (simp add: label_phase_def h u(2))
  next
    case False
    have "CHR ''p'' \<notin> set (rn_label r)"
      using False mid suf nd(3) digits_no [OF dec_digits_only, of "CHR ''p''"] by auto
    then have "after_first ''.phase'' (rn_label r) = None" by (intro after_first_absent) simp_all
    then show ?thesis using False by (simp add: label_phase_def)
  qed
  then show "label_phase (rn_label r) = Inr (if 1 < length phases then pl_phase r else None)" by (simp add: grid_def r)
qed

text \<open>No two runs of a plan share a label, so none overwrites another's output.\<close>

lemma plan_labels_distinct:
  assumes "plan_runs a = Inr (runs, stopped)"
  shows "distinct (map rn_label runs)"
proof -
  have key: "run_key r = run_key r'" if "r \<in> set runs" "r' \<in> set runs" "rn_label r = rn_label r'" for r r'
  proof -
    from assms that(1) obtain phases i phase n where p: "plan_phases a = Inr phases" "i < 9" "1 \<le> n" "n \<le> sa_repeat a"
      "selected a (lv_label (LEVELS ! i))" "if i = 8 then phase \<in> Some ` set phases \<and> l8_schedulable a else phase = None"
      "r = planned a phases i phase n" by (elim plan_runs_planned)
    from assms that(2) obtain phases' j phase' m where q: "plan_phases a = Inr phases'" "j < 9" "1 \<le> m" "m \<le> sa_repeat a"
      "selected a (lv_label (LEVELS ! j))" "if j = 8 then phase' \<in> Some ` set phases' \<and> l8_schedulable a else phase' = None"
      "r' = planned a phases' j phase' m" by (elim plan_runs_planned)
    have same: "phases' = phases" using p(1) q(1) by simp
    note P = planned_label [OF p(1-6) p(7)] and Q = planned_label [OF q(1-6) q(7), unfolded same]
    have rep: "rn_repeat r = rn_repeat r'" and lev: "pl_level r = pl_level r'"
      using P(2,3) Q(2,3) that(3) by simp_all
    have "(i = 8) = (j = 8)" using lev P(6) Q(6) LEVELS_L8 [OF p(2)] LEVELS_L8 [OF q(2)] by simp
    moreover have "phase = phase'" if "\<not> 1 < length phases"
      using that p(6) q(6) calculation by (cases phases) (auto simp: same split: if_splits)
    ultimately have "pl_phase r = pl_phase r'" using P(4,7) Q(4,7) that(3) by (cases "1 < length phases") simp_all
    with rep lev show ?thesis by (simp add: run_key_def)
  qed
  have "inj_on run_key (set runs)" "distinct runs" using plan_runs_distinct [OF assms] by (simp_all add: distinct_map)
  moreover from this key have "inj_on rn_label (set runs)" unfolding inj_on_def by blast
  ultimately show ?thesis by (simp add: distinct_map)
qed

section \<open>What a run writes\<close>

text \<open>\<open>run_row\<close>: the arguments of the vehicle, and the row of a harness run that completed.\<close>

definition vehicle_argv :: "(f64 \<Rightarrow> string) \<Rightarrow> string \<Rightarrow> string \<Rightarrow> run \<Rightarrow> string list" where
  "vehicle_argv shown binary out r =
     [binary, ''--label='' @ rn_label r, ''--out='' @ out, ''--rate='' @ shown (pl_rate r), ''--cycles='' @ dec_int (pl_cycles r),
      ''--warmup='' @ dec_int (pl_warmup r)] @ pl_flags r @
     (if pl_level r = ''L8'' then
        [''--sensor-port=0'', ''--phase-us='' @ (case pl_phase r of None \<Rightarrow> ''None'' | Some u \<Rightarrow> dec_int u),
         ''--skew-max-ticks=4'', ''--terminal-copies=12'']
      else [])"

definition strings :: "string list \<Rightarrow> json" where
  "strings xs = JList (map JString xs)"

definition harness_row :: "(f64 \<Rightarrow> string) \<Rightarrow> string \<Rightarrow> string \<Rightarrow> run \<Rightarrow> json" where
  "harness_row shown binary out r =
     JObject [(''level'', JString (pl_level r)), (''description'', JString (pl_description r)), (''flags'', strings (pl_flags r)),
       (''phase_us'', case pl_phase r of None \<Rightarrow> JNull | Some u \<Rightarrow> JInt u), (''cycles'', JInt (pl_cycles r)),
       (''warmup'', JInt (pl_warmup r)), (''rate'', JFloat (pl_rate r)), (''repeat'', JInt (rn_repeat r)),
       (''label'', JString (rn_label r)), (''complete'', JBool True), (''error'', JNull), (''vehicle_exit'', JInt 0),
       (''sim_exit'', JNull), (''sim_argv'', JList []), (''vehicle_argv'', strings (vehicle_argv shown binary out r))]"

definition sweep_roster :: "bool \<Rightarrow> json list \<Rightarrow> json" where
  "sweep_roster finished rows = JObject [(''format'', JString ''tvc-sweep-1''), (''complete'', JBool finished), (''runs'', JList rows)]"

section \<open>Planned harness runs\<close>

lemma option_split:
  "head_of c [] = []" "head_of c (x # xs) = (if x = c then [] else x # head_of c xs)"
  "tail_of c [] = []" "tail_of c (x # xs) = (if x = c then xs else tail_of c xs)"
  by (simp_all add: head_of_def tail_of_def)

definition harness_flags :: "string \<Rightarrow> string list" where
  "harness_flags c = [''--abs-deadline'', ''--mlock'', ''--fifo=80'', ''--cpu='' @ c, ''--no-naive-log'', ''--alloc-guard=abort'',
     ''--telemetry'', ''--telemetry'', ''--record=control'']"

definition harness_width :: "nat \<Rightarrow> nat" where
  "harness_width i = [0, 1, 2, 3, 4, 6, 7, 9] ! i"

lemma less_eight: "i < (8 :: nat) \<longleftrightarrow> i \<in> {0, 1, 2, 3, 4, 5, 6, 7}"
  by auto

lemma formatted_flags:
  "i < 8 \<Longrightarrow> map (format_cpu c) (concat (map lv_flags (take (Suc i) LEVELS))) = take (harness_width i) (harness_flags c)"
  unfolding less_eight by (auto simp: LEVELS_def lv_def format_cpu_def harness_flags_def harness_width_def)

lemma harness_options:
  assumes "i < 8" "label \<noteq> []" "out \<noteq> []" "rate \<noteq> []" "cy \<noteq> []" "wu \<noteq> []" "c \<noteq> []" "4 \<le> i \<Longrightarrow> c' = c"
    and "expected = update_all (map flag_option (take (harness_width i) (harness_flags c')))
      [(''--label'', Some label), (''--cycles'', Some cy), (''--warmup'', Some wu)]"
  shows "\<exists>opts. options_of [] ([''--label='' @ label, ''--out='' @ out, ''--rate='' @ rate, ''--cycles='' @ cy, ''--warmup='' @ wu] @
      take (harness_width i) (harness_flags c)) = Inr opts \<and>
    opt_keys opts = opt_keys expected \<union> {''--rate'', ''--out''} \<and> opts_agree expected opts \<and>
    opt_get opts ''--out'' = Some out \<and> opt_get opts ''--rate'' = Some rate"
  using assms(1) unfolding less_eight
  by (elim insertE emptyE; simp add: assms harness_width_def harness_flags_def flag_option_def argument_value_def option_split
    update_all_def opt_keys_def opts_agree_def opt_get_def insert_commute)

text \<open>The summary of a run's vehicle shows the label, the cycles and the CPU it was started with.\<close>

definition run_summary :: "sweep_args \<Rightarrow> run \<Rightarrow> json \<Rightarrow> bool" where
  "run_summary a r summary \<longleftrightarrow> is_object summary \<and>
     py_eq (get_key (entry summary) ''label'') (JString (rn_label r)) \<and>
     py_eq (get_key (entry summary) ''cycles_requested'') (JInt (pl_cycles r)) \<and>
     (case config_fields summary of Inl e \<Rightarrow> False
      | Inr F \<Rightarrow> ''--cpu='' @ cpu_text (sa_cpu a) \<notin> set (pl_flags r) \<or> map_of F ''cpu'' = Some (cpu_text (sa_cpu a)))"

lemma positive_rate:
  assumes "f_finite x" "\<not> f_le x (f_zero False)"
  shows "rate_number (JFloat x) = Inr (NFlt x)"
proof -
  have "0 < fval x" using assms f_le_iff [of x "f_zero False"] by simp
  moreover have "real_of_int (f_scaled x (- 1074)) * 2 powi (- 1074) = fval x"
    by (rule f_scaled_val) (simp add: f_ulp_ge)
  ultimately have "0 < f_scaled x (- 1074)" by (metis zero_less_mult_pos2 powi_two_pos of_int_0_less_iff)
  with assms(1) show ?thesis by (simp add: rate_number_def is_number_def float_of_def)
qed

lemma level_digit: "i < 8 \<Longrightarrow> parse_int (List.drop 1 (lv_label (LEVELS ! i))) = Inr (int i)"
  unfolding less_eight
  by (auto simp: LEVELS_def lv_def parse_int_def strip_def blank_def dec_body_def digit_value_def)

lemma dec_int_Nil [simp]: "dec_int n \<noteq> []"
  by (simp add: dec_int_def)

lemma cpu_text_Nil [simp]: "cpu_text c \<noteq> []"
  by (simp add: cpu_text_def split: option.split)

lemma strings_argv:
  "argv_options (strings (x # xs)) (Suc 0) =
     ensure (xs \<noteq> [] \<and> list_all (\<lambda>s. s \<noteq> []) (x # xs)) ''missing or invalid resolved argv'' (options_of [] xs)"
  by (simp add: argv_options_def strings_def is_string_def string_of_def list.pred_map comp_def)

lemma level_options_take:
  "i < 9 \<Longrightarrow> level_options F (int i) = map flag_option
     (map (format_cpu (case map_of F ''cpu'' of None \<Rightarrow> ''None'' | Some c \<Rightarrow> c)) (concat (map lv_flags (take (Suc i) LEVELS))))"
proof -
  have "nat (int i + 1) = Suc i" by simp
  then show ?thesis by (simp add: level_options_def slice_to_def)
qed

lemma cpu_flag_level: "i < 8 \<Longrightarrow> 4 \<le> i \<Longrightarrow> ''--cpu='' @ c \<in> set (take (harness_width i) (harness_flags c))"
  unfolding less_eight by (auto simp: harness_width_def harness_flags_def)

text \<open>The audit's test of a harness row accepts what a planned run writes.\<close>

lemma planned_harness_accepted:
  assumes "plan_runs a = Inr (runs, stopped)" "r \<in> set runs" "pl_level r \<noteq> ''L8''"
    and "shown (sa_rate a) \<noteq> []" "out \<noteq> []" "binary \<noteq> []" "run_summary a r summary"
  shows "harness_configuration shown (harness_row shown binary out r) summary = Inr ()"
proof -
  from assms(1,2) obtain phases i phase n where p: "plan_phases a = Inr phases" "i < 9" "1 \<le> n" "n \<le> sa_repeat a"
    "selected a (lv_label (LEVELS ! i))" "if i = 8 then phase \<in> Some ` set phases \<and> l8_schedulable a else phase = None"
    "r = planned a phases i phase n" by (elim plan_runs_planned)
  note L = planned_label [OF p(1-6) p(7)]
  have "i \<noteq> 8" using assms(3) L(6) LEVELS_L8 [OF p(2)] by simp
  with p(2) have i: "i < 8" by simp
  have r: "pl_flags r = level_flags a i" "pl_cycles r = sa_cycles a" "pl_warmup r = sa_warmup a" "pl_rate r = sa_rate a"
    by (simp_all only: p(7) planned_settings)
  define c where "c = cpu_text (sa_cpu a)"
  have flags: "pl_flags r = take (harness_width i) (harness_flags c)"
    unfolding r(1) level_flags_def c_def by (rule formatted_flags [OF i])
  have label: "rn_label r \<noteq> []" using L(1) by (auto simp: label_ok_def)
  from assms(7) obtain F where F: "config_fields summary = Inr F" "''--cpu='' @ c \<notin> set (pl_flags r) \<or> map_of F ''cpu'' = Some c"
    "is_object summary" "py_eq (get_key (entry summary) ''label'') (JString (rn_label r))"
    "py_eq (get_key (entry summary) ''cycles_requested'') (JInt (pl_cycles r))"
    by (auto simp: run_summary_def c_def split: sum.splits)
  define c' where "c' = (case map_of F ''cpu'' of None \<Rightarrow> ''None'' | Some c \<Rightarrow> c)"
  have cc: "4 \<le> i \<Longrightarrow> c' = c" using F(2) cpu_flag_level [OF i, of c] by (auto simp: flags c'_def)
  define expected where "expected = update_all (level_options F (int i))
    [(''--label'', Some (rn_label r)), (''--cycles'', Some (dec_int (sa_cycles a))), (''--warmup'', Some (dec_int (sa_warmup a)))]"
  have "level_options F (int i) = map flag_option (take (harness_width i) (harness_flags c'))"
    using i by (simp only: level_options_take c'_def [symmetric] formatted_flags)
  then have "expected = update_all (map flag_option (take (harness_width i) (harness_flags c')))
    [(''--label'', Some (rn_label r)), (''--cycles'', Some (dec_int (sa_cycles a))), (''--warmup'', Some (dec_int (sa_warmup a)))]"
    by (simp add: expected_def)
  from harness_options [OF i label assms(5,4) dec_int_Nil dec_int_Nil _ cc this] obtain opts where opts:
    "options_of [] ([''--label='' @ rn_label r, ''--out='' @ out, ''--rate='' @ shown (sa_rate a), ''--cycles='' @ dec_int (sa_cycles a),
       ''--warmup='' @ dec_int (sa_warmup a)] @ take (harness_width i) (harness_flags c)) = Inr opts"
    "opt_keys opts = opt_keys expected \<union> {''--rate'', ''--out''}" "opts_agree expected opts"
    "opt_get opts ''--out'' = Some out" "opt_get opts ''--rate'' = Some (shown (sa_rate a))"
    by (auto simp: c_def)
  have nonempty: "list_all (\<lambda>s. s \<noteq> []) (take (harness_width i) (harness_flags c))"
  proof -
    have "list_all (\<lambda>s. s \<noteq> []) (harness_flags c)" by (simp add: harness_flags_def)
    then show ?thesis by (auto simp: list_all_iff dest: in_set_takeD)
  qed
  have argv: "argv_options (strings (vehicle_argv shown binary out r)) 1 = Inr opts"
    using opts(1) nonempty assms(3,6) by (simp add: vehicle_argv_def strings_argv flags r del: options_of.simps)
  have rate: "f_finite (sa_rate a)" "rate_number (JFloat (sa_rate a)) = Inr (NFlt (sa_rate a))"
    and pos: "0 < sa_cycles a" "0 \<le> sa_warmup a"
    using assms(1) positive_rate by (auto elim!: plan_runs_unfold)
  have matches: "summary_matches summary [(''cycles_requested'', JInt (sa_cycles a)), (''label'', JString (rn_label r))] = Inr True"
    using F(3-5) by (simp add: summary_matches_def r)
  have number: "level_number (harness_row shown binary out r) = Inr (int i)"
    using level_digit [OF i] by (simp add: level_number_def row_string_def item_def harness_row_def is_string_def string_of_def L(6))
  have row: "get_key (entry (harness_row shown binary out r)) ''vehicle_argv'' = strings (vehicle_argv shown binary out r)"
    "get_key (entry (harness_row shown binary out r)) ''rate'' = JFloat (sa_rate a)"
    "item (harness_row shown binary out r) ''label'' = Inr (JString (rn_label r))"
    "harness_int (harness_row shown binary out r) ''cycles'' 1 = Inr (sa_cycles a)"
    "harness_int (harness_row shown binary out r) ''warmup'' 0 = Inr (sa_warmup a)"
    "harness_int (harness_row shown binary out r) ''repeat'' 1 = Inr n"
    using pos p(3) by (simp_all add: harness_row_def get_key_def entry_def item_def harness_int_def r L(5))
  show ?thesis
    unfolding harness_configuration_def row argv F(1) rate(2) number
    using opts(2-5) assms(5) matches
    by (simp add: string_of_def float_of_def number_text_def opt_given_def expected_def [symmetric])
qed

section \<open>A completed campaign\<close>

lemma py_eq_strings: "py_eq_list (map JString xs) (map JString xs)"
  by (induction xs) simp_all

lemma harness_row_refl: "f_finite (pl_rate r) \<Longrightarrow> py_eq (harness_row shown binary out r) (harness_row shown binary out r)"
  by (cases "pl_phase r") (simp_all add: harness_row_def strings_def py_eq_strings f_eq_def f_finite_not_nan)

lemma planned_identity:
  assumes "plan_runs a = Inr (runs, stopped)" "r \<in> set runs" "pl_level r \<noteq> ''L8''" "rn_label r \<notin> set seen"
  shows "row_identity seen (harness_row shown binary out r) = Inr (rn_label r)"
proof -
  from assms(1,2) obtain phases i phase n where p: "plan_phases a = Inr phases" "i < 9" "1 \<le> n" "n \<le> sa_repeat a"
    "selected a (lv_label (LEVELS ! i))" "if i = 8 then phase \<in> Some ` set phases \<and> l8_schedulable a else phase = None"
    "r = planned a phases i phase n" by (elim plan_runs_planned)
  note L = planned_label [OF p(1-6) p(7)]
  have "phase = None" using assms(3) L(6) LEVELS_L8 [OF p(2)] p(6) by (simp split: if_splits)
  then have "label_phase (rn_label r) = Inr None" using L(4,7) by (simp split: if_splits)
  with L(1-3) assms(4) show ?thesis
    by (simp add: row_identity_def harness_row_def is_object_def entry_def get_key_def is_true_def is_string_def string_of_def)
qed

definition run_filed :: "(f64 \<Rightarrow> string) \<Rightarrow> string \<Rightarrow> string \<Rightarrow> (string \<Rightarrow> json result) \<Rightarrow> (string \<Rightarrow> bool) \<Rightarrow> sweep_args \<Rightarrow> run \<Rightarrow> bool" where
  "run_filed shown binary out doc is_file a r \<longleftrightarrow>
     is_file (rn_label r @ ''.summary.json'') \<and> doc (rn_label r @ ''.result.json'') = Inr (harness_row shown binary out r) \<and>
     (case doc (rn_label r @ ''.summary.json'') of Inl e \<Rightarrow> False | Inr s \<Rightarrow> run_summary a r s)"

lemma planned_evidence:
  assumes "plan_runs a = Inr (runs, stopped)" "r \<in> set runs" "pl_level r \<noteq> ''L8''"
    and "shown (sa_rate a) \<noteq> []" "out \<noteq> []" "binary \<noteq> []" "run_filed shown binary out doc is_file a r"
  shows "row_evidence shown doc is_file (rn_label r) (harness_row shown binary out r) = Inr ()"
proof -
  from assms(7) obtain s where s: "doc (rn_label r @ ''.summary.json'') = Inr s" "run_summary a r s"
    "is_file (rn_label r @ ''.summary.json'')" "doc (rn_label r @ ''.result.json'') = Inr (harness_row shown binary out r)"
    by (auto simp: run_filed_def split: sum.splits)
  have rate: "pl_rate r = sa_rate a"
    by (rule plan_runs_planned [OF assms(1,2)]) (simp only: planned_settings)
  have "f_finite (sa_rate a)" using assms(1) by (elim plan_runs_unfold)
  with rate have "py_eq (harness_row shown binary out r) (harness_row shown binary out r)" by (intro harness_row_refl) simp
  moreover have "get_key (entry (harness_row shown binary out r)) ''vehicle_exit'' = JInt 0"
    "get_key (entry (harness_row shown binary out r)) ''level'' = JString (pl_level r)"
    by (simp_all add: harness_row_def get_key_def entry_def)
  ultimately show ?thesis
    using s assms(3) planned_harness_accepted [where shown = shown, OF assms(1-6) s(2)] by (simp add: row_evidence_def exit_zero_def)
qed

lemma planned_rows:
  assumes "plan_runs a = Inr (runs, stopped)" "shown (sa_rate a) \<noteq> []" "out \<noteq> []" "binary \<noteq> []"
    and "set rs \<subseteq> set runs" "distinct (map rn_label rs)" "set seen \<inter> rn_label ` set rs = {}"
    and "list_all (\<lambda>r. pl_level r \<noteq> ''L8'' \<and> run_filed shown binary out doc is_file a r) rs"
  shows "roster_rows shown doc is_file name seen found (map (harness_row shown binary out) rs) =
    Inr (case find (\<lambda>r. rn_label r = name) rs of None \<Rightarrow> found | Some r \<Rightarrow> Some (harness_row shown binary out r))"
  using assms(5-8)
proof (induction rs arbitrary: seen found)
  case (Cons r rs)
  have "row_identity seen (harness_row shown binary out r) = Inr (rn_label r)"
    using Cons.prems by (intro planned_identity [OF assms(1)]) auto
  moreover have "row_evidence shown doc is_file (rn_label r) (harness_row shown binary out r) = Inr ()"
    using Cons.prems by (intro planned_evidence [where shown = shown, OF assms(1) _ _ assms(2-4)]) auto
  moreover have "find (\<lambda>r. rn_label r = name) rs = None" if "rn_label r = name"
    using Cons.prems(2) that by (auto simp: find_None_iff) (metis image_eqI)
  ultimately show ?case using Cons.IH [of "rn_label r # seen"] Cons.prems by auto
qed simp

text \<open>C15. A campaign is accepted by its own audit: when the harness runs that \<open>plan_runs\<close> laid out have completed,
  each with the files that \<open>run_row\<close> writes and a vehicle summary that shows the label, the cycles and the
  CPU it was started with, then \<open>roster_row\<close> finds every one of the runs under its label and raises for none.\<close>

theorem completed_roster_accepted:
  assumes "plan_runs a = Inr (runs, stopped)" "r \<in> set runs"
    and "shown (sa_rate a) \<noteq> []" "out \<noteq> []" "binary \<noteq> []"
    and "list_all (\<lambda>r. pl_level r \<noteq> ''L8'' \<and> run_filed shown binary out doc is_file a r) runs"
    and "doc ''sweep.json'' = Inr (sweep_roster True (map (harness_row shown binary out) runs))"
  shows "roster_row shown doc is_file (rn_label r) = Inr (harness_row shown binary out r)"
proof -
  have "roster_rows shown doc is_file (rn_label r) [] None (map (harness_row shown binary out) runs) =
    Inr (case find (\<lambda>r'. rn_label r' = rn_label r) runs of None \<Rightarrow> None | Some r \<Rightarrow> Some (harness_row shown binary out r))"
    using plan_labels_distinct [OF assms(1)] assms(6) by (intro planned_rows [where shown = shown, OF assms(1,3,4,5)]) simp_all
  moreover have "find (\<lambda>r'. rn_label r' = rn_label r) runs = Some r"
    using plan_labels_distinct [OF assms(1)] assms(2) by (intro find_unique) (auto simp: distinct_map inj_on_def)
  moreover have "runs \<noteq> []" using assms(2) by auto
  ultimately show ?thesis
    by (simp add: roster_row_def assms(7) sweep_roster_def is_object_def entry_def get_key_def is_true_def roster_runs_def list_of_def)
qed

definition example_args :: sweep_args where
  "example_args = \<lparr>sa_cpu = Some 3, sa_rate = 0x407F400000000000, sa_cycles = 1000, sa_warmup = 10, sa_only = Some [''L4''],
     sa_repeat = 2, sa_interleave = True, sa_phase_us = ''400'', sa_peer_cpu = None\<rparr>"

definition example_run :: "int \<Rightarrow> run" where
  "example_run n = \<lparr>pl_level = ''L4'', pl_description = ''+ pinned to an isolated core'',
     pl_flags = [''--abs-deadline'', ''--mlock'', ''--fifo=80'', ''--cpu=3''], pl_phase = None, pl_cycles = 1000, pl_warmup = 10,
     pl_rate = 0x407F400000000000, pl_peer_cpu = None, rn_repeat = n, rn_label = ''L4.r'' @ dec_int n\<rparr>"

lemma example_run_label: "pl_level (example_run n) = ''L4''" "rn_label (example_run n) = ''L4.r'' @ dec_int n"
  by (simp_all add: example_run_def)

lemma dec_small: "dec_int 1 = ''1''" "dec_int 2 = ''2''" "dec_int 3 = ''3''"
  by (simp_all add: dec_int_def dec.simps digit_chars)

lemma example_plan: "plan_runs example_args = Inr ([example_run 1, example_run 2], None)"
proof -
  have phases: "plan_phases example_args = Inr [400]"
    by (simp add: plan_phases_def example_args_def parse_int_def strip_def blank_def dec_body_def digit_value_def)
  have rate: "f_finite 0x407F400000000000" "\<not> f_le 0x407F400000000000 (f_zero False)"
    by (simp_all add: f_le_def f_key_def f_zero_def f_field_defs)
  have "plan_all example_args [400] [] LEVELS = Inr [plan_at example_args (LEVELS ! 4) [''--abs-deadline'', ''--mlock'', ''--fifo=80'', ''--cpu=3''] None]"
    by (simp add: LEVELS_def lv_def selected_def example_args_def format_cpu_def cpu_text_def dec_small)
  with phases rate show ?thesis
    by (simp add: plan_runs_def plan_levels_LEVELS run_order_def run_of_def plan.extend_def plan_at_def run_label_def example_run_def
        dec_small example_args_def upto_rec1 LEVELS_def lv_def)
qed

definition example_summary_doc :: "int \<Rightarrow> json" where
  "example_summary_doc n = JObject [(''label'', JString (''L4.r'' @ dec_int n)), (''cycles_requested'', JInt 1000),
     (''config'', JString ''abs-deadline mlock fifo:80 cpu:3'')]"

definition example_text :: "f64 \<Rightarrow> string" where
  "example_text x = ''500.0''"

definition example_doc :: "string \<Rightarrow> json result" where
  "example_doc name =
     (case map_of
        [(''sweep.json'', sweep_roster True (map (harness_row example_text ''tvc_harness'' ''out'') [example_run 1, example_run 2])),
         (''L4.r1.result.json'', harness_row example_text ''tvc_harness'' ''out'' (example_run 1)),
         (''L4.r2.result.json'', harness_row example_text ''tvc_harness'' ''out'' (example_run 2)),
         (''L4.r1.summary.json'', example_summary_doc 1), (''L4.r2.summary.json'', example_summary_doc 2)] name of
        None \<Rightarrow> Inl (OSError 2) | Some v \<Rightarrow> Inr v)"

theorem completed_roster_accepted_witness:
  "roster_row example_text example_doc (\<lambda>_. True) (rn_label (example_run 2)) =
     Inr (harness_row example_text ''tvc_harness'' ''out'' (example_run 2))"
proof (rule completed_roster_accepted [OF example_plan])
  have "config_fields (example_summary_doc n) = Inr [(''abs-deadline'', []), (''mlock'', []), (''fifo'', ''80''), (''cpu'', ''3'')]" for n
    by (simp add: config_fields_def dict_get_def example_summary_doc_def blank_def strip_def option_split numeral_field_def
        plain_numeral_def positive_numeral_def is_digit_def)
  then have "run_summary example_args (example_run n) (example_summary_doc n)" for n
    by (simp add: run_summary_def is_object_def example_summary_doc_def entry_def get_key_def example_run_def example_args_def
        cpu_text_def dec_small)
  then show "list_all (\<lambda>r. pl_level r \<noteq> ''L8'' \<and> run_filed example_text ''tvc_harness'' ''out'' example_doc (\<lambda>_. True) example_args r)
      [example_run 1, example_run 2]"
    using example_run_label by (simp add: run_filed_def example_doc_def dec_small)
qed (simp_all add: example_text_def example_doc_def)

end
