(* ===== verification/Gate.thy ===== *)
theory Gate
  imports Roster
begin

text \<open>
  What may enter a comparison: the discipline of the measurement machine and the qualified window of
  \<open>scripts/bench_gate.py\<close>, its comparison of medians, and the evidence policy and the experiment rows of
  \<open>scripts/latency.py\<close>. Summaries, rosters and reconciliations are JSON of unknown shape.
\<close>

section \<open>The machine discipline (scripts/bench_gate.py)\<close>

definition required_env :: "(string \<times> json) list" where
  "required_env = [(''kernel'', JString ''7.0.0-30-generic''), (''timer_migration'', JInt 0), (''governor'', JString ''performance''),
     (''epp'', JString ''performance''), (''ac_online'', JBool True)]"

definition known_name :: "json \<Rightarrow> bool" where
  "known_name v \<longleftrightarrow> is_string v \<and> string_of v \<notin> {[], ''unknown''}"

definition idle_population :: "int \<Rightarrow> int \<Rightarrow> json \<Rightarrow> bool" where
  "idle_population expected cpus state \<longleftrightarrow> is_object state \<and> known_name (get_key (entry state) ''name'') \<and>
     (case (get_key (entry state) ''latency_us'', get_key (entry state) ''disabled'') of
        (JInt l, JInt d) \<Rightarrow> 0 \<le> l \<and> d = expected \<and> d \<le> cpus
      | _ \<Rightarrow> False)"

definition idle_problem :: "int \<Rightarrow> json \<Rightarrow> string option" where
  "idle_problem expected idle =
     (case (idle, get_key (entry idle) ''cpus'', get_key (entry idle) ''states'') of
        (JObject d, JInt cpus, JList states) \<Rightarrow>
          if \<not> known_name (get_key d ''driver'') \<or> cpus < 2 \<or> states = [] then Some ''discipline cpuidle population''
          else if list_all (idle_population expected cpus) states then None
          else Some ''discipline cpuidle state/disabled population''
      | _ \<Rightarrow> Some ''discipline cpuidle population'')"

definition env_problem :: "int \<Rightarrow> fields_of \<Rightarrow> json \<Rightarrow> string option" where
  "env_problem expected F env =
     (case env of
        JObject d \<Rightarrow>
          (case find (\<lambda>(k, v). get_key d k \<noteq> v) required_env of
             Some (k, v) \<Rightarrow> Some (''discipline env.'' @ k)
           | None \<Rightarrow>
               (case get_key d ''cpu_end'' of
                  JInt cpu \<Rightarrow>
                    if cpu < 0 \<or> (case map_of F ''cpu'' of None \<Rightarrow> False | Some t \<Rightarrow> parse_int t \<noteq> Inr cpu)
                    then Some ''discipline configured/actual cpu mismatch''
                    else idle_problem expected (get_key d ''cpuidle'')
                | _ \<Rightarrow> Some ''discipline configured/actual cpu mismatch''))
      | _ \<Rightarrow> Some ''missing env'')"

definition all_applied :: "json \<Rightarrow> string list \<Rightarrow> bool" where
  "all_applied summary ks \<longleftrightarrow> list_all (\<lambda>k. get_key (entry (get_key (entry summary) ''applied'')) k = JBool True) ks"

definition FREERUN_FIELDS :: "string list" where
  "FREERUN_FIELDS = [''mode'', ''abs-deadline'', ''mlock'', ''fifo'', ''cpu'', ''telemetry'', ''record'']"

definition actual_window :: "json \<Rightarrow> bool" where
  "actual_window summary \<longleftrightarrow>
     (case (get_key (entry summary) ''total_cycles'', get_key (entry summary) ''warmup'', get_key (entry summary) ''cycles'') of
        (JInt total_n, JInt warmup, JInt cycles) \<Rightarrow> 0 \<le> warmup \<and> total_n = warmup + cycles
      | _ \<Rightarrow> False)"

definition mitigation_problem :: "json \<Rightarrow> fields_of \<Rightarrow> string option" where
  "mitigation_problem summary F =
     (if get_key (entry summary) ''mode'' = JString ''freerun'' then
        if \<not> set FREERUN_FIELDS \<subseteq> fst ` set F \<or> map_of F ''mode'' \<noteq> Some ''freerun'' \<or> map_of F ''record'' \<noteq> Some ''control''
        then Some ''missing freerun config mitigation''
        else if map_of F ''fifo'' \<noteq> Some ''80'' then Some ''invalid freerun config fifo''
        else if \<not> all_applied summary [''mlock'', ''cpu'', ''fifo'', ''telemetry'', ''link''] then Some ''required mitigation not applied''
        else if \<not> actual_window summary then Some ''invalid actual cycle window''
        else None
      else if \<not> all_applied summary [''mlock'', ''cpu'', ''fifo'', ''telemetry''] then Some ''required config was not applied''
      else None)"

text \<open>\<open>peer_cpu\<close> is the session's declared peer CPU, or \<open>JNull\<close>.\<close>

definition discipline_problem :: "json \<Rightarrow> json \<Rightarrow> string option" where
  "discipline_problem summary peer_cpu =
     (if \<not> cpu_or_none peer_cpu then Some ''invalid declared peer CPU''
      else
        case row_problem summary False of
          Some problem \<Rightarrow> Some (if starts_with ''incomplete run'' problem then problem @ '' (cycles)'' else problem)
        | None \<Rightarrow>
            (case config_fields summary of
               Inl e \<Rightarrow> Some (''invalid discipline fields: '' @ exn_text e)
             | Inr F \<Rightarrow>
                 or_else (mitigation_problem summary F)
                   (env_problem (if peer_cpu = JNull then 2 else 3) F (get_key (entry summary) ''env''))))"

section \<open>Levels and windows\<close>

definition QUALIFIED_L8_WINDOW :: "(string \<times> json) list" where
  "QUALIFIED_L8_WINDOW = [(''cycles'', JInt QUALIFIED_CYCLES), (''cycles_requested'', JInt QUALIFIED_CYCLES), (''warmup'', JInt 5000),
     (''total_cycles'', JInt (QUALIFIED_CYCLES + 5000)), (''period_us'', JFloat 0x409F400000000000)]"

text \<open>\<open>period_us\<close> may be an \<open>int\<close> or a \<open>float\<close>, the others only an \<open>int\<close>.\<close>

definition qualified_window_problem :: "json \<Rightarrow> string option" where
  "qualified_window_problem summary =
     (if \<not> is_object summary then Some ''not the qualified L8 window: no summary''
      else
        map_option (\<lambda>(k, v). ''not the qualified L8 window: '' @ k)
          (find (\<lambda>(k, v). let w = get_key (entry summary) k in
              \<not> (if k = ''period_us'' then is_number w else is_int w) \<or> \<not> py_eq w v) QUALIFIED_L8_WINDOW))"

definition level_problem :: "json \<Rightarrow> string \<Rightarrow> bool \<Rightarrow> string option" where
  "level_problem summary level legacy_ok =
     (case summary_mode summary legacy_ok of
        (m, Some problem) \<Rightarrow> Some problem
      | (m, None) \<Rightarrow>
          if m \<noteq> Some (if level = ''L8'' then ''freerun'' else ''harness'') then Some ''mode does not match level'' else None)"

definition p999 :: "json \<Rightarrow> number result" where
  "p999 summary =
     rbind (dict_get summary ''jitter_us'') (\<lambda>j.
     rbind (dict_get (if has_key ''jitter_us'' summary then j else JObject []) ''p99.9'') (\<lambda>v.
     case (is_number v, number_of v) of
       (True, Some a) \<Rightarrow>
         rbind (float_of a) (\<lambda>x. ensure (f_finite x \<and> \<not> num_less a (NInt 0)) ''invalid jitter p99.9'' (Inr a))
     | _ \<Rightarrow> Inl (ValueError ''invalid jitter p99.9'')))"

definition profile_fields :: "int \<Rightarrow> string list" where
  "profile_fields number =
     (if number = 8 then FREERUN_FIELDS
      else
        [if number \<noteq> 0 then ''abs-deadline'' else ''sleep_for'', if 5 \<le> number then ''no-alloc'' else ''naive-log''] @
        concat (map (\<lambda>(least, key). if least \<le> number then [key] else [])
          [(2, ''mlock''), (3, ''fifo''), (4, ''cpu''), (6, ''telemetry''), (7, ''record'')]))"

definition profile_problem :: "json \<Rightarrow> string \<Rightarrow> string option result" where
  "profile_problem summary level =
     rbind (config_fields summary) (\<lambda>F. rbind (parse_int (List.drop 1 level)) (\<lambda>number.
       Inr (if fst ` set F \<noteq> set (profile_fields number) \<or>
               (case map_of F ''fifo'' of None \<Rightarrow> False | Some v \<Rightarrow> v \<noteq> ''80'') \<or>
               (case map_of F ''record'' of None \<Rightarrow> False | Some v \<Rightarrow> v \<noteq> ''control'')
            then Some (''config does not match level '' @ level) else None)))"

text \<open>The judgement of \<open>candidate_rows\<close> on one summary, before the audit of an L8 row's recordings.\<close>

definition level_label :: "string \<Rightarrow> bool" where
  "level_label s \<longleftrightarrow> (case s of [c, d] \<Rightarrow> c = CHR ''L'' \<and> d \<in> set ''012345678'' | _ \<Rightarrow> False)"

definition candidate_problem :: "json \<Rightarrow> string \<Rightarrow> json \<Rightarrow> string option result" where
  "candidate_problem summary label peer_cpu =
     (case or_else (or_else (level_problem summary label False) (if label = ''L8'' then qualified_window_problem summary else None))
        (discipline_problem summary peer_cpu) of
        Some problem \<Rightarrow> Inr (Some problem)
      | None \<Rightarrow> profile_problem summary label)"

definition candidate_value :: "json \<Rightarrow> string \<Rightarrow> json \<Rightarrow> number result" where
  "candidate_value summary label peer_cpu =
     ensure (level_label label) ''unknown sweep level'' (
     rbind (candidate_problem summary label peer_cpu) (\<lambda>problem.
     case problem of Some p \<Rightarrow> Inl (ValueError p) | None \<Rightarrow> p999 summary))"

section \<open>Medians\<close>

text \<open>\<open>sorted\<close> on numbers, and \<open>statistics.median\<close> of a nonempty list.\<close>

fun insert_number :: "number \<Rightarrow> number list \<Rightarrow> number list" where
  "insert_number a [] = [a]"
| "insert_number a (b # bs) = (if num_less b a then b # insert_number a bs else a # b # bs)"

definition sort_numbers :: "number list \<Rightarrow> number list" where
  "sort_numbers xs = foldr insert_number xs []"

definition true_ratio :: "int \<Rightarrow> nat \<Rightarrow> f64 result" where
  "true_ratio n d =
     (let x = f_round (n < 0) (nat \<bar>n\<bar>) d 0
      in if f_finite x then Inr x else Inl (OverflowError ''integer division result too large for a float''))"

definition mean_of_two :: "number \<Rightarrow> number \<Rightarrow> number result" where
  "mean_of_two a b =
     (case (a, b) of
        (NInt m, NInt n) \<Rightarrow> rbind (true_ratio (m + n) 2) (\<lambda>x. Inr (NFlt x))
      | _ \<Rightarrow> rbind (float_of a) (\<lambda>x. rbind (float_of b) (\<lambda>y. Inr (NFlt (f_div (f_add x y) (f_lit 2 1))))))"

definition median :: "number list \<Rightarrow> number result" where
  "median xs =
     (let s = sort_numbers xs; n = length s in
      if odd n then Inr (s ! (n div 2)) else mean_of_two (s ! (n div 2 - 1)) (s ! (n div 2)))"

text \<open>\<open>gate\<close>: the new median against the baseline's with its tolerance.\<close>

definition gate_limit :: "number \<Rightarrow> f64 \<Rightarrow> f64 result" where
  "gate_limit base tolerance =
     rbind (float_of base) (\<lambda>b. Inr (f_mul b (f_add (f_lit 1 1) (f_div tolerance (f_lit 100 1)))))"

definition gate :: "number list \<Rightarrow> number list \<Rightarrow> f64 \<Rightarrow> (bool \<times> string) result" where
  "gate new_values base_values tolerance =
     (if new_values = [] then Inr (False, ''no verified runs in the results directory'')
      else if base_values = [] then Inr (False, ''no verified runs in the baseline directory'')
      else
        rbind (median new_values) (\<lambda>new_med. rbind (median base_values) (\<lambda>base_med.
        rbind (gate_limit base_med tolerance) (\<lambda>limit.
          let ok = num_less new_med (NFlt limit) \<or> num_eq new_med (NFlt limit)
          in Inr (ok, if ok then ''pass'' else ''REGRESSION'')))))"

section \<open>The evidence policy (scripts/latency.py evidence_checks)\<close>

text \<open>\<open>x in v\<close> for a string \<open>x\<close>.\<close>

definition string_in :: "string \<Rightarrow> json \<Rightarrow> bool result" where
  "string_in x v =
     (case v of
        JList xs \<Rightarrow> Inr (list_ex (\<lambda>y. py_eq y (JString x)) xs)
      | JString s \<Rightarrow> Inr (contains x s)
      | JObject d \<Rightarrow> Inr (map_of d x \<noteq> None)
      | _ \<Rightarrow> Inl (TypeError ''argument is not iterable''))"

record evidence =
  ev_label :: json
  ev_served_coverage :: f64
  ev_observation_coverage :: f64
  ev_p999 :: number
  ev_max :: number
  ev_problems :: "string list"
  ev_residuals :: "json \<times> json"

record limits =
  lm_coverage_min :: f64
  lm_p999_max :: number
  lm_latency_max :: number

definition item_metric :: "json \<Rightarrow> string list \<Rightarrow> number result" where
  "item_metric v ks = rbind (items v ks) (\<lambda>x. metric x (last ks))"

definition evidence_mode :: "json \<Rightarrow> json \<Rightarrow> (audit, unit) act" where
  "evidence_mode s peer_cpu =
     sbind (flag (rbind (dict_get s ''mode'') (\<lambda>m. Inr (differs m (JString ''freerun'')))) ''freerun mode required'') (\<lambda>_.
       case discipline_problem s peer_cpu of None \<Rightarrow> give () | Some problem \<Rightarrow> report problem)"

definition evidence_loss :: "json \<Rightarrow> (audit, unit) act" where
  "evidence_loss replay =
     flag (rbind (item_metric replay [''loss'', ''p_up'']) (\<lambda>up. rbind (item_metric replay [''loss'', ''p_down'']) (\<lambda>down.
       ensure (\<not> num_less (NInt 1) up \<and> \<not> num_less (NInt 1) down) ''invalid peer loss''
         (Inr (\<not> num_eq up (NInt 0) \<or> \<not> num_eq down (NInt 0)))))) ''coverage requires zero peer loss''"

text \<open>The recorded population: cycles, served and consumed.\<close>

definition evidence_population :: "json \<Rightarrow> (int \<times> int \<times> int) result" where
  "evidence_population s =
     rbind (natural_at s [''cycles'']) (\<lambda>cycles.
     rbind (natural_at s [''link_recorded'', ''served'']) (\<lambda>served.
     rbind (natural_at s [''link_recorded'', ''consumed'']) (\<lambda>consumed.
     ensure (cycles \<noteq> 0 \<and> served \<le> consumed \<and> consumed \<le> cycles) ''invalid coverage population'' (
     rbind (natural_at s [''latency_us'', ''count'']) (\<lambda>n.
     ensure (n = served) ''served histogram population mismatch'' (Inr (cycles, served, consumed)))))))"

definition nonzero_at :: "json \<Rightarrow> string list \<Rightarrow> bool result" where
  "nonzero_at v ks = rbind (natural_at v ks) (\<lambda>n. Inr (n \<noteq> 0))"

definition not_true_at :: "json \<Rightarrow> string list \<Rightarrow> bool result" where
  "not_true_at v ks = rbind (items v ks) (\<lambda>x. Inr (\<not> is_true x))"

definition evidence_links :: "json \<Rightarrow> json \<Rightarrow> (audit, unit) act" where
  "evidence_links s rec =
     sbind (flag (nonzero_at s [''link_recorded'', ''actuator_tx_fail'']) ''recorded actuator local-send failure'') (\<lambda>_.
     sbind (flag (nonzero_at rec [''uplink'', ''unexplained_missing'']) ''uplink unexplained missing traffic'') (\<lambda>_.
     sbind (flag (nonzero_at rec [''downlink'', ''unexplained_missing'']) ''downlink unexplained missing traffic'') (\<lambda>_.
     sbind (flag (not_true_at rec [''eligible'']) ''ineligible reconciliation'') (\<lambda>_.
       flag (not_true_at rec [''terminal_agreement'']) ''terminal agreement failed''))))"

definition RESIDUALS :: "string list" where
  "RESIDUALS = [''zero'', ''trailing'', ''unresolved'', ''unexplained'', ''not_evaluated'']"

definition evidence_leg :: "json \<Rightarrow> string \<Rightarrow> (audit, unit) act" where
  "evidence_leg terminal_part direction =
     flag (rbind (item terminal_part direction) (\<lambda>leg. rbind (item leg ''required'') (\<lambda>required.
       case required of
         JBool b \<Rightarrow>
           rbind (item leg ''residual'') (\<lambda>residual.
             ensure (is_string residual \<and> string_of residual \<in> set RESIDUALS) ''invalid terminal disposition''
               (Inr (b \<and> string_of residual = ''unexplained'')))
       | _ \<Rightarrow> Inl (ValueError ''invalid terminal disposition'')))) ''terminal unexplained transport loss''"

definition evidence_terminal :: "json \<Rightarrow> (audit, unit) act" where
  "evidence_terminal rec =
     sbind (lift_result (item rec ''terminal'')) (\<lambda>terminal_part.
     sbind (flag (not_true_at terminal_part [''required_legs_complete'']) ''incomplete terminal handshake'') (\<lambda>_.
     sbind (evidence_leg terminal_part ''up'') (\<lambda>_.
     sbind (evidence_leg terminal_part ''down'') (\<lambda>_.
       flag (rbind (item terminal_part ''causes'') (string_in ''unexplained_transport_loss''))
         ''terminal unexplained transport loss''))))"

definition evidence_latency :: "json \<Rightarrow> limits \<Rightarrow> (audit, number \<times> number) act" where
  "evidence_latency s lm =
     sbind (lift_result (item_metric s [''latency_us'', ''p99.9''])) (\<lambda>p.
     sbind (lift_result (item_metric s [''latency_us'', ''max''])) (\<lambda>m.
     sbind (lift_result (ensure (\<not> num_less m p) ''latency percentile exceeds maximum'' (Inr ()))) (\<lambda>_.
     sbind (flag (Inr (num_less (lm_p999_max lm) p)) ''served latency p99.9 exceeds budget'') (\<lambda>_.
     sbind (flag (Inr (num_less (lm_latency_max lm) m)) ''served latency max exceeds budget'') (\<lambda>_.
       give (p, m))))))"

definition evidence_ingress :: "json \<Rightarrow> (audit, unit) act" where
  "evidence_ingress s =
     flag (rbind (item s ''link'') (\<lambda>link. rbind (naturals link BAD) (\<lambda>ns. Inr (sum_list ns \<noteq> 0)))) ''malformed ingress''"

definition evidence_body :: "json \<Rightarrow> json \<Rightarrow> json \<Rightarrow> json \<Rightarrow> limits \<Rightarrow> (audit, string list \<Rightarrow> evidence) act" where
  "evidence_body s replay rec peer_cpu lm =
     sbind (evidence_mode s peer_cpu) (\<lambda>_.
     sbind (evidence_loss replay) (\<lambda>_.
     sbind (lift_result (evidence_population s)) (\<lambda>(cycles, served, consumed).
     sbind (lift_result (ratio served cycles)) (\<lambda>coverage.
     sbind (flag (Inr (f_lt coverage (lm_coverage_min lm))) ''served coverage below minimum'') (\<lambda>_.
     sbind (evidence_links s rec) (\<lambda>_.
     sbind (evidence_terminal rec) (\<lambda>_.
     sbind (evidence_ingress s) (\<lambda>_.
     sbind (evidence_latency s lm) (\<lambda>(p, m).
     sbind (lift_result (item s ''label'')) (\<lambda>label.
     sbind (lift_result (ratio consumed cycles)) (\<lambda>observed.
     sbind (lift_result (items rec [''terminal'', ''up'', ''residual''])) (\<lambda>up.
     sbind (lift_result (items rec [''terminal'', ''down'', ''residual''])) (\<lambda>down.
       give (\<lambda>problems. \<lparr>ev_label = label, ev_served_coverage = coverage, ev_observation_coverage = observed, ev_p999 = p,
         ev_max = m, ev_problems = problems, ev_residuals = (up, down)\<rparr>))))))))))))))"

fun evidence_error :: "exn \<Rightarrow> exn" where
  "evidence_error (KeyError m) = ValueError ''missing or invalid latency evidence''"
| "evidence_error (TypeError m) = ValueError ''missing or invalid latency evidence''"
| "evidence_error (AttributeError m) = ValueError ''missing or invalid latency evidence''"
| "evidence_error (OverflowError m) = ValueError ''missing or invalid latency evidence''"
| "evidence_error e = e"

definition evidence_checks :: "json \<Rightarrow> json \<Rightarrow> json \<Rightarrow> json \<Rightarrow> limits \<Rightarrow> evidence result" where
  "evidence_checks s replay rec peer_cpu lm =
     (case evidence_body s replay rec peer_cpu lm audit_empty of
        (t, Inr f) \<Rightarrow> Inr (f (au_errors t))
      | (t, Inl e) \<Rightarrow> Inl (evidence_error e))"

section \<open>Experiment rows and calibration (scripts/latency.py)\<close>

text \<open>A candidate: its directory and name, what was read of it, and the roster row it is given.\<close>

record candidate =
  cd_dir :: string
  cd_name :: string
  cd_summary :: json
  cd_run :: json
  cd_peer :: json
  cd_replay :: json
  cd_reconciliation :: json

definition run_is :: "json \<Rightarrow> (string \<times> json) list \<Rightarrow> bool" where
  "run_is run wanted \<longleftrightarrow> list_all (\<lambda>(k, v). py_eq (get_key (entry run) k) v) wanted"

definition experiment_identity :: "candidate \<Rightarrow> string \<Rightarrow> int \<Rightarrow> string \<Rightarrow> bool" where
  "experiment_identity cand level n label \<longleftrightarrow>
     run_is (cd_run cand) [(''label'', JString label), (''level'', JString level)] \<and>
     run_is (cd_summary cand) [(''label'', JString label)] \<and> cd_name cand = label \<and>
     get_key (entry (cd_run cand)) ''repeat'' = JInt n \<and> is_true (get_key (entry (cd_run cand)) ''complete'')"

definition experiment_window :: "json \<Rightarrow> json \<Rightarrow> bool" where
  "experiment_window run s \<longleftrightarrow>
     get_key (entry run) ''cycles'' = JInt 300000 \<and> get_key (entry run) ''warmup'' = JInt 5000 \<and>
     is_number (get_key (entry run) ''rate'') \<and> py_eq (get_key (entry run) ''rate'') (JInt 500)"

definition summary_window :: "json \<Rightarrow> bool result" where
  "summary_window s =
     rbind (item s ''cycles'') (\<lambda>c. rbind (item s ''cycles_requested'') (\<lambda>q.
       Inr (py_eq c (JInt 300000) \<and> py_eq q (JInt 300000) \<and> py_eq (get_key (entry s) ''period_us'') (JInt 2000))))"

definition experiment_row :: "(f64 \<Rightarrow> string) \<Rightarrow> candidate \<Rightarrow> string \<Rightarrow> int \<Rightarrow> string \<Rightarrow> fields_of result" where
  "experiment_row shown cand level n label =
     (let s = cd_summary cand; run = cd_run cand in
      rbind (case or_else (level_problem s level False) (discipline_problem s (cd_peer cand)) of
               Some problem \<Rightarrow> Inr (Some problem) | None \<Rightarrow> profile_problem s level) (\<lambda>problem.
      case problem of
        Some p \<Rightarrow> Inl (ValueError (label @ '': '' @ p))
      | None \<Rightarrow>
          ensure (experiment_identity cand level n label) ''mismatched experiment label/level/repeat'' (
          ensure (experiment_window run s) ''invalid experiment'' (
          need (summary_window s) ''invalid experiment timing window'' (
          ensure (level = ''L8'' \<longrightarrow> is_int (get_key (entry run) ''phase_us'') \<and>
              py_eq (get_key (entry s) ''phase_us'') (get_key (entry run) ''phase_us'')) ''experiment phase mismatch'' (
          rbind (if level = ''L8'' then Inr () else harness_configuration shown run s) (\<lambda>_. config_fields s)))))))"

definition OFFSETS :: "int list" where "OFFSETS = [200, 400, 800]"

definition CALIBRATION_ORDER :: "(int \<times> int) list" where
  "CALIBRATION_ORDER = concat (map (\<lambda>r. map (Pair r) OFFSETS) [1..3])"

definition policy_limits :: limits where
  "policy_limits = \<lparr>lm_coverage_min = f_lit 99 100, lm_p999_max = NFlt (f_lit 1000 1), lm_latency_max = NFlt (f_lit 2000 1)\<rparr>"

definition field_item :: "fields_of \<Rightarrow> string \<Rightarrow> string result" where
  "field_item F k = (case map_of F k of None \<Rightarrow> Inl (KeyError k) | Some v \<Rightarrow> Inr v)"

definition no_loss :: json where
  "no_loss = JObject [(''p_up'', JFloat (f_zero False)), (''p_down'', JFloat (f_zero False))]"

text \<open>The reports of the runs, each with its offset; all runs on one CPU.\<close>

fun calibration_reports ::
  "(f64 \<Rightarrow> string) \<Rightarrow> string option \<Rightarrow> (candidate \<times> int \<times> int) list \<Rightarrow> (int \<times> evidence) list result" where
  "calibration_reports shown cpu [] = Inr []"
| "calibration_reports shown cpu ((cand, n, phase) # rows) =
     rbind (experiment_row shown cand ''L8'' n (''L8.phase'' @ dec_int phase @ ''.r'' @ dec_int n)) (\<lambda>F.
     rbind (case cpu of None \<Rightarrow> Inr () | Some c \<Rightarrow>
       rbind (field_item F ''cpu'') (\<lambda>c'. ensure (c' = c) ''calibration CPU configuration mismatch'' (Inr ()))) (\<lambda>_.
     rbind (field_item F ''cpu'') (\<lambda>cpu'.
     rbind (item (cd_run cand) ''phase_us'') (\<lambda>u.
     ensure (py_eq u (JInt phase)) ''calibration offset/order mismatch'' (
     rbind (evidence_checks (cd_summary cand) (cd_replay cand) (cd_reconciliation cand) (cd_peer cand) policy_limits) (\<lambda>ev.
     rbind (item (cd_replay cand) ''loss'') (\<lambda>loss.
     ensure (py_eq loss no_loss) ''calibration requires zero peer loss'' (
     rbind (calibration_reports shown (Some cpu') rows) (\<lambda>reports. Inr ((phase, ev) # reports))))))))))"

record offset_verdict =
  ov_phase :: int
  ov_median :: number
  ov_qualifies :: bool
  ov_runs :: "evidence list"

definition offset_of :: "(int \<times> evidence) list \<Rightarrow> int \<Rightarrow> offset_verdict result" where
  "offset_of reports phase =
     (let runs = map snd (filter (\<lambda>(p, ev). p = phase) reports) in
      rbind (median (map (NFlt \<circ> ev_served_coverage) runs)) (\<lambda>m.
        Inr \<lparr>ov_phase = phase, ov_median = m,
          ov_qualifies = (list_all (\<lambda>ev. ev_problems ev = []) runs \<and> \<not> num_less m (NFlt (f_lit 995 1000))), ov_runs = runs\<rparr>))"

fun offsets_of :: "(int \<times> evidence) list \<Rightarrow> int list \<Rightarrow> offset_verdict list result" where
  "offsets_of reports [] = Inr []"
| "offsets_of reports (p # ps) =
     rbind (offset_of reports p) (\<lambda>v. rbind (offsets_of reports ps) (\<lambda>vs. Inr (v # vs)))"

definition calibration :: "(f64 \<Rightarrow> string) \<Rightarrow> candidate list \<Rightarrow> (int option \<times> offset_verdict list) result" where
  "calibration shown rows =
     ensure (length rows = 9) ''calibration requires exactly nine runs'' (
     rbind (calibration_reports shown None (zip rows CALIBRATION_ORDER)) (\<lambda>reports.
     rbind (offsets_of reports OFFSETS) (\<lambda>verdicts.
       Inr (map_option ov_phase (find ov_qualifies verdicts), verdicts))))"

text \<open>\<open>ordered_results\<close>: the candidates in the order of the roster, each with its roster row.\<close>

fun ordered_items ::
  "(string \<Rightarrow> json result) \<Rightarrow> string \<Rightarrow> candidate list \<Rightarrow> string list \<Rightarrow> json list \<Rightarrow> candidate list result" where
  "ordered_items row_of base_dir rows seen [] =
     ensure (set seen = set (map cd_name rows)) ''unrostered candidate summary'' (Inr [])"
| "ordered_items row_of base_dir rows seen (run # runs) =
     ensure (is_object run \<and> is_string (get_key (entry run) ''label'')) ''invalid experiment row'' (
     let label = string_of (get_key (entry run) ''label'') in
     case find (\<lambda>c. cd_name c = label) rows of
       None \<Rightarrow> Inl (ValueError ''duplicate or missing experiment run'')
     | Some c \<Rightarrow>
         ensure (label \<notin> set seen) ''duplicate or missing experiment run'' (
         ensure (cd_dir c = base_dir) ''experiment rows must belong to one roster directory'' (
         rbind (row_of label) (\<lambda>row.
         rbind (ordered_items row_of base_dir rows (label # seen) runs) (\<lambda>cs. Inr (c\<lparr>cd_run := row\<rparr> # cs))))))"

definition ordered_results :: "(string \<Rightarrow> json result) \<Rightarrow> json \<Rightarrow> string \<Rightarrow> candidate list \<Rightarrow> candidate list result" where
  "ordered_results row_of roster base_dir rows =
     ensure (is_object roster \<and> is_true (get_key (entry roster) ''complete'') \<and> roster_runs roster \<noteq> None)
       ''incomplete experiment roster'' (
     ensure (distinct (map cd_name rows)) ''ambiguous repeated labels in results'' (
       ordered_items row_of base_dir rows [] (case roster_runs roster of None \<Rightarrow> [] | Some runs \<Rightarrow> runs)))"

section \<open>What accepted evidence means\<close>

lemma evidence_mode_clean:
  assumes "evidence_mode s peer t = (t', Inr u)" "au_errors t' = []"
  shows "au_errors t = [] \<and> dict_get s ''mode'' = Inr (JString ''freerun'') \<and> discipline_problem s peer = None"
proof -
  have eq: "py_eq m (JString ''freerun'') \<Longrightarrow> m = JString ''freerun''" for m by (cases m) simp_all
  show ?thesis
    using assms eq by (auto simp: evidence_mode_def sbind_Inr differs_def rbind_eq_Inr report_def modify_def lift_result_def
        dest!: flag_clean split: option.splits)
qed

lemma nonzero_at_False: "nonzero_at v ks = Inr False \<longleftrightarrow> natural_at v ks = Inr 0"
  by (auto simp: nonzero_at_def rbind_eq_Inr)

lemma not_true_at_False: "not_true_at v ks = Inr False \<longleftrightarrow> items v ks = Inr (JBool True)"
  by (auto simp: not_true_at_def rbind_eq_Inr is_true_def)

lemma evidence_links_clean:
  assumes "evidence_links s rec t = (t', Inr u)" "au_errors t' = []"
  shows "au_errors t = [] \<and> natural_at s [''link_recorded'', ''actuator_tx_fail''] = Inr 0 \<and>
    natural_at rec [''uplink'', ''unexplained_missing''] = Inr 0 \<and> natural_at rec [''downlink'', ''unexplained_missing''] = Inr 0 \<and>
    items rec [''eligible''] = Inr (JBool True) \<and> items rec [''terminal_agreement''] = Inr (JBool True)"
  using assms unfolding evidence_links_def sbind_Inr by (auto simp: nonzero_at_False not_true_at_False dest!: flag_clean)

lemma evidence_terminal_clean:
  assumes "evidence_terminal rec t = (t', Inr u)" "au_errors t' = []"
  shows "au_errors t = [] \<and> items rec [''terminal'', ''required_legs_complete''] = Inr (JBool True)"
  using assms unfolding evidence_terminal_def evidence_leg_def sbind_Inr
  by (auto simp: not_true_at_False lift_result_def dest!: flag_clean)

lemma evidence_ingress_clean:
  assumes "evidence_ingress s t = (t', Inr u)" "au_errors t' = []"
  shows "au_errors t = [] \<and> (\<exists>ns. rbind (item s ''link'') (\<lambda>link. naturals link BAD) = Inr ns \<and> sum_list ns = 0)"
  using assms unfolding evidence_ingress_def by (auto simp: rbind_eq_Inr dest!: flag_clean)

lemma evidence_latency_clean:
  assumes "evidence_latency s lm t = (t', Inr (p, m))" "au_errors t' = []"
  shows "au_errors t = [] \<and> \<not> num_less m p \<and> \<not> num_less (lm_p999_max lm) p \<and> \<not> num_less (lm_latency_max lm) m \<and>
    item_metric s [''latency_us'', ''p99.9''] = Inr p \<and> item_metric s [''latency_us'', ''max''] = Inr m"
  using assms unfolding evidence_latency_def sbind_Inr by (auto simp: lift_result_def ensure_eq_Inr dest!: flag_clean)

lemma evidence_loss_clean:
  assumes "evidence_loss replay t = (t', Inr u)" "au_errors t' = []"
  shows "au_errors t = [] \<and> (\<exists>up down. item_metric replay [''loss'', ''p_up''] = Inr up \<and> item_metric replay [''loss'', ''p_down''] = Inr down \<and>
    num_eq up (NInt 0) \<and> num_eq down (NInt 0))"
  using assms unfolding evidence_loss_def by (auto simp: rbind_eq_Inr ensure_eq_Inr dest!: flag_clean)

lemma evidence_population_Inr:
  "evidence_population s = Inr (cycles, served, consumed) \<Longrightarrow>
     0 < cycles \<and> 0 \<le> served \<and> served \<le> consumed \<and> consumed \<le> cycles \<and> natural_at s [''cycles''] = Inr cycles \<and>
     natural_at s [''link_recorded'', ''served''] = Inr served \<and> natural_at s [''link_recorded'', ''consumed''] = Inr consumed \<and>
     natural_at s [''latency_us'', ''count''] = Inr served"
  by (auto simp: evidence_population_def rbind_eq_Inr ensure_eq_Inr natural_at_def natural_def split: json.splits)

text \<open>C11. Evidence reported without a problem is evidence within the policy: a disciplined free run with no
  modelled loss, served at most consumed at most all of its cycles with the coverage at its minimum, no unexplained missing
  frame on either link, no failed local send, a reconciliation that is eligible with agreeing terminations and every required terminal leg
  complete, no malformed frame received, and both latency statistics in order and within their budgets.\<close>

theorem evidence_sound:
  assumes "evidence_checks s replay rec peer_cpu lm = Inr ev" "ev_problems ev = []"
  shows "dict_get s ''mode'' = Inr (JString ''freerun'') \<and> discipline_problem s peer_cpu = None \<and>
    (\<exists>up down. item_metric replay [''loss'', ''p_up''] = Inr up \<and> item_metric replay [''loss'', ''p_down''] = Inr down \<and>
       num_eq up (NInt 0) \<and> num_eq down (NInt 0)) \<and>
    (\<exists>cycles served consumed. 0 < cycles \<and> 0 \<le> served \<and> served \<le> consumed \<and> consumed \<le> cycles \<and>
       natural_at s [''cycles''] = Inr cycles \<and> natural_at s [''link_recorded'', ''served''] = Inr served \<and>
       natural_at s [''link_recorded'', ''consumed''] = Inr consumed \<and> natural_at s [''latency_us'', ''count''] = Inr served \<and>
       ratio served cycles = Inr (ev_served_coverage ev) \<and> ratio consumed cycles = Inr (ev_observation_coverage ev)) \<and>
    \<not> f_lt (ev_served_coverage ev) (lm_coverage_min lm) \<and>
    natural_at s [''link_recorded'', ''actuator_tx_fail''] = Inr 0 \<and>
    natural_at rec [''uplink'', ''unexplained_missing''] = Inr 0 \<and> natural_at rec [''downlink'', ''unexplained_missing''] = Inr 0 \<and>
    items rec [''eligible''] = Inr (JBool True) \<and> items rec [''terminal_agreement''] = Inr (JBool True) \<and>
    items rec [''terminal'', ''required_legs_complete''] = Inr (JBool True) \<and>
    (\<exists>ns. rbind (item s ''link'') (\<lambda>link. naturals link BAD) = Inr ns \<and> sum_list ns = 0) \<and>
    item_metric s [''latency_us'', ''p99.9''] = Inr (ev_p999 ev) \<and> item_metric s [''latency_us'', ''max''] = Inr (ev_max ev) \<and>
    \<not> num_less (ev_max ev) (ev_p999 ev) \<and> \<not> num_less (lm_p999_max lm) (ev_p999 ev) \<and> \<not> num_less (lm_latency_max lm) (ev_max ev)"
proof -
  obtain t f where body: "evidence_body s replay rec peer_cpu lm audit_empty = (t, Inr f)" "ev = f (au_errors t)"
    using assms(1) by (auto simp: evidence_checks_def split: prod.splits sum.splits)
  then obtain s1 s2 s3 s4 s5 s6 p m cycles served consumed coverage observed label up down where run:
    "evidence_mode s peer_cpu audit_empty = (s1, Inr ())" "evidence_loss replay s1 = (s2, Inr ())"
    "evidence_population s = Inr (cycles, served, consumed)" "ratio served cycles = Inr coverage"
    "flag (Inr (f_lt coverage (lm_coverage_min lm))) ''served coverage below minimum'' s2 = (s3, Inr ())"
    "evidence_links s rec s3 = (s4, Inr ())" "evidence_terminal rec s4 = (s5, Inr ())" "evidence_ingress s s5 = (s6, Inr ())"
    "evidence_latency s lm s6 = (t, Inr (p, m))" "ratio consumed cycles = Inr observed"
    "f = (\<lambda>problems. \<lparr>ev_label = label, ev_served_coverage = coverage, ev_observation_coverage = observed, ev_p999 = p,
       ev_max = m, ev_problems = problems, ev_residuals = (up, down)\<rparr>)"
    by (auto simp: evidence_body_def sbind_Inr lift_result_def)
  with body(2) have ev: "ev_served_coverage ev = coverage" "ev_observation_coverage ev = observed" "ev_p999 ev = p" "ev_max ev = m"
    "au_errors t = []" using assms(2) by simp_all
  note c6 = evidence_latency_clean [OF run(9) ev(5)]
  note c5 = evidence_ingress_clean [OF run(8) c6 [THEN conjunct1]]
  note c4 = evidence_terminal_clean [OF run(7) c5 [THEN conjunct1]]
  note c3 = evidence_links_clean [OF run(6) c4 [THEN conjunct1]]
  note c2 = flag_clean [OF run(5) c3 [THEN conjunct1]]
  have e2: "au_errors s2 = []" using c2 c3 by simp
  note c1 = evidence_loss_clean [OF run(2) e2]
  note c0 = evidence_mode_clean [OF run(1) c1 [THEN conjunct1]]
  show ?thesis
    using c0 c1 c2 c3 c4 c5 c6 evidence_population_Inr [OF run(3)] run(4,10) by (simp add: ev)
qed

lemma find_None_all: "find P xs = None \<Longrightarrow> list_all (\<lambda>x. \<not> P x) xs"
  by (induction xs) (auto split: if_splits)

lemma or_else_Some: "or_else a b = Some x \<longleftrightarrow> a = Some x \<or> a = None \<and> b = Some x"
  by (cases a) (simp_all add: or_else_def)

lemma idle_population_disabled: "idle_population expected cpus state \<Longrightarrow> get_key (entry state) ''disabled'' = JInt expected"
  by (auto simp: idle_population_def split: json.splits)

lemma idle_problem_None:
  assumes "idle_problem expected idle = None"
  shows "\<exists>cpus states. get_key (entry idle) ''cpus'' = JInt cpus \<and> get_key (entry idle) ''states'' = JList states \<and> 2 \<le> cpus \<and>
    states \<noteq> [] \<and> list_all (\<lambda>state. get_key (entry state) ''disabled'' = JInt expected) states"
  using assms idle_population_disabled by (fastforce simp: idle_problem_def list_all_iff split: json.splits if_splits)

lemma env_problem_None:
  assumes "env_problem expected F env = None"
  shows "list_all (\<lambda>(k, v). get_key (entry env) k = v) required_env \<and>
    (\<exists>cpu. get_key (entry env) ''cpu_end'' = JInt cpu \<and> 0 \<le> cpu \<and>
       (case map_of F ''cpu'' of None \<Rightarrow> True | Some t \<Rightarrow> parse_int t = Inr cpu)) \<and>
    idle_problem expected (get_key (entry env) ''cpuidle'') = None"
  using assms find_None_all [of "\<lambda>(k, v). get_key (entry env) k \<noteq> v" required_env]
  by (cases env) (auto simp: env_problem_def entry_def list_all_iff split: option.splits json.splits if_splits)

lemma cycles_problem_None:
  "cycles_problem d = None \<Longrightarrow> \<exists>c. get_key d ''cycles'' = JInt c \<and> get_key d ''cycles_requested'' = JInt c \<and> 0 < c"
  by (auto simp: cycles_problem_def split: json.splits if_splits)

lemma row_problem_None: "row_problem s False = None \<Longrightarrow> cycles_problem (entry s) = None"
  by (auto simp: row_problem_def split: prod.splits option.splits json.splits if_splits)

lemma mitigation_problem_None:
  "mitigation_problem s F = None \<Longrightarrow> all_applied s [''mlock'', ''cpu'', ''fifo'', ''telemetry'']"
  by (auto simp: mitigation_problem_def all_applied_def split: if_splits)

lemma discipline_problem_None:
  assumes "discipline_problem s peer_cpu = None"
  obtains F where "config_fields s = Inr F" "row_problem s False = None" "mitigation_problem s F = None"
    "env_problem (if peer_cpu = JNull then 2 else 3) F (get_key (entry s) ''env'') = None"
  using assms by (auto simp: discipline_problem_def split: if_splits option.splits sum.splits)

text \<open>The qualified window: 300000 recorded cycles after 5000 of warmup, at a period of 2000 microseconds.\<close>

definition qualified_window :: "json \<Rightarrow> bool" where
  "qualified_window s \<longleftrightarrow>
     get_key (entry s) ''cycles'' = JInt 300000 \<and> get_key (entry s) ''cycles_requested'' = JInt 300000 \<and>
     get_key (entry s) ''warmup'' = JInt 5000 \<and> get_key (entry s) ''total_cycles'' = JInt 305000 \<and>
     (\<exists>period. number_of (get_key (entry s) ''period_us'') = Some period \<and> num_eq period (NFlt (f_lit 2000 1)))"

lemma qualified_window_problem_None:
  assumes "qualified_window_problem s = None"
  shows "qualified_window s"
proof -
  have int: "is_int v \<Longrightarrow> py_eq v (JInt n) \<Longrightarrow> v = JInt n" for v n by (cases v) (simp_all add: is_int_def)
  have flt: "py_eq v (JFloat x) \<Longrightarrow> \<exists>p. number_of v = Some p \<and> num_eq p (NFlt x)" for v x by (cases v) auto
  have lit: "f_lit 2000 1 = 0x409F400000000000" by (simp add: f_eval f_field_defs)
  show ?thesis
    using assms unfolding qualified_window_def lit
    by (auto simp: qualified_window_problem_def QUALIFIED_L8_WINDOW_def QUALIFIED_CYCLES_def Let_def simp del: py_eq.simps
        intro!: int flt split: if_splits)
qed

text \<open>C16. A candidate row that raises no problem was measured under the discipline of its level: its mode and its configured
  mitigations are exactly the level's, all of them were applied, the run is complete (and an L8 row has the qualified window, in all five of its fields), the machine's
  state is the required one, the loop ended on the configured CPU, and every idle state is disabled on exactly the isolated pair of CPUs,
  or on that pair and the declared peer.\<close>

theorem candidate_sound:
  assumes "candidate_problem s label peer_cpu = Inr None"
  shows "summary_mode s False = (Some (if label = ''L8'' then ''freerun'' else ''harness''), None) \<and>
    (\<exists>F number. config_fields s = Inr F \<and> parse_int (List.drop 1 label) = Inr number \<and> fst ` set F = set (profile_fields number) \<and>
       (\<exists>cpu. get_key (entry (get_key (entry s) ''env'')) ''cpu_end'' = JInt cpu \<and>
          (case map_of F ''cpu'' of None \<Rightarrow> True | Some t \<Rightarrow> parse_int t = Inr cpu))) \<and>
    all_applied s [''mlock'', ''cpu'', ''fifo'', ''telemetry''] \<and>
    (\<exists>c. get_key (entry s) ''cycles'' = JInt c \<and> get_key (entry s) ''cycles_requested'' = JInt c \<and>
       (if label = ''L8'' then c = 300000 else 0 < c)) \<and>
    (label = ''L8'' \<longrightarrow> qualified_window s) \<and>
    list_all (\<lambda>(k, v). get_key (entry (get_key (entry s) ''env'')) k = v) required_env \<and>
    (\<exists>states. get_key (entry (get_key (entry (get_key (entry s) ''env'')) ''cpuidle'')) ''states'' = JList states \<and> states \<noteq> [] \<and>
       list_all (\<lambda>state. get_key (entry state) ''disabled'' = JInt (if peer_cpu = JNull then 2 else 3)) states)"
proof -
  have parts: "level_problem s label False = None" "label = ''L8'' \<Longrightarrow> qualified_window_problem s = None"
    "discipline_problem s peer_cpu = None" "profile_problem s label = Inr None"
    using assms by (auto simp: candidate_problem_def split: option.splits if_splits)
  obtain F where F: "config_fields s = Inr F" "row_problem s False = None" "mitigation_problem s F = None"
    "env_problem (if peer_cpu = JNull then 2 else 3) F (get_key (entry s) ''env'') = None"
    using discipline_problem_None [OF parts(3)] by blast
  have mode: "summary_mode s False = (Some (if label = ''L8'' then ''freerun'' else ''harness''), None)"
    using parts(1) by (auto simp: level_problem_def split: prod.splits option.splits if_splits)
  obtain c where c: "get_key (entry s) ''cycles'' = JInt c" "get_key (entry s) ''cycles_requested'' = JInt c" "0 < c"
    using cycles_problem_None [OF row_problem_None [OF F(2)]] by blast
  have window: "label = ''L8'' \<Longrightarrow> c = 300000" using qualified_window_problem_None [OF parts(2)] c(1) by (simp add: qualified_window_def)
  obtain number where number: "parse_int (List.drop 1 label) = Inr number" "fst ` set F = set (profile_fields number)"
    using parts(4) F(1) by (auto simp: profile_problem_def rbind_eq_Inr split: if_splits)
  note env = env_problem_None [OF F(4)]
  have idle: "\<exists>states. get_key (entry (get_key (entry (get_key (entry s) ''env'')) ''cpuidle'')) ''states'' = JList states \<and> states \<noteq> [] \<and>
       list_all (\<lambda>state. get_key (entry state) ''disabled'' = JInt (if peer_cpu = JNull then 2 else 3)) states"
    using idle_problem_None [OF env [THEN conjunct2, THEN conjunct2]] by blast
  show ?thesis
    using mode F(1) number env c window idle mitigation_problem_None [OF F(3)] qualified_window_problem_None [OF parts(2)] by auto
qed

section \<open>An accepted row\<close>

definition good_state :: "string \<Rightarrow> int \<Rightarrow> json" where
  "good_state name latency = JObject [(''name'', JString name), (''latency_us'', JInt latency), (''disabled'', JInt 3)]"

definition good_env :: json where
  "good_env = JObject [(''kernel'', JString ''7.0.0-30-generic''), (''cpu_end'', JInt 7), (''timer_migration'', JInt 0),
     (''governor'', JString ''performance''), (''epp'', JString ''performance''), (''ac_online'', JBool True),
     (''cpuidle'', JObject [(''driver'', JString ''acpi_idle''), (''cpus'', JInt 16),
        (''states'', JList [good_state ''POLL'' 0, good_state ''C1'' 1])])]"

definition good_applied :: json where
  "good_applied = JObject [(''mlock'', JBool True), (''fifo'', JBool True), (''cpu'', JBool True), (''telemetry'', JBool True),
     (''link'', JBool True), (''ground'', JBool False)]"

definition good_link :: json where
  "good_link = JObject ([(''served'', JInt 300000), (''consumed'', JInt 300000), (''actuator_tx_fail'', JInt 0)] @ map (\<lambda>k. (k, JInt 0)) BAD)"

definition good_summary :: "string \<Rightarrow> int \<Rightarrow> json" where
  "good_summary label phase = JObject [(''label'', JString label), (''phase_us'', JInt phase), (''mode'', JString ''freerun''),
     (''config'', JString ''mode:freerun abs-deadline mlock fifo:80 cpu:7 telemetry record:control''), (''applied'', good_applied),
     (''cycles'', JInt 300000), (''cycles_requested'', JInt 300000), (''warmup'', JInt 5000), (''total_cycles'', JInt 305000),
     (''period_us'', JInt 2000), (''ground'', JObject [(''requested'', JBool False)]), (''env'', good_env), (''link'', good_link),
     (''link_recorded'', good_link), (''latency_us'', JObject [(''count'', JInt 300000), (''p99.9'', JInt 433), (''max'', JInt 900)])]"

definition good_row :: json where
  "good_row = good_summary ''L8'' 400"

definition good_fields :: fields_of where
  "good_fields = [(''mode'', ''freerun''), (''abs-deadline'', []), (''mlock'', []), (''fifo'', ''80''), (''cpu'', ''7''),
     (''telemetry'', []), (''record'', ''control'')]"

lemma good_config: "config_fields (good_summary label phase) = Inr good_fields"
  by (simp add: config_fields_def dict_get_def good_summary_def blank_def strip_def option_split numeral_field_def
      plain_numeral_def positive_numeral_def is_digit_def good_fields_def)

lemma good_get [simp]:
  "get_key (entry (good_summary label phase)) ''mode'' = JString ''freerun''" "get_key (entry (good_summary label phase)) ''applied'' = good_applied"
  "get_key (entry (good_summary label phase)) ''cycles'' = JInt 300000" "get_key (entry (good_summary label phase)) ''cycles_requested'' = JInt 300000"
  "get_key (entry (good_summary label phase)) ''warmup'' = JInt 5000" "get_key (entry (good_summary label phase)) ''total_cycles'' = JInt 305000"
  "get_key (entry (good_summary label phase)) ''period_us'' = JInt 2000" "get_key (entry (good_summary label phase)) ''env'' = good_env"
  "get_key (entry (good_summary label phase)) ''ground'' = JObject [(''requested'', JBool False)]" "is_object (good_summary label phase)" "JObject (entry (good_summary label phase)) = good_summary label phase"
  by (simp_all add: good_summary_def entry_def get_key_def is_object_def)

lemma good_applied_get [simp]:
  "get_key (entry good_applied) ''mlock'' = JBool True" "get_key (entry good_applied) ''fifo'' = JBool True"
  "get_key (entry good_applied) ''cpu'' = JBool True" "get_key (entry good_applied) ''telemetry'' = JBool True"
  "get_key (entry good_applied) ''link'' = JBool True" "get_key (entry good_applied) ''ground'' = JBool False"
  "JObject (entry good_applied) = good_applied" "entry (JObject d) = d" "get_key [(k, v)] k = v"
  by (simp_all add: good_applied_def entry_def get_key_def)

lemma good_mode: "summary_mode (good_summary label phase) legacy = (Some ''freerun'', None)"
  by (simp add: summary_mode_def good_summary_def MODES_def)

lemma good_row_problem: "row_problem (good_summary label phase) False = None"
proof -
  have "freerun_problem (entry (good_summary label phase)) (entry good_applied) = None"
    by (simp add: freerun_problem_def good_config good_fields_def ground_problem_def)
  moreover have "cycles_problem (entry (good_summary label phase)) = None" by (simp add: cycles_problem_def)
  ultimately show ?thesis
    by (simp add: row_problem_def good_mode or_else_def) (simp add: good_applied_def)
qed

lemma good_discipline: "discipline_problem (good_summary label phase) (JInt 11) = None"
proof -
  have "mitigation_problem (good_summary label phase) good_fields = None"
    by (simp add: mitigation_problem_def good_fields_def FREERUN_FIELDS_def all_applied_def actual_window_def)
  moreover have "env_problem 3 good_fields good_env = None"
    by (simp add: env_problem_def good_env_def required_env_def get_key_def good_fields_def parse_int_def strip_def blank_def dec_body_def
        digit_value_def idle_problem_def entry_def known_name_def is_string_def string_of_def good_state_def idle_population_def is_object_def)
  ultimately show ?thesis
    by (simp add: discipline_problem_def cpu_or_none_def good_row_problem good_config or_else_def)
qed

lemma good_candidate: "candidate_problem (good_summary label phase) ''L8'' (JInt 11) = Inr None"
proof -
  have "level_problem (good_summary label phase) ''L8'' False = None" by (simp add: level_problem_def good_mode)
  moreover have "qualified_window_problem (good_summary label phase) = None"
    by (simp add: qualified_window_problem_def QUALIFIED_L8_WINDOW_def QUALIFIED_CYCLES_def is_int_def is_number_def f_scaled_def f_field_defs)
  moreover have "profile_problem (good_summary label phase) ''L8'' = Inr None"
    by (auto simp: profile_problem_def good_config good_fields_def parse_int_def strip_def blank_def dec_body_def digit_value_def
        profile_fields_def FREERUN_FIELDS_def)
  ultimately show ?thesis by (simp add: candidate_problem_def good_discipline or_else_def)
qed

theorem candidate_sound_witness:
  "candidate_problem good_row ''L8'' (JInt 11) = Inr None \<and>
   all_applied good_row [''mlock'', ''cpu'', ''fifo'', ''telemetry''] \<and>
   list_all (\<lambda>(k, v). get_key (entry (get_key (entry good_row) ''env'')) k = v) required_env \<and> qualified_window good_row"
  using candidate_sound [OF good_candidate [of "''L8''" 400]] good_candidate [of "''L8''" 400] unfolding good_row_def [symmetric] by blast

definition good_replay :: json where
  "good_replay = JObject [(''loss'', JObject [(''p_up'', JFloat 0), (''p_down'', JFloat 0)])]"

definition good_leg :: json where
  "good_leg = JObject [(''required'', JBool True), (''residual'', JString ''zero'')]"

definition good_reconciliation :: json where
  "good_reconciliation = JObject [(''eligible'', JBool True), (''terminal_agreement'', JBool True),
     (''uplink'', JObject [(''unexplained_missing'', JInt 0)]), (''downlink'', JObject [(''unexplained_missing'', JInt 0)]),
     (''terminal'', JObject [(''required_legs_complete'', JBool True), (''up'', good_leg), (''down'', good_leg), (''causes'', JList [])])]"

definition good_limits :: limits where
  "good_limits = \<lparr>lm_coverage_min = 0x3FEFAE147AE147AE, lm_p999_max = NInt 1000, lm_latency_max = NInt 2000\<rparr>"

definition good_evidence :: "string \<Rightarrow> evidence" where
  "good_evidence label = \<lparr>ev_label = JString label, ev_served_coverage = 0x3FF0000000000000, ev_observation_coverage = 0x3FF0000000000000,
     ev_p999 = NInt 433, ev_max = NInt 900, ev_problems = [], ev_residuals = (JString ''zero'', JString ''zero'')\<rparr>"

definition tolerant :: "limits \<Rightarrow> bool" where
  "tolerant lm \<longleftrightarrow> \<not> f_lt 0x3FF0000000000000 (lm_coverage_min lm) \<and> \<not> num_less (lm_p999_max lm) (NInt 433) \<and>
     \<not> num_less (lm_latency_max lm) (NInt 900)"

lemma good_checks:
  assumes "tolerant lm"
  shows "evidence_checks (good_summary label phase) good_replay good_reconciliation (JInt 11) lm = Inr (good_evidence label)"
proof -
  have parts: "evidence_mode (good_summary label phase) (JInt 11) t = (t, Inr ())" "evidence_population (good_summary label phase) = Inr (300000, 300000, 300000)"
    "evidence_ingress (good_summary label phase) t = (t, Inr ())" "evidence_latency (good_summary label phase) lm t = (t, Inr (NInt 433, NInt 900))"
    "item (good_summary label phase) ''label'' = Inr (JString label)" "evidence_links (good_summary label phase) good_reconciliation t = (t, Inr ())" for t
    unfolding evidence_mode_def evidence_population_def evidence_ingress_def evidence_latency_def evidence_links_def good_discipline
    using assms by (simp_all add: tolerant_def good_summary_def good_link_def BAD_def natural_at_def natural_def item_def dict_get_def differs_def flag_def lift_result_def
        sbind_def item_metric_def metric_def float_of_def f_of_int_def nonzero_at_def not_true_at_def is_true_def
        good_reconciliation_def f_eval f_field_defs)
  moreover have "evidence_loss good_replay t = (t, Inr ())" "evidence_terminal good_reconciliation t = (t, Inr ())" for t
    by (simp_all add: evidence_loss_def good_replay_def item_metric_def item_def metric_def flag_def sbind_def lift_result_def f_lt_def
        f_key_def f_field_defs f_scaled_def evidence_terminal_def evidence_leg_def good_reconciliation_def good_leg_def not_true_at_def
        is_true_def is_string_def string_of_def RESIDUALS_def string_in_def)
  moreover have "ratio 300000 300000 = Inr 0x3FF0000000000000" by (simp add: ratio_def f_eval f_field_defs)
  moreover have "items good_reconciliation [''terminal'', ''up'', ''residual''] = Inr (JString ''zero'')"
    "items good_reconciliation [''terminal'', ''down'', ''residual''] = Inr (JString ''zero'')"
    by (simp_all add: good_reconciliation_def good_leg_def item_def)
  ultimately show ?thesis
    using assms by (simp add: evidence_checks_def evidence_body_def sbind_def lift_result_def flag_def tolerant_def good_evidence_def audit_empty_def)
qed

lemma good_tolerant: "tolerant good_limits"
  by (simp add: tolerant_def good_limits_def f_lt_def f_key_def f_field_defs)


theorem evidence_sound_witness:
  "evidence_checks good_row good_replay good_reconciliation (JInt 11) good_limits = Inr (good_evidence ''L8'') \<and>
   discipline_problem good_row (JInt 11) = None \<and> items good_reconciliation [''eligible''] = Inr (JBool True) \<and>
   \<not> num_less (lm_p999_max good_limits) (ev_p999 (good_evidence ''L8''))"
proof -
  have "ev_problems (good_evidence ''L8'') = []" by (simp add: good_evidence_def)
  then show ?thesis
    using evidence_sound [OF good_checks [OF good_tolerant, of "''L8''" 400]] good_checks [OF good_tolerant, of "''L8''" 400] unfolding good_row_def by blast
qed

section \<open>Medians of finite numbers\<close>

fun nval :: "number \<Rightarrow> real" where
  "nval (NInt n) = real_of_int n"
| "nval (NFlt x) = fval x"

fun nfinite :: "number \<Rightarrow> bool" where
  "nfinite (NInt n) = True"
| "nfinite (NFlt x) = f_finite x"

lemma power_cancel: "(2 :: real) ^ k * 2 powi (- int k) = 1"
  by (simp add: power_int_minus)

definition unit_value :: real where "unit_value = 2 powi (- 1074)"

lemma unit_pos: "0 < unit_value"
  unfolding unit_value_def by (rule powi_two_pos)

lemma unit_scaled: "real_of_int (f_scaled x (- 1074)) * unit_value = fval x"
  unfolding unit_value_def by (rule f_scaled_val) (rule f_ulp_ge)

lemma unit_int: "real_of_int (n * 2 ^ 1074) * unit_value = real_of_int n"
  using power_cancel [of 1074] unfolding unit_value_def of_int_mult of_int_power of_int_numeral of_nat_numeral mult.assoc by (simp only: mult_1_right)

lemma num_less_nval: "nfinite a \<Longrightarrow> nfinite b \<Longrightarrow> num_less a b \<longleftrightarrow> nval a < nval b"
proof -
  have scale: "i < j \<longleftrightarrow> real_of_int i * unit_value < real_of_int j * unit_value" for i j :: int
    using mult_less_cancel_right_pos [OF unit_pos, of "real_of_int i" "real_of_int j"] by simp
  assume "nfinite a" "nfinite b"
  then show ?thesis
    using f_lt_iff by (cases a; cases b) (simp_all only: num_less.simps nval.simps nfinite.simps if_True scale unit_scaled unit_int of_int_less_iff)
qed

lemma sort_numbers_sort_key: "list_all nfinite xs \<Longrightarrow> sort_numbers xs = sort_key nval xs"
proof (induction xs)
  case (Cons a xs)
  have "insert_number a ys = insort_key nval a ys" if "list_all nfinite ys" for ys
    using that Cons.prems by (induction ys) (auto simp: num_less_nval)
  moreover have "list_all nfinite (sort_key nval xs)" using Cons.prems by (simp add: list_all_iff)
  ultimately show ?case using Cons by (simp add: sort_numbers_def sort_key_def)
qed (simp add: sort_numbers_def)

text \<open>At least half of an odd number of values reach their median.\<close>

lemma median_reached:
  assumes "list_all nfinite xs" "odd (length xs)" "median xs = Inr m"
  shows "length xs \<le> 2 * length (filter (\<lambda>a. nval m \<le> nval a) xs)" and "m \<in> set xs"
proof -
  let ?s = "sort_key nval xs" and ?k = "length xs div 2"
  have k: "?k < length xs" using assms(2) by (cases xs) auto
  have len: "length (sort_numbers xs) = length xs" by (simp add: sort_numbers_sort_key [OF assms(1)])
  have m: "m = ?s ! ?k" using assms(2,3) by (simp add: median_def Let_def len sort_numbers_sort_key [OF assms(1)])
  then show "m \<in> set xs" using k by (metis length_sort nth_mem set_sort)
  have sorted: "sorted (map nval ?s)" by simp
  have "list_all (\<lambda>a. nval m \<le> nval a) (List.drop ?k ?s)"
  proof -
    have "nval m \<le> nval (List.drop ?k ?s ! i)" if "i < length (List.drop ?k ?s)" for i
      using sorted_nth_mono [OF sorted, of ?k "?k + i"] that k by (simp add: m)
    then show ?thesis by (simp add: list_all_length)
  qed
  then have "filter (\<lambda>a. nval m \<le> nval a) (List.drop ?k ?s) = List.drop ?k ?s" by (simp add: filter_id_conv list_all_iff)
  moreover have "filter (\<lambda>a. nval m \<le> nval a) ?s =
      filter (\<lambda>a. nval m \<le> nval a) (take ?k ?s) @ filter (\<lambda>a. nval m \<le> nval a) (List.drop ?k ?s)"
    unfolding filter_append [symmetric] append_take_drop_id ..
  ultimately have "length xs - ?k \<le> length (filter (\<lambda>a. nval m \<le> nval a) ?s)" by (simp only: length_append length_drop length_sort)
  moreover have "length (filter (\<lambda>a. nval m \<le> nval a) ?s) = length (filter (\<lambda>a. nval m \<le> nval a) xs)"
    unfolding size_mset [symmetric] mset_filter mset_sort ..
  ultimately show "length xs \<le> 2 * length (filter (\<lambda>a. nval m \<le> nval a) xs)" by linarith
qed

text \<open>At least half of an odd number of values do not exceed their median.\<close>

lemma median_bounds:
  assumes "list_all nfinite xs" "odd (length xs)" "median xs = Inr m"
  shows "length xs \<le> 2 * length (filter (\<lambda>a. nval a \<le> nval m) xs)"
proof -
  let ?s = "sort_key nval xs" and ?k = "length xs div 2" and ?P = "\<lambda>a. nval a \<le> nval m"
  have k: "?k < length xs" using assms(2) by (cases xs) auto
  have len: "length (sort_numbers xs) = length xs" by (simp add: sort_numbers_sort_key [OF assms(1)])
  have m: "m = ?s ! ?k" using assms(2,3) by (simp add: median_def Let_def len sort_numbers_sort_key [OF assms(1)])
  have sorted: "sorted (map nval ?s)" by simp
  have "list_all ?P (take (Suc ?k) ?s)"
  proof -
    have "nval (take (Suc ?k) ?s ! i) \<le> nval m" if "i < length (take (Suc ?k) ?s)" for i
      using sorted_nth_mono [OF sorted, of i ?k] that k by (simp add: m)
    then show ?thesis by (simp add: list_all_length)
  qed
  then have "filter ?P (take (Suc ?k) ?s) = take (Suc ?k) ?s" by (simp add: filter_id_conv list_all_iff)
  moreover have "filter ?P ?s = filter ?P (take (Suc ?k) ?s) @ filter ?P (List.drop (Suc ?k) ?s)"
    unfolding filter_append [symmetric] append_take_drop_id ..
  ultimately have "min (length xs) (Suc ?k) \<le> length (filter ?P ?s)" by (simp only: length_append length_take length_sort)
  moreover have "length (filter ?P ?s) = length (filter ?P xs)"
    unfolding size_mset [symmetric] mset_filter mset_sort ..
  ultimately show ?thesis using k by simp
qed

section \<open>What a calibration selects\<close>

lemma evidence_finite: "evidence_checks s replay rec peer_cpu lm = Inr ev \<Longrightarrow> f_finite (ev_served_coverage ev)"
  by (auto simp: evidence_checks_def evidence_body_def sbind_Inr lift_result_def ratio_def Let_def split: prod.splits sum.splits if_splits)

lemma calibration_reports_spec:
  "calibration_reports shown cpu rows = Inr reports \<Longrightarrow>
     map fst reports = map (snd \<circ> snd) rows \<and> list_all (\<lambda>(p, ev). f_finite (ev_served_coverage ev)) reports"
  by (induction shown cpu rows arbitrary: reports rule: calibration_reports.induct)
    (auto simp: rbind_eq_Inr ensure_eq_Inr dest: evidence_finite)

lemma filter_fst_count: "length (filter (\<lambda>(p, ev). p = phase) reports) = count_list (map fst reports) phase"
  by (induction reports) auto

text \<open>What one row of the calibration has been checked for: its label, repeat and offset, the CPU shared by all rows, the absence of
  loss, and the evidence taken from its own documents.\<close>

definition calibration_row :: "(f64 \<Rightarrow> string) \<Rightarrow> string \<Rightarrow> candidate \<Rightarrow> int \<Rightarrow> int \<Rightarrow> evidence \<Rightarrow> bool" where
  "calibration_row shown cpu c n phase ev \<longleftrightarrow>
     (\<exists>F. experiment_row shown c ''L8'' n (''L8.phase'' @ dec_int phase @ ''.r'' @ dec_int n) = Inr F \<and> field_item F ''cpu'' = Inr cpu) \<and>
     (\<exists>u. item (cd_run c) ''phase_us'' = Inr u \<and> py_eq u (JInt phase)) \<and>
     (\<exists>loss. item (cd_replay c) ''loss'' = Inr loss \<and> py_eq loss no_loss) \<and>
     evidence_checks (cd_summary c) (cd_replay c) (cd_reconciliation c) (cd_peer c) policy_limits = Inr ev"

lemma calibration_reports_rows:
  "calibration_reports shown cpu rows = Inr reports \<Longrightarrow>
     \<exists>cpu'. cpu \<in> {None, Some cpu'} \<and>
       list_all2 (\<lambda>(c, n, phase) (p, ev). p = phase \<and> calibration_row shown cpu' c n phase ev) rows reports"
proof (induction rows arbitrary: cpu reports)
  case Nil
  then show ?case by (cases cpu) auto
next
  case (Cons row rows)
  obtain cand n phase where row: "row = (cand, n, phase)" by (cases row)
  obtain F cpu' u ev loss reports' where s: "experiment_row shown cand ''L8'' n (''L8.phase'' @ dec_int phase @ ''.r'' @ dec_int n) = Inr F"
    "cpu \<in> {None, Some cpu'}" "field_item F ''cpu'' = Inr cpu'" "item (cd_run cand) ''phase_us'' = Inr u" "py_eq u (JInt phase)"
    "evidence_checks (cd_summary cand) (cd_replay cand) (cd_reconciliation cand) (cd_peer cand) policy_limits = Inr ev"
    "item (cd_replay cand) ''loss'' = Inr loss" "py_eq loss no_loss"
    "calibration_reports shown (Some cpu') rows = Inr reports'" "reports = (phase, ev) # reports'"
    using Cons.prems by (cases cpu) (auto simp: row rbind_eq_Inr ensure_eq_Inr simp del: py_eq.simps)
  have "list_all2 (\<lambda>(c, n, phase) (p, ev). p = phase \<and> calibration_row shown cpu' c n phase ev) rows reports'"
    using Cons.IH [OF s(9)] by auto
  moreover have "calibration_row shown cpu' cand n phase ev" using s unfolding calibration_row_def by blast
  ultimately show ?case using s(2) by (intro exI [of _ cpu']) (simp add: s(10) row)
qed

text \<open>What one offset is judged on, for the evidence of its three runs.\<close>

definition offset_judged :: "offset_verdict \<Rightarrow> evidence list \<Rightarrow> bool" where
  "offset_judged v evs \<longleftrightarrow> ov_runs v = evs \<and>
     (\<exists>ev \<in> set evs. ov_median v = NFlt (ev_served_coverage ev)) \<and>
     length evs \<le> 2 * length (filter (\<lambda>ev. nval (ov_median v) \<le> fval (ev_served_coverage ev)) evs) \<and>
     length evs \<le> 2 * length (filter (\<lambda>ev. fval (ev_served_coverage ev) \<le> nval (ov_median v)) evs) \<and>
     (ov_qualifies v \<longleftrightarrow> list_all (\<lambda>ev. ev_problems ev = []) evs \<and> fval (f_lit 995 1000) \<le> nval (ov_median v))"

lemma offset_of_judged:
  assumes "offset_of reports phase = Inr v" "list_all (\<lambda>(p, ev). f_finite (ev_served_coverage ev)) reports"
    and "odd (count_list (map fst reports) phase)"
  shows "ov_phase v = phase \<and> offset_judged v (map snd (filter (\<lambda>(p, ev). p = phase) reports))"
proof -
  let ?runs = "map snd (filter (\<lambda>(p, ev). p = phase) reports)" and ?cov = "NFlt \<circ> ev_served_coverage"
  from assms(1) obtain m where m: "median (map ?cov ?runs) = Inr m" "ov_median v = m" "ov_runs v = ?runs" "ov_phase v = phase"
    "ov_qualifies v = (list_all (\<lambda>ev. ev_problems ev = []) ?runs \<and> \<not> num_less m (NFlt (f_lit 995 1000)))"
    by (auto simp: offset_of_def Let_def rbind_eq_Inr)
  have fin: "list_all nfinite (map ?cov ?runs)" using assms(2) by (auto simp: list_all_iff)
  have odd: "odd (length (map ?cov ?runs))" using assms(3) by (simp add: filter_fst_count)
  note reach = median_reached [OF fin odd m(1)] median_bounds [OF fin odd m(1)]
  have "f_finite (f_lit 995 1000)" by (simp add: f_eval f_field_defs)
  moreover have "nfinite m" using reach(2) fin by (auto simp: list_all_iff)
  ultimately have "\<not> num_less m (NFlt (f_lit 995 1000)) \<longleftrightarrow> fval (f_lit 995 1000) \<le> nval m"
    using num_less_nval [of m "NFlt (f_lit 995 1000)"] by auto
  moreover have "\<exists>ev \<in> set ?runs. m = NFlt (ev_served_coverage ev)" using reach(2) by auto
  ultimately show ?thesis
    using reach(1,3) m unfolding offset_judged_def filter_map length_map by (simp add: comp_def)
qed

lemma filter_below_three:
  assumes "offset_judged v [a, b, c]"
  shows "ov_qualifies v \<longleftrightarrow> list_all (\<lambda>ev. ev_problems ev = []) [a, b, c] \<and>
    2 \<le> length (filter (\<lambda>ev. fval (f_lit 995 1000) \<le> fval (ev_served_coverage ev)) [a, b, c])"
  using assms by (auto simp: offset_judged_def split: if_splits)

lemma CALIBRATION_listed:
  "CALIBRATION_ORDER = [(1, 200), (1, 400), (1, 800), (2, 200), (2, 400), (2, 800), (3, 200), (3, 400), (3, 800)]"
  by (simp add: CALIBRATION_ORDER_def OFFSETS_def upto_rec1)

lemma CALIBRATION_nth:
  "i < 9 \<Longrightarrow> CALIBRATION_ORDER ! i = (int (i div 3) + 1, [200, 400, 800] ! (i mod 3))"
proof -
  assume "i < 9"
  then have "i \<in> {0, 1, 2, 3, 4, 5, 6, 7, 8}" by auto
  then show ?thesis by (elim insertE emptyE) (simp_all add: CALIBRATION_listed)
qed

text \<open>C23. The calibration selects the smallest qualifying offset. Its nine rows are, in this order, the repeats 1, 2 and 3 of the
  offsets 200, 400 and 800; each passes the experiment checks for its label, repeat and offset, all run on one CPU and without loss,
  and its evidence comes from its own documents. The verdict of an offset is given on the evidence of exactly its three rows: the
  median is the middle of their served coverages, and the offset qualifies if and only if the three have no evidence problem and at
  least two of them serve 0.995 of their cycles. The offset selected is the first that qualifies; nothing is selected exactly when
  none does.\<close>

theorem calibration_selects:
  assumes "calibration shown rows = Inr (choice, verdicts)"
  shows "\<exists>cpu e. length rows = 9 \<and>
    (\<forall>i < 9. calibration_row shown cpu (rows ! i) (int (i div 3) + 1) ([200, 400, 800] ! (i mod 3)) (e i)) \<and>
    map ov_phase verdicts = [200, 400, 800] \<and>
    (\<forall>i < 3. offset_judged (verdicts ! i) [e i, e (i + 3), e (i + 6)] \<and>
      (ov_qualifies (verdicts ! i) \<longleftrightarrow> list_all (\<lambda>ev. ev_problems ev = []) [e i, e (i + 3), e (i + 6)] \<and>
        2 \<le> length (filter (\<lambda>ev. fval (f_lit 995 1000) \<le> fval (ev_served_coverage ev)) [e i, e (i + 3), e (i + 6)]))) \<and>
    (case choice of
       None \<Rightarrow> list_all (\<lambda>v. \<not> ov_qualifies v) verdicts
     | Some phase \<Rightarrow> \<exists>i < 3. phase = [200, 400, 800] ! i \<and> ov_qualifies (verdicts ! i) \<and> list_all (\<lambda>v. \<not> ov_qualifies v) (take i verdicts))"
proof -
  from assms obtain reports where r: "length rows = 9" "calibration_reports shown None (zip rows CALIBRATION_ORDER) = Inr reports"
    "offsets_of reports OFFSETS = Inr verdicts" "choice = map_option ov_phase (find ov_qualifies verdicts)"
    by (auto simp: calibration_def rbind_eq_Inr ensure_eq_Inr)
  from calibration_reports_rows [OF r(2)] obtain cpu where
    rows: "list_all2 (\<lambda>(c, n, phase) (p, ev). p = phase \<and> calibration_row shown cpu c n phase ev) (zip rows CALIBRATION_ORDER) reports"
    by blast
  have nine: "length CALIBRATION_ORDER = 9" by (simp add: CALIBRATION_listed)
  then have len: "length reports = 9" using list_all2_lengthD [OF rows] r(1) by simp
  define e where "e = (\<lambda>i. snd (reports ! i))"
  have row: "fst (reports ! i) = [200, 400, 800] ! (i mod 3) \<and>
      calibration_row shown cpu (rows ! i) (int (i div 3) + 1) ([200, 400, 800] ! (i mod 3)) (e i)" if "i < 9" for i
    using list_all2_nthD [OF rows, of i] CALIBRATION_nth [OF that] that r(1) nine by (simp add: e_def split_def)
  have listed: "reports = [(200, e 0), (400, e 1), (800, e 2), (200, e 3), (400, e 4), (800, e 5), (200, e 6), (400, e 7), (800, e 8)]"
  proof -
    have "fst (reports ! 0) = 200" "fst (reports ! 1) = 400" "fst (reports ! 2) = 800" "fst (reports ! 3) = 200" "fst (reports ! 4) = 400"
      "fst (reports ! 5) = 800" "fst (reports ! 6) = 200" "fst (reports ! 7) = 400" "fst (reports ! 8) = 800"
      using row [of 0] row [of 1] row [of 2] row [of 3] row [of 4] row [of 5] row [of 6] row [of 7] row [of 8] by simp_all
    moreover have "reports = map ((!) reports) [0 ..< 9]" using map_nth [of reports] len by simp
    moreover have "[0 ..< 9] = [0, 1, 2, 3, 4, 5, 6, 7, 8 :: nat]" by (simp add: upt_rec)
    ultimately show ?thesis unfolding e_def by (metis (no_types, lifting) list.map prod.collapse)
  qed
  have finite: "list_all (\<lambda>(p, ev). f_finite (ev_served_coverage ev)) reports"
    using calibration_reports_spec [OF r(2)] by simp
  obtain v1 v2 v3 where v: "verdicts = [v1, v2, v3]" "offset_of reports 200 = Inr v1" "offset_of reports 400 = Inr v2"
    "offset_of reports 800 = Inr v3" using r(3) by (auto simp: OFFSETS_def rbind_eq_Inr)
  have judged: "ov_phase v1 = 200" "ov_phase v2 = 400" "ov_phase v3 = 800"
    "offset_judged v1 [e 0, e 3, e 6]" "offset_judged v2 [e 1, e 4, e 7]" "offset_judged v3 [e 2, e 5, e 8]"
    using offset_of_judged [OF v(2) finite] offset_of_judged [OF v(3) finite] offset_of_judged [OF v(4) finite]
    unfolding listed by simp_all
  have three: "(\<forall>i < 3. Q i) \<longleftrightarrow> Q 0 \<and> Q 1 \<and> Q (2 :: nat)" for Q
    by (auto simp: numeral_eq_Suc less_Suc_eq)
  have verdict: "\<forall>i < 3. offset_judged (verdicts ! i) [e i, e (i + 3), e (i + 6)] \<and>
      (ov_qualifies (verdicts ! i) \<longleftrightarrow> list_all (\<lambda>ev. ev_problems ev = []) [e i, e (i + 3), e (i + 6)] \<and>
        2 \<le> length (filter (\<lambda>ev. fval (f_lit 995 1000) \<le> fval (ev_served_coverage ev)) [e i, e (i + 3), e (i + 6)]))"
    using judged(4-6) filter_below_three [OF judged(4)] filter_below_three [OF judged(5)] filter_below_three [OF judged(6)]
    unfolding three by (simp add: v(1))
  have chosen: "case choice of
       None \<Rightarrow> list_all (\<lambda>v. \<not> ov_qualifies v) verdicts
     | Some phase \<Rightarrow> \<exists>i < 3. phase = [200, 400, 800] ! i \<and> ov_qualifies (verdicts ! i) \<and> list_all (\<lambda>v. \<not> ov_qualifies v) (take i verdicts)"
  proof (cases "ov_qualifies v1")
    case True
    then show ?thesis using judged(1) by (simp add: r(4) v(1)) (intro exI [of _ 0], simp)
  next
    case no1: False
    show ?thesis
    proof (cases "ov_qualifies v2")
      case True
      then show ?thesis using no1 judged(2) by (simp add: r(4) v(1)) (intro exI [of _ 1], simp)
    next
      case no2: False
      then show ?thesis using no1 judged(3)
        by (cases "ov_qualifies v3") (simp_all add: r(4) v(1), intro exI [of _ 2], simp add: numeral_2_eq_2)
    qed
  qed
  show ?thesis
    using r(1) row verdict chosen judged(1-3) by (intro exI [of _ cpu] exI [of _ e]) (simp add: v(1))
qed

definition good_label :: "int \<Rightarrow> int \<Rightarrow> string" where
  "good_label n phase = ''L8.phase'' @ dec_int phase @ ''.r'' @ dec_int n"

definition good_run :: "int \<Rightarrow> int \<Rightarrow> json" where
  "good_run n phase = JObject [(''label'', JString (good_label n phase)), (''level'', JString ''L8''), (''repeat'', JInt n),
     (''complete'', JBool True), (''cycles'', JInt 300000), (''warmup'', JInt 5000), (''rate'', JInt 500), (''phase_us'', JInt phase)]"

definition good_item :: "int \<Rightarrow> int \<Rightarrow> candidate" where
  "good_item n phase = \<lparr>cd_dir = ''results'', cd_name = good_label n phase, cd_summary = good_summary (good_label n phase) phase,
     cd_run = good_run n phase, cd_peer = JInt 11, cd_replay = good_replay, cd_reconciliation = good_reconciliation\<rparr>"

lemma good_experiment: "experiment_row shown (good_item n phase) ''L8'' n (good_label n phase) = Inr good_fields"
proof -
  have "profile_problem (good_summary label phase) ''L8'' = Inr None" "level_problem (good_summary label phase) ''L8'' False = None" for label
    using good_candidate [of label phase]
    by (auto simp: candidate_problem_def or_else_def level_problem_def good_mode good_discipline split: option.splits)
  moreover have "experiment_identity (good_item n phase) ''L8'' n (good_label n phase)"
    by (simp add: experiment_identity_def good_item_def run_is_def good_run_def is_true_def get_key_def good_summary_def entry_def)
  moreover have "experiment_window (good_run n phase) s" for s
    by (simp add: experiment_window_def good_run_def get_key_def entry_def is_number_def)
  moreover have "summary_window (good_summary label phase) = Inr True" for label
    by (simp add: summary_window_def item_def good_summary_def entry_def get_key_def)
  moreover have "is_int (get_key (entry (good_run n phase)) ''phase_us'')"
    "py_eq (get_key (entry (good_summary label phase)) ''phase_us'') (get_key (entry (good_run n phase)) ''phase_us'')" for label
    by (simp_all add: is_int_def good_run_def get_key_def entry_def good_summary_def)
  ultimately show ?thesis
    by (simp add: experiment_row_def Let_def good_discipline or_else_def good_config good_item_def)
qed

lemma policy_tolerant: "tolerant policy_limits"
  by (simp add: tolerant_def policy_limits_def f_lt_def f_key_def f_eval f_field_defs f_scaled_def)

lemma good_reports:
  "cpu \<in> {None, Some ''7''} \<Longrightarrow>
     calibration_reports shown cpu (map (\<lambda>(n, p). (good_item n p, n, p)) qs) =
       Inr (map (\<lambda>(n, p). (p, good_evidence (good_label n p))) qs)"
proof (induction qs arbitrary: cpu)
  case (Cons q qs)
  obtain n p where q: "q = (n, p)" by (cases q)
  have loss: "rbind (item (cd_replay (good_item n p)) ''loss'') (\<lambda>loss. ensure (py_eq loss no_loss) msg k) = k" for msg k
    by (simp add: item_def good_item_def good_replay_def no_loss_def f_eq_def f_key_def f_zero_def f_field_defs)
  have phase: "item (cd_run (good_item n p)) ''phase_us'' = Inr (JInt p)" by (simp add: item_def good_item_def good_run_def)
  have cpu: "field_item good_fields ''cpu'' = Inr ''7''" by (simp add: field_item_def good_fields_def)
  have "evidence_checks (cd_summary (good_item n p)) (cd_replay (good_item n p)) (cd_reconciliation (good_item n p))
      (cd_peer (good_item n p)) policy_limits = Inr (good_evidence (good_label n p))"
    using good_checks [OF policy_tolerant] by (simp add: good_item_def)
  then show ?case
    using Cons.IH [of "Some ''7''"] Cons.prems good_experiment [of shown n p]
    unfolding good_label_def by (auto simp: q loss phase cpu)
qed simp

definition good_items :: "candidate list" where
  "good_items = map (\<lambda>(n, p). good_item n p) CALIBRATION_ORDER"

lemma good_calibration: "\<exists>verdicts. calibration shown good_items = Inr (Some 200, verdicts)"
proof -
  have "zip good_items CALIBRATION_ORDER = map (\<lambda>(n, p). (good_item n p, n, p)) CALIBRATION_ORDER"
    by (simp add: good_items_def CALIBRATION_listed)
  then have reports: "calibration_reports shown None (zip good_items CALIBRATION_ORDER) =
      Inr (map (\<lambda>(n, p). (p, good_evidence (good_label n p))) CALIBRATION_ORDER)"
    by (simp add: good_reports)
  have one: "\<not> f_lt 0x3FF0000000000000 0x3FF0000000000000" "\<not> f_lt 0x3FF0000000000000 (f_lit 995 1000)"
    by (simp_all add: f_lt_def f_key_def f_eval f_field_defs)
  show ?thesis
    by (simp add: calibration_def reports) (simp add: good_items_def CALIBRATION_listed OFFSETS_def offset_of_def median_def sort_numbers_def
        good_evidence_def one)
qed

theorem calibration_selects_witness:
  "\<exists>verdicts. calibration example_text good_items = Inr (Some 200, verdicts) \<and> ov_qualifies (verdicts ! 0)"
proof -
  obtain verdicts where v: "calibration example_text good_items = Inr (Some 200, verdicts)" using good_calibration by blast
  obtain i :: nat where "i < 3" "200 = [200, 400, 800 :: int] ! i" "ov_qualifies (verdicts ! i)"
    using calibration_selects [OF v] by auto
  moreover from this have "i = 0" by (auto simp: nth_Cons' split: if_splits)
  ultimately show ?thesis using v by blast
qed

end
