(* ===== verification/Campaign.thy ===== *)
theory Campaign
  imports Audited Roster Wire "HOL-Library.List_Lexorder"
begin

text \<open>
  The lockstep campaign (\<open>scripts/run_campaign.py\<close>): the identity of its sources, and the validation of its
  manifests and goldens, JSON documents of unknown shape. The lemmas show that the hashed bytes determine the files, what an
  accepted manifest establishes about its cases, and which malformed manifest escapes as an exception.
\<close>

section \<open>Source identity\<close>

text \<open>Paths are ASCII, so their UTF-8 bytes are their characters. \<open>file_bytes\<close> is \<open>None\<close> where the path is a symlink or
  no file; \<open>sha\<close> is the hexadecimal SHA-256.\<close>

definition ascii :: "string \<Rightarrow> byte list" where
  "ascii s = map (\<lambda>c. word_of_nat (of_char c)) s"

definition pack_u64 :: "nat \<Rightarrow> byte list result" where
  "pack_u64 n = (if n < 2 ^ 64 then Inr (le_bytes 8 n) else Inl (StructError ''argument out of range''))"

definition framed :: "byte list \<Rightarrow> byte list result" where
  "framed data = rbind (pack_u64 (length data)) (\<lambda>l. Inr (l @ data))"

fun hash_input :: "(string \<Rightarrow> byte list option) \<Rightarrow> string list \<Rightarrow> byte list result" where
  "hash_input file_bytes [] = Inr []"
| "hash_input file_bytes (name # names) =
     ensure (take 1 name \<noteq> ''/'' \<and> ''..'' \<notin> set (split_on CHR ''/'' name)) ''source path outside root'' (
     case file_bytes name of
       None \<Rightarrow> Inl (ValueError ''missing or symlink source'')
     | Some data \<Rightarrow>
         rbind (framed (ascii name)) (\<lambda>a. rbind (framed data) (\<lambda>b.
         rbind (hash_input file_bytes names) (\<lambda>rest. Inr (a @ b @ rest)))))"

definition hash_files :: "(byte list \<Rightarrow> string) \<Rightarrow> (string \<Rightarrow> byte list option) \<Rightarrow> string list \<Rightarrow> string result" where
  "hash_files sha file_bytes paths =
     ensure (distinct paths) ''duplicate source path'' (
     rbind (hash_input file_bytes (sort_key ascii paths)) (\<lambda>bytes. Inr (sha bytes)))"

section \<open>Checked values\<close>

definition hex_lower :: "char \<Rightarrow> bool" where
  "hex_lower c \<longleftrightarrow> c \<in> set ''0123456789abcdef''"

definition hex_string :: "nat \<Rightarrow> string \<Rightarrow> bool" where
  "hex_string n s \<longleftrightarrow> length s = n \<and> list_all hex_lower s"

definition valid_digest :: "json \<Rightarrow> bool" where
  "valid_digest v \<longleftrightarrow> is_string v \<and> hex_string 64 (string_of v)"

definition prefixed_hex :: "string \<Rightarrow> nat \<Rightarrow> json \<Rightarrow> bool" where
  "prefixed_hex p n v \<longleftrightarrow> is_string v \<and> starts_with p (string_of v) \<and> hex_string n (List.drop (length p) (string_of v))"

definition seed_parts :: "string \<Rightarrow> bool" where
  "seed_parts s \<longleftrightarrow>
     (let ps = split_on CHR ''-'' s in length ps \<in> {1, 2} \<and> list_all positive_numeral ps)"

definition seed_range :: "json \<Rightarrow> int list result" where
  "seed_range value =
     ensure (is_string value \<and> seed_parts (string_of value)) ''invalid seeds'' (
     rbind (parse_ints (split_on CHR ''-'' (string_of value))) (\<lambda>parts.
     ensure (1 \<le> hd parts \<and> hd parts \<le> last parts \<and> last parts \<le> 200) ''seeds outside declared range 1..200''
       (Inr [hd parts..last parts])))"

definition nonempty_string :: "json \<Rightarrow> bool" where
  "nonempty_string v \<longleftrightarrow> is_string v \<and> string_of v \<noteq> []"

definition TOOLCHAIN_KEYS :: "string list" where
  "TOOLCHAIN_KEYS = [''platform'', ''machine'', ''gxx'', ''python'', ''cmake'', ''libc'', ''google_crc32c'', ''environment_sha256'', ''lane'']"

definition check_toolchain :: "json \<Rightarrow> bool \<Rightarrow> unit result" where
  "check_toolchain toolchain canon =
     ensure (is_object toolchain) ''missing toolchain'' (
     let get = get_key (entry toolchain) in
     ensure (list_all (\<lambda>k. nonempty_string (get k)) TOOLCHAIN_KEYS) ''missing toolchain'' (
     ensure (valid_digest (get ''environment_sha256'')) ''invalid environment digest'' (
     if canon then
       ensure (get ''lane'' = JString ''canonical'' \<and> prefixed_hex ''ghcr.io/mamadou-wane/tvc-gold@sha256:'' 64 (get ''image''))
         ''published platform digest required'' (
       ensure (get ''platform'' = JString ''linux/amd64'' \<and> get ''machine'' = JString ''x86_64'') ''canonical platform mismatch'' (Inr ()))
     else
       ensure (get ''lane'' \<in> {JString ''development'', JString ''local-candidate''} \<and> get ''image'' = JNull)
         ''candidate must not claim a published identity'' (
       ensure (get ''lane'' = JString ''local-candidate'' \<longrightarrow> prefixed_hex ''sha256:'' 64 (get ''candidate_image_id''))
         ''missing candidate image ID'' (Inr ())))))"

section \<open>Manifests\<close>

definition ARTIFACTS :: "string list" where
  "ARTIFACTS = [''inputs_tvcrec'', ''control_tvcrec'', ''sim_csv'', ''vehicle_csv'']"

definition CLAUSES :: "string list" where
  "CLAUSES = [''termination'', ''peak'', ''settled'', ''cadence'', ''finiteness'']"

definition IDENTIFIERS :: json where
  "IDENTIFIERS = JObject [(''model'', JString ''pitch-frozen-flight-v1''), (''controller'', JString ''pid-v1''),
     (''actuator'', JString ''ideal-angle-v1''), (''sensor'', JString ''ideal-v1''), (''environment'', JString ''frozen-flight-v1''),
     (''scenario_schema'', JString ''tvc-scenario-v1'')]"

definition CAMPAIGN_LOSS :: json where
  "CAMPAIGN_LOSS = JObject [(''p_up'', JFloat 0x3FD3333333333333), (''p_down'', JFloat 0x3FD3333333333333)]"

definition is_bool :: "json \<Rightarrow> bool" where
  "is_bool v = (case v of JBool b \<Rightarrow> True | _ \<Rightarrow> False)"

text \<open>\<open>set(v) == set(keys)\<close>: the elements of a list are hashed, a string has its characters, a number has none to iterate.\<close>

definition same_keys :: "json \<Rightarrow> string list \<Rightarrow> bool result" where
  "same_keys v keys =
     (case v of
        JObject d \<Rightarrow> Inr (fst ` set d = set keys)
      | JList xs \<Rightarrow>
          if list_all hashable xs then Inr (list_all is_string xs \<and> string_of ` set xs = set keys)
          else Inl (TypeError ''unhashable type'')
      | JString s \<Rightarrow> Inr ((\<lambda>c. [c]) ` set s = set keys)
      | _ \<Rightarrow> Inl (TypeError ''not iterable''))"

definition values_of :: "json \<Rightarrow> json list result" where
  "values_of v = (case v of JObject d \<Rightarrow> Inr (map snd d) | _ \<Rightarrow> Inl (AttributeError ''values''))"

definition case_digests :: "json \<Rightarrow> bool result" where
  "case_digests c =
     rbind (item c ''digests'') (\<lambda>d. both (same_keys d ARTIFACTS) (rbind (values_of d) (\<lambda>vs. Inr (list_all valid_digest vs))))"

definition clauses_ok :: "json \<Rightarrow> bool" where
  "clauses_ok v \<longleftrightarrow> is_object v \<and> fst ` set (entry v) = set CLAUSES \<and> list_all (is_bool \<circ> snd) (entry v)"

definition case_pair :: "json \<Rightarrow> (json \<times> json) result" where
  "case_pair c = rbind (item c ''seed'') (\<lambda>s. rbind (item c ''delay_ticks'') (\<lambda>d. Inr (s, d)))"

fun pair_member :: "json \<times> json \<Rightarrow> (int \<times> int) list \<Rightarrow> bool" where
  "pair_member (JInt s, JInt d) ps \<longleftrightarrow> (s, d) \<in> set ps"
| "pair_member v ps \<longleftrightarrow> False"

definition pair_of :: "json \<times> json \<Rightarrow> int \<times> int" where
  "pair_of p = (int_of (fst p), int_of (snd p))"

text \<open>An eligible case: its clauses, digests, metrics and reasons; whether it succeeded.\<close>

definition eligible_case :: "bool \<Rightarrow> json \<Rightarrow> bool result" where
  "eligible_case require_pass c =
     rbind (item c ''clauses'') (\<lambda>clauses.
     ensure (clauses_ok clauses) ''invalid clauses'' (
     need (case_digests c) ''incomplete artifact digests'' (
     rbind (item c ''peak_theta_bits'') (\<lambda>peak.
     ensure (prefixed_hex ''0x'' 16 peak) ''invalid metric bits'' (
     rbind (item c ''window_max_omega_bits'') (\<lambda>omega.
     ensure (prefixed_hex ''0x'' 16 omega) ''invalid metric bits'' (
     rbind (item c ''sim_reason'') (\<lambda>sim.
     need (if is_int sim then rbind (item c ''vehicle_reason'') (\<lambda>v. Inr (is_int v)) else Inr False) ''invalid reasons'' (
     rbind (item c ''vehicle_reason'') (\<lambda>vehicle.
     let success = list_all (truthy \<circ> snd) (entry clauses) in
     ensure (success \<longrightarrow> sim = JInt 1 \<and> vehicle = JInt 1) ''successful case has wrong terminal reasons'' (
     ensure (\<not> require_pass \<or> success) ''failed clause'' (Inr success))))))))))))"

definition check_case :: "bool \<Rightarrow> json \<Rightarrow> bool result" where
  "check_case require_pass c =
     rbind (item c ''eligible'') (\<lambda>e.
     case e of
       JBool True \<Rightarrow> eligible_case require_pass c
     | JBool False \<Rightarrow>
         ensure (\<not> require_pass) ''ineligible case'' (
         rbind (item c ''errors'') (\<lambda>errors.
         ensure (case list_of errors of None \<Rightarrow> False | Some xs \<Rightarrow> xs \<noteq> []) ''missing failure reason'' (Inr False)))
     | _ \<Rightarrow> Inl (ValueError ''invalid eligibility''))"

text \<open>The cases in order: the pairs seen and the number passed.\<close>

fun check_cases :: "bool \<Rightarrow> (int \<times> int) list \<Rightarrow> (int \<times> int) list \<Rightarrow> json list \<Rightarrow> ((int \<times> int) list \<times> int) result" where
  "check_cases require_pass expected seen [] = Inr (seen, 0)"
| "check_cases require_pass expected seen (c # cs) =
     rbind (case_pair c) (\<lambda>p.
     ensure (pair_member p expected \<and> pair_of p \<notin> set seen) ''missing, duplicate or unexpected case'' (
     rbind (check_case require_pass c) (\<lambda>success.
     rbind (check_cases require_pass expected (pair_of p # seen) cs) (\<lambda>(seen', passed).
       Inr (seen', passed + (if success then 1 else 0))))))"

definition delays_ok :: "json \<Rightarrow> bool" where
  "delays_ok v \<longleftrightarrow> v \<in> {JList [JInt 0], JList [JInt 1], JList [JInt 0, JInt 1]}"

definition delay_ints :: "json \<Rightarrow> int list" where
  "delay_ints v = (case v of JList xs \<Rightarrow> map int_of xs | _ \<Rightarrow> [])"

record expectation =
  ex_source :: json
  ex_toolchain :: json
  ex_scenario :: json
  ex_full :: bool
  ex_canonical :: bool
  ex_pass :: bool

definition item_is :: "json \<Rightarrow> string \<Rightarrow> json \<Rightarrow> bool result" where
  "item_is v k w = rbind (item v k) (\<lambda>x. Inr (py_eq x w))"

definition manifest_identity :: "expectation \<Rightarrow> json \<Rightarrow> unit result" where
  "manifest_identity ex doc =
     rbind (item doc ''run_identity'') (\<lambda>identity.
     rbind (rbind (item identity ''toolchain'') (\<lambda>t. check_toolchain t (ex_canonical ex))) (\<lambda>_.
     need (item_is identity ''toolchain'' (ex_toolchain ex)) ''toolchain mismatch'' (
     need (rbind (item identity ''implementation_source_sha256'') (\<lambda>v. Inr (valid_digest v \<and> py_eq v (ex_source ex))))
       ''implementation source mismatch'' (
     need (both (rbind (item identity ''vehicle_sha256'') (\<lambda>v. Inr (valid_digest v)))
         (rbind (item identity ''sim_sha256'') (\<lambda>v. Inr (valid_digest v)))) ''invalid implementation digest'' (
     need (rbind (item identity ''command'') (\<lambda>v. Inr (nonempty_string v))) ''missing command'' (Inr ()))))))"

text \<open>The declared seeds and delays.\<close>

definition manifest_matrix :: "expectation \<Rightarrow> json \<Rightarrow> (int \<times> int) list result" where
  "manifest_matrix ex doc =
     need (item_is doc ''format'' (JString (if ex_canonical ex then ''tvc-campaign-1'' else ''tvc-campaign-candidate-1'')))
       ''wrong manifest class'' (
     need (item_is doc ''implementation'' (JString ''cpp-lockstep'')) ''wrong implementation'' (
     need (both (item_is doc ''scenario'' (JString ''S2-gust'')) (item_is doc ''scenario_sha256'' (ex_scenario ex)))
       ''wrong scenario identity'' (
     need (item_is doc ''identifiers'' IDENTIFIERS) ''wrong model identifiers'' (
     need (item_is doc ''loss'' CAMPAIGN_LOSS) ''wrong loss configuration'' (
     rbind (rbind (item doc ''seeds'') seed_range) (\<lambda>seeds.
     rbind (item doc ''delay_ticks'') (\<lambda>delays.
     ensure (delays_ok delays) ''invalid or duplicate delays'' (
     ensure (ex_full ex \<longrightarrow> seeds = [1..200] \<and> delay_ints delays = [0, 1]) ''full declared matrix required''
       (Inr (List.product seeds (delay_ints delays)))))))))))"

definition manifest_totals :: "json \<Rightarrow> int \<Rightarrow> int \<Rightarrow> bool result" where
  "manifest_totals doc wanted passed =
     rbind (item doc ''total'') (\<lambda>t. if \<not> is_int t then Inr False
     else rbind (item doc ''passed'') (\<lambda>p. Inr (p = JInt passed \<and> t = JInt wanted)))"

text \<open>\<open>validate_manifest\<close> without an artifact root.\<close>

definition manifest_body :: "expectation \<Rightarrow> json \<Rightarrow> unit result" where
  "manifest_body ex doc =
     rbind (manifest_matrix ex doc) (\<lambda>expected.
     rbind (manifest_identity ex doc) (\<lambda>_.
     rbind (item doc ''cases'') (\<lambda>cases.
     case list_of cases of
       None \<Rightarrow> Inl (ValueError ''missing cases'')
     | Some cs \<Rightarrow>
         rbind (check_cases (ex_pass ex) expected [] cs) (\<lambda>(seen, passed).
         ensure (set seen = set expected) ''missing case'' (
         need (manifest_totals doc (int (card (set expected))) passed) ''wrong aggregate'' (Inr ()))))))"

fun malformed :: "exn \<Rightarrow> exn" where
  "malformed (KeyError m) = ValueError ''malformed/incomplete manifest''"
| "malformed (TypeError m) = ValueError ''malformed/incomplete manifest''"
| "malformed e = e"

definition validate_manifest :: "expectation \<Rightarrow> json \<Rightarrow> unit result" where
  "validate_manifest ex doc = (case manifest_body ex doc of Inl e \<Rightarrow> Inl (malformed e) | Inr u \<Rightarrow> Inr u)"

section \<open>Goldens\<close>

definition GOLDEN_SCENARIOS :: "string list" where
  "GOLDEN_SCENARIOS = [''S1-hold'', ''S2-gust'', ''S3-kick'', ''S4-open'', ''S5-overgust'', ''S6-blackout'', ''S7-abort'', ''demo-loss30'']"

definition GOLDEN_DIGESTS :: "string list" where
  "GOLDEN_DIGESTS = [''sim_csv_sha256'', ''vehicle_csv_sha256'', ''inputs_sha256'', ''control_sha256'']"

definition OUTCOMES :: "(int \<times> string) list" where
  "OUTCOMES = [(1, ''stabilized''), (2, ''diverged''), (3, ''aborted''), (4, ''sensor lost''), (7, ''not settled'')]"

definition golden_seed :: "string \<Rightarrow> int" where
  "golden_seed name = (if name = ''demo-loss30'' then 20260902 else 1)"

fun all_digests :: "json \<Rightarrow> string list \<Rightarrow> bool result" where
  "all_digests e [] = Inr True"
| "all_digests e (k # ks) = rbind (item e k) (\<lambda>v. if valid_digest v then all_digests e ks else Inr False)"

definition golden_outcome :: "json \<Rightarrow> bool result" where
  "golden_outcome e =
     rbind (item e ''reason'') (\<lambda>r.
     case r of
       JInt n \<Rightarrow> (case map_of OUTCOMES n of None \<Rightarrow> Inr False | Some text_ \<Rightarrow> item_is e ''outcome'' (JString text_))
     | _ \<Rightarrow> Inr False)"

definition count_at :: "json \<Rightarrow> string \<Rightarrow> bool result" where
  "count_at e k = rbind (item e k) (\<lambda>v. Inr (case v of JInt n \<Rightarrow> 0 \<le> n | _ \<Rightarrow> False))"

text \<open>One golden entry; its name.\<close>

definition check_golden :: "json \<Rightarrow> string result" where
  "check_golden e =
     rbind (item e ''scenario'') (\<lambda>name.
     ensure (is_string name \<and> string_of name \<in> set GOLDEN_SCENARIOS) ''unexpected golden scenario'' (
     need (both (item_is e ''seed'' (JInt (golden_seed (string_of name)))) (item_is e ''delay_ticks'' (JInt 0)))
       ''wrong golden parameters'' (
     need (rbind (item e ''scenario_sha256'') (\<lambda>v. Inr (valid_digest v))) ''missing scenario digest'' (
     need (all_digests e GOLDEN_DIGESTS) ''incomplete golden digests'' (
     need (golden_outcome e) ''invalid golden outcome'' (
     need (both (count_at e ''reason_tick'') (count_at e ''consumed_ticks'')) ''invalid golden counts'' (Inr (string_of name))))))))"

fun check_goldens :: "json list \<Rightarrow> string list result" where
  "check_goldens [] = Inr []"
| "check_goldens (e # es) = rbind (check_golden e) (\<lambda>name. rbind (check_goldens es) (\<lambda>names. Inr (name # names)))"

text \<open>\<open>validate_goldens\<close> without an artifact root.\<close>

definition goldens_body :: "expectation \<Rightarrow> json \<Rightarrow> unit result" where
  "goldens_body ex doc =
     need (item_is doc ''format'' (JString (if ex_canonical ex then ''tvc-lockstep-goldens-1'' else ''tvc-lockstep-goldens-candidate-1'')))
       ''wrong golden class'' (
     rbind (rbind (item doc ''toolchain'') (\<lambda>t. check_toolchain t (ex_canonical ex))) (\<lambda>_.
     need (item_is doc ''toolchain'' (ex_toolchain ex)) ''golden toolchain mismatch'' (
     need (item_is doc ''implementation_source_sha256'' (ex_source ex)) ''golden source mismatch'' (
     rbind (item doc ''scenarios'') (\<lambda>scenarios.
     case list_of scenarios of
       None \<Rightarrow> Inl (ValueError ''missing golden scenarios'')
     | Some es \<Rightarrow>
         rbind (check_goldens es) (\<lambda>names.
         ensure (length names = length GOLDEN_SCENARIOS \<and> set names = set GOLDEN_SCENARIOS)
           ''missing or duplicate golden scenario'' (Inr ())))))))"

definition validate_goldens :: "expectation \<Rightarrow> json \<Rightarrow> unit result" where
  "validate_goldens ex doc = (case goldens_body ex doc of Inl e \<Rightarrow> Inl (malformed e) | Inr u \<Rightarrow> Inr u)"

section \<open>Destinations and metric words\<close>

datatype destination = Golden_manifest | Campaign_manifest | Elsewhere

definition check_destination :: "destination \<Rightarrow> bool \<Rightarrow> bool \<Rightarrow> int list \<Rightarrow> int list \<Rightarrow> unit result" where
  "check_destination path canon goldens seeds delays =
     (case path of
        Elsewhere \<Rightarrow> Inr ()
      | Golden_manifest \<Rightarrow>
          ensure canon ''candidate cannot occupy either authoritative path''
            (ensure goldens ''golden path requires golden evidence'' (Inr ()))
      | Campaign_manifest \<Rightarrow>
          ensure canon ''candidate cannot occupy either authoritative path''
            (ensure (\<not> goldens \<and> seeds = [1..200] \<and> delays = [0, 1]) ''campaign path requires full canonical matrix'' (Inr ())))"

definition bits_number :: "json \<Rightarrow> f64 result" where
  "bits_number bits =
     ensure (prefixed_hex ''0x'' 16 bits) ''invalid binary64 word'' (rbind (int_base16 bits) (\<lambda>n. Inr (word_of_int n)))"

definition bitword :: "f64 \<Rightarrow> string" where
  "bitword x = hex_word x"

section \<open>What an accepted manifest establishes\<close>

definition case_id :: "json \<Rightarrow> int \<times> int" where
  "case_id c = (int_of (get_key (entry c) ''seed''), int_of (get_key (entry c) ''delay_ticks''))"

lemma item_get: "item c k = Inr v \<Longrightarrow> get_key (entry c) k = v"
  by (auto simp: item_def get_key_def entry_def split: json.splits option.splits)

lemma pair_member_of: "pair_member p ps \<Longrightarrow> pair_of p \<in> set ps"
  by (cases "(p, ps)" rule: pair_member.cases) (auto simp: pair_of_def int_of_def)

lemma check_cases_spec:
  assumes "check_cases rp expected seen cs = Inr (seen', passed)" "distinct seen"
  shows "seen' = rev (map case_id cs) @ seen \<and> distinct seen' \<and> set (map case_id cs) \<subseteq> set expected \<and>
    list_all (\<lambda>c. \<exists>b. check_case rp c = Inr b) cs \<and> passed = int (length (filter (\<lambda>c. check_case rp c = Inr True) cs))"
  using assms
proof (induction cs arbitrary: seen seen' passed)
  case (Cons c cs)
  from Cons.prems(1) obtain p b passed1 where step: "case_pair c = Inr p" "pair_member p expected" "pair_of p \<notin> set seen"
    "check_case rp c = Inr b" "check_cases rp expected (pair_of p # seen) cs = Inr (seen', passed1)"
    "passed = passed1 + (if b then 1 else 0)"
    by (auto simp: rbind_eq_Inr ensure_eq_Inr)
  have "pair_of p = case_id c"
    using step(1) by (auto simp: case_pair_def rbind_eq_Inr pair_of_def case_id_def dest: item_get)
  note id = this
  have "distinct (pair_of p # seen)" using Cons.prems(2) step(3) by simp
  then have IH: "seen' = rev (map case_id cs) @ pair_of p # seen" "distinct seen'" "set (map case_id cs) \<subseteq> set expected"
    "list_all (\<lambda>c. \<exists>b. check_case rp c = Inr b) cs" "passed1 = int (length (filter (\<lambda>c. check_case rp c = Inr True) cs))"
    using Cons.IH [OF step(5)] by blast+
  have "seen' = rev (map case_id (c # cs)) @ seen" using IH(1) id by simp
  moreover have "set (map case_id (c # cs)) \<subseteq> set expected" using IH(3) pair_member_of [OF step(2)] id by simp
  moreover have "list_all (\<lambda>c. \<exists>b. check_case rp c = Inr b) (c # cs)" using IH(4) step(4) by simp
  moreover have "passed = int (length (filter (\<lambda>c. check_case rp c = Inr True) (c # cs)))"
    using IH(5) step(4,6) by simp
  ultimately show ?case using IH(2) by blast
qed simp

definition passing_case :: "json \<Rightarrow> bool" where
  "passing_case c \<longleftrightarrow>
     list_all (\<lambda>k. get_key (entry (get_key (entry c) ''clauses'')) k = JBool True) CLAUSES \<and>
     list_all (\<lambda>k. valid_digest (get_key (entry (get_key (entry c) ''digests'')) k)) ARTIFACTS \<and>
     get_key (entry c) ''sim_reason'' = JInt 1 \<and> get_key (entry c) ''vehicle_reason'' = JInt 1"

lemma get_key_member:
  assumes "k \<in> fst ` set d"
  shows "(k, get_key d k) \<in> set d"
proof -
  from assms have "map_of d k \<noteq> None" by (simp add: map_of_eq_None_iff)
  then show ?thesis by (auto simp: get_key_def dest: map_of_SomeD)
qed

lemma clauses_all_true:
  assumes "clauses_ok v" "list_all (truthy \<circ> snd) (entry v)"
  shows "list_all (\<lambda>k. get_key (entry v) k = JBool True) CLAUSES"
proof -
  have "get_key (entry v) k = JBool True" if "k \<in> set CLAUSES" for k
  proof -
    have m: "(k, get_key (entry v) k) \<in> set (entry v)" using assms(1) that by (intro get_key_member) (auto simp: clauses_ok_def)
    then have "is_bool (get_key (entry v) k)" "truthy (get_key (entry v) k)"
      using assms by (auto simp: clauses_ok_def list_all_iff)
    then show ?thesis by (auto simp: is_bool_def split: json.splits)
  qed
  then show ?thesis by (simp add: list_all_iff)
qed

lemma case_digests_valid:
  assumes "case_digests c = Inr True"
  shows "list_all (\<lambda>k. valid_digest (get_key (entry (get_key (entry c) ''digests'')) k)) ARTIFACTS"
proof -
  from assms obtain d where d: "item c ''digests'' = Inr d" "same_keys d ARTIFACTS = Inr True"
    "rbind (values_of d) (\<lambda>vs. Inr (list_all valid_digest vs)) = Inr True"
    by (auto simp: case_digests_def rbind_eq_Inr)
  from d(3) obtain e where e: "d = JObject e" "list_all valid_digest (map snd e)"
    by (auto simp: rbind_eq_Inr values_of_def split: json.splits)
  have "valid_digest (get_key e k)" if "k \<in> set ARTIFACTS" for k
  proof -
    have "(k, get_key e k) \<in> set e" using d(2) e(1) that by (intro get_key_member) (simp add: same_keys_def)
    then show ?thesis using e(2) by (auto simp: list_all_iff)
  qed
  then show ?thesis using item_get [OF d(1)] e(1) by (simp add: list_all_iff entry_def)
qed

lemma eligible_case_Inr:
  assumes "eligible_case rp c = Inr b"
  shows "\<exists>clauses sim vehicle. item c ''clauses'' = Inr clauses \<and> clauses_ok clauses \<and> case_digests c = Inr True \<and>
    item c ''sim_reason'' = Inr sim \<and> item c ''vehicle_reason'' = Inr vehicle \<and> b = list_all (truthy \<circ> snd) (entry clauses) \<and>
    (b \<longrightarrow> sim = JInt 1 \<and> vehicle = JInt 1) \<and> (rp \<longrightarrow> b)"
proof -
  note eligible = assms [unfolded eligible_case_def Let_def]
  obtain clauses where [simp]: "item c ''clauses'' = Inr clauses"
    using eligible by (cases "item c ''clauses''") simp_all
  obtain peak where [simp]: "item c ''peak_theta_bits'' = Inr peak"
    using eligible by (cases "item c ''peak_theta_bits''") (simp_all add: ensure_eq_Inr need_Inr)
  obtain omega where [simp]: "item c ''window_max_omega_bits'' = Inr omega"
    using eligible by (cases "item c ''window_max_omega_bits''") (simp_all add: ensure_eq_Inr need_Inr)
  obtain sim where [simp]: "item c ''sim_reason'' = Inr sim"
    using eligible by (cases "item c ''sim_reason''") (simp_all add: ensure_eq_Inr need_Inr)
  obtain vehicle where [simp]: "item c ''vehicle_reason'' = Inr vehicle"
    using eligible by (cases "item c ''vehicle_reason''") (simp_all add: ensure_eq_Inr need_Inr split: if_splits)
  show ?thesis using eligible by (simp add: ensure_eq_Inr need_Inr) blast
qed

lemma check_case_passing:
  assumes "check_case True c = Inr b"
  shows "b \<and> passing_case c"
proof -
  from assms obtain e where e: "item c ''eligible'' = Inr e" by (auto simp: check_case_def rbind_eq_Inr)
  have "e = JBool True"
  proof (cases e)
    case (JBool x)
    then show ?thesis using assms e by (cases x) (simp_all add: check_case_def ensure_def)
  qed (use assms e in \<open>simp_all add: check_case_def\<close>)
  then have "eligible_case True c = Inr b" using assms e by (simp add: check_case_def)
  from eligible_case_Inr [OF this] obtain clauses sim vehicle where c: "item c ''clauses'' = Inr clauses \<and> clauses_ok clauses \<and>
    case_digests c = Inr True \<and> item c ''sim_reason'' = Inr sim \<and> item c ''vehicle_reason'' = Inr vehicle \<and>
    b = list_all (truthy \<circ> snd) (entry clauses) \<and> (b \<longrightarrow> sim = JInt 1 \<and> vehicle = JInt 1) \<and> (True \<longrightarrow> b)"
    by (elim exE) (rule that)
  then have facts: "item c ''clauses'' = Inr clauses" "clauses_ok clauses" "case_digests c = Inr True" "b"
    "item c ''sim_reason'' = Inr (JInt 1)" "item c ''vehicle_reason'' = Inr (JInt 1)" "list_all (truthy \<circ> snd) (entry clauses)"
    by auto
  show ?thesis
    using clauses_all_true [OF facts(2,7)] case_digests_valid [OF facts(3)] facts(1,4,5,6)
    by (simp add: passing_case_def item_get)
qed

text \<open>C10. An accepted manifest of the full canonical campaign accounts for every declared case: its 400 cases are each seed
  from 1 to 200 with each delay exactly once, in every one all five acceptance clauses hold, both owners report a stabilized end and the four artifacts
  have digests, and the totals it reports are the 400 cases, all passed.\<close>

theorem manifest_complete:
  assumes "validate_manifest ex doc = Inr ()" "ex_full ex" "ex_pass ex"
  shows "\<exists>cs. item doc ''cases'' = Inr (JList cs) \<and> length cs = 400 \<and> distinct (map case_id cs) \<and>
    set (map case_id cs) = {1..200} \<times> {0, 1} \<and> list_all passing_case cs \<and>
    item doc ''total'' = Inr (JInt 400) \<and> item doc ''passed'' = Inr (JInt 400)"
proof -
  have "manifest_body ex doc = Inr ()" using assms(1) by (simp add: validate_manifest_def split: sum.splits)
  then obtain expected cases cs seen passed where m: "manifest_matrix ex doc = Inr expected" "item doc ''cases'' = Inr cases"
    "list_of cases = Some cs" "check_cases True expected [] cs = Inr (seen, passed)" "set seen = set expected"
    "manifest_totals doc (int (card (set expected))) passed = Inr True"
    using assms(3) by (auto simp: manifest_body_def rbind_eq_Inr ensure_eq_Inr need_Inr split: option.splits)
  have cases: "item doc ''cases'' = Inr (JList cs)" using m(2,3) by (auto simp: list_of_def split: json.splits)
  have "set expected = {1..200} \<times> {0, 1}"
    using m(1) assms(2) by (auto simp: manifest_matrix_def rbind_eq_Inr ensure_eq_Inr need_Inr)
  note spec = check_cases_spec [OF m(4) distinct.simps(1) [THEN iffD2, OF TrueI]]
  have ids: "distinct (map case_id cs)" "set (map case_id cs) = {1..200} \<times> {0, 1}"
    using spec m(5) \<open>set expected = _\<close> by auto
  have card: "card ({1..200 :: int} \<times> {0, 1 :: int}) = 400" by simp
  have len: "length cs = 400" using distinct_card [OF ids(1)] ids(2) card by simp
  have pass: "list_all (\<lambda>c. check_case True c = Inr True \<and> passing_case c) cs"
    using spec check_case_passing by (fastforce simp: list_all_iff)
  then have "filter (\<lambda>c. check_case True c = Inr True) cs = cs" by (simp add: filter_id_conv list_all_iff)
  then have "passed = 400" using spec len by simp
  with m(6) card \<open>set expected = _\<close> have "item doc ''total'' = Inr (JInt 400)" "item doc ''passed'' = Inr (JInt 400)"
    by (auto simp: manifest_totals_def rbind_eq_Inr split: if_splits)
  with cases len ids pass show ?thesis by (auto simp: list_all_iff)
qed

definition example_hex :: "nat \<Rightarrow> string" where
  "example_hex n = replicate n CHR ''0''"

definition example_case :: "int \<times> int \<Rightarrow> json" where
  "example_case p = JObject [(''seed'', JInt (fst p)), (''delay_ticks'', JInt (snd p)), (''eligible'', JBool True),
     (''clauses'', JObject (map (\<lambda>k. (k, JBool True)) CLAUSES)),
     (''digests'', JObject (map (\<lambda>k. (k, JString (example_hex 64))) ARTIFACTS)),
     (''peak_theta_bits'', JString (''0x'' @ example_hex 16)), (''window_max_omega_bits'', JString (''0x'' @ example_hex 16)),
     (''sim_reason'', JInt 1), (''vehicle_reason'', JInt 1)]"

definition example_toolchain :: json where
  "example_toolchain = JObject ([(''platform'', JString ''linux/amd64''), (''machine'', JString ''x86_64''),
     (''environment_sha256'', JString (example_hex 64)), (''lane'', JString ''canonical''),
     (''image'', JString (''ghcr.io/mamadou-wane/tvc-gold@sha256:'' @ example_hex 64))] @
     map (\<lambda>k. (k, JString ''1'')) [''gxx'', ''python'', ''cmake'', ''libc'', ''google_crc32c''])"

definition example_manifest :: json where
  "example_manifest = JObject [(''format'', JString ''tvc-campaign-1''), (''implementation'', JString ''cpp-lockstep''),
     (''scenario'', JString ''S2-gust''), (''scenario_sha256'', JString (example_hex 64)), (''identifiers'', IDENTIFIERS),
     (''loss'', CAMPAIGN_LOSS), (''seeds'', JString ''1-200''), (''delay_ticks'', JList [JInt 0, JInt 1]),
     (''cases'', JList (map example_case (List.product [1..200] [0, 1]))), (''passed'', JInt 400), (''total'', JInt 400),
     (''run_identity'', JObject [(''implementation_source_sha256'', JString (example_hex 64)),
        (''vehicle_sha256'', JString (example_hex 64)), (''sim_sha256'', JString (example_hex 64)),
        (''toolchain'', example_toolchain), (''command'', JString ''run'')])]"

definition example_expectation :: expectation where
  "example_expectation = \<lparr>ex_source = JString (example_hex 64), ex_toolchain = example_toolchain,
     ex_scenario = JString (example_hex 64), ex_full = True, ex_canonical = True, ex_pass = True\<rparr>"

lemma hex_string_example [simp]: "hex_string n (example_hex n)"
  by (induction n) (simp_all add: hex_string_def example_hex_def hex_lower_def)

lemma valid_digest_example [simp]: "valid_digest (JString (example_hex 64))"
  by (simp add: valid_digest_def is_string_def string_of_def)

lemma prefixed_hex_example [simp]: "prefixed_hex p n (JString (p @ example_hex n))"
  by (simp add: prefixed_hex_def is_string_def string_of_def)

lemma check_example_case: "check_case True (example_case p) = Inr True"
proof -
  have "case_digests (example_case p) = Inr True"
    by (simp add: case_digests_def example_case_def item_def same_keys_def values_of_def ARTIFACTS_def)
  moreover have "clauses_ok (JObject (map (\<lambda>k. (k, JBool True)) CLAUSES))"
    by (simp add: clauses_ok_def is_object_def entry_def CLAUSES_def is_bool_def)
  ultimately show ?thesis
    using prefixed_hex_example [of "''0x''" 16]
    by (simp add: check_case_def eligible_case_def example_case_def item_def is_int_def ensure_def entry_def CLAUSES_def)
qed

lemma case_pair_example: "case_pair (example_case p) = Inr (JInt (fst p), JInt (snd p))"
  by (simp add: case_pair_def example_case_def item_def)

lemma check_example_cases:
  "distinct ps \<Longrightarrow> set ps \<subseteq> set expected \<Longrightarrow> set ps \<inter> set seen = {} \<Longrightarrow>
   check_cases True expected seen (map example_case ps) = Inr (rev ps @ seen, int (length ps))"
  by (induction ps arbitrary: seen) (auto simp: case_pair_example check_example_case ensure_def pair_of_def int_of_def)

lemma py_eq_hex [simp]: "py_eq (JString s) (JString s)"
  by simp

lemma example_toolchain_ok: "check_toolchain example_toolchain True = Inr ()" "py_eq example_toolchain example_toolchain"
proof -
  have get: "get_key (entry example_toolchain) ''environment_sha256'' = JString (example_hex 64)"
    "get_key (entry example_toolchain) ''image'' = JString (''ghcr.io/mamadou-wane/tvc-gold@sha256:'' @ example_hex 64)"
    "get_key (entry example_toolchain) ''lane'' = JString ''canonical''"
    "get_key (entry example_toolchain) ''platform'' = JString ''linux/amd64''"
    "get_key (entry example_toolchain) ''machine'' = JString ''x86_64''"
    by (simp_all add: example_toolchain_def entry_def get_key_def)
  have "is_object example_toolchain" by (simp add: example_toolchain_def is_object_def)
  moreover have "list_all (\<lambda>k. nonempty_string (get_key (entry example_toolchain) k)) TOOLCHAIN_KEYS"
    by (simp add: example_toolchain_def entry_def get_key_def TOOLCHAIN_KEYS_def nonempty_string_def is_string_def string_of_def
        example_hex_def)
  ultimately show "check_toolchain example_toolchain True = Inr ()"
    by (simp only: check_toolchain_def get Let_def valid_digest_example prefixed_hex_example ensure_def simp_thms if_True)
  show "py_eq example_toolchain example_toolchain" by (simp add: example_toolchain_def)
qed

lemma example_seed_range: "seed_range (JString ''1-200'') = Inr [1..200]"
proof -
  have split: "split_on CHR ''-'' ''1-200'' = [''1'', ''200'']" by code_simp
  have "seed_parts ''1-200''" "parse_ints [''1'', ''200''] = Inr [1, 200]" by code_simp+
  then show ?thesis by (simp add: seed_range_def is_string_def string_of_def split ensure_def)
qed

lemma example_matrix: "manifest_matrix example_expectation example_manifest = Inr (List.product [1..200] [0, 1])"
proof -
  have get: "item example_manifest ''format'' = Inr (JString ''tvc-campaign-1'')"
    "item example_manifest ''implementation'' = Inr (JString ''cpp-lockstep'')"
    "item example_manifest ''scenario'' = Inr (JString ''S2-gust'')"
    "item example_manifest ''scenario_sha256'' = Inr (JString (example_hex 64))"
    "item example_manifest ''identifiers'' = Inr IDENTIFIERS" "item example_manifest ''loss'' = Inr CAMPAIGN_LOSS"
    "item example_manifest ''seeds'' = Inr (JString ''1-200'')"
    "item example_manifest ''delay_ticks'' = Inr (JList [JInt 0, JInt 1])"
    by (simp_all add: example_manifest_def item_def)
  have "py_eq IDENTIFIERS IDENTIFIERS" by (simp add: IDENTIFIERS_def)
  moreover have "py_eq CAMPAIGN_LOSS CAMPAIGN_LOSS" by code_simp
  ultimately show ?thesis
    by (simp add: manifest_matrix_def item_is_def get example_seed_range example_expectation_def delays_ok_def delay_ints_def both_def
        ensure_def int_of_def)
qed

lemma example_identity: "manifest_identity example_expectation example_manifest = Inr ()"
proof -
  obtain identity where id: "item example_manifest ''run_identity'' = Inr identity"
    "item identity ''toolchain'' = Inr example_toolchain" "item identity ''command'' = Inr (JString ''run'')"
    "list_all (\<lambda>k. item identity k = Inr (JString (example_hex 64))) [''implementation_source_sha256'', ''vehicle_sha256'', ''sim_sha256'']"
    by (simp add: example_manifest_def item_def)
  then show ?thesis
    by (simp add: manifest_identity_def example_expectation_def example_toolchain_ok item_is_def ensure_def both_def nonempty_string_def
        is_string_def string_of_def)
qed

lemma example_manifest_valid: "validate_manifest example_expectation example_manifest = Inr ()"
proof -
  have product: "distinct (List.product [1..200 :: int] [0, 1 :: int])" "set (List.product [1..200 :: int] [0, 1 :: int]) = {1..200} \<times> {0, 1}"
    by (simp_all add: distinct_product)
  have get: "item example_manifest ''cases'' = Inr (JList (map example_case (List.product [1..200] [0, 1])))"
    "item example_manifest ''passed'' = Inr (JInt 400)" "item example_manifest ''total'' = Inr (JInt 400)"
    by (simp_all add: example_manifest_def item_def)
  have "check_cases True (List.product [1..200] [0, 1]) [] (map example_case (List.product [1..200] [0, 1])) =
      Inr (rev (List.product [1..200] [0, 1]) @ [], int (length (List.product [1..200 :: int] [0, 1 :: int])))"
    by (rule check_example_cases) (use product in auto)
  moreover have "length (List.product [1..200 :: int] [0, 1 :: int]) = 400" by (simp add: length_product)
  ultimately have cases: "check_cases True (List.product [1..200] [0, 1]) [] (map example_case (List.product [1..200] [0, 1])) =
      Inr (rev (List.product [1..200] [0, 1]), 400)" by simp
  have "ex_pass example_expectation" by (simp add: example_expectation_def)
  with cases show ?thesis
    by (simp add: validate_manifest_def manifest_body_def example_matrix example_identity get list_of_def manifest_totals_def
        is_int_def ensure_def del: product.simps)
qed

theorem manifest_complete_witness:
  "\<exists>cs. item example_manifest ''cases'' = Inr (JList cs) \<and> length cs = 400 \<and> distinct (map case_id cs) \<and>
    set (map case_id cs) = {1..200} \<times> {0, 1} \<and> list_all passing_case cs \<and>
    item example_manifest ''total'' = Inr (JInt 400) \<and> item example_manifest ''passed'' = Inr (JInt 400)"
  by (rule manifest_complete [OF example_manifest_valid]) (simp_all add: example_expectation_def)

section \<open>The identity of the sources\<close>

lemma ascii_inj: "ascii s = ascii t \<Longrightarrow> s = t"
proof -
  have step: "c = d" if "(word_of_nat (of_char c) :: byte) = word_of_nat (of_char d)" for c d :: char
  proof -
    from that have "(of_char c :: nat) mod 256 = of_char d mod 256" by (metis unat_byte)
    then show ?thesis by simp
  qed
  show "s = t" if "ascii s = ascii t"
    using that unfolding ascii_def by (induction s t rule: list_induct2') (auto dest: step)
qed

lemma framed_Inr: "framed d = Inr x \<longleftrightarrow> length d < 2 ^ 64 \<and> x = le_bytes 8 (length d) @ d"
  by (auto simp: framed_def pack_u64_def)

lemma framed_nonempty: "framed d = Inr x \<Longrightarrow> x \<noteq> []"
  by (auto simp: framed_Inr dest: arg_cong [of _ _ length])

text \<open>A framed block starts with its length, so a concatenation of framed blocks splits in one way only.\<close>

lemma framed_unique:
  assumes "framed d = Inr x" "framed d' = Inr x'" "x @ r = x' @ r'"
  shows "d = d' \<and> r = r'"
proof -
  from assms have eq: "le_bytes 8 (length d) @ d @ r = le_bytes 8 (length d') @ d' @ r'"
    and small: "length d < 2 ^ 64" "length d' < 2 ^ 64" by (simp_all add: framed_Inr)
  have heads: "le_bytes 8 (length d) = le_bytes 8 (length d')" and tails: "d @ r = d' @ r'"
    using eq by simp_all
  have "length d mod 256 ^ 8 = length d' mod 256 ^ 8" using arg_cong [OF heads, of le_nat] by (simp only: le_nat_le_bytes)
  then have "length d = length d'" using small by simp
  with tails show ?thesis by simp
qed

lemma hash_input_unique:
  assumes "hash_input f ps = Inr bytes" "hash_input g qs = Inr bytes"
  shows "ps = qs \<and> list_all (\<lambda>p. f p \<noteq> None \<and> f p = g p) ps"
  using assms
proof (induction ps arbitrary: qs bytes)
  case Nil
  then show ?case by (cases qs) (auto simp: ensure_eq_Inr rbind_eq_Inr dest: framed_nonempty split: option.splits)
next
  case (Cons p ps)
  from Cons.prems(1) obtain data a b rest where p: "f p = Some data" "framed (ascii p) = Inr a" "framed data = Inr b"
    "hash_input f ps = Inr rest" "bytes = a @ b @ rest"
    by (auto simp: ensure_eq_Inr rbind_eq_Inr split: option.splits)
  have "qs \<noteq> []" using framed_nonempty [OF p(2)] p(5) Cons.prems(2) by auto
  then obtain q qs' where [simp]: "qs = q # qs'" by (cases qs) auto
  from Cons.prems(2) obtain data' a' b' rest' where q: "g q = Some data'" "framed (ascii q) = Inr a'" "framed data' = Inr b'"
    "hash_input g qs' = Inr rest'" "bytes = a' @ b' @ rest'"
    by (auto simp: ensure_eq_Inr rbind_eq_Inr split: option.splits)
  have 1: "ascii p = ascii q \<and> b @ rest = b' @ rest'" using framed_unique [OF p(2) q(2), of "b @ rest" "b' @ rest'"] p(5) q(5) by simp
  have 2: "data = data' \<and> rest = rest'" using framed_unique [OF p(3) q(3), of rest rest'] 1 by simp
  have "ps = qs' \<and> list_all (\<lambda>p. f p \<noteq> None \<and> f p = g p) ps" using Cons.IH [OF p(4), of qs'] q(4) 2 by blast
  moreover have "p = q" using 1 ascii_inj by blast
  ultimately show ?case using 2 p(1) q(1) by auto
qed

lemma sort_key_ascii_perm: "mset ps = mset qs \<Longrightarrow> sort_key ascii ps = sort_key ascii qs"
proof -
  assume "mset ps = mset qs"
  then have "sort (map ascii ps) = map ascii (sort_key ascii qs)" by (intro properties_for_sort) simp_all
  moreover have "sort (map ascii ps) = map ascii (sort_key ascii ps)" by (intro properties_for_sort) simp_all
  ultimately show ?thesis using ascii_inj by (metis injI inj_map_eq_map)
qed

text \<open>The order in which the sources are listed does not matter.\<close>

lemma hash_files_permuted:
  assumes "mset ps = mset qs"
  shows "hash_files sha f ps = hash_files sha f qs"
  using sort_key_ascii_perm [OF assms] mset_eq_imp_distinct_iff [OF assms] by (simp add: hash_files_def)

text \<open>C25. The source digest identifies the sources: two lists of paths that are hashed from the same bytes name the same
  files with the same contents, whatever the order in which they are listed.\<close>

theorem source_identity:
  assumes "hash_input f (sort_key ascii ps) = Inr bytes" "hash_input g (sort_key ascii qs) = Inr bytes"
  shows "set ps = set qs \<and> list_all (\<lambda>p. f p \<noteq> None \<and> f p = g p) ps \<and> length ps = length qs"
proof -
  have "sort_key ascii ps = sort_key ascii qs" "list_all (\<lambda>p. f p \<noteq> None \<and> f p = g p) (sort_key ascii ps)"
    using hash_input_unique [OF assms] by blast+
  note same = this
  have "set ps = set qs" "length ps = length qs"
    using arg_cong [OF same(1), of set] arg_cong [OF same(1), of length] by simp_all
  moreover have "list_all (\<lambda>p. f p \<noteq> None \<and> f p = g p) ps" using same(2) unfolding list_all_iff set_sort .
  ultimately show ?thesis by blast
qed

theorem source_identity_witness:
  "set [''b'', ''a''] = set [''a'', ''b''] \<and>
   list_all (\<lambda>p. Some (ascii p) \<noteq> None \<and> Some (ascii p) = Some (ascii p)) [''b'', ''a''] \<and> length [''b'', ''a''] = length [''a'', ''b'']"
proof -
  obtain bytes where "hash_input (Some \<circ> ascii) (sort_key ascii [''a'', ''b'']) = Inr bytes"
    by (simp add: ensure_def framed_def pack_u64_def ascii_def insort_key.simps split_on.simps)
  moreover from this have "hash_input (Some \<circ> ascii) (sort_key ascii [''b'', ''a'']) = Inr bytes"
    using sort_key_ascii_perm [of "[''a'', ''b'']" "[''b'', ''a'']"] by simp
  ultimately show ?thesis using source_identity [of "Some \<circ> ascii" "[''b'', ''a'']" bytes "Some \<circ> ascii" "[''a'', ''b'']"] by simp
qed

lemma check_cases_raises:
  assumes "check_cases require_pass expected seen good = Inr (seen', passed)"
    and "case_pair c = Inr p" "pair_member p expected" "pair_of p \<notin> set seen'" "check_case require_pass c = Inl e"
  shows "check_cases require_pass expected seen (good @ c # rest) = Inl e"
  using assms by (induction good arbitrary: seen seen' passed) (auto simp: rbind_eq_Inr ensure_eq_Inr)

lemma listed_digests_raise:
  assumes "item c ''digests'' = Inr (JList xs)" "list_all is_string xs" "string_of ` set xs = set ARTIFACTS"
  shows "case_digests c = Inl (AttributeError ''values'')"
proof -
  have "list_all hashable xs" using assms(2) by (auto simp: list_all_iff is_string_def hashable_def split: json.splits)
  then show ?thesis using assms by (simp add: case_digests_def same_keys_def values_of_def both_def)
qed

text \<open>C40. In a manifest whose matrix and identity are accepted, let the first cases be accepted and the next one be an eligible,
  expected case with well-formed clauses whose \<open>digests\<close> is a list, of the artifact names in any order and with any
  repetition. It passes the inventory test and then has no values to iterate: whatever follows, the manifest is not reported as
  malformed, the exception of the missing method escapes.\<close>

theorem manifest_escapes:
  assumes "manifest_matrix ex doc = Inr expected" "manifest_identity ex doc = Inr ()"
    and "item doc ''cases'' = Inr (JList (accepted @ c # rest))"
    and "check_cases (ex_pass ex) expected [] accepted = Inr (seen, passed)"
    and "case_pair c = Inr p" "pair_member p expected" "pair_of p \<notin> set seen"
    and "item c ''eligible'' = Inr (JBool True)" "item c ''clauses'' = Inr clauses" "clauses_ok clauses"
    and "item c ''digests'' = Inr (JList xs)" "list_all is_string xs" "string_of ` set xs = set ARTIFACTS"
  shows "validate_manifest ex doc = Inl (AttributeError ''values'')"
proof -
  have "check_case (ex_pass ex) c = Inl (AttributeError ''values'')"
    using assms(8-10) listed_digests_raise [OF assms(11-13)] by (simp add: check_case_def eligible_case_def ensure_def need_def)
  from check_cases_raises [OF assms(4-7) this] show ?thesis
    using assms(1-3) by (simp add: validate_manifest_def manifest_body_def list_of_def)
qed

definition listed_case :: "int \<times> int \<Rightarrow> json" where
  "listed_case p = JObject [(''seed'', JInt (fst p)), (''delay_ticks'', JInt (snd p)), (''eligible'', JBool True),
     (''clauses'', JObject (map (\<lambda>k. (k, JBool True)) CLAUSES)), (''digests'', JList (map JString ARTIFACTS))]"

definition with_cases :: "json list \<Rightarrow> json \<Rightarrow> json" where
  "with_cases cs doc = JObject ((''cases'', JList cs) # entry doc)"

theorem manifest_escapes_witness:
  "validate_manifest example_expectation (with_cases [example_case (1, 0), listed_case (1, 1)] example_manifest) =
     Inl (AttributeError ''values'')"
proof -
  let ?doc = "with_cases [example_case (1, 0), listed_case (1, 1)] example_manifest" and ?pairs = "List.product [1..200 :: int] [0, 1 :: int]"
  have same: "item ?doc k = item example_manifest k" if "k \<noteq> ''cases''" for k
    using that by (auto simp: with_cases_def item_def example_manifest_def entry_def)
  have pass: "ex_pass example_expectation" by (simp add: example_expectation_def)
  show ?thesis
  proof (rule manifest_escapes)
    show "manifest_matrix example_expectation ?doc = Inr ?pairs"
      using example_matrix by (simp add: manifest_matrix_def item_is_def same del: product.simps)
    show "manifest_identity example_expectation ?doc = Inr ()" using example_identity by (simp add: manifest_identity_def same)
    show "item ?doc ''cases'' = Inr (JList ([example_case (1, 0)] @ listed_case (1, 1) # []))" by (simp add: with_cases_def item_def)
    show "check_cases (ex_pass example_expectation) ?pairs [] [example_case (1, 0)] = Inr ([(1, 0)], 1)"
      using check_example_cases [of "[(1, 0)]" ?pairs "[]"] pass by (simp del: product.simps)
    show "case_pair (listed_case (1, 1)) = Inr (JInt 1, JInt 1)" by (simp add: case_pair_def listed_case_def item_def)
    show "pair_member (JInt 1, JInt 1) ?pairs" by simp
    show "pair_of (JInt 1, JInt 1) \<notin> set [(1, 0)]" by (simp add: pair_of_def int_of_def)
    show "item (listed_case (1, 1)) ''eligible'' = Inr (JBool True)"
      "item (listed_case (1, 1)) ''clauses'' = Inr (JObject (map (\<lambda>k. (k, JBool True)) CLAUSES))"
      "item (listed_case (1, 1)) ''digests'' = Inr (JList (map JString ARTIFACTS))" by (simp_all add: listed_case_def item_def)
    show "clauses_ok (JObject (map (\<lambda>k. (k, JBool True)) CLAUSES))"
      by (simp add: clauses_ok_def is_object_def entry_def CLAUSES_def is_bool_def)
    show "list_all is_string (map JString ARTIFACTS)" "string_of ` set (map JString ARTIFACTS) = set ARTIFACTS"
      by (auto simp: list_all_iff is_string_def string_of_def image_image)
  qed
qed

section \<open>What accepted goldens establish\<close>


definition golden_name :: "json \<Rightarrow> string" where
  "golden_name e = string_of (get_key (entry e) ''scenario'')"

definition golden_complete :: "json \<Rightarrow> bool" where
  "golden_complete e \<longleftrightarrow> list_all (\<lambda>k. valid_digest (get_key (entry e) k)) (''scenario_sha256'' # GOLDEN_DIGESTS) \<and>
     (case get_key (entry e) ''reason'' of JInt n \<Rightarrow>
        (case map_of OUTCOMES n of None \<Rightarrow> False | Some t \<Rightarrow> get_key (entry e) ''outcome'' = JString t) | _ \<Rightarrow> False)"

lemma all_digests_valid: "all_digests e ks = Inr True \<Longrightarrow> list_all (\<lambda>k. valid_digest (get_key (entry e) k)) ks"
  by (induction ks) (auto simp: rbind_eq_Inr dest: item_get split: if_splits)

lemma py_eq_string: "py_eq v (JString s) \<Longrightarrow> v = JString s"
  by (cases v) simp_all

lemma check_golden_Inr:
  assumes "check_golden e = Inr name"
  shows "name = golden_name e \<and> name \<in> set GOLDEN_SCENARIOS \<and> golden_complete e"
proof -
  from assms obtain v where v: "item e ''scenario'' = Inr v" "name = string_of v" "name \<in> set GOLDEN_SCENARIOS"
    "rbind (item e ''scenario_sha256'') (\<lambda>v. Inr (valid_digest v)) = Inr True" "all_digests e GOLDEN_DIGESTS = Inr True"
    "golden_outcome e = Inr True"
    by (auto simp: check_golden_def rbind_eq_Inr ensure_eq_Inr need_Inr)
  have "name = golden_name e" using v(1,2) by (simp add: golden_name_def item_get)
  moreover have "valid_digest (get_key (entry e) ''scenario_sha256'')" using v(4) by (auto simp: rbind_eq_Inr dest: item_get)
  moreover obtain r where r: "item e ''reason'' = Inr r" using v(6) by (auto simp: golden_outcome_def rbind_eq_Inr)
  then obtain n t where "r = JInt n" "map_of OUTCOMES n = Some t" "item_is e ''outcome'' (JString t) = Inr True"
    using v(6) by (cases r) (simp_all add: golden_outcome_def split: option.splits)
  then have "get_key (entry e) ''reason'' = JInt n" "map_of OUTCOMES n = Some t" "get_key (entry e) ''outcome'' = JString t"
    using item_get [OF r] by (auto simp: item_is_def rbind_eq_Inr dest: item_get py_eq_string)
  ultimately show ?thesis using v(3) all_digests_valid [OF v(5)] by (simp add: golden_complete_def)
qed

lemma check_goldens_Inr:
  "check_goldens es = Inr names \<Longrightarrow> names = map golden_name es \<and> list_all golden_complete es"
  by (induction es arbitrary: names) (auto simp: rbind_eq_Inr dest: check_golden_Inr)

text \<open>Accepted goldens name the eight scenarios once each, every one with its four artifact digests and the outcome text of its
  terminal reason.\<close>

lemma goldens_complete:
  assumes "validate_goldens ex doc = Inr ()"
  shows "\<exists>es. item doc ''scenarios'' = Inr (JList es) \<and> mset (map golden_name es) = mset GOLDEN_SCENARIOS \<and>
    list_all golden_complete es"
proof -
  have "goldens_body ex doc = Inr ()" using assms by (simp add: validate_goldens_def split: sum.splits)
  then obtain v es names where g: "item doc ''scenarios'' = Inr v" "list_of v = Some es" "check_goldens es = Inr names"
    "length names = length GOLDEN_SCENARIOS" "set names = set GOLDEN_SCENARIOS"
    by (auto simp: goldens_body_def rbind_eq_Inr ensure_eq_Inr need_Inr split: option.splits)
  have "distinct GOLDEN_SCENARIOS" by (simp add: GOLDEN_SCENARIOS_def)
  then have "distinct names" using g(4,5) by (metis card_distinct distinct_card)
  with \<open>distinct GOLDEN_SCENARIOS\<close> g(5) have "mset names = mset GOLDEN_SCENARIOS" by (simp add: set_eq_iff_mset_eq_distinct)
  moreover have "v = JList es" using g(2) by (auto simp: list_of_def split: json.splits)
  ultimately show ?thesis using check_goldens_Inr [OF g(3)] g(1) by simp
qed

end
