(* ===== verification/Twin.thy ===== *)
theory Twin
  imports Campaign
begin

text \<open>
  The two executions of a scenario and the text of their rows: the lockstep run whose vehicle answers as the reference policy
  does has the rows of \<open>run_headless\<close>, and the CSV that \<open>scripts/golden_csv.py\<close> makes of its report is the CSV of the reference
  trace (\<open>sim/trace.py\<close>).
\<close>

section \<open>CSV text (scripts/golden_csv.py, sim/trace.py)\<close>

fun join :: "string \<Rightarrow> string list \<Rightarrow> string" where
  "join sep [] = []"
| "join sep [s] = s"
| "join sep (s # t # ss) = s @ sep @ join sep (t # ss)"

definition newline :: string where "newline = [CHR 0x0A]"

definition bit_text :: "bool \<Rightarrow> string" where
  "bit_text b = dec_int (if b then 1 else 0)"

definition SIM_COLUMNS :: "string list" where
  "SIM_COLUMNS = [''tick'', ''has_sample'', ''applied'', ''theta_bits'', ''omega_bits'', ''cmd_applied_bits'']"

definition trace_line :: "row \<Rightarrow> string" where
  "trace_line r =
     join '','' ([dec_int (row_tick r), bit_text (row_fresh r), bit_text (row_arriving r \<noteq> None)] @
       map hex_word [truth_theta (row_truth r), truth_omega (row_truth r), applied (row_actuator r)])"

definition to_sim_csv :: "trace \<Rightarrow> string" where
  "to_sim_csv tr =
     join newline (''tick,has_sample,applied,theta_bits,omega_bits,cmd_applied_bits'' # map trace_line (tr_rows tr)) @ newline"

text \<open>\<open>str(v)\<close>; \<open>text_of\<close> stands for the kinds that a row does not hold.\<close>

fun str_json :: "(json \<Rightarrow> string) \<Rightarrow> json \<Rightarrow> string" where
  "str_json text_of (JInt n) = dec_int n"
| "str_json text_of (JString s) = s"
| "str_json text_of v = text_of v"

fun cells :: "(json \<Rightarrow> string) \<Rightarrow> json \<Rightarrow> string list \<Rightarrow> string list result" where
  "cells text_of r [] = Inr []"
| "cells text_of r (k # ks) =
     rbind (item r k) (\<lambda>v. rbind (cells text_of r ks) (\<lambda>cs. Inr (str_json text_of v # cs)))"

fun sim_lines :: "(json \<Rightarrow> string) \<Rightarrow> json list \<Rightarrow> string result" where
  "sim_lines text_of [] = Inr []"
| "sim_lines text_of (r # rs) =
     rbind (cells text_of r SIM_COLUMNS) (\<lambda>cs. rbind (sim_lines text_of rs) (\<lambda>t. Inr (join '','' cs @ newline @ t)))"

definition sim_csv :: "(json \<Rightarrow> string) \<Rightarrow> json list \<Rightarrow> string result" where
  "sim_csv text_of rows = rbind (sim_lines text_of rows) (\<lambda>t. Inr (join '','' SIM_COLUMNS @ newline @ t))"

text \<open>Control records by their fields; timestamps are left out.\<close>

definition vehicle_line :: "fields \<Rightarrow> string" where
  "vehicle_line F =
     join '','' (map (\<lambda>k. dec_int (int_at F k)) [''tick'', ''state'', ''reason'', ''sensor_tick'', ''staleness''] @
       [dec_int (int_at F ''flags'' AND 0x1D)] @ map (\<lambda>k. hex_word (flt_at F k)) [''theta'', ''omega'', ''cmd'', ''i_state'', ''d_prev''])"

definition vehicle_csv :: "fields list \<Rightarrow> string" where
  "vehicle_csv records =
     join newline (''tick,state,reason,sensor_tick,staleness,ladder,theta_bits,omega_bits,cmd_bits,i_state_bits,d_prev_bits'' #
       map vehicle_line records) @ newline"

definition harness_line :: "fields \<Rightarrow> string" where
  "harness_line F = join '','' ([dec_int (int_at F ''tick'')] @ map (\<lambda>k. hex_word (flt_at F k)) [''theta'', ''cmd''])"

definition harness_csv :: "fields list \<Rightarrow> string" where
  "harness_csv records = join newline (''tick,theta,cmd'' # map harness_line records) @ newline"

section \<open>The vehicle of a lockstep run\<close>

text \<open>A reply of the reference policy: the command of its row and, in its status, the mode.\<close>

definition answers :: "row \<Rightarrow> reply \<Rightarrow> bool" where
  "answers r a \<longleftrightarrow> rp_delta a = out_delta (row_episode r) \<and>
     rp_status a mod 256 = int (mode_value (ep_mode (out_state (row_episode r))))"

definition lrow_of :: "row \<Rightarrow> lrow" where
  "lrow_of r = \<lparr>lr_tick = row_tick r, lr_has_sample = row_fresh r, lr_applied = (row_arriving r \<noteq> None),
     lr_theta = truth_theta (row_truth r), lr_omega = truth_omega (row_truth r), lr_cmd_applied = applied (row_actuator r)\<rparr>"

definition logic_at :: "hl_state \<Rightarrow> logic" where
  "logic_at s = \<lparr>lg_up = hl_up s, lg_down = hl_down s, lg_truth = hl_truth s, lg_act = hl_act s, lg_delay = hl_delay s,
     lg_pending = hl_pending s\<rparr>"

lemma losses_at:
  "hl_drops sc t s = Inr (u, d, up, down) \<Longrightarrow>
   logical_losses sc t (logic_at s) = Inr (u, d, (logic_at s)\<lparr>lg_up := up, lg_down := down\<rparr>)"
  by (auto simp: hl_drops_def logical_losses_def logic_at_def rbind_eq_Inr split: prod.splits option.splits)

lemma sample_is_fresh:
  "obs_fresh (hl_observe t truth u) \<longleftrightarrow> \<not> u \<and> f_finite (truth_theta truth) \<and> f_finite (truth_omega truth)"
  by (auto simp: obs_fresh_def hl_observe_def observe_def)

text \<open>One tick of the reference is one tick of the specification, whatever the sockets did.\<close>

lemma tick_steps:
  assumes t: "headless_tick sc t s = Inr (r, stop, s')" and live: "hl_live t s" "0 \<le> t" and a: "answers r a"
  obtains u d up down dstb cmd seq lg where "hl_drops sc t s = Inr (u, d, up, down)"
    "disturbance_at sc t environment_fixed = Inr dstb" "hl_command sc t (hl_seq s) = Inr (cmd, seq)"
    "logical_row t u d a ((logic_at s)\<lparr>lg_up := up, lg_down := down\<rparr>) = (lrow_of r, lg)"
    "stop = None \<Longrightarrow> logical_advance sc t dstb a lg = logic_at s'"
    "stop \<noteq> None \<longleftrightarrow> rp_status a mod 256 = 3"
    "if hl_pending s = None \<and> t \<noteq> sc_ticks sc - 1 then stop \<in> {None, Some SIM_VEHICLE_TERMINAL}
     else stop = (if hl_pending s = None then Some SIM_HORIZON else hl_pending s)"
proof -
  obtain u d up down dstb cmd seq out where h: "hl_drops sc t s = Inr (u, d, up, down)"
    "disturbance_at sc t environment_fixed = Inr dstb" "hl_command sc t (hl_seq s) = Inr (cmd, seq)"
    "r = hl_row s (hl_input sc t s u cmd) out u d" "stop = hl_stop (hl_input sc t s u cmd) out"
    "s' = hl_next s r up down dstb seq stop"
    using t by (elim headless_tickE)
  have delta: "rp_delta a = out_delta out" using a by (simp add: answers_def h(4) hl_row_def Let_def)
  have mode: "stop \<noteq> None \<longleftrightarrow> rp_status a mod 256 = 3"
    using hl_live_step(1) [OF t live] a by (cases "ep_mode (out_state (row_episode r))") (simp_all add: answers_def)
  let ?row = "logical_row t u d a ((logic_at s)\<lparr>lg_up := up, lg_down := down\<rparr>)"
  have row: "?row = (lrow_of r, snd ?row)"
    by (simp add: prod_eq_iff logical_row_def lrow_of_def h(4) hl_row_def Let_def logic_at_def delta sample_is_fresh hl_input_def
        split: prod.splits)
  have adv: "logical_advance sc t dstb a (snd ?row) = logic_at s'" if none: "stop = None"
  proof -
    have "hl_pending s = None" "t \<noteq> sc_ticks sc - 1"
      using none by (auto simp: h(5) hl_stop_def hl_input_def Let_def split: if_splits)
    moreover have "rp_status a mod 256 \<noteq> 3" using mode none by simp
    ultimately show ?thesis
      by (simp add: logical_advance_def logical_row_def h(4,6) hl_next_def hl_row_def Let_def logic_at_def delta none split: prod.splits)
  qed
  have "if hl_pending s = None \<and> t \<noteq> sc_ticks sc - 1 then stop \<in> {None, Some SIM_VEHICLE_TERMINAL}
     else stop = (if hl_pending s = None then Some SIM_HORIZON else hl_pending s)"
    by (auto simp: h(5) hl_stop_def hl_input_def Let_def)
  with that h(1-3) row adv mode show ?thesis by blast
qed

lemma tick_agrees:
  assumes "headless_tick sc t s = Inr (r, stop, s')" "hl_live t s" "0 \<le> t" "answers r a" "int (length rows) = t"
  shows "\<exists>lg. logical_tick sc (rows, logic_at s) a = Inr (rows @ [lrow_of r], lg) \<and> (stop = None \<longrightarrow> lg = logic_at s')"
  using assms(1-4)
proof (rule tick_steps)
  fix u d up down dstb cmd seq lg
  assume "hl_drops sc t s = Inr (u, d, up, down)" "disturbance_at sc t environment_fixed = Inr dstb"
    "logical_row t u d a ((logic_at s)\<lparr>lg_up := up, lg_down := down\<rparr>) = (lrow_of r, lg)"
    "stop = None \<Longrightarrow> logical_advance sc t dstb a lg = logic_at s'"
  then show ?thesis using assms(5) by (simp add: logical_tick_def losses_at)
qed

lemma loop_agrees:
  assumes "headless_loop sc (ticks_from t n) s = Inr (rs, stop, s')" "hl_live t s" "0 \<le> t"
    "length as \<le> length rs" "list_all2 answers (take (length as) rs) as" "int (length rows) = t"
  shows "\<exists>lg. foldl (\<lambda>m a. rbind m (\<lambda>st. logical_tick sc st a)) (Inr (rows, logic_at s)) as =
    Inr (rows @ map lrow_of (take (length as) rs), lg)"
  using assms
proof (induction as arbitrary: t n s rs rows)
  case (Cons a as)
  from Cons.prems(4) obtain r rs' where rs: "rs = r # rs'" by (cases rs) auto
  then obtain m where n: "n = Suc m" using Cons.prems(1) by (cases n) (auto simp: ticks_from_simps)
  have "\<exists>stop1 s1. headless_tick sc t s = Inr (r, stop1, s1) \<and>
      (if stop1 \<noteq> None then rs' = [] else headless_loop sc (ticks_from (t + 1) m) s1 = Inr (rs', stop, s'))"
    using Cons.prems(1) unfolding n ticks_from_simps headless_loop_Cons rs list.inject by metis
  then obtain stop1 s1 where tick: "headless_tick sc t s = Inr (r, stop1, s1)"
    and rest: "if stop1 \<noteq> None then rs' = [] else headless_loop sc (ticks_from (t + 1) m) s1 = Inr (rs', stop, s')" by blast
  have a: "answers r a" "list_all2 answers (take (length as) rs') as" using Cons.prems(5) by (simp_all add: rs)
  obtain lg where lg: "logical_tick sc (rows, logic_at s) a = Inr (rows @ [lrow_of r], lg)" "stop1 = None \<longrightarrow> lg = logic_at s1"
    using tick_agrees [OF tick Cons.prems(2,3) a(1) Cons.prems(6)] by blast
  show ?case
  proof (cases "stop1 = None")
    case True
    then have "headless_loop sc (ticks_from (t + 1) m) s1 = Inr (rs', stop, s')" using rest by simp
    from Cons.IH [OF this hl_live_step(2) [OF tick Cons.prems(2,3) True], of "rows @ [lrow_of r]"]
    show ?thesis using Cons.prems(3,4,6) a(2) lg True by (simp add: rs)
  next
    case False
    then have "rs' = []" using rest by simp
    then have "as = []" using Cons.prems(4) by (simp add: rs)
    then show ?thesis using lg(1) by (simp add: rs)
  qed
qed simp

lemma lockstep_rows:
  assumes "run_headless sc seed (int delay) = Inr tr" "lock_execute crc sc seed delay fs da script = Inr (s, r)"
    and "length (lk_replies s) \<le> length (tr_rows tr)" "list_all2 answers (take (length (lk_replies s)) (tr_rows tr)) (lk_replies s)"
  shows "lk_rows s = map lrow_of (take (length (lk_replies s)) (tr_rows tr))"
proof -
  from assms(1) obtain up down h where h: "stream_state seed ''link.loss.up'' = Inr up" "stream_state seed ''link.loss.down'' = Inr down"
    "headless_loop sc (ticks_from 0 (nat (sc_ticks sc))) (headless_initial sc up down (int delay)) = Inr (tr_rows tr, tr_sim_reason tr, h)"
    by (elim run_headless_unfold)
  obtain lg where run: "logical_run sc (initial_logic sc up down delay) (lk_replies s) = Inr (lk_rows s, lg)"
    using lockstep_refines_logical [OF assms(2) h(1,2)] by blast
  have "logic_at (headless_initial sc up down (int delay)) = initial_logic sc up down delay"
    by (simp add: logic_at_def headless_initial_def initial_logic_def)
  with loop_agrees [OF h(3) hl_live_initial order_refl assms(3,4), of "[]"] run show ?thesis
    by (auto simp: logical_run_def)
qed

section \<open>A vehicle that follows the policy\<close>

definition policy_status :: "episode_state \<Rightarrow> int" where
  "policy_status st = int (mode_value (ep_mode st)) +
     256 * (case terminal st of None \<Rightarrow> 0 | Some t \<Rightarrow> int (reason_value (term_reason t)))"

definition policy_reply :: "row \<Rightarrow> reply" where
  "policy_reply r = \<lparr>rp_tick = row_tick r, rp_veh_tick = row_tick r, rp_sensor_send_ns = 0, rp_veh_send_ns = 0,
     rp_delta = out_delta (row_episode r), rp_status = policy_status (out_state (row_episode r)), rp_staleness = row_staleness r\<rparr>"

lemma policy_answers: "answers r (policy_reply r)"
  by (cases "ep_mode (out_state (row_episode r))") (simp_all add: answers_def policy_reply_def policy_status_def)

definition reply_fields :: "reply \<Rightarrow> fields" where
  "reply_fields a = [''tick'' \<mapsto> VInt (rp_tick a), ''veh_tick'' \<mapsto> VInt (rp_veh_tick a),
     ''t_sensor_send_ns'' \<mapsto> VInt (rp_sensor_send_ns a), ''t_veh_send_ns'' \<mapsto> VInt (rp_veh_send_ns a),
     ''delta'' \<mapsto> VFlt (rp_delta a), ''status'' \<mapsto> VInt (rp_status a), ''staleness'' \<mapsto> VInt (rp_staleness a)]"

lemma reply_of_fields: "reply_of (reply_fields a) = a"
  by (simp add: reply_of_def reply_fields_def int_at_def flt_at_def)

definition reply_ranged :: "reply \<Rightarrow> bool" where
  "reply_ranged a \<longleftrightarrow> 0 \<le> rp_tick a \<and> rp_tick a < 2 ^ 32 \<and> rp_veh_tick a = rp_tick a \<and> rp_sensor_send_ns a = 0 \<and>
     rp_veh_send_ns a = 0 \<and> f_finite (rp_delta a) \<and> 0 \<le> rp_status a \<and> rp_status a < 2 ^ 32 \<and>
     0 \<le> rp_staleness a \<and> rp_staleness a < 2 ^ 32"

lemma reply_fields_ok: "reply_ranged a \<Longrightarrow> payload_ok 5 (reply_fields a)"
  by (auto simp: payload_ok_def PAYLOAD_FIELDS_def value_ok_def kind_range_def field_mask_def check_payload_counts_def
      reply_fields_def reply_ranged_def)

definition reply_bytes :: "(byte list \<Rightarrow> 32 word) \<Rightarrow> reply \<Rightarrow> byte list" where
  "reply_bytes crc a =
     (case rbind (encode_payload 5 (reply_fields a)) (encode_frame crc 5 (rp_tick a)) of Inl e \<Rightarrow> [] | Inr data \<Rightarrow> data)"

lemma reply_bytes_decode:
  assumes "reply_ranged a"
  shows "rbind (decode_datagram crc (reply_bytes crc a) {5}) (\<lambda>(t, seq, body). decode_payload 5 body) = Inr (reply_fields a)"
proof -
  obtain p where p: "encode_payload 5 (reply_fields a) = Inr p" "decode_payload 5 p = Inr (reply_fields a)" "length p \<le> MAX_PAYLOAD"
    using payload_encoded [OF reply_fields_ok [OF assms]] by blast
  have size: "map_of PAYLOAD_SIZES 5 = Some (length p)"
    using p(2) by (auto simp: decode_payload_def ensure_eq_Inr PAYLOAD_SIZES_def split: option.splits)
  have tick: "int (nat (rp_tick a)) = rp_tick a" "nat (rp_tick a) < 2 ^ 32" using assms by (simp_all add: reply_ranged_def nat_less_iff)
  obtain data where data: "encode_frame crc 5 (rp_tick a) p = Inr data"
    using p(3) encode_frame_bytes [of 5 p crc "rp_tick a"] by (simp add: TYPES_def)
  then have "reply_bytes crc a = data" by (simp add: reply_bytes_def p(1))
  moreover have "decode_datagram crc data {5} = Inr (5, nat (rp_tick a), p)"
    using data size tick by (subst datagram_exact) simp
  ultimately show ?thesis using p(2) by simp
qed

lemma await_policy:
  assumes "reply_ranged a" "rp_tick a = tick"
  shows "\<exists>s'. await_reply crc None tick [Reply (reply_bytes crc a)] s = (s', Inr (Some a))"
proof -
  have "classify_reply None tick (reply_bytes crc a) a s1 =
      ((count_down (\<lambda>c. c\<lparr>rc_logical_received := rc_logical_received c + 1\<rparr>) s1)\<lparr>lk_last_reply := Some (reply_bytes crc a)\<rparr>,
       Inr (Some a))" for s1
    using assms by (simp add: classify_reply_def reply_ranged_def)
  then show ?thesis
    by (simp add: classify_def reply_bytes_decode [OF assms(1)] reply_of_fields sbind_def lift_result_def Let_def)
qed

text \<open>The script of such a vehicle: every frame is sent whole, every first attempt is answered.\<close>

definition policy_script :: "(byte list \<Rightarrow> 32 word) \<Rightarrow> row list \<Rightarrow> int \<Rightarrow> nat \<Rightarrow> attempt_script" where
  "policy_script crc rows tick a = \<lparr>at_send = Sent 58,
     at_events = (if nat tick < length rows then [Reply (reply_bytes crc (policy_reply (rows ! nat tick)))] else [])\<rparr>"

lemma attempts_policy:
  assumes "reply_ranged a" "rp_tick a = tick" "at_events (script 0) = [Reply (reply_bytes crc a)]"
  shows "\<exists>t. attempts crc None None script tick frame [0..<26] False s = (t, Inr (Some a)) \<and> model_part t = model_part s"
proof -
  have split: "[0..<26] = 0 # [1..<26 :: nat]" by (simp add: upt_conv_Cons)
  obtain s' where "await_reply crc None tick [Reply (reply_bytes crc a)]
      (send_frame 0 frame (send_ok None tick 0 frame (at_send (script 0))) False s) = (s', Inr (Some a))"
    using await_policy [OF assms(1,2)] by blast
  then have "\<exists>t. attempts crc None None script tick frame [0..<26] False s = (t, Inr (Some a))"
    unfolding split attempts.simps Let_def assms(3) by (simp add: sbind_def modify_def lift_result_def)
  then show ?thesis using keepsD [OF attempts_model_part refl] by blast
qed

lemma flags_masked:
  assumes "v \<in> {OP_ARM, OP_LAUNCH, OP_ABORT}"
  shows "(((if b then 0 else 1) OR (4 OR push_bit 8 v)) OR (if c then 0 else 2)) AND 0xFF07 =
      (((if b then 0 else 1) OR (4 OR push_bit 8 v)) OR (if c then 0 else 2) :: int)"
    "0 \<le> (((if b then 0 else 1) OR (4 OR push_bit 8 v)) OR (if c then 0 else 2) :: int)"
    "(((if b then 0 else 1) OR (4 OR push_bit 8 v)) OR (if c then 0 else 2) :: int) < 4294967296"
  using assms by (cases b; cases c; auto simp: OP_ARM_def OP_LAUNCH_def OP_ABORT_def)+

lemma sensor_fields_ok:
  assumes "0 \<le> tick" "tick < 2 ^ 32" "case op of None \<Rightarrow> True | Some v \<Rightarrow> v \<in> {OP_ARM, OP_LAUNCH, OP_ABORT}"
    "0 \<le> seq" "seq < 2 ^ 32" "case sr of None \<Rightarrow> True | Some n \<Rightarrow> 0 \<le> n \<and> n < 2 ^ 32"
  shows "payload_ok 4 (sensor_fields tick truth ud op sr seq)"
proof (cases op)
  case None
  then show ?thesis
    using assms
    by (cases ud; cases sr; auto simp: payload_ok_def PAYLOAD_FIELDS_def value_ok_def kind_range_def field_mask_def
        check_payload_counts_def sensor_fields_def Let_def)
next
  case (Some v)
  then show ?thesis
    using assms flags_masked [of v ud "sr = None"]
    by (auto simp: payload_ok_def PAYLOAD_FIELDS_def value_ok_def kind_range_def field_mask_def
        check_payload_counts_def sensor_fields_def Let_def split: option.splits)
qed

lemma sensor_frame_returns:
  assumes "hl_command sc tick q = Inr (cmd, q')" "0 \<le> tick" "tick < 2 ^ 32" "0 \<le> lk_command_seq s" "lk_command_seq s < 2 ^ 32"
    "case sensor_reason sc tick s of None \<Rightarrow> True | Some n \<Rightarrow> 0 \<le> n \<and> n < 2 ^ 32"
  shows "\<exists>s' frame. sensor_frame crc sc tick ud s = (s', Inr frame) \<and> 0 \<le> lk_command_seq s' \<and> lk_command_seq s' < 2 ^ 32"
proof -
  obtain name where name: "command_at sc tick = Inr name" using assms(1) by (auto simp: hl_command_def rbind_eq_Inr)
  have frame: "\<exists>frame. rbind (encode_payload 4 F) (encode_frame crc 4 tick) = Inr frame" if "payload_ok 4 F" for F
  proof -
    obtain p where "encode_payload 4 F = Inr p" "length p \<le> MAX_PAYLOAD" using payload_encoded [OF \<open>payload_ok 4 F\<close>] by blast
    then show ?thesis using encode_frame_bytes [of 4 p crc tick] by (simp add: TYPES_def)
  qed
  show ?thesis
  proof (cases name)
    case None
    have "payload_ok 4 (sensor_fields tick (lk_truth s) ud None (sensor_reason sc tick s) (lk_command_seq s))"
      using assms by (intro sensor_fields_ok) auto
    then show ?thesis
      using frame name None assms(4,5) by (fastforce simp: sensor_frame_def sbind_def lift_result_def gets_def)
  next
    case (Some op)
    then obtain v where v: "opcode_of op = Inr v" using assms(1) name by (auto simp: hl_command_def rbind_eq_Inr Let_def)
    let ?s = "s\<lparr>lk_command_seq := (lk_command_seq s + 1) mod 2 ^ 32\<rparr>"
    have "sensor_reason sc tick ?s = sensor_reason sc tick s" by (simp add: sensor_reason_def)
    moreover have "v \<in> {OP_ARM, OP_LAUNCH, OP_ABORT}" using v by (auto simp: opcode_of_def split: if_splits)
    ultimately have "payload_ok 4 (sensor_fields tick (lk_truth ?s) ud (Some v) (sensor_reason sc tick ?s) (lk_command_seq ?s))"
      using assms by (intro sensor_fields_ok) auto
    then obtain fr where "rbind (encode_payload 4 (sensor_fields tick (lk_truth ?s) ud (Some v) (sensor_reason sc tick ?s) (lk_command_seq ?s)))
        (encode_frame crc 4 tick) = Inr fr" using frame by blast
    then show ?thesis
      using name Some v by (simp add: sensor_frame_def sbind_def lift_result_def gets_def modify_def)
  qed
qed

lemma sample_returns:
  assumes "hl_drops sc tick h = Inr (u, d, up, down)" "disturbance_at sc tick environment_fixed = Inr dstb"
    "hl_command sc tick q = Inr (cmd, q')" "logic_of s = logic_at h" "0 \<le> tick" "tick < 2 ^ 32"
    "0 \<le> lk_command_seq s" "lk_command_seq s < 2 ^ 32" "case hl_pending h of None \<Rightarrow> True | Some n \<Rightarrow> 0 \<le> n \<and> n < 2 ^ 32"
  shows "\<exists>s' frame. lock_sample crc sc tick s = (s', Inr (u, d, dstb, sensor_reason sc tick s', frame)) \<and>
    0 \<le> lk_command_seq s' \<and> lk_command_seq s' < 2 ^ 32"
proof -
  have at: "lk_stream_up s = hl_up h" "lk_stream_down s = hl_down h" "lk_pending_reason s = hl_pending h"
    using assms(4) by (simp_all add: logic_of_def logic_at_def)
  from assms(1) obtain ru rd fu fd where draws: "draw_drop (hl_up h) (sc_loss_up sc) = Inr (ru, up)"
    "draw_drop (hl_down h) (sc_loss_down sc) = Inr (rd, down)" "forced_drop_at sc tick ''up'' = Inr fu"
    "forced_drop_at sc tick ''down'' = Inr fd" "u = (case fu of None \<Rightarrow> ru | Some b \<Rightarrow> b)" "d = (case fd of None \<Rightarrow> rd | Some b \<Rightarrow> b)"
    by (auto simp: hl_drops_def rbind_eq_Inr)
  define t where "t = s\<lparr>lk_stream_up := up, lk_stream_down := down, lk_draws := lk_draws s + 1,
    lk_up := (lk_up s)\<lparr>sn_sample_loss := sn_sample_loss (lk_up s) + (if u then 1 else 0)\<rparr>\<rparr>"
  have "sensor_reason sc tick t \<in> {hl_pending h, Some SIM_HORIZON}" by (simp add: sensor_reason_def t_def at)
  then have "case sensor_reason sc tick t of None \<Rightarrow> True | Some n \<Rightarrow> 0 \<le> n \<and> n < 2 ^ 32"
    using assms(9) by (auto simp: SIM_HORIZON_def split: option.splits)
  then obtain s' frame where f: "sensor_frame crc sc tick u t = (s', Inr frame)" "0 \<le> lk_command_seq s'" "lk_command_seq s' < 2 ^ 32"
    using sensor_frame_returns [OF assms(3,5,6), of t crc u] assms(7,8) by (auto simp: t_def)
  have "sensor_reason sc tick s' = sensor_reason sc tick t"
    using sensor_frame_frame [OF f(1)] by (auto simp: sensor_reason_def)
  then have "lock_sample crc sc tick s = (s', Inr (u, d, dstb, sensor_reason sc tick s', frame))"
    using draws f(1) assms(2)
    by (simp add: lock_sample_def sbind_def draw_up_def draw_down_def at modify_def gets_def lift_result_def Let_def t_def)
  then show ?thesis using f(2,3) by blast
qed

lemma receipt_seq: "same_but_receipt s t \<Longrightarrow> lk_command_seq t = lk_command_seq s"
  by (cases s; cases t) (simp add: same_but_receipt_def)

lemma attempts_seq: "keeps (\<lambda>s. lk_command_seq s = c) (attempts crc fs da script tick frame as logged)"
proof (induction as arbitrary: logged)
  case (Cons a as)
  have "keeps (\<lambda>s. lk_command_seq s = c) (await_reply crc da tick evs)" for evs
    by (rule keepsI) (metis await_reply_frame receipt_seq)
  then show ?case
    unfolding attempts.simps Let_def
    by (intro steps_intro keeps_modify Cons.IH) (simp_all add: send_frame_def)
qed (simp add: steps_intro)

lemma policy_ranged:
  assumes "0 \<le> row_tick r" "row_tick r < 2 ^ 32" "row_safe r" "0 \<le> row_staleness r" "row_staleness r < 2 ^ 32"
  shows "reply_ranged (policy_reply r)"
proof -
  let ?st = "out_state (row_episode r)"
  have "mode_value (ep_mode ?st) \<le> 3" by (cases "ep_mode ?st") simp_all
  moreover have "reason_value x \<le> 8" for x by (cases x) simp_all
  then have "(case terminal ?st of None \<Rightarrow> 0 | Some t \<Rightarrow> int (reason_value (term_reason t))) \<in> {0..8}"
    by (simp split: option.splits)
  ultimately have "0 \<le> policy_status ?st" "policy_status ?st < 2 ^ 32" by (simp_all add: policy_status_def)
  then show ?thesis using assms bddD(1) by (auto simp: reply_ranged_def policy_reply_def row_safe_def)
qed

text \<open>One tick of the lockstep simulator with such a vehicle.\<close>

definition twin :: "hl_state \<Rightarrow> lock \<Rightarrow> bool" where
  "twin h s \<longleftrightarrow> logic_of s = logic_at h \<and> 0 \<le> lk_command_seq s \<and> lk_command_seq s < 2 ^ 32"

lemma tick_completes:
  assumes t: "headless_tick sc t h = Inr (r, stop, h')" and live: "hl_live t h" "0 \<le> t" "t < 2 ^ 32"
    and a: "reply_ranged (policy_reply r)" "row_tick r = t" and s: "twin h s"
    and script: "at_events (script 0) = [Reply (reply_bytes crc (policy_reply r))]"
  shows "\<exists>s'. lock_tick crc sc None None script t s = (s', Inr (stop = None)) \<and> lk_replies s' = lk_replies s @ [policy_reply r] \<and>
    (if stop = None then twin h' s' else stop = Some (lk_final_reason s'))"
  using t live(1,2) policy_answers
proof (rule tick_steps)
  let ?a = "policy_reply r"
  fix u d up down dstb cmd seq lg
  assume h: "hl_drops sc t h = Inr (u, d, up, down)" "disturbance_at sc t environment_fixed = Inr dstb"
    "hl_command sc t (hl_seq h) = Inr (cmd, seq)"
    "logical_row t u d ?a ((logic_at h)\<lparr>lg_up := up, lg_down := down\<rparr>) = (lrow_of r, lg)"
    "stop = None \<Longrightarrow> logical_advance sc t dstb ?a lg = logic_at h'" "stop \<noteq> None \<longleftrightarrow> rp_status ?a mod 256 = 3"
    "if hl_pending h = None \<and> t \<noteq> sc_ticks sc - 1 then stop \<in> {None, Some SIM_VEHICLE_TERMINAL}
     else stop = (if hl_pending h = None then Some SIM_HORIZON else hl_pending h)"
  have "case hl_pending h of None \<Rightarrow> True | Some n \<Rightarrow> 0 \<le> n \<and> n < 2 ^ 32"
    using live(1) hl_loc_values [of "hl_truth h"] by (auto simp: hl_live_def sim_reason_defs)
  with sample_returns [OF h(1-3) _ live(2,3)] s obtain s1 frame where s1:
    "lock_sample crc sc t s = (s1, Inr (u, d, dstb, sensor_reason sc t s1, frame))" "0 \<le> lk_command_seq s1" "lk_command_seq s1 < 2 ^ 32"
    unfolding twin_def by blast
  note sample = lock_sample_logic [OF s1(1)]
  have logic1: "logic_of s1 = (logic_at h)\<lparr>lg_up := up, lg_down := down\<rparr>"
    using sample losses_at [OF h(1)] s by (simp add: twin_def)
  let ?s = "s1\<lparr>lk_up := count_generated t (lk_up s1)\<rparr>"
  have tick: "rp_tick ?a = t" by (simp add: policy_reply_def a(2))
  obtain t1 where t1: "attempts crc None None script t frame [0..<26] False ?s = (t1, Inr (Some ?a))" "model_part t1 = model_part ?s"
    using attempts_policy [of ?a t script crc frame ?s, OF a(1) tick script] by blast
  have seq1: "lk_command_seq t1 = lk_command_seq s1" using keepsD [OF attempts_seq _ t1(1), of "lk_command_seq s1"] by simp
  let ?u = "apply_reply t u d ?a t1"
  have part: "logic_of t1 = logic_of s1" "lk_replies t1 = lk_replies s" using t1(2) sample by (simp_all add: model_part_def logic_of_def)
  have u: "lk_replies ?u = lk_replies s @ [?a]" "logic_of ?u = lg"
    using apply_reply_logic [of "lrow_of r" lg t u d ?a t1] h(4) part logic1 by simp_all
  have seq2: "lk_command_seq ?u = lk_command_seq s1" using seq1 by (simp add: apply_reply_def Let_def split: prod.split)
  have pending: "lk_pending_reason ?u = hl_pending h" "lk_pending_reason s1 = hl_pending h"
    using part(1) logic1 by (auto simp: apply_reply_def Let_def logic_of_def logic_at_def split: prod.split)
  then have sr: "sensor_reason sc t s1 = sensor_reason sc t ?u" by (simp add: sensor_reason_def)
  let ?v = "advance_model (sensor_reason sc t s1) dstb ?a ?u"
  have run: "lock_tick crc sc None None script t s = (fst ?v, Inr (snd ?v))"
    using s1(1) t1(1)
    by (simp add: lock_tick_def lock_exchange_def sbind_def modify_def case_prod_beta del: upt_rec_numeral)
  note adv = advance_model_logic [OF sr, of dstb ?a]
  have seq3: "lk_command_seq (fst ?v) = lk_command_seq ?u" by (auto simp: advance_model_def Let_def split: option.splits)
  have "snd ?v = (stop = None)" "stop \<noteq> None \<Longrightarrow> stop = Some (lk_final_reason (fst ?v))"
    using h(6,7) pending(2) by (auto simp: advance_model_def sensor_reason_def Let_def split: option.splits if_splits)
  moreover have "twin h' (fst ?v)" if "stop = None"
    using adv u(2) h(5) [OF that] seq2 seq3 s1(2,3) by (simp add: twin_def)
  ultimately show ?thesis using run adv u(1) by auto
qed

lemma loop_completes:
  assumes "headless_loop sc (ticks_from t n) h = Inr (rs, stop, h')" "stop \<noteq> None" "hl_live t h" "0 \<le> t" "t + int n \<le> 2 ^ 32"
    "list_all (\<lambda>r. reply_ranged (policy_reply r)) rs" "twin h s" "int (length pre) = t"
  shows "\<exists>s'. lock_loop crc sc None None (policy_script crc (pre @ rs)) (ticks_from t n) s = (s', Inr ()) \<and>
    lk_replies s' = lk_replies s @ map policy_reply rs \<and> stop = Some (lk_final_reason s')"
  using assms
proof (induction n arbitrary: t h s rs pre)
  case 0
  then show ?case by (simp add: ticks_from_simps)
next
  case (Suc n)
  from Suc.prems(1) obtain r stop1 h1 where tick: "headless_tick sc t h = Inr (r, stop1, h1)"
    and rest: "if stop1 \<noteq> None then rs = [r] \<and> stop = stop1 \<and> h' = h1
      else \<exists>rs'. headless_loop sc (ticks_from (t + 1) n) h1 = Inr (rs', stop, h') \<and> rs = r # rs'"
    by (auto simp only: headless_loop_Cons ticks_from_simps)
  obtain rs' where rs: "rs = r # rs'" using rest by (cases "stop1 = None") auto
  have r: "row_tick r = t" "reply_ranged (policy_reply r)" using tick Suc.prems(6) rs by (auto elim!: headless_tickE)
  have "nat t = length pre" using Suc.prems(8) by simp
  then have "at_events (policy_script crc (pre @ rs) t 0) = [Reply (reply_bytes crc (policy_reply r))]"
    by (simp add: policy_script_def rs)
  from tick_completes [where script = "policy_script crc (pre @ rs) t" and crc = crc, OF tick Suc.prems(3,4) _ r(2,1) Suc.prems(7) this] Suc.prems(5) obtain s1 where s1:
    "lock_tick crc sc None None (policy_script crc (pre @ rs) t) t s = (s1, Inr (stop1 = None))"
    "lk_replies s1 = lk_replies s @ [policy_reply r]" "if stop1 = None then twin h1 s1 else stop1 = Some (lk_final_reason s1)"
    by auto
  show ?case
  proof (cases "stop1 = None")
    case True
    then have loop: "headless_loop sc (ticks_from (t + 1) n) h1 = Inr (rs', stop, h')" using rest rs by auto
    have "\<exists>s'. lock_loop crc sc None None (policy_script crc ((pre @ [r]) @ rs')) (ticks_from (t + 1) n) s1 = (s', Inr ()) \<and>
        lk_replies s' = lk_replies s1 @ map policy_reply rs' \<and> stop = Some (lk_final_reason s')"
      by (rule Suc.IH [OF loop Suc.prems(2) hl_live_step(2) [OF tick Suc.prems(3,4) True]])
        (use Suc.prems s1(3) True rs in auto)
    then show ?thesis using s1(1,2) True by (auto simp: ticks_from_simps sbind_def rs)
  next
    case False
    then have "rs = [r]" "stop = stop1" using rest by auto
    then show ?thesis using s1 False by (simp add: ticks_from_simps sbind_def lift_result_def)
  qed
qed

lemma upto_ticks: "[t..t + int n - 1] = ticks_from t n"
proof (induction n arbitrary: t)
  case (Suc n)
  have "[t..t + int (Suc n) - 1] = t # [t + 1..(t + 1) + int n - 1]" by (simp add: upto_rec1)
  then show ?case by (simp only: Suc ticks_from_simps)
qed (simp add: ticks_from_simps)

lemma lockstep_runs:
  assumes "scenario_wf sc" "scenario_bounded sc" "sc_ticks sc < 2 ^ 32" "0 \<le> seed" "seed < 2 ^ 64" "delay \<in> {0, 1}"
  shows "\<exists>tr s. run_headless sc seed (int delay) = Inr tr \<and>
    lock_execute crc sc seed delay None None (policy_script crc (tr_rows tr)) = Inr (s, Inr ()) \<and>
    lk_replies s = map policy_reply (tr_rows tr) \<and> lk_rows s = map lrow_of (tr_rows tr) \<and>
    tr_sim_reason tr = Some (lk_final_reason s)"
proof -
  obtain tr where tr: "run_headless sc seed (int delay) = Inr tr"
    using run_headless_returns [OF assms(1,4,5), of "int delay"] assms(6) by auto
  then obtain up down h where h: "stream_state seed ''link.loss.up'' = Inr up" "stream_state seed ''link.loss.down'' = Inr down"
    "0 < sc_ticks sc" "headless_loop sc (ticks_from 0 (nat (sc_ticks sc))) (headless_initial sc up down (int delay)) =
      Inr (tr_rows tr, tr_sim_reason tr, h)" by (elim run_headless_unfold)
  have stop: "tr_sim_reason tr \<noteq> None" by (rule headless_loop_stops [OF h(4) hl_live_initial]) (use h(3) in simp_all)
  have ranged: "list_all (\<lambda>r. reply_ranged (policy_reply r)) (tr_rows tr)"
  proof -
    have "reply_ranged (policy_reply r)" if r: "r \<in> set (tr_rows tr)" for r
    proof (rule policy_ranged)
      have "row_tick r \<in> set (map row_tick (tr_rows tr))" using r by simp
      also have "map row_tick (tr_rows tr) = take (length (tr_rows tr)) (ticks_from 0 (nat (sc_ticks sc)))"
        using headless_loop_rows [OF h(4)] by simp
      also have "set \<dots> \<subseteq> {0..<sc_ticks sc}" by (auto simp: ticks_from_def dest!: in_set_takeD)
      finally have below: "row_tick r + 1 \<le> sc_ticks sc" "0 \<le> row_tick r" by auto
      then show tick: "0 \<le> row_tick r" "row_tick r < 2 ^ 32" using assms(3) by auto
      show "row_safe r" using headless_safe [OF tr assms(2)] r by (simp add: list_all_iff)
      show "0 \<le> row_staleness r" "row_staleness r < 2 ^ 32"
        using headless_sees [OF tr] r tick below assms(3) by (auto simp: list_all_iff row_sees_def)
    qed
    then show ?thesis by (simp add: list_all_iff)
  qed
  obtain s0 where s0: "lock_initial sc seed delay = Inr s0" "twin (headless_initial sc up down (int delay)) s0" "lk_replies s0 = []"
    using h(1,2) by (auto simp: lock_initial_def twin_def logic_of_def logic_at_def headless_initial_def)
  have ticks: "[0..sc_ticks sc - 1] = ticks_from 0 (nat (sc_ticks sc))" using upto_ticks [of 0 "nat (sc_ticks sc)"] h(3) by simp
  obtain s where s: "lock_loop crc sc None None (policy_script crc (tr_rows tr)) [0..sc_ticks sc - 1] s0 = (s, Inr ())"
    "lk_replies s = map policy_reply (tr_rows tr)" "tr_sim_reason tr = Some (lk_final_reason s)"
    using loop_completes [OF h(4) stop hl_live_initial order_refl _ ranged s0(2), of "[]" crc] h(3) assms(3) s0(3)
    unfolding ticks by auto
  then have run: "lock_execute crc sc seed delay None None (policy_script crc (tr_rows tr)) = Inr (s, Inr ())"
    by (simp add: lock_execute_def s0(1))
  have "list_all2 answers (tr_rows tr) (lk_replies s)" by (simp add: s(2) list_all2_conv_all_nth policy_answers)
  then have "lk_rows s = map lrow_of (tr_rows tr)"
    using lockstep_rows [OF tr run] by (simp add: s(2))
  then show ?thesis using tr run s by blast
qed

text \<open>C2. Against a vehicle that follows the reference policy and a network that delivers, the lockstep simulator runs to its end
  without an error, takes as its final reason the one of \<open>run_headless\<close>, and its rows are the reference rows, whatever the modelled losses,
  gusts and commands of the scenario are.\<close>

theorem lockstep_completes:
  assumes "scenario_wf sc" "scenario_bounded sc" "sc_ticks sc < 2 ^ 32" "0 \<le> seed" "seed < 2 ^ 64" "delay \<in> {0, 1}"
  shows "\<exists>tr s. run_headless sc seed (int delay) = Inr tr \<and>
    lock_execute crc sc seed delay None None (policy_script crc (tr_rows tr)) = Inr (s, Inr ()) \<and>
    lk_replies s = map policy_reply (tr_rows tr) \<and> lk_rows s = map lrow_of (tr_rows tr) \<and>
    tr_sim_reason tr = Some (lk_final_reason s)"
  by (rule lockstep_runs [OF assms])

theorem lockstep_completes_witness:
  "\<exists>tr s. run_headless example_scenario 7 (int 1) = Inr tr \<and>
    lock_execute (\<lambda>_. 0) example_scenario 7 1 None None (policy_script (\<lambda>_. 0) (tr_rows tr)) = Inr (s, Inr ()) \<and>
    lk_replies s = map policy_reply (tr_rows tr) \<and> lk_rows s = map lrow_of (tr_rows tr) \<and>
    tr_sim_reason tr = Some (lk_final_reason s)"
  by (rule lockstep_completes [OF example_scenario_wf example_scenario_bounded]) (simp_all add: example_scenario_def)

text \<open>C9. The lockstep run is the reference run: where every accepted reply is the answer of the reference policy at its tick,
  whatever was lost, repeated or refused on the sockets, the rows of the lockstep simulator are the rows of \<open>run_headless\<close>
  for the same scenario, seed and delay, bit for bit.\<close>

theorem lockstep_is_headless:
  assumes "run_headless sc seed (int delay) = Inr tr" "lock_execute crc sc seed delay fs da script = Inr (s, r)"
    and "length (lk_replies s) \<le> length (tr_rows tr)" "list_all2 answers (take (length (lk_replies s)) (tr_rows tr)) (lk_replies s)"
  shows "lk_rows s = map lrow_of (take (length (lk_replies s)) (tr_rows tr))"
  by (rule lockstep_rows [OF assms])

theorem lockstep_is_headless_witness:
  "\<exists>tr s. run_headless example_scenario 7 (int 1) = Inr tr \<and>
    lock_execute (\<lambda>_. 0) example_scenario 7 1 None None (policy_script (\<lambda>_. 0) (tr_rows tr)) = Inr (s, Inr ()) \<and> lk_replies s \<noteq> [] \<and>
    lk_rows s = map lrow_of (take (length (lk_replies s)) (tr_rows tr))"
proof -
  obtain tr where full: "run_headless example_scenario 7 (int 1) = Inr tr" "tr_rows tr \<noteq> []"
    using headless_complete [OF example_scenario_wf, of 7 "int 1"] by auto
  obtain tr' s where s: "run_headless example_scenario 7 (int 1) = Inr tr'"
    "lock_execute (\<lambda>_. 0) example_scenario 7 1 None None (policy_script (\<lambda>_. 0) (tr_rows tr')) = Inr (s, Inr ())"
    "lk_replies s = map policy_reply (tr_rows tr')"
    using lockstep_runs [OF example_scenario_wf example_scenario_bounded, of 7 1 "\<lambda>_. 0"] by (auto simp: example_scenario_def)
  have "list_all2 answers (take (length (lk_replies s)) (tr_rows tr')) (lk_replies s)"
    by (simp add: s(3) list_all2_conv_all_nth policy_answers)
  with lockstep_is_headless [OF s(1,2)] s full show ?thesis
    by (intro exI [of _ tr'] exI [of _ s] conjI) auto
qed

section \<open>The texts agree\<close>

lemma join_lines: "join newline (h # ls) @ newline = h @ newline @ concat (map (\<lambda>l. l @ newline) ls)"
  by (induction ls arbitrary: h) simp_all

lemma row_cells:
  "cells text_of (row_json (lrow_of r)) SIM_COLUMNS =
     Inr ([dec_int (row_tick r), bit_text (row_fresh r), bit_text (row_arriving r \<noteq> None)] @
       map hex_word [truth_theta (row_truth r), truth_omega (row_truth r), applied (row_actuator r)])"
  by (simp add: SIM_COLUMNS_def row_json_def item_def lrow_of_def bits_json_def bit_text_def)

lemma sim_lines_rows: "sim_lines text_of (map (row_json \<circ> lrow_of) rs) = Inr (concat (map (\<lambda>r. trace_line r @ newline) rs))"
  by (induction rs) (simp_all add: row_cells trace_line_def del: join.simps)

lemma sim_csv_rows: "sim_csv text_of (map (row_json \<circ> lrow_of) (tr_rows tr)) = Inr (to_sim_csv tr)"
proof -
  have "join '','' SIM_COLUMNS = ''tick,has_sample,applied,theta_bits,omega_bits,cmd_applied_bits''" by (simp add: SIM_COLUMNS_def)
  then show ?thesis using sim_lines_rows [of text_of "tr_rows tr"] by (simp add: sim_csv_def to_sim_csv_def join_lines comp_def)
qed

text \<open>The CSV that is made of the lockstep report is, character for character, the CSV of the reference trace, whenever the
  vehicle's replies were the policy's.\<close>

lemma report_csv_is_reference:
  assumes "run_headless sc seed (int delay) = Inr tr" "lock_execute crc sc seed delay fs da script = Inr (s, r)"
    and "list_all2 answers (tr_rows tr) (lk_replies s)" "lock_report sc seed delay s err = Inr rep"
  shows "\<exists>rows. item rep ''rows'' = Inr (JList rows) \<and> sim_csv text_of rows = Inr (to_sim_csv tr)"
proof -
  have len: "length (lk_replies s) = length (tr_rows tr)" using list_all2_lengthD [OF assms(3)] by simp
  then have "lk_rows s = map lrow_of (tr_rows tr)" using lockstep_rows [OF assms(1,2)] assms(3) by simp
  moreover have "item rep ''rows'' = Inr (JList (map row_json (lk_rows s)))"
    using assms(4) by (auto simp: lock_report_def rbind_eq_Inr item_def)
  ultimately show ?thesis using sim_csv_rows [of text_of tr] by (simp add: comp_def)
qed

section \<open>The text determines the rows\<close>

lemma split_on_whole: "c \<notin> set s \<Longrightarrow> split_on c s = [s]"
  by (induction s) auto

lemma split_on_head: "c \<notin> set s \<Longrightarrow> split_on c (s @ c # t) = s # split_on c t"
  by (induction s) auto

lemma split_join: "xs \<noteq> [] \<Longrightarrow> list_all (\<lambda>s. c \<notin> set s) xs \<Longrightarrow> split_on c (join [c] xs) = xs"
proof (induction "[c]" xs rule: join.induct)
  case (2 s)
  then show ?case by (simp add: split_on_whole)
next
  case (3 s t ss)
  then show ?case using split_on_head [of c s "join [c] (t # ss)"] by simp
qed simp

lemma join_inj:
  assumes "join [c] xs = join [c] ys" "xs \<noteq> []" "ys \<noteq> []" "list_all (\<lambda>s. c \<notin> set s) xs" "list_all (\<lambda>s. c \<notin> set s) ys"
  shows "xs = ys"
proof -
  have "xs = split_on c (join [c] xs)" by (rule split_join [OF assms(2,4), symmetric])
  also have "\<dots> = split_on c (join [c] ys)" by (rule arg_cong [OF assms(1)])
  also have "\<dots> = ys" by (rule split_join [OF assms(3,5)])
  finally show ?thesis .
qed

definition cell_char :: "char \<Rightarrow> bool" where
  "cell_char c \<longleftrightarrow> c \<noteq> CHR '','' \<and> c \<noteq> CHR 0x0A"

lemma dec_cell: "list_all cell_char (dec_int n)"
proof -
  have "\<not> is_digit CHR 0x0A" "\<not> is_digit CHR '',''" by (simp_all add: is_digit_def)
  then have "is_digit c \<Longrightarrow> cell_char c" for c unfolding cell_char_def by metis
  then have "list_all cell_char (dec m)" for m using dec_digits_only [of m] by (auto simp: list_all_iff)
  then show ?thesis by (simp add: dec_int_def cell_char_def)
qed

lemma hex_cell: "list_all cell_char (hex_word w)"
proof -
  have "cell_char (hex_char d)" if "d < 16" for d
  proof -
    have "list_all (\<lambda>d. cell_char (hex_char d)) [0..<16]" by code_simp
    then show ?thesis using that by (simp add: list_all_iff del: upt_rec_numeral)
  qed
  then show ?thesis by (simp add: hex_word_def hex_word_digits_def cell_char_def list_all_iff del: upt_rec_numeral)
qed

lemma dec_int_inj: "dec_int m = dec_int n \<longleftrightarrow> m = n"
proof -
  have "hd (dec k) \<noteq> CHR ''-''" for k using dec_digits_only [of k] by (cases "dec k") auto
  then show ?thesis by (auto simp: dec_int_def dec_inj split: if_splits) (metis list.sel(1))+
qed

lemma hex_word_inj: "hex_word v = hex_word w \<longleftrightarrow> v = w"
  by (metis int_base16_hex_word sum.inject(2) word_uint_eqI)

lemma set_join: "set (join sep xs) \<subseteq> set sep \<union> \<Union> (set ` set xs)"
  by (induction sep xs rule: join.induct) auto

lemma trace_line_inj: "trace_line q = trace_line r \<Longrightarrow> lrow_of q = lrow_of r"
proof -
  let ?cells = "\<lambda>r. [dec_int (row_tick r), bit_text (row_fresh r), bit_text (row_arriving r \<noteq> None)] @
    map hex_word [truth_theta (row_truth r), truth_omega (row_truth r), applied (row_actuator r)]"
  have comma: "CHR '','' \<notin> set s" if "list_all cell_char s" for s using that by (auto simp: list_all_iff cell_char_def)
  note clean = comma [OF dec_cell] comma [OF hex_cell] bit_text_def
  assume "trace_line q = trace_line r"
  then have "join [CHR '',''] (?cells q) = join [CHR '',''] (?cells r)" by (simp add: trace_line_def)
  then have "?cells q = ?cells r"
    by (rule join_inj) (simp_all add: clean)
  then show ?thesis by (simp add: lrow_of_def bit_text_def dec_int_inj hex_word_inj split: if_splits)
qed

lemma trace_line_chars: "CHR 0x0A \<notin> set (trace_line r)"
proof -
  let ?cells = "[dec_int (row_tick r), bit_text (row_fresh r), bit_text (row_arriving r \<noteq> None)] @
    map hex_word [truth_theta (row_truth r), truth_omega (row_truth r), applied (row_actuator r)]"
  have "list_all (list_all cell_char) ?cells" by (simp add: bit_text_def dec_cell hex_cell)
  then have "CHR 0x0A \<notin> \<Union> (set ` set ?cells)" by (fastforce simp only: list_all_iff cell_char_def)
  then show ?thesis using set_join [of "'',''" ?cells] unfolding trace_line_def by (auto simp del: join.simps)
qed

lemma map_through:
  assumes "map f xs = map f ys" "\<And>x y. f x = f y \<Longrightarrow> g x = g y"
  shows "map g xs = map g ys"
  using assms(1) by (induction xs ys rule: list_induct2') (auto dest: assms(2))

text \<open>C24. Comparing the CSV texts compares the rows: two traces with the same text have the same ticks, samples, applications, true states
  and applied angles, to the last bit.\<close>

theorem sim_csv_faithful:
  "to_sim_csv a = to_sim_csv b \<longleftrightarrow> map lrow_of (tr_rows a) = map lrow_of (tr_rows b)"
proof
  let ?h = "''tick,has_sample,applied,theta_bits,omega_bits,cmd_applied_bits''"
  assume "to_sim_csv a = to_sim_csv b"
  then have "join [CHR 0x0A] (?h # map trace_line (tr_rows a)) = join [CHR 0x0A] (?h # map trace_line (tr_rows b))"
    by (simp only: to_sim_csv_def newline_def append_same_eq)
  then have "?h # map trace_line (tr_rows a) = ?h # map trace_line (tr_rows b)"
    by (rule join_inj) (simp_all add: list_all_iff trace_line_chars)
  then have "map trace_line (tr_rows a) = map trace_line (tr_rows b)" by simp
  then show "map lrow_of (tr_rows a) = map lrow_of (tr_rows b)"
    by (rule map_through) (rule trace_line_inj)
next
  assume rows: "map lrow_of (tr_rows a) = map lrow_of (tr_rows b)"
  have "trace_line q = trace_line r" if "lrow_of q = lrow_of r" for q r
    using that by (simp add: lrow_of_def trace_line_def)
  then have "map trace_line (tr_rows a) = map trace_line (tr_rows b)"
    by (intro map_through [OF rows])
  then show "to_sim_csv a = to_sim_csv b" by (simp add: to_sim_csv_def)
qed

end
