(* ===== verification/Inspect.thy ===== *)
theory Inspect
  imports Twin
begin

text \<open>
  The inspection of a retained lockstep case (\<open>inspect_case\<close> of \<open>scripts/run_campaign.py\<close>, \<open>recording\<close> of
  \<open>scripts/run_scenario.py\<close>): its reports, recordings and CSV texts against each other and against a fresh reference run.
  What is accepted is the reference run, and the clauses it reports are those of the reference trace.
\<close>

section \<open>Recordings (scripts/run_scenario.py)\<close>

definition bad_counters :: "counters \<Rightarrow> nat list" where
  "bad_counters c = [crc_errors c, version_mismatch c, resyncs c, seq_discontinuities c, lost c, skipped_bytes c]"

definition recording :: "(byte list \<Rightarrow> 32 word) \<Rightarrow> byte list \<Rightarrow> nat \<Rightarrow> fields list result" where
  "recording crc data kind =
     rbind (read_typed_recording crc data kind) (\<lambda>(header, rows, c).
     ensure (\<not> (rh_start_monotonic_ns header \<noteq> 0 \<or> rh_start_epoch_ns header \<noteq> 0)) ''nonzero recording clock anchor'' (
     ensure (\<not> list_ex (\<lambda>n. n \<noteq> 0) (bad_counters c)) ''recording recovery or sequence error'' (Inr rows)))"

section \<open>Retained files\<close>

text \<open>The files of a case by their suffix: as JSON (\<open>read_json\<close>), as bytes and as text, whether one is a file and a link; the
  scenario file as bytes and as JSON.\<close>

record retained =
  rt_doc :: "string \<Rightarrow> json result"
  rt_bytes :: "string \<Rightarrow> byte list result"
  rt_text :: "string \<Rightarrow> string result"
  rt_is_file :: "string \<Rightarrow> bool"
  rt_is_link :: "string \<Rightarrow> bool"
  rt_scenario_bytes :: "byte list result"
  rt_scenario_tree :: "json result"

definition SUFFIXES :: "(string \<times> string) list" where
  "SUFFIXES = [(''inputs_tvcrec'', ''.inputs.tvcrec''), (''control_tvcrec'', ''.control.tvcrec''),
     (''sim_csv'', ''.sim.csv''), (''vehicle_csv'', ''.vehicle.csv'')]"

fun digests_of :: "(byte list \<Rightarrow> string) \<Rightarrow> retained \<Rightarrow> (string \<times> string) list \<Rightarrow> (string \<times> json) list result" where
  "digests_of sha R [] = Inr []"
| "digests_of sha R ((k, suffix) # ks) =
     rbind (rt_bytes R suffix) (\<lambda>b. rbind (digests_of sha R ks) (\<lambda>ds. Inr ((k, JString (sha b)) # ds)))"

definition case_scenario :: "f64 option \<Rightarrow> scenario \<Rightarrow> scenario" where
  "case_scenario loss sc = (case loss of None \<Rightarrow> sc | Some p \<Rightarrow> sc\<lparr>sc_loss_up := p, sc_loss_down := p\<rparr>)"

text \<open>The result of \<open>reconcile\<close> as the dictionary it is; the later of two entries with one key wins in \<open>{**tx, **rx, ...}\<close>.\<close>

definition tidy :: "json \<Rightarrow> json" where
  "tidy v = (case v of JObject d \<Rightarrow> JObject (AList.clearjunk d) | _ \<Rightarrow> v)"

definition verdict_json :: "string \<Rightarrow> verdict \<Rightarrow> json" where
  "verdict_json mode v =
     JObject ([(''format'', JString ''tvc-reconcile-1''), (''mode'', JString mode), (''eligible'', JBool (vd_eligible v)),
       (''errors'', JList (map JString (vd_errors v)))] @ map (\<lambda>(k, w). (k, tidy w)) (vd_notes v) @
       (if map_of (vd_notes v) ''terminal_agreement'' = None then [(''terminal_agreement'', JBool False)] else []))"

section \<open>The case and its documents\<close>

definition expected_item :: "json option \<Rightarrow> json \<Rightarrow> string \<Rightarrow> string \<Rightarrow> unit result \<Rightarrow> unit result" where
  "expected_item expected v k msg rest =
     (case expected of None \<Rightarrow> rest | Some w \<Rightarrow> need (item_is v k w) msg rest)"

record inspection =
  is_binary :: "json option"
  is_sim :: "json option"
  is_toolchain :: "json option"

definition inspect_identity :: "inspection \<Rightarrow> json \<Rightarrow> json \<Rightarrow> unit result" where
  "inspect_identity ex outcome replay =
     expected_item (is_binary ex) replay ''vehicle_sha256'' ''vehicle binary identity mismatch'' (
     expected_item (is_sim ex) replay ''sim_sha256'' ''simulator source identity mismatch'' (
     expected_item (is_toolchain ex) replay ''toolchain'' ''case toolchain mismatch'' (
     need (both (rbind (item outcome ''eligible'') (\<lambda>v. Inr (v = JBool True)))
         (both (item_is outcome ''vehicle_exit'' (JInt 0)) (item_is outcome ''sim_exit'' (JInt 0))))
       ''ineligible process result'' (Inr ()))))"

definition inspect_evidence ::
  "(byte list \<Rightarrow> 32 word) \<Rightarrow> (byte list \<Rightarrow> string) \<Rightarrow> (json \<Rightarrow> string) \<Rightarrow> retained \<Rightarrow> json \<Rightarrow> json \<Rightarrow> json \<Rightarrow>
   (json list \<times> fields list \<times> json \<times> json) result" where
  "inspect_evidence crc sha text_of R summary rep replay =
     rbind (rbind (rt_bytes R ''.inputs.tvcrec'') (\<lambda>b. recording crc b 4)) (\<lambda>sensors.
     rbind (rbind (rt_bytes R ''.control.tvcrec'') (\<lambda>b. recording crc b 6)) (\<lambda>controls.
     rbind (reconcile summary rep ''lockstep'' (map sensor_row_of sensors) (map control_of controls)) (\<lambda>checked.
     need (if \<not> vd_eligible checked then Inr False
         else rbind (rt_doc R ''.reconcile.json'') (\<lambda>stored. Inr (py_eq (verdict_json ''lockstep'' checked) stored)))
       ''incomplete reconciliation'' (
     rbind (rt_text R ''.sim.csv'') (\<lambda>sim_text.
     rbind (rbind (item rep ''rows'') py_iter) (\<lambda>rows.
     need (rbind (sim_csv text_of rows) (\<lambda>t. Inr (sim_text = t))) ''sim CSV differs from owned rows'' (
     rbind (rt_text R ''.vehicle.csv'') (\<lambda>vehicle_text.
     ensure (vehicle_text = vehicle_csv controls) ''vehicle CSV differs from recording'' (
     rbind (digests_of sha R SUFFIXES) (\<lambda>hashes.
     need (rbind (item replay ''digests'') (\<lambda>d. Inr (py_eq (JObject hashes) d))) ''artifact digest mismatch''
       (Inr (rows, controls, verdict_json ''lockstep'' checked, JObject hashes))))))))))))"

section \<open>The reference run\<close>

definition modeled_losses :: "json \<Rightarrow> trace \<Rightarrow> unit result \<Rightarrow> unit result" where
  "modeled_losses checked tr rest =
     need (rbind (items checked [''uplink'', ''modeled_sample_loss'']) (\<lambda>v. Inr (py_eq v (JInt (int (length (filter row_up_drop (tr_rows tr))))))))
       ''modeled sample loss differs from reference'' (
     need (rbind (items checked [''downlink'', ''modeled_command_loss'']) (\<lambda>v. Inr (py_eq v (JInt (int (length (filter row_down_drop (tr_rows tr))))))))
       ''modeled command loss differs from reference'' rest)"

definition row_reason :: "row \<Rightarrow> int" where
  "row_reason r = (case terminal (out_state (row_episode r)) of None \<Rightarrow> 0 | Some t \<Rightarrow> int (reason_value (term_reason t)))"

definition check_record :: "fields \<Rightarrow> row \<Rightarrow> unit result \<Rightarrow> unit result" where
  "check_record F r rest =
     (let st = out_state (row_episode r) in
      ensure (int_at F ''tick'' = row_tick r \<and> int_at F ''state'' = int (mode_value (ep_mode st))) ''reference state mismatch'' (
      ensure (int_at F ''reason'' = row_reason r \<and> int_at F ''staleness'' = row_staleness r) ''reference policy mismatch'' (
      ensure (bitword (flt_at F ''cmd'') = bitword (out_delta (row_episode r))) ''reference cmd mismatch'' (
      ensure (bitword (flt_at F ''i_state'') = bitword (i_state (ep_pid st))) ''reference i_state mismatch'' (
      ensure (bitword (flt_at F ''d_prev'') = bitword (d_prev (ep_pid st))) ''reference d_prev mismatch'' rest)))))"

fun check_records :: "fields list \<Rightarrow> row list \<Rightarrow> unit result" where
  "check_records (F # Fs) (r # rs) = check_record F r (check_records Fs rs)"
| "check_records Fs rs = Inr ()"

definition inspect_reference ::
  "(byte list \<Rightarrow> string) \<Rightarrow> retained \<Rightarrow> string \<Rightarrow> int \<Rightarrow> int \<Rightarrow> f64 option \<Rightarrow> json \<Rightarrow> json \<Rightarrow> fields list \<Rightarrow> (scenario \<times> trace) result" where
  "inspect_reference sha R name seed delay loss replay checked controls =
     rbind (rbind (rt_scenario_tree R) (scenario_load name)) (\<lambda>loaded.
     let sc = case_scenario loss loaded in
     need (rbind (item replay ''scenario_sha256'') (\<lambda>v. rbind (rt_scenario_bytes R) (\<lambda>b. Inr (py_eq v (JString (sha b))))))
       ''scenario bytes mismatch'' (
     need (both (item_is replay ''seed'' (JInt seed)) (item_is replay ''delay_ticks'' (JInt delay))) ''case identity mismatch'' (
     rbind (run_headless sc seed delay) (\<lambda>tr.
     rbind (modeled_losses checked tr (
       rbind (rt_text R ''.sim.csv'') (\<lambda>sim_text.
       ensure (to_sim_csv tr = sim_text) ''Python/C++ truth or applied-state mismatch'' (
       ensure (length (tr_rows tr) = length controls) ''reference length mismatch'' (
       check_records controls (tr_rows tr)))))) (\<lambda>_. Inr (sc, tr))))))"

section \<open>Facts of a case\<close>

text \<open>A number of unknown type as the integer it equals; \<open>-1\<close> is none of the integers it is compared with.\<close>

definition int_value :: "json \<Rightarrow> int" where
  "int_value v =
     (case number_of v of
        None \<Rightarrow> -1
      | Some (NInt n) \<Rightarrow> n
      | Some (NFlt x) \<Rightarrow>
          if f_finite x \<and> f_scaled x (- 1074) mod 2 ^ 1074 = 0 then f_scaled x (- 1074) div 2 ^ 1074 else -1)"

fun evidence_rows :: "json list \<Rightarrow> fields list \<Rightarrow> evidence_row list result" where
  "evidence_rows (r # rs) (F # Fs) =
     rbind (item r ''tick'') (\<lambda>t.
     rbind (rbind (item r ''theta_bits'') bits_number) (\<lambda>theta.
     rbind (rbind (item r ''omega_bits'') bits_number) (\<lambda>omega.
     rbind (evidence_rows rs Fs) (\<lambda>es.
       Inr (\<lparr>ev_tick = int_value t, ev_theta = theta, ev_omega = omega, ev_delta = flt_at F ''cmd'',
             ev_i_state = flt_at F ''i_state'', ev_d_prev = flt_at F ''d_prev''\<rparr> # es)))))"
| "evidence_rows rs Fs = Inr []"

definition mode_of :: "int \<Rightarrow> mode option" where
  "mode_of n = find (\<lambda>m. int (mode_value m) = n) [INIT, ARMED, FLYING, TERMINATED]"

definition reason_of :: "int \<Rightarrow> reason option" where
  "reason_of n = find (\<lambda>r. int (reason_value r) = n)
     [NONE, STABILIZED, DIVERGED, GROUND_ABORT, SENSOR_LOST, PEER_LOST, SIGNAL, NOT_SETTLED, INTERNAL]"

definition terminal_value :: "json \<Rightarrow> json \<Rightarrow> terminal_result option" where
  "terminal_value reason tick =
     map_option (\<lambda>r. \<lparr>term_reason = r, term_tick = int_value tick\<rparr>) (reason_of (int_value reason))"

definition clauses_json :: "acceptance \<Rightarrow> json" where
  "clauses_json a = JObject [(''termination'', JBool (acc_termination a)), (''peak'', JBool (acc_peak a)),
     (''settled'', JBool (acc_settled a)), (''cadence'', JBool (acc_cadence a)), (''finiteness'', JBool (acc_finiteness a))]"

text \<open>\<open>max(abs(v) for v in vs)\<close>: the first of the greatest.\<close>

definition max_abs :: "f64 list \<Rightarrow> f64 result" where
  "max_abs vs =
     (case map f_abs vs of
        [] \<Rightarrow> Inl (ValueError ''max() arg is an empty sequence'')
      | x # xs \<Rightarrow> Inr (foldl (\<lambda>m y. if f_lt m y then y else m) x xs))"

definition case_facts :: "int \<Rightarrow> int \<Rightarrow> json \<times> json \<Rightarrow> json \<times> json \<Rightarrow> json \<Rightarrow> json \<Rightarrow> acceptance \<Rightarrow> json \<Rightarrow> f64 \<Rightarrow> f64 \<Rightarrow> json" where
  "case_facts seed delay sim vehicle reason_tick consumed clauses hashes peak omega =
     JObject [(''seed'', JInt seed), (''delay_ticks'', JInt delay), (''eligible'', JBool True), (''sim_reason'', fst sim),
       (''sim_reason_name'', snd sim), (''vehicle_reason'', fst vehicle), (''vehicle_reason_name'', snd vehicle),
       (''reason_tick'', reason_tick), (''consumed_ticks'', consumed), (''clauses'', clauses_json clauses), (''digests'', hashes),
       (''peak_theta_bits'', JString (bitword peak)), (''window_max_omega_bits'', JString (bitword omega)),
       (''errors'', JList [])]"

definition inspect_facts ::
  "int \<Rightarrow> int \<Rightarrow> json \<Rightarrow> json \<Rightarrow> json list \<Rightarrow> fields list \<Rightarrow> json \<Rightarrow> scenario \<Rightarrow> json result" where
  "inspect_facts seed delay summary rep rows controls hashes sc =
     rbind (item summary ''episode'') (\<lambda>term_doc.
     rbind (evidence_rows rows controls) (\<lambda>es.
     rbind (item rep ''sim_reason'') (\<lambda>sim_reason.
     rbind (if controls = [] then Inl (IndexError ''list index out of range'') else Inr (int_at (last controls) ''state'')) (\<lambda>st.
     rbind (item term_doc ''vehicle_reason'') (\<lambda>reason.
     rbind (item term_doc ''reason_tick'') (\<lambda>reason_tick.
     let clauses = evaluate_rows es (sc_ticks sc) (Some (int_value sim_reason)) (mode_of st) (terminal_value reason reason_tick) in
     rbind (item rep ''sim_reason_name'') (\<lambda>sim_name.
     rbind (item term_doc ''vehicle_reason_name'') (\<lambda>reason_name.
     rbind (items summary [''link'', ''admitted'']) (\<lambda>consumed.
     rbind (max_abs (map ev_theta es)) (\<lambda>peak.
     rbind (max_abs (map ev_omega (last_rows 1000 es))) (\<lambda>omega.
       Inr (case_facts seed delay (sim_reason, sim_name) (reason, reason_name) reason_tick consumed clauses hashes peak omega))))))))))))"

definition inspect_case ::
  "(byte list \<Rightarrow> 32 word) \<Rightarrow> (byte list \<Rightarrow> string) \<Rightarrow> (json \<Rightarrow> string) \<Rightarrow> retained \<Rightarrow> inspection \<Rightarrow> string \<Rightarrow> int \<Rightarrow> int \<Rightarrow>
   f64 option \<Rightarrow> json result" where
  "inspect_case crc sha text_of R ex name seed delay loss =
     rbind (rt_doc R ''.summary.json'') (\<lambda>summary. rbind (rt_doc R ''.sim-report.json'') (\<lambda>rep.
     rbind (rt_doc R ''.result.json'') (\<lambda>outcome. rbind (rt_doc R ''.replay.json'') (\<lambda>replay.
     rbind (inspect_identity ex outcome replay) (\<lambda>_.
     rbind (inspect_evidence crc sha text_of R summary rep replay) (\<lambda>(rows, controls, checked, hashes).
     rbind (inspect_reference sha R name seed delay loss replay checked controls) (\<lambda>(sc, tr).
       inspect_facts seed delay summary rep rows controls hashes sc)))))))"

text \<open>The entry of a golden scenario.\<close>

definition GOLDEN_ARTIFACTS :: "(string \<times> string) list" where
  "GOLDEN_ARTIFACTS = [(''sim_csv_sha256'', ''sim_csv''), (''vehicle_csv_sha256'', ''vehicle_csv''),
     (''inputs_sha256'', ''inputs_tvcrec''), (''control_sha256'', ''control_tvcrec'')]"

fun renamed_items :: "json \<Rightarrow> (string \<times> string) list \<Rightarrow> (string \<times> json) list result" where
  "renamed_items v [] = Inr []"
| "renamed_items v ((k, a) # ks) = rbind (item v a) (\<lambda>x. rbind (renamed_items v ks) (\<lambda>xs. Inr ((k, x) # xs)))"

definition outcome_of :: "json \<Rightarrow> json result" where
  "outcome_of reason =
     (if \<not> hashable reason then Inl (TypeError ''unhashable type'')
      else case find (\<lambda>(n, t). py_eq reason (JInt n)) OUTCOMES of
        None \<Rightarrow> Inl (KeyError ''outcome'') | Some (n, t) \<Rightarrow> Inr (JString t))"

definition golden_entry ::
  "(byte list \<Rightarrow> 32 word) \<Rightarrow> (byte list \<Rightarrow> string) \<Rightarrow> (json \<Rightarrow> string) \<Rightarrow> retained \<Rightarrow> string \<Rightarrow> json option \<Rightarrow> json result" where
  "golden_entry crc sha text_of R name toolchain =
     rbind (inspect_case crc sha text_of R \<lparr>is_binary = None, is_sim = None, is_toolchain = toolchain\<rparr> name (golden_seed name) 0 None) (\<lambda>facts.
     rbind (rt_scenario_bytes R) (\<lambda>b.
     rbind (item facts ''vehicle_reason'') (\<lambda>reason. rbind (item facts ''reason_tick'') (\<lambda>reason_tick.
     rbind (outcome_of reason) (\<lambda>outcome. rbind (item facts ''consumed_ticks'') (\<lambda>consumed.
     rbind (rbind (item facts ''digests'') (\<lambda>d. renamed_items d GOLDEN_ARTIFACTS)) (\<lambda>digests.
       Inr (JObject ([(''scenario'', JString name), (''scenario_sha256'', JString (sha b)), (''seed'', JInt (golden_seed name)),
         (''delay_ticks'', JInt 0), (''reason'', reason), (''reason_tick'', reason_tick), (''outcome'', outcome),
         (''consumed_ticks'', consumed)] @ digests)))))))))"

section \<open>The text determines the cells\<close>

lemma count_join: "count_list (join [c] xs) c = sum_list (map (\<lambda>s. count_list s c) xs) + (length xs - 1)"
  by (induction "[c]" xs rule: join.induct) simp_all

lemma counts_zero: "sum_list (map (\<lambda>s. count_list s c) xs) = 0 \<longleftrightarrow> list_all (\<lambda>s. c \<notin> set s) xs"
  by (induction xs) (simp_all add: count_list_0_iff)

text \<open>A text of \<open>n\<close> lines in as many blocks has one line in each.\<close>

lemma lines_unique:
  fixes c :: char
  assumes "concat (map (\<lambda>s. s @ [c]) ls) = concat (map (\<lambda>s. s @ [c]) ms)" "length ls = length ms"
    "list_all (\<lambda>s. c \<notin> set s) ms"
  shows "ls = ms"
proof -
  have count: "count_list (concat (map (\<lambda>s. s @ [c]) xs)) c = sum_list (map (\<lambda>s. count_list s c) xs) + length xs" for xs
    by (induction xs) simp_all
  have "sum_list (map (\<lambda>s. count_list s c) ms) = 0" using assms(3) by (simp only: counts_zero)
  then have "sum_list (map (\<lambda>s. count_list s c) ls) + length ls = 0 + length ls"
    using count [of ls] count [of ms] assms(1,2) by metis
  then have "sum_list (map (\<lambda>s. count_list s c) ls) = 0" by (rule add_right_imp_eq)
  then have free: "list_all (\<lambda>s. c \<notin> set s) ls" by (simp only: counts_zero)
  have split: "s @ c # u = t @ c # v \<Longrightarrow> c \<notin> set s \<Longrightarrow> c \<notin> set t \<Longrightarrow> s = t \<and> u = v" for s t u v
    using split_on_head [of c s u] split_on_head [of c t v] by auto
  from assms(2,1,3) free show ?thesis
  proof (induction ls ms rule: list_induct2)
    case (Cons l ls m ms)
    then show ?case using split [of l "concat (map (\<lambda>s. s @ [c]) ls)" m "concat (map (\<lambda>s. s @ [c]) ms)"] by simp
  qed simp
qed

lemma cells_unique:
  assumes "join [c] xs = join [c] ys" "length xs = length ys" "xs \<noteq> []" "list_all (\<lambda>s. c \<notin> set s) ys"
  shows "xs = ys"
proof -
  have "sum_list (map (\<lambda>s. count_list s c) ys) = 0" using assms(4) by (simp only: counts_zero)
  then have "sum_list (map (\<lambda>s. count_list s c) xs) + (length xs - 1) = 0 + (length xs - 1)"
    using count_join [of c xs] count_join [of c ys] assms(1,2) by metis
  then have "sum_list (map (\<lambda>s. count_list s c) xs) = 0" by (rule add_right_imp_eq)
  then have "list_all (\<lambda>s. c \<notin> set s) xs" by (simp only: counts_zero)
  with assms show ?thesis by (intro join_inj [OF assms(1)]) auto
qed

definition row_cells_text :: "row \<Rightarrow> string list" where
  "row_cells_text r = [dec_int (row_tick r), bit_text (row_fresh r), bit_text (row_arriving r \<noteq> None)] @
     map hex_word [truth_theta (row_truth r), truth_omega (row_truth r), applied (row_actuator r)]"

lemma row_cells_clean: "list_all (\<lambda>s. CHR '','' \<notin> set s) (row_cells_text r)"
proof -
  have comma: "CHR '','' \<notin> set s" if "list_all cell_char s" for s using that by (auto simp: list_all_iff cell_char_def)
  show ?thesis by (simp add: row_cells_text_def bit_text_def comma [OF dec_cell] comma [OF hex_cell])
qed

lemma sim_lines_Inr:
  "sim_lines text_of rs = Inr t \<Longrightarrow> \<exists>css. list_all2 (\<lambda>r cs. cells text_of r SIM_COLUMNS = Inr cs) rs css \<and>
     t = concat (map (\<lambda>cs. join '','' cs @ newline) css)"
proof (induction rs arbitrary: t)
  case (Cons r rs)
  then obtain cs u where u: "cells text_of r SIM_COLUMNS = Inr cs" "sim_lines text_of rs = Inr u" "t = join '','' cs @ newline @ u"
    by (auto simp: rbind_eq_Inr)
  with Cons.IH obtain css where "list_all2 (\<lambda>r cs. cells text_of r SIM_COLUMNS = Inr cs) rs css"
    "u = concat (map (\<lambda>cs. join '','' cs @ newline) css)" by blast
  with u show ?case by (intro exI [of _ "cs # css"]) simp
qed simp

lemma cells_length: "cells text_of r ks = Inr cs \<Longrightarrow> length cs = length ks"
  by (induction ks arbitrary: cs) (auto simp: rbind_eq_Inr)

lemma sim_csv_cells:
  assumes "sim_csv text_of rows = Inr (to_sim_csv tr)" "length rows = length (tr_rows tr)"
  shows "list_all2 (\<lambda>v r. cells text_of v SIM_COLUMNS = Inr (row_cells_text r)) rows (tr_rows tr)"
proof -
  let ?h = "''tick,has_sample,applied,theta_bits,omega_bits,cmd_applied_bits''"
  have h: "join '','' SIM_COLUMNS = ?h" by (simp add: SIM_COLUMNS_def)
  obtain t where t: "sim_lines text_of rows = Inr t" "?h @ newline @ t = to_sim_csv tr"
    using assms(1) by (auto simp: sim_csv_def h rbind_eq_Inr)
  then obtain css where css: "list_all2 (\<lambda>r cs. cells text_of r SIM_COLUMNS = Inr cs) rows css"
    "t = concat (map (\<lambda>cs. join '','' cs @ newline) css)" using sim_lines_Inr by blast
  let ?ms = "map trace_line (tr_rows tr)"
  have "t = concat (map (\<lambda>l. l @ newline) ?ms)"
    using t(2) join_lines [of ?h ?ms] by (simp add: to_sim_csv_def)
  then have "concat (map (\<lambda>l. l @ [CHR 0x0A]) (map (join '','') css)) = concat (map (\<lambda>l. l @ [CHR 0x0A]) ?ms)"
    by (simp add: css(2) newline_def comp_def)
  moreover have len: "length css = length (tr_rows tr)" using css(1) assms(2) by (simp add: list_all2_lengthD [symmetric])
  moreover have "list_all (\<lambda>s. CHR 0x0A \<notin> set s) ?ms" using trace_line_chars by (simp only: list_all_iff) auto
  ultimately have lines: "map (join '','') css = ?ms" by (intro lines_unique) simp_all
  show ?thesis unfolding list_all2_conv_all_nth
  proof (intro conjI allI impI)
    show "length rows = length (tr_rows tr)" by (rule assms(2))
    fix i assume i: "i < length rows"
    have c: "cells text_of (rows ! i) SIM_COLUMNS = Inr (css ! i)" using css(1) i by (simp add: list_all2_conv_all_nth)
    have "join '','' (css ! i) = trace_line (tr_rows tr ! i)"
      using arg_cong [OF lines, of "\<lambda>xs. xs ! i"] i len assms(2) by simp
    then have "join [CHR '',''] (css ! i) = join [CHR '',''] (row_cells_text (tr_rows tr ! i))"
      by (simp add: trace_line_def row_cells_text_def)
    note eq = this
    have six: "length (css ! i) = 6" "length (row_cells_text r) = 6" for r
      using cells_length [OF c] by (simp_all add: SIM_COLUMNS_def row_cells_text_def)
    have "css ! i = row_cells_text (tr_rows tr ! i)"
      by (rule cells_unique [OF eq _ _ row_cells_clean]) (use six in auto)
    with c show "cells text_of (rows ! i) SIM_COLUMNS = Inr (row_cells_text (tr_rows tr ! i))" by simp
  qed
qed

section \<open>The records are the reference rows\<close>

definition record_of_row :: "fields \<Rightarrow> row \<Rightarrow> bool" where
  "record_of_row F r \<longleftrightarrow>
     int_at F ''tick'' = row_tick r \<and> int_at F ''state'' = int (mode_value (ep_mode (out_state (row_episode r)))) \<and>
     int_at F ''reason'' = row_reason r \<and> int_at F ''staleness'' = row_staleness r \<and>
     flt_at F ''cmd'' = out_delta (row_episode r) \<and> flt_at F ''i_state'' = i_state (ep_pid (out_state (row_episode r))) \<and>
     flt_at F ''d_prev'' = d_prev (ep_pid (out_state (row_episode r)))"

lemma check_record_Inr: "check_record F r rest = Inr u \<longleftrightarrow> record_of_row F r \<and> rest = Inr u"
  by (auto simp: check_record_def Let_def ensure_eq_Inr bitword_def hex_word_inj record_of_row_def)

lemma check_records_Inr:
  "length Fs = length rs \<Longrightarrow> check_records Fs rs = Inr u \<longleftrightarrow> list_all2 record_of_row Fs rs"
  by (induction Fs rs rule: list_induct2) (simp_all add: check_record_Inr)

lemma bits_of_cell: "str_json text_of v = hex_word w \<Longrightarrow> bits_number v = Inr x \<Longrightarrow> x = w"
  by (cases v) (auto simp: bits_number_def ensure_eq_Inr prefixed_hex_def is_string_def int_base16_hex_word)

lemma quotient_exact: "(n :: int) * k = q \<Longrightarrow> k \<noteq> 0 \<Longrightarrow> q mod k = 0 \<and> q div k = n"
  by auto

lemma float_value_eq:
  assumes "n * 2 ^ 1074 = f_scaled x (- 1074)" "f_finite x"
  shows "int_value (JFloat x) = n"
proof -
  have "(2 :: int) ^ 1074 \<noteq> 0" by (rule power_not_zero) simp
  note q = quotient_exact [OF assms(1) this]
  show ?thesis
    unfolding int_value_def number_of.simps option.case number.case
    using q assms(2) by (simp only: if_True simp_thms)
qed

lemma int_value_eq: "py_eq v (JInt n) \<or> py_eq (JInt n) v \<Longrightarrow> int_value v = n"
proof (cases v)
  case (JFloat x)
  assume "py_eq v (JInt n) \<or> py_eq (JInt n) v"
  then have "f_finite x \<and> n * 2 ^ 1074 = f_scaled x (- 1074)" unfolding JFloat
    by (simp only: py_eq.simps number_of.simps num_eq.simps prod.case option.case) metis
  then show ?thesis unfolding JFloat by (intro float_value_eq) blast+
qed (auto simp: int_value_def)

lemma ticked_value: "row_ticked t v \<Longrightarrow> item v ''tick'' = Inr x \<Longrightarrow> int_value x = t"
  by (auto simp: row_ticked_def intro: int_value_eq)

lemma evidence_rows_reference:
  assumes "list_all2 (\<lambda>v r. cells text_of v SIM_COLUMNS = Inr (row_cells_text r)) rows rs"
    "list_all2 (\<lambda>v r. row_ticked (row_tick r) v) rows rs" "list_all2 record_of_row Fs rs"
    "evidence_rows rows Fs = Inr es"
  shows "es = map evidence_of rs"
  using assms
proof (induction rs arbitrary: rows Fs es rule: list.induct)
  case (Cons r rs)
  obtain v vs where v: "rows = v # vs" using Cons.prems(1) by (cases rows) simp_all
  obtain F Gs where F: "Fs = F # Gs" using Cons.prems by (cases Fs) simp_all
  note split = v F
  obtain t theta omega es' a b where e: "item v ''tick'' = Inr t" "item v ''theta_bits'' = Inr a" "bits_number a = Inr theta"
    "item v ''omega_bits'' = Inr b" "bits_number b = Inr omega" "evidence_rows vs Gs = Inr es'"
    "es = \<lparr>ev_tick = int_value t, ev_theta = theta, ev_omega = omega, ev_delta = flt_at F ''cmd'',
             ev_i_state = flt_at F ''i_state'', ev_d_prev = flt_at F ''d_prev''\<rparr> # es'"
    using Cons.prems(4) unfolding split evidence_rows.simps rbind_eq_Inr sum.inject by blast
  have cells: "cells text_of v SIM_COLUMNS = Inr (row_cells_text r)" using Cons.prems(1) split by simp
  then have shown: "str_json text_of a = hex_word (truth_theta (row_truth r))" "str_json text_of b = hex_word (truth_omega (row_truth r))"
    using e(2,4) by (auto simp: SIM_COLUMNS_def row_cells_text_def rbind_eq_Inr)
  have "int_value t = row_tick r" using Cons.prems(2) split e(1) ticked_value by auto
  moreover have "es' = map evidence_of rs" using Cons.IH [of vs Gs es'] Cons.prems(1-3) e(6) split by simp
  ultimately show ?case
    using Cons.prems(3) bits_of_cell [OF shown(1) e(3)] bits_of_cell [OF shown(2) e(5)]
    by (simp add: e(7) split evidence_of_def record_of_row_def)
qed simp

text \<open>The last row of a reference run.\<close>

definition row_ends :: "row \<Rightarrow> int option \<Rightarrow> bool" where
  "row_ends r stop \<longleftrightarrow> ep_mode (out_state (row_episode r)) = TERMINATED \<and>
     (case terminal (out_state (row_episode r)) of None \<Rightarrow> False
      | Some t \<Rightarrow> term_tick t = row_tick r \<and> (term_reason t = STABILIZED \<longrightarrow> stop = Some SIM_HORIZON))"

lemma tick_ends:
  assumes t: "headless_tick sc t s = Inr (r, stop, s')" and live: "hl_live t s" "0 \<le> t" and stop: "stop \<noteq> None"
  shows "row_ends r stop"
proof -
  obtain u d up down dstb cmd seq out where
    step: "episode_step (hl_ep s) (hl_input sc t s u cmd) = Inr out"
    and r: "r = hl_row s (hl_input sc t s u cmd) out u d"
    and st: "stop = hl_stop (hl_input sc t s u cmd) out"
    using t by (elim headless_tickE)
  let ?i = "hl_input sc t s u cmd"
  have mode: "ep_mode (out_state out) = TERMINATED" using hl_live_step(1) [OF t live] stop by (simp add: r)
  have alive: "ep_mode (hl_ep s) \<noteq> TERMINATED" "episode_wf (hl_ep s)" using live by (simp_all add: hl_live_def)
  let ?c = "settle_next (settle_count (hl_ep s)) (in_held ?i)"
  obtain q where q: "terminal_reason ?i ?c = Inr q"
    "if q \<noteq> NONE then out = terminate_step (hl_ep s) ?i ?c q else advance_step (hl_ep s) ?i ?c = Inr out"
    using step alive by (auto simp: episode_step_def rbind_eq_Inr Let_def split: if_splits)
  have fields: "in_horizon ?i = False" "in_stop_reason ?i = None" "in_tick ?i = t" by (simp_all add: hl_input_def Let_def)
  show ?thesis
  proof (cases "q = NONE")
    case True
    then have adv: "advance_step (hl_ep s) ?i ?c = Inr out" using q(2) by simp
    have wf: "episode_wf (out_state out)" using episode_step_wf [OF step alive(2)] .
    then have "terminal (out_state out) \<noteq> None" using mode by (simp add: episode_wf_def)
    from phase_terminal [OF alive(2,1) adv this] show ?thesis using mode fields(3) by (simp add: row_ends_def r)
  next
    case False
    then have out: "out = terminate_step (hl_ep s) ?i ?c q" using q(2) by simp
    have "in_sim_reason ?i = Some SIM_HORIZON" if "q = STABILIZED"
      using q(1) that fields by (auto simp: terminal_reason_def rbind_eq_Inr split: if_splits option.splits)
    then show ?thesis using mode fields by (auto simp: row_ends_def r st out terminate_step_def Let_def hl_stop_def)
  qed
qed

lemma run_ends:
  assumes "run_headless sc seed delay = Inr tr"
  shows "tr_rows tr \<noteq> [] \<and> row_ends (last (tr_rows tr)) (tr_sim_reason tr) \<and>
    map row_tick (tr_rows tr) = map int [0..<length (tr_rows tr)] \<and> tr_ticks tr = sc_ticks sc"
proof -
  from assms obtain up down s where h: "0 < sc_ticks sc" "headless_loop sc (ticks_from 0 (nat (sc_ticks sc))) (headless_initial sc up down delay) =
      Inr (tr_rows tr, tr_sim_reason tr, s)" "tr_ticks tr = sc_ticks sc" by (elim run_headless_unfold)
  have stop: "tr_sim_reason tr \<noteq> None" by (rule headless_loop_stops [OF h(2) hl_live_initial]) (use h(1) in simp_all)
  have step: "True \<and> (stop = None \<longrightarrow> True \<and> hl_live (t + 1) s') \<and> (stop \<noteq> None \<longrightarrow> row_ends r stop)"
    if "headless_tick sc t s = Inr (r, stop, s')" "hl_live t s" "0 \<le> t" for t s r stop s'
    using hl_live_step(2) [OF that] tick_ends [OF that] by blast
  have "tr_rows tr \<noteq> [] \<and> row_ends (last (tr_rows tr)) (tr_sim_reason tr)"
    using headless_loop_rule [where I = hl_live and P = "\<lambda>r. True" and Q = "\<lambda>r. True" and L = row_ends and
        N = "sc_ticks sc", OF step h(2) hl_live_initial order_refl] stop h(1) by simp
  moreover have rows: "map row_tick (tr_rows tr) = take (length (tr_rows tr)) (ticks_from 0 (nat (sc_ticks sc)))"
    using headless_loop_rows [OF h(2)] by simp
  then have "length (tr_rows tr) \<le> nat (sc_ticks sc)"
    by (metis length_map length_take min.absorb_iff2 nat_le_linear ticks_from_def length_upt diff_zero)
  with rows have "map row_tick (tr_rows tr) = map int [0..<length (tr_rows tr)]"
    by (simp add: ticks_from_def take_map take_upt)
  ultimately show ?thesis using h(3) by simp
qed

lemma mode_of_value [simp]: "mode_of (int (mode_value m)) = Some m"
  by (cases m) (simp_all add: mode_of_def)

lemma reason_of_value [simp]: "reason_of (int (reason_value r)) = Some r"
  by (cases r) (simp_all add: reason_of_def)

lemma reason_value_one: "reason_value r = 1 \<longleftrightarrow> r = STABILIZED"
  by (cases r) simp_all

lemma clauses_agree:
  assumes "row_ends (last (tr_rows tr)) (tr_sim_reason tr)" "list_all2 record_of_row Fs (tr_rows tr)" "tr_rows tr \<noteq> []"
    and "int_value reason = row_reason (last (tr_rows tr))" "int_value tick = row_tick (last (tr_rows tr))"
    and "row_reason (last (tr_rows tr)) = 1 \<Longrightarrow> int_value sim_reason = SIM_HORIZON"
  shows "evaluate_rows (map evidence_of (tr_rows tr)) (tr_ticks tr) (Some (int_value sim_reason))
      (mode_of (int_at (last Fs) ''state'')) (terminal_value reason tick) = evaluate tr"
proof -
  let ?r = "last (tr_rows tr)"
  have len: "length Fs = length (tr_rows tr)" using assms(2) by (rule list_all2_lengthD)
  then have ne: "Fs \<noteq> []" using assms(3) by auto
  then have "record_of_row (last Fs) ?r"
    using assms(2,3) len by (simp add: list_all2_conv_all_nth last_conv_nth [OF ne] last_conv_nth [OF assms(3)])
  then have state: "mode_of (int_at (last Fs) ''state'') = Some (ep_mode (out_state (row_episode ?r)))"
    by (simp add: record_of_row_def)
  obtain t where t: "terminal (out_state (row_episode ?r)) = Some t" "term_tick t = row_tick ?r"
    "term_reason t = STABILIZED \<Longrightarrow> tr_sim_reason tr = Some SIM_HORIZON" "ep_mode (out_state (row_episode ?r)) = TERMINATED"
    using assms(1) by (auto simp: row_ends_def split: option.splits)
  then have ended: "terminal_value reason tick = Some t"
    using assms(4,5) by (cases t) (simp add: terminal_value_def row_reason_def)
  have "term_reason t = STABILIZED \<Longrightarrow> int_value sim_reason = SIM_HORIZON"
    using assms(6) t(1) by (simp add: row_reason_def)
  then show ?thesis
    using t assms(3) unfolding evaluate_def evaluate_rows_def state ended Let_def by auto
qed

lemma pair_stabilized:
  assumes "expected_pair sr vr controls = Inr True" "int_value vr = 1"
  shows "int_value sr = 1"
proof (cases "py_eq sr (JInt 1)")
  case True
  then show ?thesis by (simp add: int_value_eq)
next
  case False
  then have "list_ex (\<lambda>(a, b). py_eq sr (JInt a) \<and> py_eq vr (JInt b)) LOCKSTEP_PAIRS"
    using assms(1) by (auto simp: expected_pair_def pair_in_def rbind_eq_Inr split: if_splits)
  then obtain a b where ab: "(a, b) \<in> set LOCKSTEP_PAIRS" "py_eq sr (JInt a)" "py_eq vr (JInt b)" by (auto simp: list_ex_iff)
  have "b = 1" using int_value_eq [of vr b] ab(3) assms(2) by simp
  then have "a = 1" using ab(1) by (simp add: LOCKSTEP_PAIRS_def)
  then show ?thesis using ab(2) by (simp add: int_value_eq)
qed

lemma inspect_facts_clauses:
  assumes "inspect_facts seed delay summary rep rows controls hashes sc = Inr facts"
  obtains ep es sr vr rt where "item summary ''episode'' = Inr ep" "evidence_rows rows controls = Inr es"
    "item rep ''sim_reason'' = Inr sr" "controls \<noteq> []" "item ep ''vehicle_reason'' = Inr vr" "item ep ''reason_tick'' = Inr rt"
    "item facts ''clauses'' = Inr (clauses_json (evaluate_rows es (sc_ticks sc) (Some (int_value sr))
       (mode_of (int_at (last controls) ''state'')) (terminal_value vr rt)))"
proof -
  obtain ep es sr vr rt st clauses sim vehicle consumed peak omega where r: "item summary ''episode'' = Inr ep"
    "evidence_rows rows controls = Inr es" "item rep ''sim_reason'' = Inr sr"
    "(if controls = [] then Inl (IndexError ''list index out of range'') else Inr (int_at (last controls) ''state'')) = Inr st"
    "item ep ''vehicle_reason'' = Inr vr" "item ep ''reason_tick'' = Inr rt"
    "clauses = evaluate_rows es (sc_ticks sc) (Some (int_value sr)) (mode_of st) (terminal_value vr rt)"
    "facts = case_facts seed delay sim vehicle rt consumed clauses hashes peak omega"
    using assms unfolding inspect_facts_def Let_def rbind_eq_Inr sum.inject by metis
  then show thesis using that [of ep es sr vr rt] by (simp add: case_facts_def item_def split: if_splits)
qed

section \<open>An accepted case is the reference run\<close>

lemma inspect_evidence_parts:
  assumes "inspect_evidence crc sha text_of R summary rep replay = Inr (rows, controls, checked, hashes)"
  obtains sensors v rows_doc where
    "rbind (rt_bytes R ''.control.tvcrec'') (\<lambda>b. recording crc b 6) = Inr controls"
    "reconcile_lockstep summary rep (map sensor_row_of sensors) (map control_of controls) = Inr v" "vd_eligible v"
    "item rep ''rows'' = Inr rows_doc" "py_iter rows_doc = Inr rows"
    "rbind (rt_text R ''.sim.csv'') (\<lambda>t. Inr (sim_csv text_of rows = Inr t)) = Inr True"
    "rt_text R ''.vehicle.csv'' = Inr (vehicle_csv controls)"
proof -
  obtain sensors v sim_text vehicle_text rows_doc hs where p:
    "rbind (rt_bytes R ''.control.tvcrec'') (\<lambda>b. recording crc b 6) = Inr controls"
    "reconcile summary rep ''lockstep'' (map sensor_row_of sensors) (map control_of controls) = Inr v"
    "(if \<not> vd_eligible v then Inr False
      else rbind (rt_doc R ''.reconcile.json'') (\<lambda>stored. Inr (py_eq (verdict_json ''lockstep'' v) stored))) = Inr True"
    "rt_text R ''.sim.csv'' = Inr sim_text" "item rep ''rows'' = Inr rows_doc" "py_iter rows_doc = Inr rows"
    "rbind (sim_csv text_of rows) (\<lambda>t. Inr (sim_text = t)) = Inr True" "rt_text R ''.vehicle.csv'' = Inr vehicle_text"
    "vehicle_text = vehicle_csv controls"
    using assms unfolding inspect_evidence_def rbind_eq_Inr need_Inr ensure_eq_Inr sum.inject prod.inject by metis
  have "vd_eligible v" using p(3) by (auto split: if_splits)
  moreover have "sim_csv text_of rows = Inr sim_text" using p(7) by (auto simp: rbind_eq_Inr)
  ultimately show thesis using that [of sensors v rows_doc] p by (auto simp: reconcile_def)
qed

lemma inspect_reference_parts:
  assumes "inspect_reference sha R name seed delay loss replay checked controls = Inr (sc, tr)"
  obtains loaded where "rbind (rt_scenario_tree R) (scenario_load name) = Inr loaded" "sc = case_scenario loss loaded"
    "run_headless sc seed delay = Inr tr" "rt_text R ''.sim.csv'' = Inr (to_sim_csv tr)"
    "length (tr_rows tr) = length controls" "list_all2 record_of_row controls (tr_rows tr)"
proof -
  obtain loaded u sim_text where p: "rbind (rt_scenario_tree R) (scenario_load name) = Inr loaded" "sc = case_scenario loss loaded"
    "run_headless sc seed delay = Inr tr" "rt_text R ''.sim.csv'' = Inr sim_text" "to_sim_csv tr = sim_text"
    "length (tr_rows tr) = length controls" "check_records controls (tr_rows tr) = Inr u"
    using assms unfolding inspect_reference_def modeled_losses_def Let_def rbind_eq_Inr need_Inr ensure_eq_Inr sum.inject prod.inject
    by metis
  then show thesis using that check_records_Inr [of controls "tr_rows tr" u] by simp
qed

lemma inspected_reference:
  assumes "inspect_case crc sha text_of R ex name seed delay loss = Inr facts"
  shows "\<exists>loaded tr controls. rbind (rt_scenario_tree R) (scenario_load name) = Inr loaded \<and>
    run_headless (case_scenario loss loaded) seed delay = Inr tr \<and> rt_text R ''.sim.csv'' = Inr (to_sim_csv tr) \<and>
    rbind (rt_bytes R ''.control.tvcrec'') (\<lambda>b. recording crc b 6) = Inr controls \<and>
    rt_text R ''.vehicle.csv'' = Inr (vehicle_csv controls) \<and> list_all2 record_of_row controls (tr_rows tr) \<and>
    item facts ''clauses'' = Inr (clauses_json (evaluate tr))"
proof -
  obtain summary rep outcome replay rows controls checked hashes sc tr where c:
    "inspect_evidence crc sha text_of R summary rep replay = Inr (rows, controls, checked, hashes)"
    "inspect_reference sha R name seed delay loss replay checked controls = Inr (sc, tr)"
    "inspect_facts seed delay summary rep rows controls hashes sc = Inr facts"
    using assms by (auto simp: inspect_case_def rbind_eq_Inr)
  obtain sensors v rows_doc where e: "rbind (rt_bytes R ''.control.tvcrec'') (\<lambda>b. recording crc b 6) = Inr controls"
    "reconcile_lockstep summary rep (map sensor_row_of sensors) (map control_of controls) = Inr v" "vd_eligible v"
    "item rep ''rows'' = Inr rows_doc" "py_iter rows_doc = Inr rows"
    "rbind (rt_text R ''.sim.csv'') (\<lambda>t. Inr (sim_csv text_of rows = Inr t)) = Inr True"
    "rt_text R ''.vehicle.csv'' = Inr (vehicle_csv controls)"
    using inspect_evidence_parts [OF c(1)] .
  obtain loaded where ref: "rbind (rt_scenario_tree R) (scenario_load name) = Inr loaded" "sc = case_scenario loss loaded"
    "run_headless sc seed delay = Inr tr" "rt_text R ''.sim.csv'' = Inr (to_sim_csv tr)"
    "length (tr_rows tr) = length controls" "list_all2 record_of_row controls (tr_rows tr)"
    using inspect_reference_parts [OF c(2)] .
  obtain ep es sr vr rt where f: "item summary ''episode'' = Inr ep" "evidence_rows rows controls = Inr es"
    "item rep ''sim_reason'' = Inr sr" "controls \<noteq> []" "item ep ''vehicle_reason'' = Inr vr" "item ep ''reason_tick'' = Inr rt"
    "item facts ''clauses'' = Inr (clauses_json (evaluate_rows es (sc_ticks sc) (Some (int_value sr))
       (mode_of (int_at (last controls) ''state'')) (terminal_value vr rt)))"
    using inspect_facts_clauses [OF c(3)] .
  note fin = run_ends [OF ref(3)] and facts = eligible_facts [OF e(2,3)]
  have rows: "length rows = length controls" "\<forall>i < length controls. row_ticked (int i) (rows ! i)" using facts e(4,5) by auto
  have "terminal_agrees summary rep (map control_of controls)" using facts by blast
  then have ending: "expected_pair sr vr (map control_of controls) = Inr True"
      "py_eq (JInt (ct_reason (last (map control_of controls)))) vr" "py_eq rt (JInt (ct_tick (last (map control_of controls))))"
    using f(1,3,5,6) unfolding terminal_agrees_def by auto
  have tick: "row_tick (tr_rows tr ! i) = int i" if "i < length (tr_rows tr)" for i
    using fin that by (metis length_map nth_map nth_upt diff_zero add_0 length_upt)
  have "sim_csv text_of rows = Inr (to_sim_csv tr)" using e(6) ref(4) by simp
  then have cells: "list_all2 (\<lambda>v r. cells text_of v SIM_COLUMNS = Inr (row_cells_text r)) rows (tr_rows tr)"
    using rows(1) ref(5) by (intro sim_csv_cells) simp_all
  have "list_all2 (\<lambda>v r. row_ticked (row_tick r) v) rows (tr_rows tr)"
    using rows ref(5) tick by (simp add: list_all2_conv_all_nth)
  then have es: "es = map evidence_of (tr_rows tr)" by (rule evidence_rows_reference [OF cells _ ref(6) f(2)])
  let ?c = "last controls" and ?r = "last (tr_rows tr)"
  have last_record: "record_of_row ?c ?r"
    using ref(5,6) f(4) fin by (simp add: list_all2_conv_all_nth last_conv_nth)
  have "ct_reason (last (map control_of controls)) = row_reason ?r" "ct_tick (last (map control_of controls)) = row_tick ?r"
    using f(4) last_record by (simp_all add: last_map control_of_def record_of_row_def)
  then have "py_eq (JInt (row_reason ?r)) vr" "py_eq rt (JInt (row_tick ?r))" using ending(2,3) by simp_all
  then have vr: "int_value vr = row_reason ?r" and rt: "int_value rt = row_tick ?r" by (auto intro: int_value_eq)
  have sr: "int_value sr = SIM_HORIZON" if "row_reason ?r = 1"
    using pair_stabilized [OF ending(1)] vr that by (simp add: SIM_HORIZON_def)
  have "evaluate_rows es (sc_ticks sc) (Some (int_value sr)) (mode_of (int_at ?c ''state'')) (terminal_value vr rt) = evaluate tr"
    using clauses_agree [OF _ ref(6) _ vr rt sr] fin by (simp add: es)
  then show ?thesis using e(1,7) ref(1-4,6) f(7) by (intro exI [of _ loaded] exI [of _ tr] exI [of _ controls]) simp
qed

section \<open>A case of one tick\<close>

definition one_tick_tree :: json where
  "one_tick_tree = JObject [(''ticks'', JInt 1), (''theta0'', JFloat 0), (''omega0'', JFloat 0), (''gusts'', JList []),
     (''loss_up'', JFloat 0), (''loss_down'', JFloat 0), (''loss_start_tick'', JInt 1), (''blackout_up'', JNull),
     (''blackout_down'', JNull), (''commands'', JList []), (''auto_arm'', JBool True)]"

definition one_tick :: "string \<Rightarrow> f64 \<Rightarrow> scenario" where
  "one_tick name p = \<lparr>sc_id = name, sc_ticks = 1, sc_initial = zero_truth, sc_gusts = [], sc_loss_up = p, sc_loss_down = p,
     sc_loss_start = 1, sc_blackout_up = None, sc_blackout_down = None, sc_commands = [], sc_auto_arm = True\<rparr>"

lemma one_tick_lossy [simp]: "case_scenario None (one_tick name 0) = one_tick name 0" "case_scenario (Some p) (one_tick name q) = one_tick name p"
  by (simp_all add: case_scenario_def one_tick_def)

lemma one_tick_load: "scenario_load name one_tick_tree = Inr (one_tick name 0)"
proof -
  have "f_le 0 0" "f_le 0 (f_lit 1 1)" by (simp_all add: f_eval f_lit_def)
  then show ?thesis
    by (simp add: scenario_load_def one_tick_tree_def ensure_def SCENARIO_KEYS_def load_fields_def get_integer_def get_number_def
        get_probability_def load_blackout_def as_list_def one_tick_def zero_truth_def zero_floats)
qed

definition one_observation :: observation where
  "one_observation = \<lparr>obs_tick = 0, obs_theta = 0, obs_omega = 0, obs_valid = True\<rparr>"

definition one_row :: row where
  "one_row = \<lparr>row_tick = 0, row_truth = zero_truth, row_observation = one_observation, row_held = Some one_observation,
     row_fresh = True, row_staleness = 0, row_command = None,
     row_episode = \<lparr>out_state = (quiet_ep 1)\<lparr>ep_mode := TERMINATED, terminal := Some \<lparr>term_reason = NOT_SETTLED, term_tick = 0\<rparr>\<rparr>,
       out_delta = 0, out_acks = []\<rparr>,
     row_arriving = Some 0, row_actuator = \<lparr>applied = 0\<rparr>, row_up_drop = False, row_down_drop = False\<rparr>"

lemma one_episode: "episode_step (episode_initial True) (quiet_input 1 0) = Inr (row_episode one_row)"
  unfolding quiet_input_def one_row_def
  by (simp add: episode_eval quiet_ep_def LOC_ANGLE_zero fresh_control zero_floats)

lemma one_run:
  assumes p: "probability p"
  obtains tr where "run_headless (one_tick name p) 1 0 = Inr tr" "tr_rows tr = [one_row]" "tr_sim_reason tr = Some SIM_HORIZON"
proof -
  let ?sc = "one_tick name p"
  have wf: "scenario_wf (one_tick name p)"
    using p by (simp add: scenario_wf_def one_tick_def zero_truth_def zero_floats interval_wf_def)
  obtain tr where tr: "run_headless (one_tick name p) 1 0 = Inr tr" using run_headless_returns [OF wf, of 1 0] by auto
  then obtain up down s where loop: "headless_loop ?sc (ticks_from 0 (nat (sc_ticks ?sc))) (headless_initial ?sc up down 0) =
      Inr (tr_rows tr, tr_sim_reason tr, s)" by (elim run_headless_unfold)
  let ?s = "headless_initial ?sc up down 0"
  have draw: "\<exists>b. draw_drop g p = Inr (b, splitmix_advance g)" for g using p by (simp add: draw_drop_Inr)
  obtain a b where "draw_drop (hl_up ?s) p = Inr (a, splitmix_advance (hl_up ?s))" "draw_drop (hl_down ?s) p = Inr (b, splitmix_advance (hl_down ?s))"
    using draw by blast
  then have "hl_drops ?sc 0 ?s = Inr (False, False, splitmix_advance (hl_up ?s), splitmix_advance (hl_down ?s))"
    by (simp add: hl_drops_def one_tick_def forced_drop_at_def check_tick_ok ensure_def)
  moreover have "disturbance_at ?sc 0 environment_fixed = Inr \<lparr>tau_d = 0\<rparr>"
    by (simp add: disturbance_at_def one_tick_def check_tick_ok zero_floats)
  moreover have "hl_command ?sc 0 (hl_seq ?s) = Inr (None, hl_seq ?s)"
    by (simp add: hl_command_def command_at_def one_tick_def check_tick_ok)
  moreover have inp: "hl_input ?sc 0 ?s False None = quiet_input 1 0"
    by (simp add: hl_input_def quiet_input_def headless_initial_def one_tick_def zero_observation hl_age_def)
  moreover have "hl_ep ?s = episode_initial True" by (simp add: headless_initial_def one_tick_def)
  moreover have "hl_row ?s (quiet_input 1 0) (row_episode one_row) False False = one_row"
    using zero_actuator [of "Some 0"]
    by (simp add: hl_row_def one_row_def quiet_input_def headless_initial_def one_tick_def zero_observation one_observation_def
        push_pop_def actuator_initial_def zero_floats Let_def)
  moreover have "hl_stop (quiet_input 1 0) (row_episode one_row) = Some SIM_HORIZON" by (simp add: hl_stop_def quiet_input_def)
  ultimately have "\<exists>s'. headless_tick ?sc 0 ?s = Inr (one_row, Some SIM_HORIZON, s')"
    by (simp add: headless_tick_def one_episode Let_def)
  then have "tr_rows tr = [one_row]" "tr_sim_reason tr = Some SIM_HORIZON"
    using loop by (auto simp: one_tick_def ticks_from_simps)
  then show thesis using that tr by blast
qed

definition one_sample_fields :: fields where
  "one_sample_fields = [''tick'' \<mapsto> VInt 0, ''t_send_ns'' \<mapsto> VInt 0, ''theta'' \<mapsto> VFlt 0, ''omega'' \<mapsto> VFlt 0, ''flags'' \<mapsto> VInt 3,
     ''cmd_seq'' \<mapsto> VInt 0, ''sim_reason'' \<mapsto> VInt 1]"

definition one_control_fields :: fields where
  "one_control_fields = [''tick'' \<mapsto> VInt 0, ''deadline_ns'' \<mapsto> VInt 0, ''woke_ns'' \<mapsto> VInt 0, ''done_ns'' \<mapsto> VInt 0,
     ''sensor_send_ns'' \<mapsto> VInt 0, ''rx_ns'' \<mapsto> VInt 0, ''tx_ns'' \<mapsto> VInt 0, ''sensor_tick'' \<mapsto> VInt 0, ''theta'' \<mapsto> VFlt 0,
     ''omega'' \<mapsto> VFlt 0, ''cmd'' \<mapsto> VFlt 0, ''i_state'' \<mapsto> VFlt 0, ''d_prev'' \<mapsto> VFlt 0, ''drops'' \<mapsto> VInt 0,
     ''staleness'' \<mapsto> VInt 0, ''ack_cmd_seq'' \<mapsto> VInt 0, ''rx_count'' \<mapsto> VInt 1, ''discarded_old'' \<mapsto> VInt 0,
     ''discarded_superseded'' \<mapsto> VInt 0, ''discarded_other'' \<mapsto> VInt 0, ''state'' \<mapsto> VInt 3, ''reason'' \<mapsto> VInt 7,
     ''flags'' \<mapsto> VInt 3, ''ack_status'' \<mapsto> VInt 0]"

lemma one_sample_ok: "payload_ok 4 one_sample_fields"
  by (auto simp: payload_ok_def one_sample_fields_def PAYLOAD_FIELDS_def value_ok_def kind_range_def field_mask_def
      check_payload_counts_def)

lemma one_control_ok: "payload_ok 6 one_control_fields"
  by (auto simp: payload_ok_def one_control_fields_def PAYLOAD_FIELDS_def value_ok_def kind_range_def field_mask_def
      check_payload_counts_def get_field_def int_field_def)

text \<open>The recording of one row, written with a checksum of zero.\<close>

definition one_recording :: "nat \<Rightarrow> fields \<Rightarrow> byte list result" where
  "one_recording t F = rbind (recorded (\<lambda>_. 0) t 0 [F]) (\<lambda>body. Inr (header_bytes t 0 0 @ body))"

lemma one_recording_reads:
  assumes "t \<in> {1, 4, 6}" "payload_ok t F"
  shows "rbind (one_recording t F) (\<lambda>b. recording (\<lambda>_. 0) b t) = Inr [F]"
proof -
  have read: "rbind (recorded (\<lambda>_. 0) t 0 [F]) (\<lambda>body. read_typed_recording (\<lambda>_. 0) (header_bytes t 0 0 @ body) t) =
    Inr (\<lparr>rh_magic = MAGIC, rh_version = WIRE_VERSION, rh_schema_hash = the (map_of SCHEMA_HASHES t),
          rh_start_monotonic_ns = 0, rh_start_epoch_ns = 0, rh_schema_known = True\<rparr>, [F],
      \<lparr>frames_ok = length [F], crc_errors = 0, version_mismatch = 0, resyncs = 0,
       seq_discontinuities = 0, lost = 0, skipped_bytes = 0\<rparr>)"
    by (rule typed_recording_reads) (use assms in \<open>simp_all add: int64_ok_def\<close>)
  then obtain body where b: "recorded (\<lambda>_. 0) t 0 [F] = Inr body" unfolding rbind_eq_Inr by blast
  show ?thesis using read by (simp add: one_recording_def b recording_def bad_counters_def del: recorded.simps)
qed

lemma one_recording_exists: "payload_ok t F \<Longrightarrow> t \<in> {1, 4, 6} \<Longrightarrow> \<exists>b. one_recording t F = Inr b"
  using one_recording_reads [of t F] unfolding rbind_eq_Inr by blast

definition one_summary :: json where
  "one_summary = JObject [(''mode'', JString ''lockstep''), (''timing_valid'', JBool False),
     (''telemetry'', example_counts [(''dropped'', 0), (''records'', 1)]), (''total_cycles'', JInt 1),
     (''link'', example_rx), (''actuator'', example_tx), (''events'', example_events),
     (''episode'', JObject [(''vehicle_reason'', JInt 7), (''vehicle_reason_name'', JString ''NOT_SETTLED''), (''reason_tick'', JInt 0),
        (''sim_reason_seen'', JInt 1)])]"

definition one_report :: json where
  "one_report = JObject [(''transmission'', JObject ((''modeled_sample_loss'', JInt 0) # entry example_tx)), (''actuator_receipt'', example_rx),
     (''seed'', JInt 1), (''actuator_replies'', JList [JObject [(''tick'', JInt 0), (''veh_tick'', JInt 0), (''status'', JInt 1795),
        (''delta'', JFloat 0), (''staleness'', JInt 0)]]),
     (''rows'', JList [row_json (lrow_of one_row)]), (''sim_reason'', JInt 1), (''sim_reason_name'', JString ''SIM_HORIZON''),
     (''vehicle_reason_seen'', JInt 7),
     (''rng'', JObject [(''streams'', JObject [
        (''link.loss.up'', example_stream 0 ''0x910a2dec89025cc1'' ''0x2f41a7a6084cd8d6''),
        (''link.loss.down'', example_stream 1 ''0xbeeb8da1658eec67'' ''0x5d23075ae4d9687c'')])])]"

definition one_verdict :: "verdict result" where
  "one_verdict = reconcile one_summary one_report ''lockstep'' [sensor_row_of one_sample_fields] [control_of one_control_fields]"

definition one_verdict_ok :: bool where
  "one_verdict_ok \<longleftrightarrow> (case one_verdict of Inl e \<Rightarrow> False
     | Inr v \<Rightarrow> let j = verdict_json ''lockstep'' v in vd_eligible v \<and> py_eq j j \<and>
         items j [''uplink'', ''modeled_sample_loss''] = Inr (JInt 0) \<and> items j [''downlink'', ''modeled_command_loss''] = Inr (JInt 0))"

lemma hex_zero: "hex_word 0 = ''0x0000000000000000''"
proof -
  have "hex_char 0 = digit_of 0" by (simp add: hex_char_def digit_of_def)
  then have zero: "hex_char 0 = CHR ''0''" by (simp only: digit_chars(1))
  have "map (\<lambda>i. hex_char (0 div 16 ^ i mod 16)) (rev [0..<16]) = replicate 16 CHR ''0''"
    by (simp add: map_replicate_const zero del: upt_rec_numeral)
  then have "hex_word 0 = ''0x'' @ replicate 16 CHR ''0''" by (simp only: hex_word_def hex_word_digits_def unat_0)
  also have "\<dots> = ''0x0000000000000000''" by code_simp
  finally show ?thesis .
qed

lemma one_rows_json: "row_json (lrow_of one_row) = JObject [(''tick'', JInt 0), (''has_sample'', JInt 1), (''applied'', JInt 1),
    (''theta_bits'', JString ''0x0000000000000000''), (''omega_bits'', JString ''0x0000000000000000''),
    (''cmd_applied_bits'', JString ''0x0000000000000000'')]"
  by (simp add: hex_zero row_json_def lrow_of_def one_row_def zero_truth_def bits_json_def)

lemma one_verdict_is_ok: "one_verdict_ok"
  unfolding one_verdict_ok_def one_verdict_def one_report_def one_rows_json
  by code_simp

text \<open>The retained files of the case, with the constant digest.\<close>

definition one_replay :: "string \<Rightarrow> (string \<times> json) list \<Rightarrow> json" where
  "one_replay h d = JObject ([(''seed'', JInt 1), (''delay_ticks'', JInt 0), (''scenario_sha256'', JString h),
     (''digests'', JObject (map (\<lambda>(k, s). (k, JString h)) SUFFIXES))] @ d)"

definition one_outcome :: json where
  "one_outcome = JObject [(''eligible'', JBool True), (''vehicle_exit'', JInt 0), (''sim_exit'', JInt 0)]"

definition one_case :: "string \<Rightarrow> (string \<times> json) list \<Rightarrow> string result \<Rightarrow> retained" where
  "one_case h d sim_text =
     \<lparr>rt_doc = (\<lambda>k. if k = ''.summary.json'' then Inr one_summary else if k = ''.sim-report.json'' then Inr one_report
        else if k = ''.result.json'' then Inr one_outcome else if k = ''.replay.json'' then Inr (one_replay h d)
        else rbind one_verdict (\<lambda>v. Inr (verdict_json ''lockstep'' v))),
      rt_bytes = (\<lambda>k. if k = ''.inputs.tvcrec'' then one_recording 4 one_sample_fields
        else if k = ''.control.tvcrec'' then one_recording 6 one_control_fields else Inr []),
      rt_text = (\<lambda>k. if k = ''.sim.csv'' then sim_text else Inr (vehicle_csv [one_control_fields])),
      rt_is_file = (\<lambda>_. True), rt_is_link = (\<lambda>_. False), rt_scenario_bytes = Inr [], rt_scenario_tree = Inr one_tick_tree\<rparr>"

lemma one_record: "record_of_row one_control_fields one_row"
  by (simp add: record_of_row_def one_control_fields_def one_row_def int_at_def flt_at_def row_reason_def
      quiet_ep_def episode_initial_def control_initial_def zero_floats)

lemma one_evidence_of: "evidence_of one_row =
    \<lparr>ev_tick = 0, ev_theta = 0, ev_omega = 0, ev_delta = 0, ev_i_state = 0, ev_d_prev = 0\<rparr>"
  by (simp add: evidence_of_def one_row_def zero_truth_def quiet_ep_def episode_initial_def control_initial_def zero_floats)

lemma one_evidence: "evidence_rows [row_json (lrow_of one_row)] [one_control_fields] = Inr [evidence_of one_row]"
proof -
  have "bits_number (JString ''0x0000000000000000'') = Inr 0" by code_simp
  moreover have "flt_at one_control_fields k = 0" if "k \<in> {''cmd'', ''i_state'', ''d_prev''}" for k
    using that by (auto simp: one_control_fields_def flt_at_def)
  ultimately show ?thesis by (simp add: one_rows_json one_evidence_of item_def int_value_def)
qed

lemma one_checked: "check_records [one_control_fields] [one_row] = Inr ()"
  using one_record by (simp add: check_record_Inr)

lemma one_drops [simp]: "row_up_drop one_row = False" "row_down_drop one_row = False"
  by (simp_all add: one_row_def)

definition one_clauses :: acceptance where
  "one_clauses = evaluate_rows [evidence_of one_row] 1 (Some 1) (mode_of 3) (terminal_value (JInt 7) (JInt 0))"

definition one_facts :: "string \<Rightarrow> json" where
  "one_facts h = case_facts 1 0 (JInt 1, JString ''SIM_HORIZON'') (JInt 7, JString ''NOT_SETTLED'') (JInt 0) (JInt 1) one_clauses
     (JObject (map (\<lambda>(k, s). (k, JString h)) SUFFIXES)) 0 0"

lemma one_case_accepted:
  assumes "run_headless (case_scenario loss (one_tick name 0)) 1 0 = Inr tr" "tr_rows tr = [one_row]"
    "inspect_identity ex one_outcome (one_replay h d) = Inr ()"
  shows "inspect_case (\<lambda>_. 0) (\<lambda>_. h) (\<lambda>_. []) (one_case h d (Inr (to_sim_csv tr))) ex name 1 0 loss = Inr (one_facts h)"
proof -
  let ?R = "one_case h d (Inr (to_sim_csv tr))" and ?replay = "one_replay h d"
  obtain v where v: "one_verdict = Inr v" "vd_eligible v" "py_eq (verdict_json ''lockstep'' v) (verdict_json ''lockstep'' v)"
    "items (verdict_json ''lockstep'' v) [''uplink'', ''modeled_sample_loss''] = Inr (JInt 0)"
    "items (verdict_json ''lockstep'' v) [''downlink'', ''modeled_command_loss''] = Inr (JInt 0)"
    using one_verdict_is_ok by (auto simp: one_verdict_ok_def Let_def split: sum.splits)
  obtain b4 b6 where b: "one_recording 4 one_sample_fields = Inr b4" "one_recording 6 one_control_fields = Inr b6"
    using one_recording_exists one_sample_ok one_control_ok by blast
  have rec: "recording (\<lambda>_. 0) b4 4 = Inr [one_sample_fields]" "recording (\<lambda>_. 0) b6 6 = Inr [one_control_fields]"
    using one_recording_reads [of 4 one_sample_fields] one_recording_reads [of 6 one_control_fields]
      one_sample_ok one_control_ok by (simp_all add: b)
  have files: "rt_bytes ?R ''.inputs.tvcrec'' = Inr b4" "rt_bytes ?R ''.control.tvcrec'' = Inr b6" "rt_bytes ?R ''.sim.csv'' = Inr []"
    "rt_bytes ?R ''.vehicle.csv'' = Inr []" "rt_doc ?R ''.reconcile.json'' = Inr (verdict_json ''lockstep'' v)"
    "rt_text ?R ''.sim.csv'' = Inr (to_sim_csv tr)" "rt_text ?R ''.vehicle.csv'' = Inr (vehicle_csv [one_control_fields])"
    "rt_doc ?R ''.summary.json'' = Inr one_summary" "rt_doc ?R ''.sim-report.json'' = Inr one_report"
    "rt_doc ?R ''.result.json'' = Inr one_outcome" "rt_doc ?R ''.replay.json'' = Inr ?replay"
    "rt_scenario_tree ?R = Inr one_tick_tree" "rt_scenario_bytes ?R = Inr []"
    by (simp_all add: one_case_def b v)
  let ?hashes = "JObject (map (\<lambda>(k, s). (k, JString h)) SUFFIXES)" and ?rows = "[row_json (lrow_of one_row)]"
  have rows: "item one_report ''rows'' = Inr (JList ?rows)" by (simp add: one_report_def item_def)
  have csv: "sim_csv (\<lambda>_. []) ?rows = Inr (to_sim_csv tr)" using sim_csv_rows [of "\<lambda>_. []" tr] assms(2) by simp
  have same: "py_eq ?hashes ?hashes" by (simp add: SUFFIXES_def)
  have "digests_of (\<lambda>_. h) ?R SUFFIXES = Inr (map (\<lambda>(k, s). (k, JString h)) SUFFIXES)"
    by (simp add: SUFFIXES_def files)
  moreover have "reconcile one_summary one_report ''lockstep'' (map sensor_row_of [one_sample_fields]) (map control_of [one_control_fields]) = Inr v"
    using v(1) by (simp add: one_verdict_def)
  moreover have "item ?replay ''digests'' = Inr ?hashes" by (simp add: one_replay_def item_def)
  ultimately have evidence: "inspect_evidence (\<lambda>_. 0) (\<lambda>_. h) (\<lambda>_. []) ?R one_summary one_report ?replay =
      Inr (?rows, [one_control_fields], verdict_json ''lockstep'' v, ?hashes)"
    unfolding inspect_evidence_def by (simp add: files rec v rows csv same py_iter_def del: list.map py_eq.simps sim_csv_def)
  have replay: "item ?replay ''scenario_sha256'' = Inr (JString h)" "item_is ?replay ''seed'' (JInt 1) = Inr True"
    "item_is ?replay ''delay_ticks'' (JInt 0) = Inr True"
    by (simp_all add: one_replay_def item_def item_is_def)
  have reference: "inspect_reference (\<lambda>_. h) ?R name 1 0 loss ?replay (verdict_json ''lockstep'' v) [one_control_fields] =
      Inr (case_scenario loss (one_tick name 0), tr)"
    unfolding inspect_reference_def modeled_losses_def
    by (simp add: files one_tick_load replay both_def assms v one_checked del: items.simps check_records.simps)
  have ticks: "sc_ticks (case_scenario loss (one_tick name 0)) = 1" by (cases loss) (simp_all add: case_scenario_def one_tick_def)
  have zero: "f_abs 0 = 0" by (simp add: f_abs_def f_field_defs)
  have "item one_summary ''episode'' = Inr (JObject [(''vehicle_reason'', JInt 7), (''vehicle_reason_name'', JString ''NOT_SETTLED''),
      (''reason_tick'', JInt 0), (''sim_reason_seen'', JInt 1)])" "items one_summary [''link'', ''admitted''] = Inr (JInt 1)"
    "item one_report ''sim_reason'' = Inr (JInt 1)" "item one_report ''sim_reason_name'' = Inr (JString ''SIM_HORIZON'')"
    "int_at one_control_fields ''state'' = 3" "int_value (JInt 1) = 1"
    by (simp_all add: one_summary_def one_report_def item_def example_rx_def example_counts_def one_control_fields_def int_at_def int_value_def)
  then have "inspect_facts 1 0 one_summary one_report ?rows [one_control_fields] ?hashes (case_scenario loss (one_tick name 0)) = Inr (one_facts h)"
    unfolding inspect_facts_def Let_def one_evidence ticks
    by (simp add: one_facts_def one_clauses_def item_def max_abs_def last_rows_def one_evidence_of zero del: items.simps)
  then show ?thesis unfolding inspect_case_def by (simp add: files assms(3) evidence reference)
qed

lemma zero_probability: "probability 0"
  by (simp add: probability_val zero_floats fval_def f_field_defs)

section \<open>The property\<close>

text \<open>C8. An inspected case is the reference run: where \<open>inspect_case\<close> accepts the retained files of a case, the scenario it names has a
  reference run for the case's seed, delay and loss; the retained simulator text is its CSV, the retained control recording
  is its rows (mode, reason, staleness, command and controller state to the last bit), the vehicle text is that recording's,
  and the five clauses that the case reports are the acceptance clauses of the reference trace.\<close>

theorem inspected_case_is_reference:
  assumes "inspect_case crc sha text_of R ex name seed delay loss = Inr facts"
  shows "\<exists>loaded tr controls. rbind (rt_scenario_tree R) (scenario_load name) = Inr loaded \<and>
    run_headless (case_scenario loss loaded) seed delay = Inr tr \<and> rt_text R ''.sim.csv'' = Inr (to_sim_csv tr) \<and>
    rbind (rt_bytes R ''.control.tvcrec'') (\<lambda>b. recording crc b 6) = Inr controls \<and>
    rt_text R ''.vehicle.csv'' = Inr (vehicle_csv controls) \<and> list_all2 record_of_row controls (tr_rows tr) \<and>
    item facts ''clauses'' = Inr (clauses_json (evaluate tr))"
  by (rule inspected_reference [OF assms])

theorem inspected_case_is_reference_witness:
  "\<exists>R facts tr controls. inspect_case (\<lambda>_. 0) (\<lambda>_. []) (\<lambda>_. []) R \<lparr>is_binary = None, is_sim = None, is_toolchain = None\<rparr>
      ''one'' 1 0 None = Inr facts \<and> run_headless (one_tick ''one'' 0) 1 0 = Inr tr \<and> rt_text R ''.sim.csv'' = Inr (to_sim_csv tr) \<and>
    list_all2 record_of_row controls (tr_rows tr) \<and> item facts ''clauses'' = Inr (clauses_json (evaluate tr))"
proof -
  let ?ex = "\<lparr>is_binary = None, is_sim = None, is_toolchain = None\<rparr>"
  obtain tr where tr: "run_headless (one_tick ''one'' 0) 1 0 = Inr tr" "tr_rows tr = [one_row]"
    using one_run [OF zero_probability] by blast
  have "inspect_identity ?ex one_outcome (one_replay [] []) = Inr ()"
    by (simp add: inspect_identity_def expected_item_def one_outcome_def item_def item_is_def both_def)
  with tr have facts: "inspect_case (\<lambda>_. 0) (\<lambda>_. []) (\<lambda>_. []) (one_case [] [] (Inr (to_sim_csv tr))) ?ex ''one'' 1 0 None = Inr (one_facts [])"
    by (intro one_case_accepted) simp_all
  have "rt_scenario_tree (one_case [] [] (Inr (to_sim_csv tr))) = Inr one_tick_tree" by (simp add: one_case_def)
  with inspected_case_is_reference [OF facts] facts tr(1) show ?thesis
    by (auto simp: one_tick_load)
qed

end
