(* ===== verification/Retained.thy ===== *)
theory Retained
  imports Inspect
begin

text \<open>
  The validation of a campaign manifest against the retained files of its cases: \<open>validate_manifest\<close> of
  \<open>scripts/run_campaign.py\<close> with an artifact root, and \<open>validate_artifact_hashes\<close>. \<open>files\<close> gives the directory of the case
  of a seed and a delay. A case that an accepted manifest counts as passed is a reference run that passes its acceptance.
\<close>

section \<open>Validation against retained files\<close>

definition CASE_LOSS :: f64 where "CASE_LOSS = 0x3FD3333333333333"

fun artifact_hashes :: "(byte list \<Rightarrow> string) \<Rightarrow> retained \<Rightarrow> json \<Rightarrow> (string \<times> string) list \<Rightarrow> unit result" where
  "artifact_hashes sha R c [] = Inr ()"
| "artifact_hashes sha R c ((k, suffix) # ks) =
     ensure (rt_is_file R suffix \<and> \<not> rt_is_link R suffix) ''missing artifact'' (
     need (rbind (rt_bytes R suffix) (\<lambda>b. rbind (items c [''digests'', k]) (\<lambda>v. Inr (py_eq (JString (sha b)) v)))) ''changed artifact''
       (artifact_hashes sha R c ks))"

definition validate_artifact_hashes :: "(byte list \<Rightarrow> string) \<Rightarrow> retained \<Rightarrow> json \<Rightarrow> unit result" where
  "validate_artifact_hashes sha R c =
     need (rbind (item c ''digests'') (\<lambda>d. same_keys d ARTIFACTS)) ''incomplete artifact inventory'' (artifact_hashes sha R c SUFFIXES)"

text \<open>\<open>all(case.get(k) == v for k, v in actual.items())\<close>.\<close>

fun facts_kept :: "json \<Rightarrow> (string \<times> json) list \<Rightarrow> bool result" where
  "facts_kept c [] = Inr True"
| "facts_kept c ((k, v) # kvs) = rbind (dict_get c k) (\<lambda>x. if py_eq x v then facts_kept c kvs else Inr False)"

text \<open>The artifacts of one case; \<open>files\<close> gives the directory of a seed and a delay.\<close>

definition check_retained ::
  "(byte list \<Rightarrow> 32 word) \<Rightarrow> (byte list \<Rightarrow> string) \<Rightarrow> (json \<Rightarrow> string) \<Rightarrow> (int \<Rightarrow> int \<Rightarrow> retained) \<Rightarrow> json \<Rightarrow> json \<Rightarrow> string \<Rightarrow>
   int \<times> int \<Rightarrow> json \<Rightarrow> unit result" where
  "check_retained crc sha text_of files toolchain identity name p c =
     (let R = files (fst p) (snd p) in
      rbind (validate_artifact_hashes sha R c) (\<lambda>_.
      rbind (item identity ''vehicle_sha256'') (\<lambda>binary. rbind (item identity ''sim_sha256'') (\<lambda>sim.
      rbind (inspect_case crc sha text_of R
          \<lparr>is_binary = Some binary, is_sim = Some sim, is_toolchain = (if toolchain = JNull then None else Some toolchain)\<rparr>
          name (fst p) (snd p) (Some CASE_LOSS)) (\<lambda>actual.
      need (facts_kept c (entry actual)) ''case facts differ from retained evidence'' (Inr ()))))))"

definition case_eligible :: "json \<Rightarrow> bool" where
  "case_eligible c \<longleftrightarrow> item c ''eligible'' = Inr (JBool True)"

text \<open>The loop over the cases with a further check of the eligible ones.\<close>

fun check_cases_with ::
  "(int \<times> int \<Rightarrow> json \<Rightarrow> unit result) \<Rightarrow> bool \<Rightarrow> (int \<times> int) list \<Rightarrow> (int \<times> int) list \<Rightarrow> json list \<Rightarrow>
   ((int \<times> int) list \<times> int) result" where
  "check_cases_with extra require_pass expected seen [] = Inr (seen, 0)"
| "check_cases_with extra require_pass expected seen (c # cs) =
     rbind (case_pair c) (\<lambda>p.
     ensure (pair_member p expected \<and> pair_of p \<notin> set seen) ''missing, duplicate or unexpected case'' (
     rbind (check_case require_pass c) (\<lambda>success.
     rbind (if case_eligible c then extra (pair_of p) c else Inr ()) (\<lambda>_.
     rbind (check_cases_with extra require_pass expected (pair_of p # seen) cs) (\<lambda>(seen', passed).
       Inr (seen', passed + (if success then 1 else 0)))))))"

definition retained_body ::
  "(byte list \<Rightarrow> 32 word) \<Rightarrow> (byte list \<Rightarrow> string) \<Rightarrow> (json \<Rightarrow> string) \<Rightarrow> (int \<Rightarrow> int \<Rightarrow> retained) \<Rightarrow> expectation \<Rightarrow> json \<Rightarrow> unit result" where
  "retained_body crc sha text_of files ex doc =
     rbind (manifest_matrix ex doc) (\<lambda>expected.
     rbind (manifest_identity ex doc) (\<lambda>_.
     rbind (item doc ''run_identity'') (\<lambda>identity.
     rbind (item doc ''scenario'') (\<lambda>name.
     rbind (item doc ''cases'') (\<lambda>cases.
     case list_of cases of
       None \<Rightarrow> Inl (ValueError ''missing cases'')
     | Some cs \<Rightarrow>
         rbind (check_cases_with (check_retained crc sha text_of files (ex_toolchain ex) identity (string_of name)) (ex_pass ex) expected [] cs)
           (\<lambda>(seen, passed).
         ensure (set seen = set expected) ''missing case'' (
         need (manifest_totals doc (int (card (set expected))) passed) ''wrong aggregate'' (Inr ()))))))))"

definition validate_retained ::
  "(byte list \<Rightarrow> 32 word) \<Rightarrow> (byte list \<Rightarrow> string) \<Rightarrow> (json \<Rightarrow> string) \<Rightarrow> (int \<Rightarrow> int \<Rightarrow> retained) \<Rightarrow> expectation \<Rightarrow> json \<Rightarrow> unit result" where
  "validate_retained crc sha text_of files ex doc =
     (case retained_body crc sha text_of files ex doc of Inl e \<Rightarrow> Inl (malformed e) | Inr u \<Rightarrow> Inr u)"

section \<open>Goldens against retained files\<close>

text \<open>The artifacts of one golden entry; \<open>files\<close> gives the directory of a scenario.\<close>

definition golden_retained ::
  "(byte list \<Rightarrow> 32 word) \<Rightarrow> (byte list \<Rightarrow> string) \<Rightarrow> (json \<Rightarrow> string) \<Rightarrow> (string \<Rightarrow> retained) \<Rightarrow> json \<Rightarrow> string \<Rightarrow> json \<Rightarrow> unit result" where
  "golden_retained crc sha text_of files toolchain name e =
     need (rbind (golden_entry crc sha text_of (files name) name (if toolchain = JNull then None else Some toolchain)) (\<lambda>g. Inr (py_eq e g)))
       ''golden artifact or oracle mismatch'' (Inr ())"

fun check_goldens_with :: "(string \<Rightarrow> json \<Rightarrow> unit result) \<Rightarrow> json list \<Rightarrow> string list result" where
  "check_goldens_with extra [] = Inr []"
| "check_goldens_with extra (e # es) =
     rbind (check_golden e) (\<lambda>name. rbind (extra name e) (\<lambda>_. rbind (check_goldens_with extra es) (\<lambda>names. Inr (name # names))))"

definition goldens_retained_body ::
  "(byte list \<Rightarrow> 32 word) \<Rightarrow> (byte list \<Rightarrow> string) \<Rightarrow> (json \<Rightarrow> string) \<Rightarrow> (string \<Rightarrow> retained) \<Rightarrow> expectation \<Rightarrow> json \<Rightarrow> unit result" where
  "goldens_retained_body crc sha text_of files ex doc =
     need (item_is doc ''format'' (JString (if ex_canonical ex then ''tvc-lockstep-goldens-1'' else ''tvc-lockstep-goldens-candidate-1'')))
       ''wrong golden class'' (
     rbind (rbind (item doc ''toolchain'') (\<lambda>t. check_toolchain t (ex_canonical ex))) (\<lambda>_.
     need (item_is doc ''toolchain'' (ex_toolchain ex)) ''golden toolchain mismatch'' (
     need (item_is doc ''implementation_source_sha256'' (ex_source ex)) ''golden source mismatch'' (
     rbind (item doc ''scenarios'') (\<lambda>scenarios.
     case list_of scenarios of
       None \<Rightarrow> Inl (ValueError ''missing golden scenarios'')
     | Some es \<Rightarrow>
         rbind (check_goldens_with (golden_retained crc sha text_of files (ex_toolchain ex)) es) (\<lambda>names.
         ensure (length names = length GOLDEN_SCENARIOS \<and> set names = set GOLDEN_SCENARIOS)
           ''missing or duplicate golden scenario'' (Inr ())))))))"

definition validate_goldens_retained ::
  "(byte list \<Rightarrow> 32 word) \<Rightarrow> (byte list \<Rightarrow> string) \<Rightarrow> (json \<Rightarrow> string) \<Rightarrow> (string \<Rightarrow> retained) \<Rightarrow> expectation \<Rightarrow> json \<Rightarrow> unit result" where
  "validate_goldens_retained crc sha text_of files ex doc =
     (case goldens_retained_body crc sha text_of files ex doc of Inl e \<Rightarrow> Inl (malformed e) | Inr u \<Rightarrow> Inr u)"

section \<open>What backs a case\<close>

definition case_counts :: "json \<Rightarrow> bool" where
  "case_counts c \<longleftrightarrow> case_eligible c \<and> list_all (truthy \<circ> snd) (entry (get_key (entry c) ''clauses''))"

text \<open>The retained files of a case are a reference run: its text and its recording; \<open>a\<close> is that run's acceptance.\<close>

definition reference_kept :: "(byte list \<Rightarrow> 32 word) \<Rightarrow> retained \<Rightarrow> int \<Rightarrow> int \<Rightarrow> acceptance \<Rightarrow> bool" where
  "reference_kept crc R seed delay a \<longleftrightarrow>
     (\<exists>loaded tr controls. rbind (rt_scenario_tree R) (scenario_load ''S2-gust'') = Inr loaded \<and>
        run_headless (case_scenario (Some CASE_LOSS) loaded) seed delay = Inr tr \<and> rt_text R ''.sim.csv'' = Inr (to_sim_csv tr) \<and>
        rbind (rt_bytes R ''.control.tvcrec'') (\<lambda>b. recording crc b 6) = Inr controls \<and>
        list_all2 record_of_row controls (tr_rows tr) \<and> a = evaluate tr)"

text \<open>Each artifact is a regular file whose digest the case names.\<close>

definition digests_kept :: "(byte list \<Rightarrow> string) \<Rightarrow> retained \<Rightarrow> json \<Rightarrow> bool" where
  "digests_kept sha R c \<longleftrightarrow> list_all (\<lambda>(k, suffix). rt_is_file R suffix \<and> \<not> rt_is_link R suffix \<and>
     (\<exists>b. rt_bytes R suffix = Inr b \<and> items c [''digests'', k] = Inr (JString (sha b)))) SUFFIXES"

definition case_backed :: "(byte list \<Rightarrow> 32 word) \<Rightarrow> (byte list \<Rightarrow> string) \<Rightarrow> (int \<Rightarrow> int \<Rightarrow> retained) \<Rightarrow> json \<Rightarrow> bool" where
  "case_backed crc sha files c \<longleftrightarrow>
     (let R = files (fst (case_id c)) (snd (case_id c)) in
      if case_eligible c then
        digests_kept sha R c \<and>
        (\<exists>a. reference_kept crc R (fst (case_id c)) (snd (case_id c)) a \<and> case_counts c = acc_passed a)
      else item c ''eligible'' = Inr (JBool False) \<and> \<not> case_counts c)"

lemma facts_kept_all: "facts_kept c kvs = Inr True \<Longrightarrow> (k, v) \<in> set kvs \<Longrightarrow> \<exists>x. dict_get c k = Inr x \<and> py_eq x v"
  by (induction kvs) (auto simp: rbind_eq_Inr split: if_splits)

lemma dict_get_item: "item c k = Inr x \<Longrightarrow> dict_get c k = Inr x"
  by (auto simp: item_def dict_get_def split: json.splits option.splits)

lemma item_entry: "item v k = Inr w \<Longrightarrow> (k, w) \<in> set (entry v)"
  by (auto simp: item_def entry_def split: json.splits option.splits dest: map_of_SomeD)

lemma py_eq_dict_all: "py_eq_dict d e \<Longrightarrow> (k, x) \<in> set d \<Longrightarrow> \<exists>y. map_of e k = Some y \<and> py_eq x y"
  by (induction d) (auto split: option.splits)

lemma clauses_same:
  assumes "clauses_ok cl" "py_eq cl (clauses_json a)"
  shows "list_all (truthy \<circ> snd) (entry cl) \<longleftrightarrow> acc_passed a"
proof -
  obtain d where d: "cl = JObject d" "fst ` set d = set CLAUSES" "list_all (is_bool \<circ> snd) d"
    using assms(1) by (cases cl) (auto simp: clauses_ok_def is_object_def entry_def)
  have dict: "py_eq_dict d (entry (clauses_json a))" using assms(2) by (simp add: d(1) clauses_json_def entry_def)
  let ?of = "\<lambda>k. map_of (entry (clauses_json a)) k"
  have each: "truthy x \<longleftrightarrow> ?of k = Some (JBool True)" if member: "(k, x) \<in> set d" for k x
  proof -
    have "is_bool x" using d(3) member by (auto simp: list_all_iff)
    then obtain b where x: "x = JBool b" by (auto simp: is_bool_def split: json.splits)
    obtain y where y: "?of k = Some y" "py_eq x y" using py_eq_dict_all [OF dict member] by blast
    from y(1) have "\<exists>b'. y = JBool b'" by (auto simp: clauses_json_def entry_def split: if_splits)
    then show ?thesis using x y by (cases b) (auto split: if_splits)
  qed
  have "list_all (truthy \<circ> snd) d \<longleftrightarrow> (\<forall>k \<in> set CLAUSES. ?of k = Some (JBool True))"
  proof
    assume all: "list_all (truthy \<circ> snd) d"
    show "\<forall>k \<in> set CLAUSES. ?of k = Some (JBool True)"
    proof
      fix k assume "k \<in> set CLAUSES"
      then obtain x where "(k, x) \<in> set d" using d(2) by (metis imageE prod.collapse)
      then show "?of k = Some (JBool True)" using each all by (auto simp: list_all_iff)
    qed
  next
    assume all: "\<forall>k \<in> set CLAUSES. ?of k = Some (JBool True)"
    have "truthy x" if "(k, x) \<in> set d" for k x
    proof -
      have "k \<in> set CLAUSES" using d(2) that by force
      then show ?thesis using each [OF that] all by blast
    qed
    then show "list_all (truthy \<circ> snd) d" by (auto simp: list_all_iff)
  qed
  also have "\<dots> \<longleftrightarrow> acc_passed a" by (auto simp: CLAUSES_def clauses_json_def entry_def acc_passed_def)
  finally show ?thesis by (simp add: d(1) entry_def)
qed

lemma inspected_kept:
  assumes "inspect_case crc sha text_of R ex ''S2-gust'' seed delay (Some CASE_LOSS) = Inr facts"
  shows "\<exists>a. reference_kept crc R seed delay a \<and> item facts ''clauses'' = Inr (clauses_json a)"
proof -
  obtain loaded tr controls where "rbind (rt_scenario_tree R) (scenario_load ''S2-gust'') = Inr loaded"
    "run_headless (case_scenario (Some CASE_LOSS) loaded) seed delay = Inr tr" "rt_text R ''.sim.csv'' = Inr (to_sim_csv tr)"
    "rbind (rt_bytes R ''.control.tvcrec'') (\<lambda>b. recording crc b 6) = Inr controls" "list_all2 record_of_row controls (tr_rows tr)"
    "item facts ''clauses'' = Inr (clauses_json (evaluate tr))"
    using inspected_reference [OF assms] by blast
  then show ?thesis unfolding reference_kept_def by blast
qed

lemma check_cases_with_spec:
  "check_cases_with extra rp expected seen cs = Inr r \<Longrightarrow> check_cases rp expected seen cs = Inr r \<and>
     list_all (\<lambda>c. \<exists>b. check_case rp c = Inr b \<and> (if case_eligible c then extra (case_id c) c = Inr () else True)) cs"
proof (induction cs arbitrary: seen r)
  case (Cons c cs)
  from Cons.prems obtain p b r1 where step: "case_pair c = Inr p" "pair_member p expected \<and> pair_of p \<notin> set seen"
    "check_case rp c = Inr b" "(if case_eligible c then extra (pair_of p) c else Inr ()) = Inr ()"
    "check_cases_with extra rp expected (pair_of p # seen) cs = Inr r1" "r = (fst r1, snd r1 + (if b then 1 else 0))"
    by (auto simp: rbind_eq_Inr ensure_eq_Inr)
  have "pair_of p = case_id c"
    using step(1) by (auto simp: case_pair_def rbind_eq_Inr pair_of_def case_id_def dest: item_get)
  with step Cons.IH [OF step(5)] show ?case by (auto simp: ensure_eq_Inr split: prod.splits)
qed simp

lemma eligible_check:
  assumes "check_case rp c = Inr b"
  shows "if case_eligible c then eligible_case rp c = Inr b \<and> b = case_counts c
    else item c ''eligible'' = Inr (JBool False) \<and> \<not> b \<and> \<not> case_counts c"
proof -
  from assms obtain e where e: "item c ''eligible'' = Inr e" by (auto simp: check_case_def rbind_eq_Inr)
  from assms e obtain x where x: "e = JBool x" by (cases e) (auto simp: check_case_def)
  show ?thesis
  proof (cases x)
    case True
    then have el: "eligible_case rp c = Inr b" "case_eligible c" using assms e x by (simp_all add: check_case_def case_eligible_def)
    from eligible_case_Inr [OF el(1)] have "b = case_counts c" by (auto simp: case_counts_def el(2) dest: item_get)
    with el show ?thesis by simp
  next
    case False
    then show ?thesis using assms e x by (auto simp: check_case_def case_eligible_def case_counts_def ensure_eq_Inr rbind_eq_Inr)
  qed
qed

lemma artifact_hashes_kept:
  "artifact_hashes sha R c ks = Inr () \<Longrightarrow> list_all (\<lambda>(k, suffix). rt_is_file R suffix \<and> \<not> rt_is_link R suffix \<and>
     (\<exists>b. rt_bytes R suffix = Inr b \<and> items c [''digests'', k] = Inr (JString (sha b)))) ks"
proof (induction ks)
  case (Cons x ks)
  have eq: "py_eq (JString s) v \<Longrightarrow> v = JString s" for s v by (cases v) simp_all
  obtain k suffix where x: "x = (k, suffix)" by (cases x)
  have "rt_is_file R suffix \<and> \<not> rt_is_link R suffix" "artifact_hashes sha R c ks = Inr ()"
    "rbind (rt_bytes R suffix) (\<lambda>b. rbind (items c [''digests'', k]) (\<lambda>v. Inr (py_eq (JString (sha b)) v))) = Inr True"
    using Cons.prems unfolding x artifact_hashes.simps ensure_eq_Inr need_Inr by blast+
  then show ?case using Cons.IH eq by (auto simp: x rbind_eq_Inr simp del: py_eq.simps)
qed simp

lemma retained_case_backed:
  assumes "check_case rp c = Inr b" "if case_eligible c then check_retained crc sha text_of files toolchain identity ''S2-gust'' (case_id c) c = Inr () else True"
  shows "case_backed crc sha files c \<and> b = case_counts c"
proof (cases "case_eligible c")
  case True
  let ?R = "files (fst (case_id c)) (snd (case_id c))"
  have el: "eligible_case rp c = Inr b" "b = case_counts c" using eligible_check [OF assms(1)] True by simp_all
  obtain binary sim actual where kept: "validate_artifact_hashes sha ?R c = Inr ()"
    "inspect_case crc sha text_of ?R \<lparr>is_binary = Some binary, is_sim = Some sim, is_toolchain = (if toolchain = JNull then None else Some toolchain)\<rparr>
       ''S2-gust'' (fst (case_id c)) (snd (case_id c)) (Some CASE_LOSS) = Inr actual" "facts_kept c (entry actual) = Inr True"
    using assms(2) True by (auto simp: check_retained_def Let_def rbind_eq_Inr need_Inr)
  obtain a where a: "reference_kept crc ?R (fst (case_id c)) (snd (case_id c)) a" "item actual ''clauses'' = Inr (clauses_json a)"
    using inspected_kept [OF kept(2)] by blast
  obtain clauses where clauses: "item c ''clauses'' = Inr clauses" "clauses_ok clauses" "b = list_all (truthy \<circ> snd) (entry clauses)"
    using eligible_case_Inr [OF el(1)] by blast
  obtain x where "dict_get c ''clauses'' = Inr x" "py_eq x (clauses_json a)" using facts_kept_all [OF kept(3) item_entry [OF a(2)]] by blast
  then have "py_eq clauses (clauses_json a)" using dict_get_item [OF clauses(1)] by simp
  then have "b = acc_passed a" using clauses_same [OF clauses(2)] clauses(3) by simp
  moreover have "digests_kept sha ?R c"
    using artifact_hashes_kept kept(1) by (auto simp: validate_artifact_hashes_def digests_kept_def need_Inr)
  ultimately show ?thesis using True a(1) el(2) by (auto simp: case_backed_def Let_def)
next
  case False
  then show ?thesis using eligible_check [OF assms(1)] by (simp add: case_backed_def Let_def)
qed

text \<open>C38. A manifest accepted against its retained files is accepted, and every case in it is backed: the digests of an eligible case are
  those of its retained artifacts, which are regular files, and its simulator text and control recording are the reference run for its
  seed and delay. The number it reports as passed is the number of cases whose reference run passes all acceptance clauses.\<close>

theorem retained_manifest_backed:
  assumes "validate_retained crc sha text_of files ex doc = Inr ()"
  shows "validate_manifest ex doc = Inr () \<and>
    (\<exists>expected cs. manifest_matrix ex doc = Inr expected \<and> item doc ''cases'' = Inr (JList cs) \<and>
       distinct (map case_id cs) \<and> set (map case_id cs) = set expected \<and> list_all (case_backed crc sha files) cs \<and>
       item doc ''total'' = Inr (JInt (int (length cs))) \<and> item doc ''passed'' = Inr (JInt (int (length (filter case_counts cs)))))"
proof -
  have eq: "py_eq m (JString x) \<Longrightarrow> m = JString x" for m x by (cases m) simp_all
  let ?extra = "\<lambda>identity name. check_retained crc sha text_of files (ex_toolchain ex) identity (string_of name)"
  have "retained_body crc sha text_of files ex doc = Inr ()" using assms by (simp add: validate_retained_def split: sum.splits)
  then obtain expected identity name cases cs seen passed where m: "manifest_matrix ex doc = Inr expected" "manifest_identity ex doc = Inr ()"
    "item doc ''scenario'' = Inr name" "item doc ''cases'' = Inr cases" "list_of cases = Some cs"
    "check_cases_with (?extra identity name) (ex_pass ex) expected [] cs = Inr (seen, passed)" "set seen = set expected"
    "manifest_totals doc (int (card (set expected))) passed = Inr True"
    by (auto simp: retained_body_def rbind_eq_Inr ensure_eq_Inr need_Inr split: option.splits)
  have "name = JString ''S2-gust''"
    using m(1,3) by (auto simp: manifest_matrix_def rbind_eq_Inr ensure_eq_Inr need_Inr item_is_def both_def simp del: py_eq.simps split: if_splits dest!: eq)
  then have name: "string_of name = ''S2-gust''" by (simp add: string_of_def)
  have cases: "item doc ''cases'' = Inr (JList cs)" using m(4,5) by (auto simp: list_of_def split: json.splits)
  note spec = check_cases_with_spec [OF m(6), unfolded name]
  have plain: "check_cases (ex_pass ex) expected [] cs = Inr (seen, passed)" using spec by blast
  note ids = check_cases_spec [OF plain distinct.simps(1) [THEN iffD2, OF TrueI]]
  have "validate_manifest ex doc = Inr ()"
    using m plain by (simp add: validate_manifest_def manifest_body_def ensure_def)
  moreover have backed: "list_all (\<lambda>c. case_backed crc sha files c \<and> (\<exists>b. check_case (ex_pass ex) c = Inr b \<and> b = case_counts c)) cs"
    using spec retained_case_backed by (fastforce simp: list_all_iff)
  moreover have "distinct (map case_id cs)" "set (map case_id cs) = set expected" using ids m(7) by auto
  moreover from this have "card (set expected) = length cs" using distinct_card by fastforce
  moreover have "filter (\<lambda>c. check_case (ex_pass ex) c = Inr True) cs = filter case_counts cs"
    using backed by (intro filter_cong) (auto simp: list_all_iff)
  then have "passed = int (length (filter case_counts cs))" using ids by simp
  moreover have "item doc ''total'' = Inr (JInt (int (card (set expected))))" "item doc ''passed'' = Inr (JInt passed)"
    using m(8) by (auto simp: manifest_totals_def rbind_eq_Inr is_int_def split: if_splits json.splits)
  ultimately show ?thesis using m(1) cases by (auto simp: list_all_iff)
qed

text \<open>Goldens accepted against their retained files are accepted, and every entry is the reference run of its scenario: its files are that
  run's, without a loss override, at the golden seed and delay 0.\<close>

definition golden_backed :: "(byte list \<Rightarrow> 32 word) \<Rightarrow> (string \<Rightarrow> retained) \<Rightarrow> json \<Rightarrow> bool" where
  "golden_backed crc files e \<longleftrightarrow>
     (let name = golden_name e; R = files name in
      \<exists>loaded tr controls. rbind (rt_scenario_tree R) (scenario_load name) = Inr loaded \<and>
        run_headless loaded (golden_seed name) 0 = Inr tr \<and> rt_text R ''.sim.csv'' = Inr (to_sim_csv tr) \<and>
        rbind (rt_bytes R ''.control.tvcrec'') (\<lambda>b. recording crc b 6) = Inr controls \<and> list_all2 record_of_row controls (tr_rows tr))"

lemma check_goldens_with_spec:
  "check_goldens_with extra es = Inr names \<Longrightarrow> check_goldens es = Inr names \<and> list_all (\<lambda>e. extra (golden_name e) e = Inr ()) es"
  by (induction es arbitrary: names) (auto simp: rbind_eq_Inr dest: check_golden_Inr)

lemma golden_retained_backed:
  assumes "golden_retained crc sha text_of files toolchain (golden_name e) e = Inr ()"
  shows "golden_backed crc files e"
proof -
  let ?name = "golden_name e"
  obtain g where "golden_entry crc sha text_of (files ?name) ?name (if toolchain = JNull then None else Some toolchain) = Inr g"
    using assms unfolding golden_retained_def need_Inr rbind_eq_Inr by blast
  then obtain facts where "inspect_case crc sha text_of (files ?name) \<lparr>is_binary = None, is_sim = None,
      is_toolchain = (if toolchain = JNull then None else Some toolchain)\<rparr> ?name (golden_seed ?name) 0 None = Inr facts"
    unfolding golden_entry_def rbind_eq_Inr by blast
  from inspected_reference [OF this] show ?thesis by (auto simp: golden_backed_def Let_def case_scenario_def)
qed

lemma retained_goldens_backed:
  assumes "validate_goldens_retained crc sha text_of files ex doc = Inr ()"
  shows "validate_goldens ex doc = Inr () \<and>
    (\<exists>es. item doc ''scenarios'' = Inr (JList es) \<and> list_all (golden_backed crc files) es)"
proof -
  have "goldens_retained_body crc sha text_of files ex doc = Inr ()"
    using assms by (simp add: validate_goldens_retained_def split: sum.splits)
  then obtain scenarios es names where m: "item_is doc ''format''
       (JString (if ex_canonical ex then ''tvc-lockstep-goldens-1'' else ''tvc-lockstep-goldens-candidate-1'')) = Inr True"
    "rbind (item doc ''toolchain'') (\<lambda>t. check_toolchain t (ex_canonical ex)) = Inr ()" "item_is doc ''toolchain'' (ex_toolchain ex) = Inr True"
    "item_is doc ''implementation_source_sha256'' (ex_source ex) = Inr True" "item doc ''scenarios'' = Inr scenarios" "list_of scenarios = Some es"
    "check_goldens_with (golden_retained crc sha text_of files (ex_toolchain ex)) es = Inr names"
    "length names = length GOLDEN_SCENARIOS \<and> set names = set GOLDEN_SCENARIOS"
    unfolding goldens_retained_body_def need_Inr rbind_eq_Inr ensure_eq_Inr by (auto simp: rbind_eq_Inr ensure_eq_Inr split: option.splits)
  note spec = check_goldens_with_spec [OF m(7)]
  have "validate_goldens ex doc = Inr ()"
    using m spec by (simp add: validate_goldens_def goldens_body_def need_def ensure_def)
  moreover have "item doc ''scenarios'' = Inr (JList es)" using m(5,6) by (auto simp: list_of_def split: json.splits)
  moreover have "list_all (golden_backed crc files) es" using spec golden_retained_backed by (auto simp: list_all_iff)
  ultimately show ?thesis by blast
qed

section \<open>A manifest with one retained case\<close>

definition one_manifest :: json where
  "one_manifest = JObject [(''format'', JString ''tvc-campaign-1''), (''implementation'', JString ''cpp-lockstep''),
     (''scenario'', JString ''S2-gust''), (''scenario_sha256'', JString (example_hex 64)), (''identifiers'', IDENTIFIERS),
     (''loss'', CAMPAIGN_LOSS), (''seeds'', JString ''1-1''), (''delay_ticks'', JList [JInt 0]),
     (''cases'', JList [one_facts (example_hex 64)]), (''passed'', JInt 0), (''total'', JInt 1),
     (''run_identity'', JObject [(''implementation_source_sha256'', JString (example_hex 64)),
        (''vehicle_sha256'', JString (example_hex 64)), (''sim_sha256'', JString (example_hex 64)),
        (''toolchain'', example_toolchain), (''command'', JString ''run'')])]"

definition one_expectation :: expectation where
  "one_expectation = example_expectation\<lparr>ex_full := False, ex_pass := False\<rparr>"

definition one_keys :: "(string \<times> json) list" where
  "one_keys = [(''vehicle_sha256'', JString (example_hex 64)), (''sim_sha256'', JString (example_hex 64)), (''toolchain'', example_toolchain)]"

lemma CASE_LOSS_probability: "probability CASE_LOSS"
  by (simp add: probability_val CASE_LOSS_def fval_def f_field_defs power_int_def power_one_over)

lemma one_matrix: "manifest_matrix one_expectation one_manifest = Inr [(1, 0)]"
proof -
  have get: "item one_manifest ''format'' = Inr (JString ''tvc-campaign-1'')"
    "item one_manifest ''implementation'' = Inr (JString ''cpp-lockstep'')"
    "item one_manifest ''scenario'' = Inr (JString ''S2-gust'')"
    "item one_manifest ''scenario_sha256'' = Inr (JString (example_hex 64))"
    "item one_manifest ''identifiers'' = Inr IDENTIFIERS" "item one_manifest ''loss'' = Inr CAMPAIGN_LOSS"
    "item one_manifest ''seeds'' = Inr (JString ''1-1'')" "item one_manifest ''delay_ticks'' = Inr (JList [JInt 0])"
    by (simp_all add: one_manifest_def item_def)
  have seeds: "seed_range (JString ''1-1'') = Inr [1]"
  proof -
    have split: "split_on CHR ''-'' ''1-1'' = [''1'', ''1'']" by code_simp
    have "seed_parts ''1-1''" "parse_ints [''1'', ''1''] = Inr [1, 1]" by code_simp+
    then show ?thesis by (simp add: seed_range_def is_string_def string_of_def split ensure_def)
  qed
  have "py_eq IDENTIFIERS IDENTIFIERS" by (simp add: IDENTIFIERS_def)
  moreover have "py_eq CAMPAIGN_LOSS CAMPAIGN_LOSS" by code_simp
  ultimately show ?thesis
    by (simp add: manifest_matrix_def item_is_def get seeds one_expectation_def example_expectation_def delays_ok_def delay_ints_def both_def
        ensure_def int_of_def)
qed

lemma one_identity: "manifest_identity one_expectation one_manifest = Inr ()"
proof -
  have "item one_manifest ''run_identity'' = item example_manifest ''run_identity''"
    by (simp add: one_manifest_def example_manifest_def item_def)
  then show ?thesis using example_identity by (simp add: manifest_identity_def one_expectation_def example_expectation_def)
qed

lemma one_facts_items:
  "item (one_facts h) ''seed'' = Inr (JInt 1)" "item (one_facts h) ''delay_ticks'' = Inr (JInt 0)"
  "item (one_facts h) ''eligible'' = Inr (JBool True)" "item (one_facts h) ''clauses'' = Inr (clauses_json one_clauses)"
  "item (one_facts h) ''digests'' = Inr (JObject (map (\<lambda>(k, s). (k, JString h)) SUFFIXES))"
  "item (one_facts h) ''peak_theta_bits'' = Inr (JString (bitword 0))" "item (one_facts h) ''window_max_omega_bits'' = Inr (JString (bitword 0))"
  "item (one_facts h) ''sim_reason'' = Inr (JInt 1)" "item (one_facts h) ''vehicle_reason'' = Inr (JInt 7)"
  by (simp_all add: one_facts_def case_facts_def item_def)

lemma one_failed: "\<not> list_all (truthy \<circ> snd) (entry (clauses_json one_clauses))"
proof -
  have "\<not> acc_settled one_clauses" by (simp add: one_clauses_def evaluate_rows_def Let_def)
  then show ?thesis by (simp add: clauses_json_def entry_def)
qed

lemma one_clauses_ok: "clauses_ok (clauses_json one_clauses)"
  by (simp add: clauses_ok_def clauses_json_def is_object_def entry_def CLAUSES_def is_bool_def)

lemma one_digests_ok: "case_digests (one_facts (example_hex 64)) = Inr True"
  by (simp add: case_digests_def one_facts_items same_keys_def values_of_def SUFFIXES_def ARTIFACTS_def)

lemma one_bitword: "prefixed_hex ''0x'' 16 (JString (bitword 0))"
proof -
  have "bitword 0 = ''0x'' @ example_hex 16" using hex_zero by (simp add: bitword_def example_hex_def numeral_eq_Suc)
  then show ?thesis by (simp only: prefixed_hex_example)
qed

lemma one_check: "check_case False (one_facts (example_hex 64)) = Inr False"
  using one_bitword one_failed one_clauses_ok one_digests_ok
  by (simp add: check_case_def eligible_case_def one_facts_items is_int_def)

lemma one_kept: "facts_kept (one_facts h) (entry (one_facts h)) = Inr True"
proof -
  have refl: "py_eq (clauses_json a) (clauses_json a)" for a by (simp add: clauses_json_def)
  show ?thesis
    by (simp add: one_facts_def case_facts_def entry_def dict_get_def refl SUFFIXES_def)
qed

lemma one_inspection:
  "inspect_identity \<lparr>is_binary = Some (JString (example_hex 64)), is_sim = Some (JString (example_hex 64)), is_toolchain = Some example_toolchain\<rparr>
     one_outcome (one_replay h one_keys) = Inr ()"
  by (simp add: inspect_identity_def expected_item_def one_outcome_def one_replay_def one_keys_def item_def item_is_def both_def ensure_def
      example_toolchain_ok(2))

theorem retained_manifest_backed_witness:
  "\<exists>files. validate_retained (\<lambda>_. 0) (\<lambda>_. example_hex 64) (\<lambda>_. []) files one_expectation one_manifest = Inr () \<and>
     case_eligible (one_facts (example_hex 64)) \<and> case_backed (\<lambda>_. 0) (\<lambda>_. example_hex 64) files (one_facts (example_hex 64))"
proof -
  let ?h = "example_hex 64" and ?c = "one_facts (example_hex 64)"
  obtain tr where tr: "run_headless (one_tick ''S2-gust'' CASE_LOSS) 1 0 = Inr tr" "tr_rows tr = [one_row]"
    using one_run [OF CASE_LOSS_probability] by blast
  define R where "R = one_case ?h one_keys (Inr (to_sim_csv tr))"
  let ?files = "\<lambda>_ _. R"
  have files: "rt_is_file R k" "\<not> rt_is_link R k" for k by (simp_all add: R_def one_case_def)
  have inspected: "inspect_case (\<lambda>_. 0) (\<lambda>_. ?h) (\<lambda>_. []) R
      \<lparr>is_binary = Some (JString ?h), is_sim = Some (JString ?h), is_toolchain = Some example_toolchain\<rparr> ''S2-gust'' 1 0 (Some CASE_LOSS) = Inr ?c"
    unfolding R_def by (rule one_case_accepted) (simp_all add: tr one_inspection)
  obtain b4 b6 where b: "one_recording 4 one_sample_fields = Inr b4" "one_recording 6 one_control_fields = Inr b6"
    using one_recording_exists one_sample_ok one_control_ok by blast
  have hashes: "validate_artifact_hashes (\<lambda>_. ?h) R ?c = Inr ()"
  proof -
    have "\<exists>x. rt_bytes R suffix = Inr x" if "suffix \<in> snd ` set SUFFIXES" for suffix
      using that b by (auto simp: R_def one_case_def SUFFIXES_def)
    then have "rt_bytes R ''.inputs.tvcrec'' = Inr (projr (rt_bytes R ''.inputs.tvcrec''))" "rt_bytes R ''.control.tvcrec'' = Inr (projr (rt_bytes R ''.control.tvcrec''))"
      "rt_bytes R ''.sim.csv'' = Inr (projr (rt_bytes R ''.sim.csv''))" "rt_bytes R ''.vehicle.csv'' = Inr (projr (rt_bytes R ''.vehicle.csv''))"
      by (force simp: SUFFIXES_def)+
    then obtain x1 x2 x3 x4 where x: "rt_bytes R ''.inputs.tvcrec'' = Inr x1" "rt_bytes R ''.control.tvcrec'' = Inr x2"
      "rt_bytes R ''.sim.csv'' = Inr x3" "rt_bytes R ''.vehicle.csv'' = Inr x4" by blast
    have keys: "same_keys (JObject (map (\<lambda>(k, s). (k, JString ?h)) SUFFIXES)) ARTIFACTS = Inr True"
      by (simp add: same_keys_def SUFFIXES_def ARTIFACTS_def)
    have each: "items ?c [''digests'', k] = Inr (JString ?h)" if "k \<in> fst ` set SUFFIXES" for k
    proof -
      have "item (JObject (map (\<lambda>(k, s). (k, JString ?h)) SUFFIXES)) k = Inr (JString ?h)" using that by (auto simp: item_def SUFFIXES_def)
      then show ?thesis by (simp add: one_facts_items(5))
    qed
    show ?thesis
      using each files x keys
      by (simp add: validate_artifact_hashes_def one_facts_items(5) SUFFIXES_def ensure_def need_def del: items.simps)
  qed
  have toolchain: "ex_toolchain one_expectation = example_toolchain" "example_toolchain \<noteq> JNull"
    by (simp_all add: one_expectation_def example_expectation_def example_toolchain_def)
  obtain identity where identity: "item one_manifest ''run_identity'' = Inr identity" "item identity ''vehicle_sha256'' = Inr (JString ?h)"
    "item identity ''sim_sha256'' = Inr (JString ?h)" by (simp add: one_manifest_def item_def)
  have kept: "check_retained (\<lambda>_. 0) (\<lambda>_. ?h) (\<lambda>_. []) ?files example_toolchain identity ''S2-gust'' (1, 0) ?c = Inr ()"
    using hashes identity(2,3) inspected toolchain(2) one_kept by (simp add: check_retained_def need_def)
  have "case_pair ?c = Inr (JInt 1, JInt 0)" by (simp add: case_pair_def one_facts_items)
  moreover have "ex_pass one_expectation = False" by (simp add: one_expectation_def)
  moreover have eligible: "case_eligible ?c" by (simp add: case_eligible_def one_facts_items)
  ultimately have cases: "check_cases_with (check_retained (\<lambda>_. 0) (\<lambda>_. ?h) (\<lambda>_. []) ?files example_toolchain identity ''S2-gust'')
      (ex_pass one_expectation) [(1, 0)] [] [?c] = Inr ([(1, 0)], 0)"
    using one_check kept by (simp add: ensure_def pair_of_def int_of_def)
  have get: "item one_manifest ''scenario'' = Inr (JString ''S2-gust'')" "item one_manifest ''cases'' = Inr (JList [?c])"
    "item one_manifest ''total'' = Inr (JInt 1)" "item one_manifest ''passed'' = Inr (JInt 0)"
    by (simp_all add: one_manifest_def item_def)
  have "validate_retained (\<lambda>_. 0) (\<lambda>_. ?h) (\<lambda>_. []) ?files one_expectation one_manifest = Inr ()"
    using cases by (simp add: validate_retained_def retained_body_def one_matrix one_identity identity(1) get toolchain(1) list_of_def
        string_of_def manifest_totals_def is_int_def ensure_def need_def del: check_cases_with.simps)
  with retained_manifest_backed [OF this] eligible show ?thesis by (auto simp: get)
qed

end
