(* ===== verification/Spec2Isabelle.thy ===== *)
theory Spec2Isabelle
  imports Freerun Ground Audited FreeReconcile Gate Retained
begin

text \<open>
  A model of TVC, a simulated thrust-vectored vehicle flown by a controller over UDP, and of the
  programs that judge its evidence.

  \<^bold>\<open>The program.\<close> A Python simulator (\<open>sim/\<close>) owns the plant, the sensor, the actuator and the link's
  loss draws. A vehicle owns the episode policy and the PID controller; it is a C++ program
  (\<open>src/\<close>) that the repository holds to the Python reference in \<open>sim/control_ref.py\<close> and
  \<open>sim/episode.py\<close>. The two exchange frames of \<open>ground/wire.py\<close>. Three runs exist: the tick-indexed
  reference \<open>sim/run_headless.py\<close> in one process, the lockstep \<open>sim/run_sim.py\<close> (one transaction per
  tick, bounded retries) and the free-running \<open>sim/freerun.py\<close> (a clock, datagrams that may be lost,
  repeated or late). A ground receiver (\<open>ground/link.py\<close>) records what the vehicle reports. After a
  run \<open>scripts/reconcile.py\<close> and \<open>scripts/latency.py\<close> hold the owners' reports against the recordings.
  \<open>scripts/sweep.py\<close> plans and judges measurement campaigns over such runs, \<open>scripts/bench_gate.py\<close> decides
  which of their rows may be compared, and \<open>scripts/run_campaign.py\<close> validates the manifests of lockstep
  campaigns.

  \<^bold>\<open>Theories, in the order of their use.\<close>

  \<^item> Prelude: Python's exceptions (\<open>exn\<close>), the result type \<open>exn + 'a\<close> with \<open>rbind\<close>, the
    locale \<open>machine\<close> of a state machine that keeps an invariant and stops, shared list facts.
  \<^item> Effects: statements that change a state and may raise, with the triples \<open>keeps\<close> and \<open>steps\<close>.
  \<^item> Binary64, Binary64-Facts: Python's \<open>float\<close> as its 64-bit pattern, every operation exact on
    integers and rounded once; the facts give each operation's real value and its order.
  \<^item> Plant: \<open>sim/types.py\<close>, \<open>fixmath.py\<close>, \<open>actuator.py\<close>, \<open>sensor.py\<close>, \<open>environment.py\<close>, \<open>plant.py\<close>.
  \<^item> Control: \<open>sim/control_ref.py\<close> and the corpus of \<open>sim/gen_pid_corpus.py\<close>: the controller's envelope,
    and the corpus traces bit for bit.
  \<^item> Rng: \<open>sim/rng.py\<close>, \<open>sim/link.py\<close>: splitmix64, its period, exact doubles, loss draws. The locale
    \<open>draw_source\<close> is what the runs ask of a stream.
  \<^item> Scenario: \<open>sim/scenario.py\<close>: the loader with its checks, round trip, and the per-tick queries over
    the locale \<open>timetable\<close>.
  \<^item> Episode: \<open>sim/episode.py\<close>: modes, settling, termination, commands, the staleness ladder.
    \<open>episode_step\<close> is the code's \<open>step\<close>; its parts have their own definitions.
  \<^item> Headless: \<open>sim/run_headless.py\<close>, \<open>sim/trace.py\<close>: the run and its acceptance clauses.
  \<^item> Wire: \<open>ground/wire.py\<close>: payloads, frames, datagrams, the recovering decoder, recordings.
  \<^item> Ground: \<open>ground/link.py\<close>: the receiver, the merge of its recording, the delivery check.
  \<^item> Lockstep, Freerun: \<open>sim/run_sim.py\<close>, \<open>sim/freerun.py\<close>: both simulator processes with every counter.
  \<^item> Reports: Python's operators on JSON values of unknown shape and the exceptions they raise.
  \<^item> Reconcile, FreeReconcile: \<open>scripts/reconcile.py\<close>, both of its audits.
  \<^item> Audited: the report \<open>run_sim.py\<close> writes, as JSON, and that the audit accepts it.
  \<^item> Latency: \<open>scripts/latency.py\<close>: the audits of a measurement.
  \<^item> Text: Python's operations on strings that the campaign scripts use (\<open>split\<close>, \<open>partition\<close>, \<open>str\<close> and \<open>int\<close>).
  \<^item> Sweep: \<open>scripts/sweep.py\<close>: levels, the plan of runs, what a summary must show to enter a table.
  \<^item> Roster: \<open>scripts/sweep.py\<close>: arguments, configurations, the peer CPU declaration, the roster of a campaign
    and what its runs write.
  \<^item> Gate: \<open>scripts/bench_gate.py\<close> (discipline, window, profile, medians) and the evidence policy,
    experiment rows, calibration and ordering of \<open>scripts/latency.py\<close>.
  \<^item> Campaign: \<open>scripts/run_campaign.py\<close>: source digest, manifests, goldens, protected destinations.
  \<^item> Twin: \<open>scripts/golden_csv.py\<close> and the text of \<open>sim/trace.py\<close>; a vehicle that answers as the reference policy
    does and a network that delivers, as the environment of a lockstep run.
  \<^item> Inspect: \<open>recording\<close> of \<open>scripts/run_scenario.py\<close>, and of \<open>scripts/run_campaign.py\<close> the inspection of a retained
    case (\<open>inspect_case\<close>) and the golden entry made from it. The retained files are a record of what reading each gives.
  \<^item> Retained: \<open>validate_manifest\<close> and \<open>validate_goldens\<close> with an artifact root.

  \<^bold>\<open>How code becomes definitions.\<close> A named tuple is a record, an \<open>IntEnum\<close> a datatype with its value
  function, a raise an \<open>Inl\<close> of the exception's class (interpolated text of messages is left out,
  no caller reads it). A binary64 is its bit pattern, so HOL equality is \<open>struct.pack\<close>'s and
  Python's \<open>==\<close> is \<open>f_eq\<close>. Python integers are \<open>int\<close>, the generator's state is a \<open>64 word\<close>. A loop
  over what the operating system answers consumes a script of outcomes (\<open>Ground\<close>: receives;
  \<open>Lockstep\<close>: per tick and attempt a send and its receives; \<open>Freerun\<close>: clock readings, receives and
  sends): every theorem holds for every script, so for every order and loss the system can produce.
  A script is finite and each round consumes one entry or one tick, so the recursion is structural
  and no fuel is needed; a lockstep tick has the 26 attempts of the code, a free run ends at its
  horizon and the 16 ticks of \<open>GRACE_TICKS\<close>.

  \<^bold>\<open>What the lemmas show.\<close> Each component has its invariant and its behaviour on every branch. The
  compositions are: the lockstep run's model steps are the logical run's (\<open>lockstep_refines_logical\<close>),
  with the policy's replies its rows are those of \<open>run_headless\<close> (\<open>lockstep_is_headless\<close>) and, where the network
  delivers, it returns with them (\<open>lockstep_completes\<close>); comparing the CSV texts compares the rows
  (\<open>sim_csv_faithful\<close>),
  free-running counters are the sums of their outcomes (\<open>freerun_conserves\<close>), the receiver delivers an
  ordered part of what the vehicle recorded and its counters add up (\<open>ground_delivery_accounts\<close>),
  an accepted audit is worth what it says, of each owner and across the two, in both directions
  (\<open>reconcile_eligible_sound\<close>, \<open>free_eligible_sound\<close>, \<open>validate_sound\<close>) and the report of a lockstep run passes the checks of its owner
  (\<open>lock_report_accepted\<close>). For the campaigns: the rows a planned harness campaign writes are the rows
  its roster check accepts (\<open>completed_roster_accepted\<close>), accepted rows and evidence mean the discipline
  and the budgets they stand for (\<open>candidate_sound\<close>, \<open>evidence_sound\<close>), the calibration takes the smallest
  qualifying offset, judged on exactly its own three rows (\<open>calibration_selects\<close>), and an accepted manifest leaves no
  declared case out (\<open>manifest_complete\<close>). An accepted retained case is the reference run bit for bit
  (\<open>inspected_case_is_reference\<close>), and a manifest accepted against its files counts as passed exactly the cases whose
  reference runs pass (\<open>retained_manifest_backed\<close>).

  \<^bold>\<open>Parameters.\<close> The CRC-32C of \<open>google_crc32c\<close> (any function into 32 bits), SHA-256 and the JSON
  reader of the ground check, the address syntax of \<open>inet_pton\<close>, the decimal formatting to six
  digits of a histogram bucket, \<open>repr\<close> of a float (\<open>shown\<close>), \<open>str\<close> of a JSON value (\<open>text_of\<close>), and the
  files of a results directory (\<open>doc\<close>: the JSON document read under a name, \<open>is_file\<close>, \<open>file_bytes\<close>).

  \<^bold>\<open>Not modelled.\<close> The C++ vehicle itself, its clocks and real-time set-up; starting, supervising and
  killing processes, signal handlers, argument parsing; reading sysfs, file times and git; the comparison
  of retained free-running artifacts with stored verdicts (\<open>audit_freerun\<close>); the discovery of the toolchain and the runs of a
  campaign (\<open>run_matrix\<close>); plots and printed tables;
  the text searches over the repository; tests, build files and data.
\<close>

end
